(* ===== verification/SubProto_Prelude.thy ===== *)
theory SubProto_Prelude
  imports Main "HOL-Library.AList" "HOL-Library.Word" "HOL-Library.Multiset"
begin

text \<open>
  Shared vocabulary of the development: Go maps and sets, the outcome of a Go
  operation that may panic or block, the lemma collections the component
  theories use, and two interfaces that several components share (a machine
  whose atomic sections keep an invariant, and a byte or string codec).

  A Go map is an association list. \<open>map_of\<close> is the index expression \<open>m[k]\<close> with
  its comma-ok result, \<open>gput\<close> is \<open>m[k] = v\<close> and \<open>gdel\<close> is \<open>delete(m, k)\<close>. The
  order of the list stands for the unspecified order in which \<open>range\<close> visits a
  map: the lemmas quantify over every list, hence over every order. A Go set
  (\<open>map[K]struct{}\<close>) is a list without duplicates, built by \<open>sadd\<close> and \<open>sdel\<close>.
\<close>

named_theorems gomap \<open>lookup, update and deletion of Go maps and sets\<close>
named_theorems invs \<open>preservation of a component invariant by its operations\<close>

type_synonym ('k, 'v) gomap = "('k \<times> 'v) list"

abbreviation gput :: "'k \<Rightarrow> 'v \<Rightarrow> ('k, 'v) gomap \<Rightarrow> ('k, 'v) gomap" where
  "gput \<equiv> AList.update"

abbreviation gdel :: "'k \<Rightarrow> ('k, 'v) gomap \<Rightarrow> ('k, 'v) gomap" where
  "gdel \<equiv> AList.delete"

abbreviation wf_gomap :: "('k, 'v) gomap \<Rightarrow> bool" where
  "wf_gomap m \<equiv> distinct (map fst m)"

text \<open>The value of \<open>m[k]\<close> without comma-ok: the zero value when the key is absent.\<close>

definition gget :: "'v \<Rightarrow> ('k, 'v) gomap \<Rightarrow> 'k \<Rightarrow> 'v" where
  "gget zero m k = (case map_of m k of None \<Rightarrow> zero | Some v \<Rightarrow> v)"

definition sadd :: "'a \<Rightarrow> 'a list \<Rightarrow> 'a list" where
  "sadd x xs = (if x \<in> set xs then xs else xs @ [x])"

definition sdel :: "'a \<Rightarrow> 'a list \<Rightarrow> 'a list" where
  "sdel x xs = removeAll x xs"

text \<open>
  What a Go statement can do besides returning: panic (close of a closed
  channel, send on a closed channel) or block for ever.
\<close>

datatype 'a outcome = Ret 'a | Panic | Blocked

fun andThen :: "'a outcome \<Rightarrow> ('a \<Rightarrow> 'b outcome) \<Rightarrow> 'b outcome" where
  "andThen (Ret x) f = f x"
| "andThen Panic f = Panic"
| "andThen Blocked f = Blocked"

subsection \<open>Go maps and sets\<close>

lemmas [gomap] = update_conv' delete_conv'

lemma gget_put [gomap, simp]: "gget z (gput k v m) j = (if j = k then v else gget z m j)"
  by (simp add: gget_def update_conv')

lemma gget_del [gomap, simp]: "gget z (gdel k m) j = (if j = k then z else gget z m j)"
  by (simp add: gget_def delete_conv')

lemma gget_empty [simp]: "gget z [] k = z"
  by (simp add: gget_def)

lemma wf_gput [simp, intro]: "wf_gomap m \<Longrightarrow> wf_gomap (gput k v m)"
  by (rule distinct_update)

lemma wf_gdel [simp, intro]: "wf_gomap m \<Longrightarrow> wf_gomap (gdel k m)"
  by (rule distinct_delete)

lemma map_of_eq_in_set: "wf_gomap m \<Longrightarrow> map_of m k = Some v \<longleftrightarrow> (k, v) \<in> set m"
  by (metis map_of_eq_Some_iff)

lemma option_eqI: "(\<And>e. x = Some e \<longleftrightarrow> y = Some e) \<Longrightarrow> x = y"
  by (cases x; cases y) auto

lemma set_sadd [gomap, simp]: "set (sadd x xs) = insert x (set xs)"
  by (auto simp: sadd_def)

lemma set_sdel [gomap, simp]: "set (sdel x xs) = set xs - {x}"
  by (auto simp: sdel_def)

lemma distinct_sadd [simp, intro]: "distinct xs \<Longrightarrow> distinct (sadd x xs)"
  by (auto simp: sadd_def)

lemma distinct_sdel [simp, intro]: "distinct xs \<Longrightarrow> distinct (sdel x xs)"
  by (auto simp: sdel_def distinct_removeAll)

lemma sadd_not_Nil [simp]: "sadd x xs \<noteq> []"
  by (auto simp: sadd_def)

lemma sdel_Nil_iff: "sdel x xs = [] \<longleftrightarrow> set xs \<subseteq> {x}"
  by (metis Diff_eq_empty_iff set_empty2 set_sdel)

text \<open>
  Filtering the values of a map, entry by entry, and dropping the entries that
  become empty: the shape of every ``remove this connection everywhere'' loop.
\<close>

definition map_entries :: "('v \<Rightarrow> 'v option) \<Rightarrow> ('k, 'v) gomap \<Rightarrow> ('k, 'v) gomap" where
  "map_entries f m = List.map_filter (\<lambda>(k, v). map_option (Pair k) (f v)) m"

lemma map_entries_Nil [simp]: "map_entries f [] = []"
  by (simp add: map_entries_def List.map_filter_def)

lemma map_entries_Cons [simp]:
  "map_entries f ((k, v) # m) =
     (case f v of None \<Rightarrow> map_entries f m | Some w \<Rightarrow> (k, w) # map_entries f m)"
  by (auto simp: map_entries_def List.map_filter_def split: option.split)

lemma fst_map_entries: "fst ` set (map_entries f m) \<subseteq> fst ` set m"
proof (induction m)
  case (Cons p m)
  then show ?case by (cases p) (auto split: option.splits)
qed simp

lemma wf_map_entries [simp, intro]: "wf_gomap m \<Longrightarrow> wf_gomap (map_entries f m)"
proof (induction m)
  case (Cons p m)
  then show ?case
    using fst_map_entries[of f m] by (cases p) (auto split: option.splits)
qed simp

lemma map_of_map_entries [gomap]:
  "wf_gomap m \<Longrightarrow> map_of (map_entries f m) k = Option.bind (map_of m k) f"
proof (induction m)
  case (Cons p m)
  obtain j v where p: "p = (j, v)" by (cases p)
  have "k \<notin> fst ` set m \<Longrightarrow> map_of (map_entries f m) k = None"
    using fst_map_entries[of f m] by (auto simp: map_of_eq_None_iff)
  with Cons show ?case by (auto simp: p split: option.split)
qed simp

subsection \<open>Outcomes\<close>

lemma andThen_Ret_iff [simp]:
  "andThen m f = Ret y \<longleftrightarrow> (\<exists>x. m = Ret x \<and> f x = Ret y)"
  by (cases m) auto

subsection \<open>Interfaces shared by the components\<close>

text \<open>
  A component whose state changes only in critical sections (one per event)
  that each keep an invariant keeps it in every interleaving of them. \<open>ok\<close> says
  which events can occur at all.
\<close>

locale invariant_machine =
  fixes step :: "'s \<Rightarrow> 'e \<Rightarrow> 's"
    and inv :: "'s \<Rightarrow> bool"
    and ok :: "'e \<Rightarrow> bool"
  assumes step_inv: "inv s \<Longrightarrow> ok e \<Longrightarrow> inv (step s e)"
begin

lemma run_inv: "inv s \<Longrightarrow> list_all ok es \<Longrightarrow> inv (foldl step s es)"
  by (induction es arbitrary: s) (auto intro: step_inv)

text \<open>A property that every step from a good state keeps is kept by every run.\<close>

lemma run_stable:
  assumes "\<And>s e. inv s \<Longrightarrow> ok e \<Longrightarrow> P s \<Longrightarrow> P (step s e)"
    and "inv s" and "list_all ok es" and "P s"
  shows "P (foldl step s es)"
  using assms(2-4) by (induction es arbitrary: s) (auto intro: step_inv assms(1))

end

text \<open>The same machine with an abstract machine that it refines.\<close>

locale refining_machine = invariant_machine step inv ok
  for step :: "'s \<Rightarrow> 'e \<Rightarrow> 's" and inv :: "'s \<Rightarrow> bool" and ok :: "'e \<Rightarrow> bool" +
  fixes abstr :: "'s \<Rightarrow> 'a"
    and astep :: "'a \<Rightarrow> 'e \<Rightarrow> 'a"
  assumes step_refines: "inv s \<Longrightarrow> ok e \<Longrightarrow> abstr (step s e) = astep (abstr s) e"
begin

lemma run_refines:
  "inv s \<Longrightarrow> list_all ok es \<Longrightarrow> abstr (foldl step s es) = foldl astep (abstr s) es"
proof (induction es arbitrary: s)
  case (Cons e es)
  then show ?case by (simp add: step_refines step_inv)
qed simp

end

text \<open>A codec: what is decoded from an encoded value is the value.\<close>

locale codec =
  fixes enc :: "'a \<Rightarrow> 'b"
    and dec :: "'b \<Rightarrow> 'a option"
    and valid :: "'a \<Rightarrow> bool"
  assumes dec_enc: "valid x \<Longrightarrow> dec (enc x) = Some x"
begin

lemma enc_inj: "valid x \<Longrightarrow> valid y \<Longrightarrow> enc x = enc y \<Longrightarrow> x = y"
  by (metis dec_enc option.inject)

lemma enc_inj_on: "inj_on enc (Collect valid)"
  by (rule inj_onI) (auto intro: enc_inj)

end

text \<open>
  A table of waiters, keyed by a request: \<open>add\<close> appends a waiter, \<open>pop\<close> returns
  the waiters of a key and removes them.
\<close>

locale waiter_table =
  fixes add :: "'k \<Rightarrow> 'w \<Rightarrow> 't \<Rightarrow> 't"
    and pop :: "'k \<Rightarrow> 't \<Rightarrow> 'w list \<times> 't"
    and ok :: "'k \<Rightarrow> 'w \<Rightarrow> bool"
  assumes pop_add: "ok k w \<Longrightarrow> fst (pop k (add k w t)) = fst (pop k t) @ [w]"
    and pop_add_other: "ok j w \<Longrightarrow> j \<noteq> k \<Longrightarrow> fst (pop k (add j w t)) = fst (pop k t)"
    and pop_popped: "fst (pop k (snd (pop k t))) = []"
    and pop_popped_other: "j \<noteq> k \<Longrightarrow> fst (pop k (snd (pop j t))) = fst (pop k t)"
begin

lemma pop_adds:
  "\<forall>w\<in>set ws. ok k w \<Longrightarrow>
     fst (pop k (fold (add k) ws t)) = fst (pop k t) @ ws"
  by (induction ws arbitrary: t) (auto simp: pop_add)

lemma pop_adds_other:
  "\<forall>(j, w)\<in>set jws. ok j w \<and> j \<noteq> k \<Longrightarrow>
     fst (pop k (fold (\<lambda>(j, w). add j w) jws t)) = fst (pop k t)"
  by (induction jws arbitrary: t) (auto simp: pop_add_other)

text \<open>Waiters are handed out once, in the order of arrival, and only to their key.\<close>

lemma pop_once:
  "\<forall>w\<in>set ws. ok k w \<Longrightarrow> fst (pop k t) = [] \<Longrightarrow>
     fst (pop k (fold (add k) ws t)) = ws \<and>
     fst (pop k (snd (pop k (fold (add k) ws t)))) = []"
  by (simp add: pop_adds pop_popped)

end

end
