(* ===== verification/Go_Strings.thy ===== *)
theory Go_Strings
  imports SubProto_Prelude "HOL-Library.Char_ord" "HOL-Library.List_Lexorder"
begin

text \<open>
  The parts of Go's \<open>strings\<close>, \<open>strconv\<close> and \<open>sort\<close> packages that the
  sub-protocols call, on strings as byte lists (\<open>string\<close> is a list of 8-bit
  characters, as Go's strings are byte sequences).

  \<^item> \<open>trimSpace\<close> is \<open>strings.TrimSpace\<close>: it removes the UTF-8 encodings of the
    runes of \<open>unicode.IsSpace\<close> from both ends.
  \<^item> \<open>toLower\<close> is \<open>strings.ToLower\<close> as far as a comparison with an ASCII string
    can see it: ASCII capitals, and the two other runes whose lower case is
    ASCII (U+0130, U+212A). Other bytes are left alone; the code only ever compares the
    result with ASCII literals.
  \<^item> \<open>equalFold\<close> is \<open>strings.EqualFold\<close> against an ASCII string without \<open>k\<close> and \<open>s\<close>
    (the only letters that fold with a non-ASCII rune).
  \<^item> \<open>formatUint\<close> and \<open>parseUint\<close> are \<open>strconv.FormatUint\<close> and \<open>strconv.ParseUint\<close> in
    base 10; \<open>splitN2\<close> is \<open>strings.SplitN(s, sep, 2)\<close> for a one-byte separator.
\<close>

definition hasPrefix :: "string \<Rightarrow> string \<Rightarrow> bool" where
  "hasPrefix s p = (take (length p) s = p)"

definition hasSuffix :: "string \<Rightarrow> string \<Rightarrow> bool" where
  "hasSuffix s p = hasPrefix (rev s) (rev p)"

definition spaceRunes :: "string list" where
  "spaceRunes =
     [[CHR 0x09], [CHR 0x0A], [CHR 0x0B], [CHR 0x0C], [CHR 0x0D], [CHR 0x20],
      [CHR 0xC2, CHR 0x85], [CHR 0xC2, CHR 0xA0], [CHR 0xE1, CHR 0x9A, CHR 0x80],
      [CHR 0xE2, CHR 0x80, CHR 0x80], [CHR 0xE2, CHR 0x80, CHR 0x81],
      [CHR 0xE2, CHR 0x80, CHR 0x82], [CHR 0xE2, CHR 0x80, CHR 0x83],
      [CHR 0xE2, CHR 0x80, CHR 0x84], [CHR 0xE2, CHR 0x80, CHR 0x85],
      [CHR 0xE2, CHR 0x80, CHR 0x86], [CHR 0xE2, CHR 0x80, CHR 0x87],
      [CHR 0xE2, CHR 0x80, CHR 0x88], [CHR 0xE2, CHR 0x80, CHR 0x89],
      [CHR 0xE2, CHR 0x80, CHR 0x8A], [CHR 0xE2, CHR 0x80, CHR 0xA8],
      [CHR 0xE2, CHR 0x80, CHR 0xA9], [CHR 0xE2, CHR 0x80, CHR 0xAF],
      [CHR 0xE2, CHR 0x81, CHR 0x9F], [CHR 0xE3, CHR 0x80, CHR 0x80]]"

text \<open>Strip every leading occurrence of one of the given non-empty words.\<close>

function stripFront :: "string list \<Rightarrow> string \<Rightarrow> string" where
  "stripFront ws s =
     (case find (\<lambda>w. w \<noteq> [] \<and> hasPrefix s w) ws of
        None \<Rightarrow> s
      | Some w \<Rightarrow> stripFront ws (drop (length w) s))"
  by pat_completeness auto
termination
proof (relation "measure (\<lambda>(ws, s). length s)")
  fix ws :: "string list" and s w :: string
  assume "find (\<lambda>w. w \<noteq> [] \<and> hasPrefix s w) ws = Some w"
  then have w: "w \<noteq> []" "take (length w) s = w"
    by (auto simp: find_Some_iff hasPrefix_def)
  then have "s \<noteq> []" by auto
  with w show "((ws, drop (length w) s), ws, s) \<in> measure (\<lambda>(ws, s). length s)"
    by (cases s) (auto simp: Suc_le_eq diff_less)
qed simp

declare stripFront.simps [simp del]

definition trimLeft :: "string \<Rightarrow> string" where
  "trimLeft s = stripFront spaceRunes s"

definition trimRight :: "string \<Rightarrow> string" where
  "trimRight s = rev (stripFront (map rev spaceRunes) (rev s))"

definition trimSpace :: "string \<Rightarrow> string" where
  "trimSpace s = trimRight (trimLeft s)"

definition isUpper :: "char \<Rightarrow> bool" where
  "isUpper c = (65 \<le> (of_char c :: nat) \<and> (of_char c :: nat) \<le> 90)"

definition isLower :: "char \<Rightarrow> bool" where
  "isLower c = (97 \<le> (of_char c :: nat) \<and> (of_char c :: nat) \<le> 122)"

definition isDigit :: "char \<Rightarrow> bool" where
  "isDigit c = (48 \<le> (of_char c :: nat) \<and> (of_char c :: nat) \<le> 57)"

definition lowerChar :: "char \<Rightarrow> char" where
  "lowerChar c = (if isUpper c then char_of (of_char c + 32 :: nat) else c)"

fun toLower :: "string \<Rightarrow> string" where
  "toLower [] = []"
| "toLower (c # cs) =
     (if c = CHR 0xC4 \<and> hasPrefix cs [CHR 0xB0] then CHR ''i'' # toLower (drop 1 cs)
      else if c = CHR 0xE2 \<and> hasPrefix cs [CHR 0x84, CHR 0xAA] then CHR ''k'' # toLower (drop 2 cs)
      else lowerChar c # toLower cs)"

definition equalFold :: "string \<Rightarrow> string \<Rightarrow> bool" where
  "equalFold s t = (map lowerChar s = map lowerChar t)"

fun formatNat :: "nat \<Rightarrow> string" where
  "formatNat n =
     (if n < 10 then [char_of (48 + n)]
      else formatNat (n div 10) @ [char_of (48 + n mod 10)])"

declare formatNat.simps [simp del]

fun parseDec :: "nat \<Rightarrow> string \<Rightarrow> nat option" where
  "parseDec acc [] = Some acc"
| "parseDec acc (c # cs) =
     (if isDigit c then parseDec (acc * 10 + (of_char c - 48)) cs else None)"

definition parseUint :: "nat \<Rightarrow> string \<Rightarrow> nat option" where
  "parseUint bits s =
     (if s = [] then None
      else case parseDec 0 s of
             None \<Rightarrow> None
           | Some v \<Rightarrow> if v < 2 ^ bits then Some v else None)"

definition formatUint :: "'a::len word \<Rightarrow> string" where
  "formatUint w = formatNat (unat w)"

definition splitN2 :: "char \<Rightarrow> string \<Rightarrow> string list" where
  "splitN2 sep s =
     (if sep \<in> set s then [takeWhile (\<lambda>c. c \<noteq> sep) s, drop 1 (dropWhile (\<lambda>c. c \<noteq> sep) s)]
      else [s])"

text \<open>\<open>strings.Split\<close> and \<open>strings.Join\<close> for a one-byte separator; \<open>strconv.ParseInt(s, 10, 64)\<close>.\<close>

fun splitOn :: "char \<Rightarrow> string \<Rightarrow> string list" where
  "splitOn sep [] = [[]]"
| "splitOn sep (c # cs) =
     (if c = sep then [] # splitOn sep cs
      else case splitOn sep cs of
             [] \<Rightarrow> [[c]]
           | w # ws \<Rightarrow> (c # w) # ws)"

fun joinWith :: "char \<Rightarrow> string list \<Rightarrow> string" where
  "joinWith sep [] = []"
| "joinWith sep [w] = w"
| "joinWith sep (w # v # ws) = w @ sep # joinWith sep (v # ws)"

definition parseInt64 :: "string \<Rightarrow> int option" where
  "parseInt64 s =
     (if s = [] then None
      else let neg = (hd s = CHR ''-'');
               digits = (if hd s = CHR ''-'' \<or> hd s = CHR ''+'' then tl s else s)
           in case parseUint 64 digits of
                None \<Rightarrow> None
              | Some n \<Rightarrow>
                  if neg then (if n \<le> 2 ^ 63 then Some (- int n) else None)
                  else (if n < 2 ^ 63 then Some (int n) else None))"

subsection \<open>Prefixes and trimming\<close>

lemma hasPrefix_append [simp]: "hasPrefix (p @ s) p"
  by (simp add: hasPrefix_def)

lemma hasPrefix_iff: "hasPrefix s p \<longleftrightarrow> (\<exists>r. s = p @ r)"
  by (auto simp: hasPrefix_def) (metis append_take_drop_id)

lemma hasSuffix_iff: "hasSuffix s p \<longleftrightarrow> (\<exists>r. s = r @ p)"
  by (auto simp: hasSuffix_def hasPrefix_iff) (metis rev_append rev_rev_ident)+

lemma hasPrefix_trans: "hasPrefix s p \<Longrightarrow> hasPrefix (s @ r) p"
  by (auto simp: hasPrefix_iff)

lemma stripFront_suffix: "\<exists>p. s = p @ stripFront ws s"
proof (induction ws s rule: stripFront.induct)
  case (1 ws s)
  show ?case
  proof (cases "find (\<lambda>w. w \<noteq> [] \<and> hasPrefix s w) ws")
    case None
    then show ?thesis by (simp add: stripFront.simps)
  next
    case (Some w)
    with 1 obtain p where "drop (length w) s = p @ stripFront ws (drop (length w) s)"
      by blast
    then have "s = (take (length w) s @ p) @ stripFront ws (drop (length w) s)"
      by (metis append_assoc append_take_drop_id)
    moreover have "stripFront ws s = stripFront ws (drop (length w) s)"
      by (simp add: stripFront.simps[of ws s] Some)
    ultimately show ?thesis by metis
  qed
qed

lemma stripFront_clean:
  "w \<in> set ws \<Longrightarrow> w \<noteq> [] \<Longrightarrow> \<not> hasPrefix (stripFront ws s) w"
proof (induction ws s rule: stripFront.induct)
  case (1 ws s)
  show ?case
  proof (cases "find (\<lambda>w. w \<noteq> [] \<and> hasPrefix s w) ws")
    case None
    then have "stripFront ws s = s" by (simp add: stripFront.simps)
    with None 1(2,3) show ?thesis by (auto simp: find_None_iff)
  next
    case (Some w')
    then have "stripFront ws s = stripFront ws (drop (length w') s)"
      by (simp add: stripFront.simps[of ws s])
    with 1 Some show ?thesis by auto
  qed
qed

lemma stripFront_id:
  assumes "\<And>w. w \<in> set ws \<Longrightarrow> w \<noteq> [] \<Longrightarrow> \<not> hasPrefix s w"
  shows "stripFront ws s = s"
proof -
  have "find (\<lambda>w. w \<noteq> [] \<and> hasPrefix s w) ws = None"
    using assms by (auto simp: find_None_iff)
  then show ?thesis by (simp add: stripFront.simps)
qed

text \<open>A string that neither starts nor ends with a white-space rune is left alone.\<close>

lemma trimSpace_id:
  assumes "\<And>w. w \<in> set spaceRunes \<Longrightarrow> \<not> hasPrefix s w \<and> \<not> hasSuffix s w"
  shows "trimSpace s = s"
proof -
  have "trimLeft s = s"
    unfolding trimLeft_def using assms by (intro stripFront_id) auto
  moreover have "trimRight s = s"
    unfolding trimRight_def using assms
    by (subst stripFront_id) (auto simp: hasSuffix_def)
  ultimately show ?thesis by (simp add: trimSpace_def)
qed

lemma spaceRunes_nonempty: "w \<in> set spaceRunes \<Longrightarrow> w \<noteq> []"
  by (auto simp: spaceRunes_def)

lemma trimRight_prefix: "\<exists>q. s = trimRight s @ q"
proof -
  obtain p where "rev s = p @ stripFront (map rev spaceRunes) (rev s)"
    using stripFront_suffix by blast
  then have "s = rev (stripFront (map rev spaceRunes) (rev s)) @ rev p"
    by (metis rev_append rev_rev_ident)
  then show ?thesis by (auto simp: trimRight_def)
qed

lemma trimSpace_clean:
  assumes "w \<in> set spaceRunes"
  shows "\<not> hasPrefix (trimSpace s) w" and "\<not> hasSuffix (trimSpace s) w"
proof -
  obtain q where q: "trimLeft s = trimSpace s @ q"
    using trimRight_prefix unfolding trimSpace_def by blast
  have "\<not> hasPrefix (trimLeft s) w"
    unfolding trimLeft_def
    by (rule stripFront_clean) (use assms spaceRunes_nonempty in auto)
  then show "\<not> hasPrefix (trimSpace s) w"
    using q hasPrefix_trans by metis
  have "\<not> hasPrefix (stripFront (map rev spaceRunes) (rev (trimLeft s))) (rev w)"
    by (rule stripFront_clean) (use assms spaceRunes_nonempty in auto)
  then show "\<not> hasSuffix (trimSpace s) w"
    by (simp add: hasSuffix_def trimSpace_def trimRight_def)
qed

lemma trimSpace_idem [simp]: "trimSpace (trimSpace s) = trimSpace s"
  by (rule trimSpace_id) (auto dest: trimSpace_clean)

lemma trimSpace_Nil [simp]: "trimSpace [] = []"
proof -
  have "find (\<lambda>w. w \<noteq> [] \<and> hasPrefix [] w) ws = None" for ws
    by (auto simp: find_None_iff hasPrefix_def)
  then show ?thesis
    by (simp add: trimSpace_def trimLeft_def trimRight_def stripFront.simps)
qed

text \<open>What trimming returns is a contiguous part of its argument.\<close>

lemma trimSpace_infix: "\<exists>p q. s = p @ trimSpace s @ q"
proof -
  obtain p where "s = p @ trimLeft s"
    unfolding trimLeft_def using stripFront_suffix by blast
  moreover obtain q where "trimLeft s = trimSpace s @ q"
    using trimRight_prefix unfolding trimSpace_def by blast
  ultimately show ?thesis by metis
qed

lemma set_trimSpace: "set (trimSpace s) \<subseteq> set s"
  using trimSpace_infix[of s] by (metis Un_upper1 Un_upper2 set_append subset_trans)

text \<open>A byte that occurs in no white-space rune is never removed.\<close>

lemma stripFront_keeps: "\<forall>w\<in>set ws. c \<notin> set w \<Longrightarrow> c \<in> set s \<Longrightarrow> c \<in> set (stripFront ws s)"
proof (induction ws s rule: stripFront.induct)
  case (1 ws s)
  show ?case
  proof (cases "find (\<lambda>w. w \<noteq> [] \<and> hasPrefix s w) ws")
    case None
    with 1(3) show ?thesis by (simp add: stripFront.simps)
  next
    case (Some w)
    then have w: "w \<in> set ws" "hasPrefix s w" by (auto simp: find_Some_iff)
    then obtain r where "s = w @ r" by (auto simp: hasPrefix_iff)
    moreover have "c \<notin> set w" using 1(2) w(1) by blast
    ultimately have "c \<in> set (drop (length w) s)" using 1(3) by auto
    with 1(1)[OF Some 1(2)] have "c \<in> set (stripFront ws (drop (length w) s))" .
    then show ?thesis by (simp add: stripFront.simps[of ws s] Some)
  qed
qed

lemma trimSpace_keeps: "c \<in> set s \<Longrightarrow> \<forall>w\<in>set spaceRunes. c \<notin> set w \<Longrightarrow> c \<in> set (trimSpace s)"
  by (simp add: trimSpace_def trimLeft_def trimRight_def stripFront_keeps)

lemma trimSpace_graphic:
  assumes "\<And>c. c \<in> set s \<Longrightarrow> 0x20 < (of_char c :: nat) \<and> (of_char c :: nat) < 0x80"
  shows "trimSpace s = s"
proof (rule trimSpace_id)
  fix w assume "w \<in> set spaceRunes"
  then have "\<exists>c\<in>set w. \<not> (0x20 < (of_char c :: nat) \<and> (of_char c :: nat) < 0x80)"
    by (auto simp: spaceRunes_def)
  with assms show "\<not> hasPrefix s w \<and> \<not> hasSuffix s w"
    by (force simp: hasPrefix_iff hasSuffix_iff)
qed

subsection \<open>Decimal numbers\<close>

lemma of_char_digit [simp]: "n < 10 \<Longrightarrow> (of_char (char_of (48 + n) :: char) :: nat) = 48 + n"
  by (simp add: of_char_of)

lemma isDigit_digit [simp]: "(n :: nat) < 10 \<Longrightarrow> isDigit (char_of (48 + n))"
  by (simp add: isDigit_def)

lemma formatNat_digits: "c \<in> set (formatNat n) \<Longrightarrow> isDigit c"
proof (induction n rule: formatNat.induct)
  case (1 n)
  then show ?case by (subst (asm) (2) formatNat.simps) (auto split: if_splits)
qed

lemma formatNat_not_Nil [simp]: "formatNat n \<noteq> []"
  by (subst formatNat.simps) simp

lemma parseDec_append:
  "parseDec acc (s @ [c]) =
     (case parseDec acc s of None \<Rightarrow> None
      | Some v \<Rightarrow> if isDigit c then Some (v * 10 + (of_char c - 48)) else None)"
  by (induction s arbitrary: acc) auto

lemma parseDec_formatNat: "parseDec 0 (formatNat n) = Some n"
proof (induction n rule: formatNat.induct)
  case (1 n)
  then show ?case
    by (subst formatNat.simps) (auto simp: parseDec_append of_char_of)
qed

lemma parseUint_formatNat: "n < 2 ^ bits \<Longrightarrow> parseUint bits (formatNat n) = Some n"
  by (simp add: parseUint_def parseDec_formatNat)

lemma parseUint_formatUint [simp]:
  "parseUint LENGTH('a) (formatUint (w :: 'a::len word)) = Some (unat w)"
  by (simp add: formatUint_def parseUint_formatNat unsigned_less)

lemma formatUint_inj: "formatUint (v :: 'a::len word) = formatUint w \<Longrightarrow> v = w"
  by (metis option.inject parseUint_formatUint unsigned_word_eqI)

lemma parseUint_bound: "parseUint bits s = Some v \<Longrightarrow> v < 2 ^ bits"
  by (auto simp: parseUint_def split: option.splits if_splits)

subsection \<open>Splitting at a separator\<close>

lemma splitN2_cons [simp]: "sep \<notin> set s \<Longrightarrow> splitN2 sep (s @ sep # r) = [s, r]"
  by (auto simp: splitN2_def takeWhile_tail dropWhile_append)

lemma splitN2_none: "sep \<notin> set s \<Longrightarrow> splitN2 sep s = [s]"
  by (simp add: splitN2_def)

lemma splitOn_not_Nil [simp]: "splitOn sep s \<noteq> []"
  by (cases s) (auto split: list.split)

lemma splitOn_append: "splitOn sep (s @ sep # r) = splitOn sep s @ splitOn sep r"
  by (induction s) (auto split: list.split)

lemma splitOn_free: "sep \<notin> set s \<Longrightarrow> splitOn sep s = [s]"
  by (induction s) auto

lemma splitOn_parts: "w \<in> set (splitOn sep s) \<Longrightarrow> sep \<notin> set w \<and> set w \<subseteq> set s"
proof (induction s arbitrary: w)
  case (Cons c cs)
  then show ?case by (cases "splitOn sep cs") (fastforce split: if_splits)+
qed simp

lemma splitOn_join:
  "ws \<noteq> [] \<Longrightarrow> \<forall>w\<in>set ws. sep \<notin> set w \<Longrightarrow> splitOn sep (joinWith sep ws) = ws"
  by (induction sep ws rule: joinWith.induct) (auto simp: splitOn_free splitOn_append)

lemma joinWith_append:
  "vs \<noteq> [] \<Longrightarrow> ws \<noteq> [] \<Longrightarrow> joinWith sep (vs @ ws) = joinWith sep vs @ sep # joinWith sep ws"
proof (induction sep vs rule: joinWith.induct)
  case (2 sep w)
  then show ?case by (cases ws) auto
qed auto

lemma set_joinWith: "set (joinWith sep ws) \<subseteq> {sep} \<union> \<Union> (set ` set ws)"
  by (induction sep ws rule: joinWith.induct) auto

end
