(* ===== verification/Broker.thy ===== *)
theory Broker
  imports Go_Strings
begin

text \<open>
  \<open>broker/broker.go\<close>: the in-process table of request identifiers and the
  channels on which callers wait for a response. Channels live in a heap (a list;
  the index is the channel's identity), so that the Go rules about closing and
  sending are part of the model: closing a closed channel and sending on one
  panic, sending to a full buffer blocks.

  \<open>register\<close>, \<open>cancel\<close> and the first half of \<open>deliver\<close> run under the mutex and are one
  step each. \<open>Deliver\<close> sends after it has released the mutex, so \<open>bstep\<close> splits it
  into \<open>deliverTake\<close> and \<open>deliverSend\<close> and lets every other goroutine run in between.
\<close>

record 'a chan =
  cbuf :: "'a list"
  cclosed :: bool

record 'a broker =
  waiters :: "(string, nat) gomap"
  chans :: "'a chan list"

datatype cancelFn = CancelNoop | CancelReq string

definition newBroker :: "'a broker" where
  "newBroker = \<lparr>waiters = [], chans = []\<rparr>"

definition closeChan :: "nat \<Rightarrow> 'a chan list \<Rightarrow> 'a chan list outcome" where
  "closeChan c cs =
     (if c < length cs \<and> \<not> cclosed (cs ! c) then Ret (cs[c := (cs ! c)\<lparr>cclosed := True\<rparr>]) else Panic)"

text \<open>A send on a channel made with capacity 1.\<close>

definition sendChan :: "nat \<Rightarrow> 'a \<Rightarrow> 'a chan list \<Rightarrow> 'a chan list outcome" where
  "sendChan c v cs =
     (if c \<ge> length cs then Blocked
      else if cclosed (cs ! c) then Panic
      else if length (cbuf (cs ! c)) \<ge> 1 then Blocked
      else Ret (cs[c := (cs ! c)\<lparr>cbuf := cbuf (cs ! c) @ [v]\<rparr>]))"

text \<open>The receive \<open>v, ok := <-ch\<close>: \<open>None\<close> is the zero value with \<open>ok = false\<close>.\<close>

definition recvChan :: "nat \<Rightarrow> 'a chan list \<Rightarrow> ('a option \<times> 'a chan list) outcome" where
  "recvChan c cs =
     (if c \<ge> length cs then Blocked
      else case cbuf (cs ! c) of
        v # vs \<Rightarrow> Ret (Some v, cs[c := (cs ! c)\<lparr>cbuf := vs\<rparr>])
      | [] \<Rightarrow> if cclosed (cs ! c) then Ret (None, cs) else Blocked)"

definition register :: "string \<Rightarrow> 'a broker \<Rightarrow> ((nat \<times> cancelFn) \<times> 'a broker) outcome" where
  "register reqID b =
     (let r = trimSpace reqID;
          out = length (chans b);
          cs = chans b @ [\<lparr>cbuf = [], cclosed = False\<rparr>]
      in if r = [] then
           andThen (closeChan out cs) (\<lambda>cs'. Ret ((out, CancelNoop), b\<lparr>chans := cs'\<rparr>))
         else
           (case map_of (waiters b) r of
              Some prev \<Rightarrow>
                andThen (closeChan prev cs) (\<lambda>cs'.
                  Ret ((out, CancelReq r), b\<lparr>waiters := gput r out (gdel r (waiters b)), chans := cs'\<rparr>))
            | None \<Rightarrow> Ret ((out, CancelReq r), b\<lparr>waiters := gput r out (waiters b), chans := cs\<rparr>)))"

fun cancel :: "cancelFn \<Rightarrow> 'a broker \<Rightarrow> 'a broker outcome" where
  "cancel CancelNoop b = Ret b"
| "cancel (CancelReq r) b =
     (case map_of (waiters b) r of
        Some c \<Rightarrow>
          andThen (closeChan c (chans b)) (\<lambda>cs'. Ret (b\<lparr>waiters := gdel r (waiters b), chans := cs'\<rparr>))
      | None \<Rightarrow> Ret b)"

text \<open>The locked half of \<open>Deliver\<close>: look the waiter up and remove it.\<close>

definition deliverTake :: "string \<Rightarrow> 'a broker \<Rightarrow> nat option \<times> 'a broker" where
  "deliverTake reqID b =
     (let r = trimSpace reqID in
      if r = [] then (None, b)
      else case map_of (waiters b) r of
             Some c \<Rightarrow> (Some c, b\<lparr>waiters := gdel r (waiters b)\<rparr>)
           | None \<Rightarrow> (None, b))"

text \<open>The unlocked half: send the response and close the channel.\<close>

definition deliverSend :: "nat \<Rightarrow> 'a \<Rightarrow> 'a broker \<Rightarrow> 'a broker outcome" where
  "deliverSend c v b =
     andThen (sendChan c v (chans b)) (\<lambda>cs.
     andThen (closeChan c cs) (\<lambda>cs'. Ret (b\<lparr>chans := cs'\<rparr>)))"

definition deliver :: "string \<Rightarrow> 'a \<Rightarrow> 'a broker \<Rightarrow> (bool \<times> 'a broker) outcome" where
  "deliver reqID v b =
     (case deliverTake reqID b of
        (None, b') \<Rightarrow> Ret (False, b')
      | (Some c, b') \<Rightarrow> andThen (deliverSend c v b') (\<lambda>b''. Ret (True, b'')))"

text \<open>
  The concurrent system: the broker and the calls of \<open>Deliver\<close> that have taken a
  waiter and not yet sent. Any goroutine may take the next step.
\<close>

record 'a bsys =
  brk :: "'a broker"
  inflight :: "(nat \<times> 'a) list"

inductive bstep :: "'a bsys \<Rightarrow> 'a bsys \<Rightarrow> bool" where
  b_register: "register r (brk s) = Ret (x, b) \<Longrightarrow> bstep s (s\<lparr>brk := b\<rparr>)"
| b_cancel: "cancel f (brk s) = Ret b \<Longrightarrow> bstep s (s\<lparr>brk := b\<rparr>)"
| b_miss: "deliverTake r (brk s) = (None, b) \<Longrightarrow> bstep s (s\<lparr>brk := b\<rparr>)"
| b_take: "deliverTake r (brk s) = (Some c, b) \<Longrightarrow>
     bstep s (s\<lparr>brk := b, inflight := inflight s @ [(c, v)]\<rparr>)"
| b_send: "(c, v) \<in> set (inflight s) \<Longrightarrow> deliverSend c v (brk s) = Ret b \<Longrightarrow>
     bstep s (s\<lparr>brk := b, inflight := remove1 (c, v) (inflight s)\<rparr>)"
| b_recv: "recvChan c (chans (brk s)) = Ret (x, cs) \<Longrightarrow>
     bstep s (s\<lparr>brk := (brk s)\<lparr>chans := cs\<rparr>\<rparr>)"

inductive breach :: "'a bsys \<Rightarrow> bool" where
  breach_init: "breach \<lparr>brk = newBroker, inflight = []\<rparr>"
| breach_step: "breach s \<Longrightarrow> bstep s t \<Longrightarrow> breach t"

inductive_cases bstepE: "bstep s t"

text \<open>
  The invariant: the channels of the table and of the calls in flight are
  pairwise different, open and empty; every other channel has been closed.
\<close>

definition pendingChans :: "'a bsys \<Rightarrow> nat list" where
  "pendingChans s = map snd (waiters (brk s)) @ map fst (inflight s)"

definition chanFree :: "'a chan list \<Rightarrow> nat \<Rightarrow> bool" where
  "chanFree cs c = (c < length cs \<and> \<not> cclosed (cs ! c) \<and> cbuf (cs ! c) = [])"

definition binv :: "'a bsys \<Rightarrow> bool" where
  "binv s \<longleftrightarrow> wf_gomap (waiters (brk s)) \<and> distinct (pendingChans s) \<and>
     (\<forall>c\<in>set (pendingChans s). chanFree (chans (brk s)) c) \<and>
     (\<forall>c<length (chans (brk s)). cclosed (chans (brk s) ! c) \<or> c \<in> set (pendingChans s))"

subsection \<open>Channels\<close>

lemma closeChan_free: "chanFree cs c \<Longrightarrow> \<exists>cs'. closeChan c cs = Ret cs'"
  by (simp add: closeChan_def chanFree_def)

lemma chanFree_append: "chanFree cs c \<Longrightarrow> chanFree (cs @ [x]) c"
  by (simp add: chanFree_def nth_append)

lemma chanFree_fresh: "chanFree (cs @ [\<lparr>cbuf = [], cclosed = False\<rparr>]) (length cs)"
  by (simp add: chanFree_def)

lemma closeChan_other: "closeChan c cs = Ret cs' \<Longrightarrow> d \<noteq> c \<Longrightarrow> chanFree cs' d = chanFree cs d"
  by (auto simp: closeChan_def chanFree_def split: if_splits)

lemma closeChan_shape:
  "closeChan c cs = Ret cs' \<Longrightarrow>
     length cs' = length cs \<and> (\<forall>d<length cs. cclosed (cs' ! d) = (d = c \<or> cclosed (cs ! d)))"
  by (auto simp: closeChan_def nth_list_update split: if_splits)

lemma deliverSend_eq:
  "deliverSend c v b = Ret b' \<Longrightarrow>
     waiters b' = waiters b \<and> chanFree (chans b) c \<and>
     chans b' = (chans b)[c := (chans b ! c)\<lparr>cbuf := [v], cclosed := True\<rparr>]"
  by (cases "chans b ! c")
     (auto simp: deliverSend_def sendChan_def closeChan_def chanFree_def Suc_le_eq not_le
        split: if_splits)

lemma deliverSend_free: "chanFree (chans b) c \<Longrightarrow> \<exists>b'. deliverSend c v b = Ret b'"
  by (auto simp: deliverSend_def sendChan_def closeChan_def chanFree_def)

subsection \<open>The invariant\<close>

lemma binvD:
  assumes "binv s"
  shows "wf_gomap (waiters (brk s))" and "distinct (pendingChans s)"
    and "\<And>c. c \<in> set (pendingChans s) \<Longrightarrow> chanFree (chans (brk s)) c"
    and "\<And>c. c < length (chans (brk s)) \<Longrightarrow> \<not> cclosed (chans (brk s) ! c) \<Longrightarrow> c \<in> set (pendingChans s)"
  using assms by (auto simp: binv_def)

lemma waiter_pending: "map_of (waiters (brk s)) r = Some c \<Longrightarrow> c \<in> set (pendingChans s)"
  by (force simp: pendingChans_def dest: map_of_SomeD)

text \<open>Removing a key from the table removes exactly its channel.\<close>

lemma snd_gdel:
  assumes "map_of m r = Some c" and "wf_gomap m" and "distinct (map snd m)"
  shows "set (map snd (gdel r m)) = set (map snd m) - {c} \<and> distinct (map snd (gdel r m))"
  using assms
proof (induction m)
  case (Cons p m)
  show ?case
  proof (cases "fst p = r")
    case True
    with Cons.prems have "c = snd p" and "r \<notin> fst ` set m"
      by (cases p, force)+
    moreover from this True have "gdel r (p # m) = m"
      by (cases p) simp
    ultimately show ?thesis using Cons.prems by auto
  next
    case False
    with Cons.prems have "map_of m r = Some c" by (cases p) auto
    with Cons have IH: "set (map snd (gdel r m)) = set (map snd m) - {c}"
      "distinct (map snd (gdel r m))" by auto
    moreover have "c \<in> set (map snd m)"
      using \<open>map_of m r = Some c\<close> by (force dest: map_of_SomeD)
    ultimately show ?thesis using False Cons.prems by (cases p) auto
  qed
qed simp

lemma gput_fresh_key: "map_of m r = None \<Longrightarrow> gput r v m = m @ [(r, v)]"
  by (induction m) (auto split: if_splits)

lemma pendingChans_gdel:
  assumes "binv s" and "map_of (waiters (brk s)) r = Some c"
  shows "set (pendingChans (s\<lparr>brk := (brk s)\<lparr>waiters := gdel r (waiters (brk s)), chans := cs\<rparr>\<rparr>)) =
           set (pendingChans s) - {c}"
    and "distinct (pendingChans (s\<lparr>brk := (brk s)\<lparr>waiters := gdel r (waiters (brk s)), chans := cs\<rparr>\<rparr>))"
proof -
  have d: "wf_gomap (waiters (brk s))" "distinct (map snd (waiters (brk s)))"
    "set (map snd (waiters (brk s))) \<inter> set (map fst (inflight s)) = {}"
    "distinct (map fst (inflight s))"
    using binvD(1,2)[OF assms(1)] by (auto simp: pendingChans_def)
  have c: "c \<in> set (map snd (waiters (brk s)))"
    using assms(2) by (force dest: map_of_SomeD)
  note sd = snd_gdel[OF assms(2) d(1,2)]
  show "set (pendingChans (s\<lparr>brk := (brk s)\<lparr>waiters := gdel r (waiters (brk s)), chans := cs\<rparr>\<rparr>)) =
          set (pendingChans s) - {c}"
    using sd c d(3) by (auto simp: pendingChans_def)
  show "distinct (pendingChans (s\<lparr>brk := (brk s)\<lparr>waiters := gdel r (waiters (brk s)), chans := cs\<rparr>\<rparr>))"
    using sd d(3,4) by (auto simp: pendingChans_def)
qed

lemma binvI:
  assumes "wf_gomap (waiters (brk t))" and "distinct (pendingChans t)"
    and "\<And>c. c \<in> set (pendingChans t) \<Longrightarrow> chanFree (chans (brk t)) c"
    and "\<And>c. c < length (chans (brk t)) \<Longrightarrow> c \<notin> set (pendingChans t) \<Longrightarrow> cclosed (chans (brk t) ! c)"
  shows "binv t"
  using assms by (auto simp: binv_def)

text \<open>Closing the channel of one table entry while removing the entry.\<close>

lemma binv_close_entry:
  assumes inv: "binv s" and r: "map_of (waiters (brk s)) r = Some c"
    and cl: "closeChan c (chans (brk s)) = Ret cs"
  shows "binv (s\<lparr>brk := (brk s)\<lparr>waiters := gdel r (waiters (brk s)), chans := cs\<rparr>\<rparr>)"
proof (rule binvI, goal_cases)
  case 1
  show ?case using binvD(1)[OF inv] by auto
next
  case 2
  show ?case by (rule pendingChans_gdel(2)[OF inv r])
next
  case (3 d)
  then have "d \<noteq> c" "d \<in> set (pendingChans s)"
    by (auto simp only: pendingChans_gdel(1)[OF inv r])
  then show ?case using closeChan_other[OF cl] binvD(3)[OF inv] by auto
next
  case (4 d)
  have "d = c \<or> d \<notin> set (pendingChans s)"
    using 4(2) by (auto simp only: pendingChans_gdel(1)[OF inv r])
  then show ?case
    using 4(1) closeChan_shape[OF cl] binvD(4)[OF inv, of d] by auto
qed

text \<open>Adding a fresh, open channel to the table.\<close>

lemma binv_fresh_entry:
  assumes inv: "binv s" and r: "map_of (waiters (brk s)) r = None"
  shows "binv (s\<lparr>brk := (brk s)\<lparr>waiters := gput r (length (chans (brk s))) (waiters (brk s)),
                 chans := chans (brk s) @ [\<lparr>cbuf = [], cclosed = False\<rparr>]\<rparr>\<rparr>)" (is "binv ?t")
proof -
  have p: "set (pendingChans ?t) = insert (length (chans (brk s))) (set (pendingChans s))"
    by (auto simp: pendingChans_def gput_fresh_key[OF r])
  have new: "length (chans (brk s)) \<notin> set (pendingChans s)"
    using binvD(3)[OF inv] by (auto simp: chanFree_def)
  show ?thesis
  proof (rule binvI, goal_cases)
    case 1
    show ?case using binvD(1)[OF inv] by auto
  next
    case 2
    show ?case using binvD(2)[OF inv] new by (auto simp: pendingChans_def gput_fresh_key[OF r])
  next
    case (3 c)
    then show ?case
      using binvD(3)[OF inv] by (auto simp: p simp del: set_append intro: chanFree_append chanFree_fresh)
  next
    case (4 c)
    then have "c < length (chans (brk s))" "c \<notin> set (pendingChans s)"
      by (auto simp: p less_Suc_eq)
    then show ?case using binvD(4)[OF inv, of c] by (auto simp: nth_append)
  qed
qed

text \<open>A channel that is created closed is nobody's.\<close>

lemma binv_closed_chan:
  assumes inv: "binv s"
  shows "binv (s\<lparr>brk := (brk s)\<lparr>chans := chans (brk s) @ [\<lparr>cbuf = [], cclosed = True\<rparr>]\<rparr>\<rparr>)" (is "binv ?t")
proof -
  have p: "pendingChans ?t = pendingChans s" by (simp add: pendingChans_def)
  show ?thesis
    using inv unfolding binv_def p
    by (auto simp: nth_append less_Suc_eq intro: chanFree_append)
qed

lemma register_binv [invs]:
  assumes inv: "binv s" and reg: "register q (brk s) = Ret (x, b)"
  shows "binv (s\<lparr>brk := b\<rparr>)"
proof -
  let ?b = "brk s" let ?r = "trimSpace q"
  let ?fresh = "\<lparr>cbuf = [], cclosed = False\<rparr>"
  consider (empty) "?r = []" | (new) "?r \<noteq> []" "map_of (waiters ?b) ?r = None"
    | (again) prev where "?r \<noteq> []" "map_of (waiters ?b) ?r = Some prev"
    by (cases "map_of (waiters ?b) ?r") auto
  then show ?thesis
  proof cases
    case empty
    with reg have "b = ?b\<lparr>chans := chans ?b @ [\<lparr>cbuf = [], cclosed = True\<rparr>]\<rparr>"
      by (auto simp: register_def closeChan_def Let_def)
    then show ?thesis using binv_closed_chan[OF inv] by simp
  next
    case new
    with reg have "b = ?b\<lparr>waiters := gput ?r (length (chans ?b)) (waiters ?b), chans := chans ?b @ [?fresh]\<rparr>"
      by (auto simp: register_def Let_def)
    then show ?thesis using binv_fresh_entry[OF inv new(2)] by simp
  next
    case (again prev)
    have free: "chanFree (chans ?b) prev"
      using binvD(3)[OF inv] waiter_pending[OF again(2)] by simp
    then obtain cs where cs: "closeChan prev (chans ?b) = Ret cs"
      using closeChan_free by blast
    have len: "length cs = length (chans ?b)" using closeChan_shape[OF cs] by simp
    have "closeChan prev (chans ?b @ [?fresh]) = Ret (cs @ [?fresh])"
      using cs free by (auto simp: closeChan_def chanFree_def nth_append list_update_append split: if_splits)
    with reg again have b: "b = ?b\<lparr>waiters := gput ?r (length (chans ?b)) (gdel ?r (waiters ?b)), chans := cs @ [?fresh]\<rparr>"
      by (auto simp: register_def Let_def)
    have "map_of (gdel ?r (waiters ?b)) ?r = None" by (simp add: delete_conv')
    from binv_fresh_entry[OF binv_close_entry[OF inv again(2) cs], of ?r] this len
    show ?thesis by (simp add: b)
  qed
qed

lemma cancel_binv [invs]:
  assumes inv: "binv s" and c: "cancel f (brk s) = Ret b"
  shows "binv (s\<lparr>brk := b\<rparr>)"
proof (cases f)
  case CancelNoop
  with c have "b = brk s" by simp
  with inv show ?thesis by simp
next
  case (CancelReq r)
  show ?thesis
  proof (cases "map_of (waiters (brk s)) r")
    case None
    with c CancelReq have "b = brk s" by simp
    with inv show ?thesis by simp
  next
    case (Some ch)
    with c CancelReq obtain cs where "closeChan ch (chans (brk s)) = Ret cs"
      and "b = (brk s)\<lparr>waiters := gdel r (waiters (brk s)), chans := cs\<rparr>"
      by auto
    with binv_close_entry[OF inv Some] show ?thesis by simp
  qed
qed

lemma deliverTake_SomeD:
  "deliverTake q b = (Some c, b') \<Longrightarrow>
     trimSpace q \<noteq> [] \<and> map_of (waiters b) (trimSpace q) = Some c \<and>
     b' = b\<lparr>waiters := gdel (trimSpace q) (waiters b)\<rparr>"
  by (auto simp: deliverTake_def Let_def split: if_splits option.splits)

lemma deliverTake_NoneD: "deliverTake q b = (None, b') \<Longrightarrow> b' = b"
  by (auto simp: deliverTake_def Let_def split: if_splits option.splits)

text \<open>Taking a waiter moves its channel from the table to the calls in flight.\<close>

lemma deliverTake_binv [invs]:
  assumes inv: "binv s" and t: "deliverTake q (brk s) = (Some c, b)"
  shows "binv (s\<lparr>brk := b, inflight := inflight s @ [(c, v)]\<rparr>)" (is "binv ?t")
proof -
  note r = deliverTake_SomeD[OF t]
  let ?m = "s\<lparr>brk := (brk s)\<lparr>waiters := gdel (trimSpace q) (waiters (brk s)), chans := chans (brk s)\<rparr>\<rparr>"
  have pend: "set (pendingChans ?m) = set (pendingChans s) - {c}" "distinct (pendingChans ?m)"
    by (rule pendingChans_gdel[OF inv]; use r in simp)+
  have split: "pendingChans ?t = pendingChans ?m @ [c]"
    using r by (simp add: pendingChans_def)
  have same: "set (pendingChans ?t) = set (pendingChans s)"
    using pend(1) split waiter_pending[of s "trimSpace q" c] r by auto
  show ?thesis
  proof (rule binvI, goal_cases)
    case 1
    show ?case using binvD(1)[OF inv] r by auto
  next
    case 2
    show ?case using pend split by auto
  next
    case (3 d)
    then have "d \<in> set (pendingChans s)" using same by blast
    then show ?case using binvD(3)[OF inv] r by simp
  next
    case (4 d)
    then have "d \<notin> set (pendingChans s)" using same by blast
    then show ?case using 4(1) binvD(4)[OF inv, of d] r by auto
  qed
qed

lemma remove1_keyed:
  assumes "distinct (map fst xs)" and "(c, v) \<in> set xs"
  shows "set (map fst (remove1 (c, v) xs)) = set (map fst xs) - {c}"
    and "distinct (map fst (remove1 (c, v) xs))"
proof -
  obtain ys zs where xs: "xs = ys @ (c, v) # zs" "(c, v) \<notin> set ys"
    using split_list_first[OF assms(2)] by blast
  then have "remove1 (c, v) xs = ys @ zs" by (simp add: remove1_append)
  with assms(1) xs(1) show "set (map fst (remove1 (c, v) xs)) = set (map fst xs) - {c}"
    and "distinct (map fst (remove1 (c, v) xs))" by auto
qed

text \<open>Finishing a delivery closes a channel that is nobody else's.\<close>

lemma deliverSend_binv [invs]:
  assumes inv: "binv s" and mem: "(c, v) \<in> set (inflight s)"
    and send: "deliverSend c v (brk s) = Ret b"
  shows "binv (s\<lparr>brk := b, inflight := remove1 (c, v) (inflight s)\<rparr>)" (is "binv ?t")
proof -
  note b = deliverSend_eq[OF send]
  have dist: "distinct (map fst (inflight s))" "c \<notin> set (map snd (waiters (brk s)))"
    using binvD(2)[OF inv] mem by (auto simp: pendingChans_def) force
  note infl = remove1_keyed[OF dist(1) mem]
  have pend: "set (pendingChans ?t) = set (pendingChans s) - {c}"
    using infl(1) dist(2) b by (auto simp: pendingChans_def)
  show ?thesis
  proof (rule binvI, goal_cases)
    case 1
    show ?case using binvD(1)[OF inv] b by simp
  next
    case 2
    have "set (map fst (remove1 (c, v) (inflight s))) \<inter> set (map snd (waiters (brk s))) = {}"
      using binvD(2)[OF inv] infl(1) by (auto simp: pendingChans_def)
    then show ?case using binvD(2)[OF inv] infl(2) b by (auto simp: pendingChans_def)
  next
    case (3 d)
    then have "d \<in> set (pendingChans s)" "d \<noteq> c" using pend by blast+
    then show ?case using binvD(3)[OF inv, of d] b by (simp add: chanFree_def)
  next
    case (4 d)
    then have "d \<notin> set (pendingChans s) \<or> d = c" using pend by blast
    then show ?case
      using 4(1) binvD(4)[OF inv, of d] b by (cases "d = c") (auto simp: nth_list_update)
  qed
qed

text \<open>A receive only touches a channel that holds a value or is closed.\<close>

lemma recvChan_binv [invs]:
  assumes inv: "binv s" and rc: "recvChan c (chans (brk s)) = Ret (x, cs)"
  shows "binv (s\<lparr>brk := (brk s)\<lparr>chans := cs\<rparr>\<rparr>)" (is "binv ?t")
proof -
  have p: "pendingChans ?t = pendingChans s" by (simp add: pendingChans_def)
  have len: "length cs = length (chans (brk s))"
    and cl: "\<And>d. d < length cs \<Longrightarrow> cclosed (cs ! d) = cclosed (chans (brk s) ! d)"
    and free: "\<And>d. chanFree (chans (brk s)) d \<Longrightarrow> chanFree cs d"
    using rc by (auto simp: recvChan_def chanFree_def nth_list_update split: if_splits list.splits)
  show ?thesis
    using inv len cl free unfolding binv_def p by auto
qed

lemma bstep_binv: "bstep s t \<Longrightarrow> binv s \<Longrightarrow> binv t"
proof (induction rule: bstep.induct)
  case (b_miss r s b)
  then have "b = brk s" by (auto dest: deliverTake_NoneD)
  with b_miss show ?case by simp
qed (auto intro: invs)

lemma breach_binv: "breach s \<Longrightarrow> binv s"
proof (induction rule: breach.induct)
  case breach_init
  show ?case by (simp add: binv_def newBroker_def pendingChans_def)
next
  case (breach_step s t)
  then show ?case by (blast intro: bstep_binv)
qed

subsection \<open>Properties\<close>

lemma register_returns:
  assumes "binv s"
  shows "\<exists>x b. register q (brk s) = Ret (x, b)"
proof (cases "map_of (waiters (brk s)) (trimSpace q)")
  case None
  then show ?thesis by (auto simp: register_def closeChan_def Let_def)
next
  case (Some prev)
  then have "chanFree (chans (brk s) @ [\<lparr>cbuf = [], cclosed = False\<rparr>]) prev"
    by (intro chanFree_append binvD(3)[OF assms] waiter_pending)
  from closeChan_free[OF this] Some show ?thesis
    by (auto simp: register_def closeChan_def Let_def)
qed

lemma cancel_returns:
  assumes "binv s"
  shows "\<exists>b. cancel f (brk s) = Ret b"
proof (cases f)
  case (CancelReq r)
  show ?thesis
  proof (cases "map_of (waiters (brk s)) r")
    case (Some c)
    with closeChan_free[OF binvD(3)[OF assms waiter_pending[OF Some]]] CancelReq
    show ?thesis by auto
  qed (simp add: CancelReq)
qed simp

text \<open>
  C18: whatever the interleaving of registrations, cancellations, deliveries and
  receives, no broker operation can panic on a closed channel or block on a full
  one: registering and cancelling return, and every delivery that has taken a
  waiter can complete its send and close.
\<close>

theorem broker_never_stuck:
  assumes "breach s"
  shows "(\<exists>x b. register q (brk s) = Ret (x, b)) \<and>
         (\<exists>b. cancel f (brk s) = Ret b) \<and>
         (\<forall>c v. (c, v) \<in> set (inflight s) \<longrightarrow> (\<exists>b. deliverSend c v (brk s) = Ret b))"
proof -
  from assms have inv: "binv s" by (rule breach_binv)
  have "\<exists>b. deliverSend c v (brk s) = Ret b" if "(c, v) \<in> set (inflight s)" for c v
  proof (intro deliverSend_free binvD(3)[OF inv])
    show "c \<in> set (pendingChans s)" using that by (force simp: pendingChans_def)
  qed
  then show ?thesis
    using register_returns[OF inv, of q] cancel_returns[OF inv, of f] by simp
qed

text \<open>
  no wake-up is lost. If a receive on some channel of a reachable state would
  block, that channel is still registered under some request, or a delivery to it
  is under way.
\<close>

theorem broker_blocked_is_pending:
  assumes "breach s" and "c < length (chans (brk s))"
    and "recvChan c (chans (brk s)) = Blocked"
  shows "(\<exists>r. map_of (waiters (brk s)) r = Some c) \<or> (\<exists>v. (c, v) \<in> set (inflight s))"
proof -
  from assms(1) have inv: "binv s" by (rule breach_binv)
  have "\<not> cclosed (chans (brk s) ! c)"
    using assms(2,3) by (auto simp: recvChan_def split: list.splits if_splits)
  then have "c \<in> set (pendingChans s)" using binvD(4)[OF inv assms(2)] by blast
  then consider r where "(r, c) \<in> set (waiters (brk s))" | v where "(c, v) \<in> set (inflight s)"
    by (auto simp: pendingChans_def)
  then show ?thesis
  proof cases
    case 1
    then show ?thesis using map_of_is_SomeI[OF binvD(1)[OF inv]] by blast
  qed blast
qed

lemma register_new:
  "register q b = Ret ((c, f), b1) \<Longrightarrow> trimSpace q \<noteq> [] \<Longrightarrow>
     map_of (waiters b1) (trimSpace q) = Some c \<and> f = CancelReq (trimSpace q)"
  by (auto simp: register_def Let_def update_conv' split: option.splits)

lemma registered_free:
  assumes "breach s" and "register q (brk s) = Ret ((c, f), b)" and "trimSpace q \<noteq> []"
  shows "chanFree (chans b) c"
proof -
  have "binv (s\<lparr>brk := b\<rparr>)"
    by (rule register_binv[OF breach_binv[OF assms(1)] assms(2)])
  then have "c \<in> set (pendingChans (s\<lparr>brk := b\<rparr>)) \<Longrightarrow> chanFree (chans b) c"
    using binvD(3)[of "s\<lparr>brk := b\<rparr>" c] by simp
  then show ?thesis
    using register_new[OF assms(2,3)] waiter_pending[of "s\<lparr>brk := b\<rparr>" "trimSpace q" c] by simp
qed

text \<open>
  C19: a response delivered to a registered request reaches the channel that
  \<open>Register\<close> returned, exactly once: the delivery reports success, the receiver gets the
  value and then end-of-channel, and a second delivery finds no waiter.
\<close>

theorem broker_delivers_once:
  assumes "breach s" and "trimSpace q \<noteq> []" and "register q (brk s) = Ret ((c, f), b1)"
  shows "\<exists>b2 cs. deliver q v b1 = Ret (True, b2) \<and>
           recvChan c (chans b2) = Ret (Some v, cs) \<and> recvChan c cs = Ret (None, cs) \<and>
           deliver q w b2 = Ret (False, b2)"
proof -
  note reg = register_new[OF assms(3,2)]
  have free: "chanFree (chans b1) c" by (rule registered_free[OF assms(1,3,2)])
  let ?b = "b1\<lparr>waiters := gdel (trimSpace q) (waiters b1)\<rparr>"
  have take: "deliverTake q b1 = (Some c, ?b)"
    using reg assms(2) by (simp add: deliverTake_def Let_def)
  obtain b2 where send: "deliverSend c v ?b = Ret b2"
    using deliverSend_free[of ?b c v] free by auto
  note b2 = deliverSend_eq[OF send]
  have "deliver q v b1 = Ret (True, b2)" using take send by (simp add: deliver_def)
  moreover have "deliver q w b2 = Ret (False, b2)"
    using b2 assms(2) by (simp add: deliver_def deliverTake_def Let_def delete_conv')
  ultimately show ?thesis
    using b2 free by (auto simp: recvChan_def chanFree_def)
qed

text \<open>
  the cancel function is bound to the request identifier and not to the
  registration. When a request is registered again, the cancel function of the
  first registration removes the second one: its channel is closed without a
  value, and a later response is dropped.
\<close>

theorem broker_stale_cancel:
  assumes "breach s" and "trimSpace q \<noteq> []"
    and "register q (brk s) = Ret ((c1, f1), b1)" and "register q b1 = Ret ((c2, f2), b2)"
  shows "\<exists>b3. cancel f1 b2 = Ret b3 \<and> recvChan c2 (chans b3) = Ret (None, chans b3) \<and>
           deliver q v b3 = Ret (False, b3)"
proof -
  have "breach (s\<lparr>brk := b1\<rparr>)"
    using assms(1,3) by (blast intro: breach_step b_register)
  then have free: "chanFree (chans b2) c2"
    using registered_free[of "s\<lparr>brk := b1\<rparr>" q c2 f2 b2] assms(2,4) by simp
  have f1: "f1 = CancelReq (trimSpace q)" and w: "map_of (waiters b2) (trimSpace q) = Some c2"
    using register_new[OF assms(3,2)] register_new[OF assms(4,2)] by auto
  from closeChan_free[OF free] obtain cs where cs: "closeChan c2 (chans b2) = Ret cs" ..
  let ?b3 = "b2\<lparr>waiters := gdel (trimSpace q) (waiters b2), chans := cs\<rparr>"
  have "cancel f1 b2 = Ret ?b3" by (simp add: f1 w cs)
  moreover have "recvChan c2 cs = Ret (None, cs)"
    using cs free by (auto simp: closeChan_def recvChan_def chanFree_def split: if_splits)
  moreover have "deliver q v ?b3 = Ret (False, ?b3)"
    using assms(2) by (simp add: deliver_def deliverTake_def Let_def delete_conv')
  ultimately show ?thesis by auto
qed

subsection \<open>Witnesses\<close>

lemma trimSpace_req [simp]: "trimSpace ''req1'' = ''req1''"
  by (rule trimSpace_graphic) auto

lemma breach_new: "breach \<lparr>brk = newBroker, inflight = []\<rparr>"
  by (rule breach_init)

lemma register_req1:
  "register ''req1'' (newBroker :: nat broker) =
     Ret ((0, CancelReq ''req1''), \<lparr>waiters = [(''req1'', 0)], chans = [\<lparr>cbuf = [], cclosed = False\<rparr>]\<rparr>)"
  by (simp add: register_def newBroker_def Let_def)

lemma breach_req1:
  "breach (\<lparr>brk = \<lparr>waiters = [(''req1'', 0)], chans = [\<lparr>cbuf = [], cclosed = False\<rparr>]\<rparr>, inflight = []\<rparr> :: nat bsys)"
  using breach_step[OF breach_init b_register, of "''req1''"] register_req1 by auto

lemma breach_taken:
  "breach (\<lparr>brk = \<lparr>waiters = [], chans = [\<lparr>cbuf = [], cclosed = False\<rparr>]\<rparr>, inflight = [(0, 42)]\<rparr> :: nat bsys)"
  using breach_step[OF breach_req1 b_take[of "''req1''" _ 0 _ 42]]
  by (simp add: deliverTake_def Let_def)

theorem broker_never_stuck_witness:
  "\<exists>b. deliverSend 0 42 (\<lparr>waiters = [], chans = [\<lparr>cbuf = [], cclosed = False\<rparr>]\<rparr> :: nat broker) = Ret b"
  using broker_never_stuck[OF breach_taken, of "''req1''" CancelNoop] by simp

theorem broker_blocked_is_pending_witness:
  "\<exists>v. (0, v) \<in> set [(0 :: nat, 42 :: nat)]"
  using broker_blocked_is_pending[OF breach_taken, of 0] by (auto simp: recvChan_def)

theorem broker_delivers_once_witness:
  "\<exists>b2 cs. deliver ''req1'' (42 :: nat) \<lparr>waiters = [(''req1'', 0)], chans = [\<lparr>cbuf = [], cclosed = False\<rparr>]\<rparr> = Ret (True, b2) \<and>
     recvChan 0 (chans b2) = Ret (Some 42, cs) \<and> recvChan 0 cs = Ret (None, cs) \<and>
     deliver ''req1'' 43 b2 = Ret (False, b2)"
  using broker_delivers_once[OF breach_new, of "''req1''" 0 "CancelReq ''req1''"] register_req1 by simp

theorem broker_stale_cancel_witness:
  "\<exists>b3. cancel (CancelReq ''req1'')
       (\<lparr>waiters = [(''req1'', 1)],
         chans = [\<lparr>cbuf = [], cclosed = True\<rparr>, \<lparr>cbuf = [], cclosed = False\<rparr>]\<rparr> :: nat broker) = Ret b3 \<and>
     recvChan 1 (chans b3) = Ret (None, chans b3) \<and> deliver ''req1'' 42 b3 = Ret (False, b3)"
proof -
  have "register ''req1'' \<lparr>waiters = [(''req1'', 0)], chans = [\<lparr>cbuf = [], cclosed = False\<rparr>]\<rparr> =
     Ret ((1, CancelReq ''req1''), \<lparr>waiters = [(''req1'', 1)],
         chans = [\<lparr>cbuf = [], cclosed = True\<rparr>, \<lparr>cbuf = [], cclosed = False\<rparr>]\<rparr> :: nat broker)"
    by (simp add: register_def closeChan_def Let_def)
  from broker_stale_cancel[OF breach_new _ _ this, of 0 "CancelReq ''req1''"] register_req1
  show ?thesis by simp
qed

end
