(* ===== verification/Cap_Registry.thy ===== *)
theory Cap_Registry
  imports Go_Strings "HOL-Library.Product_Lexorder"
begin

text \<open>
  \<open>exec/capability/registry.go\<close>: the registry of capabilities a process offers.
  Every sub-protocol that exposes methods to \<open>exec\<close> registers a descriptor here.

  Raw JSON messages are strings and the nil slice is the empty one. The invoke function is
  an abstract value \<open>'f\<close> (\<open>None\<close> is nil). The loop of \<open>normalizeDescriptor\<close> that rewrites
  the tags while it ranges over them is \<open>normTags\<close>: one visit per key of the
  original map, in the order of the list (\<open>normTag_revisit\<close> shows that visiting an entry created
  by the loop again, which Go allows, changes nothing).
\<close>

datatype capError = ErrMethodRequired | ErrProviderMissing | ErrTimeoutInvalid | ErrConflict

record Descriptor =
  Provider :: string
  Method :: string
  Version :: string
  InputSchema :: string
  OutputSchema :: string
  DefaultTimeoutMs :: int
  Permissions :: "string list"
  Tags :: "(string, string) gomap"

record 'f capEntry =
  desc :: Descriptor
  invoke :: "'f option"

type_synonym 'f registry = "(string, 'f capEntry) gomap"

definition newRegistry :: "'f registry" where
  "newRegistry = []"

definition normTag :: "(string, string) gomap \<Rightarrow> string \<Rightarrow> (string, string) gomap" where
  "normTag tags key =
     (case map_of tags key of
        None \<Rightarrow> tags
      | Some val \<Rightarrow>
          let trimmed = trimSpace key; rest = gdel key tags
          in if trimmed = [] then rest else gput trimmed (trimSpace val) rest)"

definition normTags :: "(string, string) gomap \<Rightarrow> (string, string) gomap" where
  "normTags tags = foldl normTag tags (map fst tags)"

definition normalizeDescriptor :: "Descriptor \<Rightarrow> capError + Descriptor" where
  "normalizeDescriptor d =
     (let out = d\<lparr>Provider := trimSpace (Provider d), Method := trimSpace (Method d),
                  Version := trimSpace (Version d)\<rparr>
      in if Provider out = [] then Inl ErrProviderMissing
         else if Method out = [] then Inl ErrMethodRequired
         else if DefaultTimeoutMs out < 0 then Inl ErrTimeoutInvalid
         else Inr (out\<lparr>Permissions := map trimSpace (Permissions out), Tags := normTags (Tags out)\<rparr>))"

definition descriptorKey :: "string \<Rightarrow> string \<Rightarrow> string" where
  "descriptorKey m v = trimSpace m @ [CHR 0x00] @ trimSpace v"

definition descriptorEqual :: "Descriptor \<Rightarrow> Descriptor \<Rightarrow> bool" where
  "descriptorEqual a b =
     (Provider a = Provider b \<and> Method a = Method b \<and> Version a = Version b \<and>
      DefaultTimeoutMs a = DefaultTimeoutMs b \<and>
      InputSchema a = InputSchema b \<and> OutputSchema a = OutputSchema b \<and>
      Permissions a = Permissions b \<and>
      length (Tags a) = length (Tags b) \<and>
      list_all (\<lambda>(key, val). gget [] (Tags b) key = val) (Tags a))"

text \<open>\<open>Register\<close>: the error (\<open>None\<close> is nil) and the registry after the call; \<open>None\<close> is a nil receiver.\<close>

definition registerCap ::
  "Descriptor \<Rightarrow> 'f option \<Rightarrow> 'f registry option \<Rightarrow> capError option \<times> 'f registry option" where
  "registerCap d f r =
     (case r of
        None \<Rightarrow> (None, None)
      | Some entries \<Rightarrow>
          (case normalizeDescriptor d of
             Inl err \<Rightarrow> (Some err, r)
           | Inr normalized \<Rightarrow>
               let key = descriptorKey (Method normalized) (Version normalized) in
               (case map_of entries key of
                  Some existing \<Rightarrow>
                    if Provider (desc existing) = Provider normalized \<and>
                       descriptorEqual (desc existing) normalized
                    then (None, Some (if f \<noteq> None then gput key (existing\<lparr>invoke := f\<rparr>) entries else entries))
                    else (Some ErrConflict, r)
                | None \<Rightarrow> (None, Some (gput key \<lparr>desc = normalized, invoke = f\<rparr> entries)))))"

definition lookupCap :: "string \<Rightarrow> string \<Rightarrow> 'f registry option \<Rightarrow> (Descriptor \<times> 'f option) option" where
  "lookupCap m v r =
     (case r of
        None \<Rightarrow> None
      | Some entries \<Rightarrow> map_option (\<lambda>e. (desc e, invoke e)) (map_of entries (descriptorKey m v)))"

definition listCap :: "'f registry option \<Rightarrow> Descriptor list" where
  "listCap r =
     (case r of
        None \<Rightarrow> []
      | Some entries \<Rightarrow>
          sort_key (\<lambda>d. (Method d, Version d, Provider d)) (map (\<lambda>(k, e). desc e) entries))"

text \<open>
  \<open>SharedRegistry\<close>: one registry per pointer scope, kept in a process-wide map; a
  registry is named by its position in the heap of registries.
\<close>

datatype scopeVal = ScopeNil | ScopeNonPointer | ScopePointer nat

definition sharedScopeKey :: "scopeVal \<Rightarrow> nat" where
  "sharedScopeKey s = (case s of ScopePointer p \<Rightarrow> p | _ \<Rightarrow> 0)"

record 'f regHeap =
  sharedRegistries :: "(nat, nat) gomap"
  regs :: "'f registry list"

definition sharedRegistry :: "scopeVal \<Rightarrow> 'f regHeap \<Rightarrow> nat \<times> 'f regHeap" where
  "sharedRegistry scope h =
     (let key = sharedScopeKey scope;
          fresh = length (regs h);
          h' = h\<lparr>regs := regs h @ [newRegistry]\<rparr>
      in if key = 0 then (fresh, h')
         else case map_of (sharedRegistries h) key of
                Some r \<Rightarrow> (r, h)
              | None \<Rightarrow> (fresh, h'\<lparr>sharedRegistries := gput key fresh (sharedRegistries h')\<rparr>))"

text \<open>What every stored entry satisfies.\<close>

definition trimmed :: "string \<Rightarrow> bool" where
  "trimmed s = (trimSpace s = s)"

definition normalDescriptor :: "Descriptor \<Rightarrow> bool" where
  "normalDescriptor d =
     (trimmed (Provider d) \<and> Provider d \<noteq> [] \<and> trimmed (Method d) \<and> Method d \<noteq> [] \<and>
      trimmed (Version d) \<and> 0 \<le> DefaultTimeoutMs d \<and> list_all trimmed (Permissions d) \<and>
      wf_gomap (Tags d) \<and>
      list_all (\<lambda>(k, v). trimmed k \<and> k \<noteq> [] \<and> trimmed v) (Tags d))"

definition reginv :: "'f registry \<Rightarrow> bool" where
  "reginv r =
     (wf_gomap r \<and>
      (\<forall>(k, e)\<in>set r. k = descriptorKey (Method (desc e)) (Version (desc e)) \<and> normalDescriptor (desc e)))"

subsection \<open>Tags\<close>

lemma set_gput: "set (gput k v m) \<subseteq> insert (k, v) (set m)"
  by (induction m) auto

lemma set_gdel: "set (gdel k m) \<subseteq> set m"
  by (auto simp: AList.delete_eq)

lemma wf_normTag: "wf_gomap m \<Longrightarrow> wf_gomap (normTag m k)"
  by (auto simp: normTag_def Let_def split: option.split)

lemma normTag_entry:
  assumes "(j, w) \<in> set (normTag m k)"
  shows "(j, w) \<in> set m \<and> j \<noteq> k \<or> (j = trimSpace k \<and> j \<noteq> [] \<and> trimmed w) \<or> (j, w) \<in> set m \<and> map_of m k = None"
proof (cases "map_of m k")
  case None
  with assms show ?thesis by (simp add: normTag_def)
next
  case (Some v)
  have "(j, w) \<in> set (gdel k m) \<Longrightarrow> (j, w) \<in> set m \<and> j \<noteq> k"
    by (auto simp: AList.delete_eq)
  with assms Some set_gput[of "trimSpace k" "trimSpace v" "gdel k m"] show ?thesis
    by (auto simp: normTag_def Let_def trimmed_def split: if_splits)
qed

lemma wf_normTags: "wf_gomap m \<Longrightarrow> wf_gomap (foldl normTag m ks)"
  by (induction ks arbitrary: m) (auto simp: wf_normTag)

text \<open>After its visits every remaining entry is normal or belongs to a key not yet visited.\<close>

lemma normTags_entries:
  assumes "\<forall>(j, w)\<in>set m. j \<in> set ks \<or> (trimmed j \<and> j \<noteq> [] \<and> trimmed w)"
  shows "\<forall>(j, w)\<in>set (foldl normTag m ks). trimmed j \<and> j \<noteq> [] \<and> trimmed w"
  using assms
proof (induction ks arbitrary: m)
  case (Cons k ks)
  have "j \<in> set ks \<or> (trimmed j \<and> j \<noteq> [] \<and> trimmed w)" if jw: "(j, w) \<in> set (normTag m k)" for j w
  proof -
    consider (old) "(j, w) \<in> set m" "j \<noteq> k" | (new) "j = trimSpace k" "j \<noteq> []" "trimmed w"
      | (absent) "(j, w) \<in> set m" "map_of m k = None"
      using normTag_entry[OF jw] by auto
    then show ?thesis
    proof cases
      case old
      with Cons.prems show ?thesis by auto
    next
      case new
      then show ?thesis by (simp add: trimmed_def)
    next
      case absent
      then have "j \<noteq> k" by (metis map_of_eq_None_iff image_eqI fst_conv)
      with absent Cons.prems show ?thesis by auto
    qed
  qed
  then have "\<forall>(j, w)\<in>set (normTag m k). j \<in> set ks \<or> (trimmed j \<and> j \<noteq> [] \<and> trimmed w)"
    by blast
  from Cons.IH[OF this] show ?case by simp
qed auto

text \<open>Visiting an entry that is already normal leaves every lookup unchanged.\<close>

lemma normTag_revisit:
  assumes "trimmed k" and "k \<noteq> []" and "map_of m k = Some v" and "trimmed v"
  shows "map_of (normTag m k) = map_of m"
proof -
  have "normTag m k = gput k v (gdel k m)"
    using assms by (simp add: normTag_def Let_def trimmed_def)
  then show ?thesis
    using assms(3) by (auto simp: update_conv' delete_conv' fun_eq_iff)
qed

lemma normalizeDescriptor_normal:
  assumes "wf_gomap (Tags d)" and "normalizeDescriptor d = Inr n"
  shows "normalDescriptor n"
proof -
  have "\<forall>(j, w)\<in>set (normTags (Tags d)). trimmed j \<and> j \<noteq> [] \<and> trimmed w"
    unfolding normTags_def by (rule normTags_entries) force
  moreover have "wf_gomap (normTags (Tags d))"
    unfolding normTags_def by (rule wf_normTags[OF assms(1)])
  ultimately show ?thesis
    using assms(2)
    by (auto simp: normalizeDescriptor_def normalDescriptor_def Let_def trimmed_def list_all_iff
        split: if_splits)
qed

subsection \<open>Keys\<close>

lemma descriptorKey_trim [simp]: "descriptorKey (trimSpace m) (trimSpace v) = descriptorKey m v"
  by (simp add: descriptorKey_def)

lemma descriptorKey_inj:
  assumes "CHR 0x00 \<notin> set m" and "CHR 0x00 \<notin> set m'"
    and "descriptorKey m v = descriptorKey m' v'"
  shows "trimSpace m = trimSpace m' \<and> trimSpace v = trimSpace v'"
proof -
  have "CHR 0x00 \<notin> set (trimSpace m)" "CHR 0x00 \<notin> set (trimSpace m')"
    using assms(1,2) set_trimSpace by blast+
  then have "splitN2 (CHR 0x00) (descriptorKey m v) = [trimSpace m, trimSpace v]"
    and "splitN2 (CHR 0x00) (descriptorKey m' v') = [trimSpace m', trimSpace v']"
    by (simp_all add: descriptorKey_def)
  with assms(3) show ?thesis by simp
qed

subsection \<open>The registry as a machine\<close>

text \<open>One registration; an event is the descriptor and the function of a call of \<open>Register\<close>.\<close>

definition regStep :: "'f registry \<Rightarrow> Descriptor \<times> 'f option \<Rightarrow> 'f registry" where
  "regStep r e = (case snd (registerCap (fst e) (snd e) (Some r)) of Some r' \<Rightarrow> r' | None \<Rightarrow> r)"

lemma registerCap_cases:
  obtains (err) e where "normalizeDescriptor d = Inl e" "registerCap d f (Some r) = (Some e, Some r)"
  | (fresh) n where "normalizeDescriptor d = Inr n" "map_of r (descriptorKey (Method n) (Version n)) = None"
      "registerCap d f (Some r) =
         (None, Some (gput (descriptorKey (Method n) (Version n)) \<lparr>desc = n, invoke = f\<rparr> r))"
  | (again) n x where "normalizeDescriptor d = Inr n" "map_of r (descriptorKey (Method n) (Version n)) = Some x"
      "descriptorEqual (desc x) n"
      "registerCap d f (Some r) =
         (None, Some (if f \<noteq> None then gput (descriptorKey (Method n) (Version n)) (x\<lparr>invoke := f\<rparr>) r else r))"
  | (conflict) n x where "normalizeDescriptor d = Inr n" "map_of r (descriptorKey (Method n) (Version n)) = Some x"
      "\<not> descriptorEqual (desc x) n" "registerCap d f (Some r) = (Some ErrConflict, Some r)"
proof (cases "normalizeDescriptor d")
  case (Inl e)
  then show ?thesis by (intro err[of e]) (simp_all add: registerCap_def)
next
  case (Inr n)
  show ?thesis
  proof (cases "map_of r (descriptorKey (Method n) (Version n))")
    case None
    with Inr show ?thesis by (intro fresh[of n]) (simp_all add: registerCap_def Let_def)
  next
    case (Some x)
    show ?thesis
    proof (cases "descriptorEqual (desc x) n")
      case True
      then have "Provider (desc x) = Provider n" by (simp add: descriptorEqual_def)
      with True Inr Some show ?thesis
        by (intro again[of n x]) (simp_all add: registerCap_def Let_def)
    next
      case False
      with Inr Some show ?thesis
        by (intro conflict[of n x]) (simp_all add: registerCap_def Let_def)
    qed
  qed
qed

lemma reginv_entry: "reginv r \<Longrightarrow> map_of r k = Some e \<Longrightarrow>
    k = descriptorKey (Method (desc e)) (Version (desc e)) \<and> normalDescriptor (desc e)"
  by (auto simp: reginv_def dest!: map_of_SomeD)

lemma reginv_gput:
  assumes "reginv r" and "k = descriptorKey (Method (desc e)) (Version (desc e))"
    and "normalDescriptor (desc e)"
  shows "reginv (gput k e r)"
  using assms set_gput[of k e r] by (fastforce simp: reginv_def)

lemma registerCap_reginv:
  assumes "reginv r" and "wf_gomap (Tags d)"
  shows "reginv (regStep r (d, f))"
proof (cases rule: registerCap_cases[of d f r])
  case (fresh n)
  then show ?thesis
    using assms normalizeDescriptor_normal[OF assms(2)] by (auto simp: regStep_def intro!: reginv_gput)
next
  case (again n x)
  then show ?thesis
    using assms(1) reginv_entry[OF assms(1) again(2)]
    by (auto simp: regStep_def intro!: reginv_gput)
qed (use assms in \<open>simp_all add: regStep_def\<close>)

interpretation reg: invariant_machine regStep reginv "\<lambda>e. wf_gomap (Tags (fst e))"
  by unfold_locales (auto intro: registerCap_reginv split: prod.splits)

text \<open>The descriptor stored under a key never changes again; only its function may.\<close>

lemma regStep_keeps:
  assumes "map_of r k = Some x"
  shows "\<exists>g. map_of (regStep r (d, f)) k = Some (x\<lparr>invoke := g\<rparr>)"
proof (cases rule: registerCap_cases[of d f r])
  case (fresh n)
  then have "k \<noteq> descriptorKey (Method n) (Version n)" using assms by auto
  with fresh assms show ?thesis
    by (intro exI[of _ "invoke x"]) (simp add: regStep_def update_conv')
next
  case (again n y)
  show ?thesis
  proof (cases "k = descriptorKey (Method n) (Version n) \<and> f \<noteq> None")
    case True
    with again assms show ?thesis
      by (intro exI[of _ f]) (simp add: regStep_def update_conv')
  next
    case False
    with again assms show ?thesis
      by (intro exI[of _ "invoke x"]) (auto simp: regStep_def update_conv')
  qed
qed (use assms in \<open>auto simp: regStep_def intro!: exI[of _ "invoke x"]\<close>)

subsection \<open>Properties\<close>

text \<open>
  after any sequence of registrations, starting from an empty registry, every
  entry is stored under the key of its own method and version and holds a
  normalised descriptor (trimmed non-empty provider and method, trimmed version,
  permissions and tags, no negative timeout), and no key occurs twice.
\<close>

theorem registry_invariant:
  assumes "list_all (\<lambda>e. wf_gomap (Tags (fst e))) es"
  shows "reginv (foldl regStep newRegistry es)"
  by (rule reg.run_inv[OF _ assms]) (simp add: reginv_def newRegistry_def)

text \<open>
  a registration that succeeds can be looked up under the method and version
  it was made with, white space around them notwithstanding: the lookup returns
  a descriptor equal to the normalised one, with the registered function when one was given;
  every other key is as before. A registration that fails changes nothing.
\<close>

theorem register_then_lookup:
  assumes "registerCap d f (Some r) = (e, Some r')"
  shows "case e of
           Some err \<Rightarrow> r' = r
         | None \<Rightarrow>
             (\<exists>n d' g. normalizeDescriptor d = Inr n \<and>
                lookupCap (Method d) (Version d) (Some r') = Some (d', g) \<and>
                (d' = n \<or> descriptorEqual d' n) \<and> (f \<noteq> None \<longrightarrow> g = f)) \<and>
             (\<forall>m v. descriptorKey m v \<noteq> descriptorKey (Method d) (Version d) \<longrightarrow>
                lookupCap m v (Some r') = lookupCap m v (Some r))"
proof -
  have key: "descriptorKey (Method n) (Version n) = descriptorKey (Method d) (Version d)"
    if "normalizeDescriptor d = Inr n" for n
    using that by (auto simp: normalizeDescriptor_def Let_def split: if_splits)
  show ?thesis
  proof (cases rule: registerCap_cases[of d f r])
    case (fresh n)
    with assms key[OF fresh(1)] show ?thesis
      by (auto simp: lookupCap_def update_conv')
  next
    case (again n x)
    with assms key[OF again(1)] show ?thesis
      by (auto simp: lookupCap_def update_conv')
  qed (use assms in auto)
qed

text \<open>
  C36: a registered capability cannot be taken over. Once a method and version
  resolve to a descriptor, they resolve to the same descriptor (provider included) after any
  further registrations, by whatever provider.
\<close>

theorem registry_first_wins:
  assumes "reginv r" and "list_all (\<lambda>e. wf_gomap (Tags (fst e))) es"
    and "lookupCap m v (Some r) = Some (d, g)"
  shows "\<exists>g'. lookupCap m v (Some (foldl regStep r es)) = Some (d, g')"
proof -
  let ?P = "\<lambda>r :: 'a registry. \<exists>g. lookupCap m v (Some r) = Some (d, g)"
  have "?P (regStep s e)" if "?P s" for s :: "'a registry" and e
  proof -
    from that obtain x where "map_of s (descriptorKey m v) = Some x" "desc x = d"
      by (auto simp: lookupCap_def)
    with regStep_keeps[OF this(1), of "fst e" "snd e"] show ?thesis
      by (auto simp: lookupCap_def)
  qed
  then show ?thesis using assms by (intro reg.run_stable[where P = ?P]) auto
qed

text \<open>
  registering a key that is already taken by another provider reports the
  conflict and leaves the registry as it was.
\<close>

theorem register_conflict:
  assumes "normalizeDescriptor d = Inr n"
    and "lookupCap (Method d) (Version d) (Some r) = Some (x, g)" and "Provider x \<noteq> Provider n"
  shows "registerCap d f (Some r) = (Some ErrConflict, Some r)"
proof (cases rule: registerCap_cases[of d f r])
  case (err e)
  with assms(1) show ?thesis by simp
next
  case (fresh n')
  with assms show ?thesis
    by (auto simp: lookupCap_def normalizeDescriptor_def Let_def split: if_splits)
next
  case (again n' y)
  with assms show ?thesis
    by (auto simp: lookupCap_def normalizeDescriptor_def descriptorEqual_def Let_def split: if_splits)
qed

text \<open>
  \<open>List\<close> returns the descriptor of every entry, each exactly once, in the
  order of method, then version, then provider.
\<close>

theorem list_sorted_complete:
  "mset (listCap (Some r)) = mset (map (\<lambda>(k, e). desc e) r) \<and>
   sorted (map (\<lambda>d. (Method d, Version d, Provider d)) (listCap (Some r)))"
  by (simp add: listCap_def)

text \<open>
  two methods without a NUL byte share a registry key only if they agree,
  up to surrounding white space, in method and version.
\<close>

theorem registry_key_unambiguous:
  assumes "CHR 0x00 \<notin> set m" and "CHR 0x00 \<notin> set m'"
  shows "descriptorKey m v = descriptorKey m' v' \<longleftrightarrow>
           trimSpace m = trimSpace m' \<and> trimSpace v = trimSpace v'"
  using descriptorKey_inj[OF assms] by (auto simp: descriptorKey_def)

text \<open>
  the comparison of tags reads a missing tag as the empty string, so two
  descriptors with different tags can count as equal. Re-registering a
  capability whose only tag has an empty value, with an entirely different tag, reports
  success and keeps the old tags.
\<close>

theorem register_drops_new_tags:
  assumes "trimmed p" and "p \<noteq> []" and "trimmed m" and "m \<noteq> []" and "k \<noteq> j"
    and "trimmed k" and "k \<noteq> []" and "trimmed j" and "j \<noteq> []"
  defines "d t \<equiv> \<lparr>Provider = p, Method = m, Version = [], InputSchema = [], OutputSchema = [],
     DefaultTimeoutMs = 0, Permissions = [], Tags = t\<rparr>"
  shows "\<exists>r. registerCap (d [(k, [])]) f (Some newRegistry) = (None, Some r) \<and>
             registerCap (d [(j, x)]) None (Some r) = (None, Some r) \<and>
             lookupCap m [] (Some r) = Some (d [(k, [])], f)"
proof -
  have nt: "normTags [(i, y)] = [(i, trimSpace y)]" if "trimmed i" "i \<noteq> []" for i y
    using that by (simp add: normTags_def normTag_def Let_def trimmed_def)
  have n: "normalizeDescriptor (d [(i, y)]) = Inr (d [(i, trimSpace y)])" if "trimmed i" "i \<noteq> []" for i y
    using assms(1-4) nt[OF that] by (simp add: d_def normalizeDescriptor_def Let_def trimmed_def)
  have eq: "descriptorEqual (d [(k, [])]) (d [(j, trimSpace x)])"
    using \<open>k \<noteq> j\<close> by (simp add: d_def descriptorEqual_def gget_def)
  let ?r = "[(descriptorKey m [], \<lparr>desc = d [(k, [])], invoke = f\<rparr>)]"
  have "registerCap (d [(k, [])]) f (Some newRegistry) = (None, Some ?r)"
    using n[OF assms(6,7), of "[]"] by (simp add: registerCap_def newRegistry_def Let_def) (simp add: d_def)
  moreover have "registerCap (d [(j, x)]) None (Some ?r) = (None, Some ?r)"
    using n[OF assms(8,9), of x] eq by (simp add: registerCap_def Let_def) (simp add: d_def)
  ultimately show ?thesis by (auto simp: lookupCap_def)
qed

subsection \<open>Shared registries\<close>

definition emptyHeap :: "'f regHeap" where
  "emptyHeap = \<lparr>sharedRegistries = [], regs = []\<rparr>"

definition sharedStep :: "'f regHeap \<Rightarrow> scopeVal \<Rightarrow> 'f regHeap" where
  "sharedStep h s = snd (sharedRegistry s h)"

definition heapInv :: "'f regHeap \<Rightarrow> bool" where
  "heapInv h =
     ((\<forall>k i. map_of (sharedRegistries h) k = Some i \<longrightarrow> k \<noteq> 0 \<and> i < length (regs h)) \<and>
      (\<forall>k l i. map_of (sharedRegistries h) k = Some i \<longrightarrow> map_of (sharedRegistries h) l = Some i \<longrightarrow> k = l))"

lemma sharedStep_heapInv: "heapInv h \<Longrightarrow> heapInv (sharedStep h s)"
  unfolding heapInv_def sharedStep_def sharedRegistry_def Let_def
  by (auto simp: update_conv' less_Suc_eq split: option.splits if_splits)

interpretation sharedReg: invariant_machine sharedStep heapInv "\<lambda>_. True"
  by unfold_locales (rule sharedStep_heapInv)

lemma sharedRegistry_distinct:
  assumes "heapInv h" and "p \<noteq> 0" and "sharedRegistry (ScopePointer p) h = (i, h1)"
    and "sharedRegistry s h1 = (j, h2)"
  shows "i = j \<longleftrightarrow> s = ScopePointer p"
proof -
  have h1: "heapInv h1" using sharedStep_heapInv[OF assms(1), of "ScopePointer p"] assms(3)
    by (simp add: sharedStep_def)
  have i: "map_of (sharedRegistries h1) p = Some i"
    using assms(2,3) by (auto simp: sharedRegistry_def sharedScopeKey_def Let_def update_conv' split: option.splits)
  then have lt: "i < length (regs h1)" using h1 by (auto simp: heapInv_def)
  show ?thesis
  proof (cases "map_of (sharedRegistries h1) (sharedScopeKey s)")
    case None
    then have "j = length (regs h1)" using assms(4) by (auto simp: sharedRegistry_def Let_def split: if_splits)
    moreover have "s \<noteq> ScopePointer p" using None i by (auto simp: sharedScopeKey_def)
    ultimately show ?thesis using lt by auto
  next
    case (Some l)
    then have "sharedScopeKey s \<noteq> 0" using h1 by (auto simp: heapInv_def)
    then have j: "j = l" using Some assms(4) by (auto simp: sharedRegistry_def Let_def)
    have "i = l \<longleftrightarrow> sharedScopeKey s = p"
      using Some i h1 by (auto simp: heapInv_def)
    then show ?thesis
      using j \<open>sharedScopeKey s \<noteq> 0\<close> by (auto simp: sharedScopeKey_def split: scopeVal.splits)
  qed
qed

text \<open>
  callers that pass the same pointer scope share one registry; a caller
  with another pointer scope, or with none, gets a different one. This holds
  after any history of calls of \<open>SharedRegistry\<close>.
\<close>

theorem sharedRegistry_per_scope:
  assumes "p \<noteq> 0" and "sharedRegistry (ScopePointer p) (foldl sharedStep emptyHeap ss) = (i, h1)"
    and "sharedRegistry s h1 = (j, h2)"
  shows "i = j \<longleftrightarrow> s = ScopePointer p"
proof -
  have "heapInv (emptyHeap :: 'a regHeap)" by (simp add: heapInv_def emptyHeap_def)
  then have "heapInv (foldl sharedStep (emptyHeap :: 'a regHeap) ss)"
    by (rule sharedReg.run_inv) (simp add: list_all_iff)
  then show ?thesis by (rule sharedRegistry_distinct[OF _ assms])
qed

subsection \<open>Witnesses\<close>

definition exDesc :: "string \<Rightarrow> Descriptor" where
  "exDesc p = \<lparr>Provider = p, Method = ''m'', Version = [], InputSchema = [], OutputSchema = [],
     DefaultTimeoutMs = 0, Permissions = [], Tags = [(''t'', ''x'')]\<rparr>"

lemma trim_examples [simp]:
  "trimSpace ''p'' = ''p''" "trimSpace ''q'' = ''q''" "trimSpace ''m'' = ''m''"
  "trimSpace ''t'' = ''t''" "trimSpace ''x'' = ''x''" "trimSpace '' p '' = ''p''"
  by code_simp+

lemma exDesc_normal: "normalizeDescriptor (exDesc ''p'') = Inr (exDesc ''p'')"
  "normalizeDescriptor (exDesc ''q'') = Inr (exDesc ''q'')"
  by (simp_all add: normalizeDescriptor_def exDesc_def Let_def normTags_def normTag_def)

lemma exDesc_registered:
  "registerCap (exDesc ''p'') (Some (1 :: nat)) (Some newRegistry) =
     (None, Some [(descriptorKey ''m'' [], \<lparr>desc = exDesc ''p'', invoke = Some 1\<rparr>)])"
  by (simp add: registerCap_def exDesc_normal newRegistry_def Let_def) (simp add: exDesc_def)

lemma lookup_ex:
  "lookupCap ''m'' [] (Some [(descriptorKey ''m'' [], \<lparr>desc = exDesc ''p'', invoke = Some (1 :: nat)\<rparr>)])
     = Some (exDesc ''p'', Some 1)"
  by (simp add: lookupCap_def)

theorem registry_invariant_witness:
  "reginv (foldl regStep newRegistry [(exDesc ''p'', Some (1 :: nat)), (exDesc ''q'', None)])"
  by (rule registry_invariant) (simp add: exDesc_def)

theorem register_then_lookup_witness:
  "\<exists>g. lookupCap ''m'' [] (Some [(descriptorKey ''m'' [], \<lparr>desc = exDesc ''p'', invoke = Some (1 :: nat)\<rparr>)]) =
     Some (exDesc ''p'', g) \<and> g = Some 1"
  using register_then_lookup[OF exDesc_registered] lookup_ex
  by (auto simp: exDesc_normal exDesc_def[of "''p''"])

theorem registry_first_wins_witness:
  "\<exists>g. lookupCap ''m'' [] (Some (foldl regStep [(descriptorKey ''m'' [], \<lparr>desc = exDesc ''p'', invoke = Some (1 :: nat)\<rparr>)]
       [(exDesc ''q'', Some 2)])) = Some (exDesc ''p'', g)"
proof (rule registry_first_wins[OF _ _ lookup_ex])
  show "reginv [(descriptorKey ''m'' [], \<lparr>desc = exDesc ''p'', invoke = Some (1 :: nat)\<rparr>)]"
    by (simp add: reginv_def normalDescriptor_def exDesc_def trimmed_def)
  show "list_all (\<lambda>e. wf_gomap (Tags (fst e))) [(exDesc ''q'', Some (2 :: nat))]"
    by (simp add: exDesc_def)
qed

theorem register_conflict_witness:
  "registerCap (exDesc ''q'') (Some 2) (Some [(descriptorKey ''m'' [], \<lparr>desc = exDesc ''p'', invoke = Some (1 :: nat)\<rparr>)]) =
     (Some ErrConflict, Some [(descriptorKey ''m'' [], \<lparr>desc = exDesc ''p'', invoke = Some 1\<rparr>)])"
proof (rule register_conflict[OF exDesc_normal(2)])
  show "lookupCap (Method (exDesc ''q'')) (Version (exDesc ''q''))
      (Some [(descriptorKey ''m'' [], \<lparr>desc = exDesc ''p'', invoke = Some (1 :: nat)\<rparr>)]) = Some (exDesc ''p'', Some 1)"
    by (simp add: lookupCap_def exDesc_def)
qed (simp add: exDesc_def)

theorem registry_key_unambiguous_witness:
  "descriptorKey ''p'' [] \<noteq> descriptorKey ''q'' []"
  using registry_key_unambiguous[of "''p''" "''q''" "[]" "[]"] by simp

theorem register_drops_new_tags_witness:
  "\<exists>r. registerCap \<lparr>Provider = ''p'', Method = ''m'', Version = [], InputSchema = [], OutputSchema = [],
          DefaultTimeoutMs = 0, Permissions = [], Tags = [(''t'', [])]\<rparr> (Some (1 :: nat)) (Some newRegistry) = (None, Some r) \<and>
       registerCap \<lparr>Provider = ''p'', Method = ''m'', Version = [], InputSchema = [], OutputSchema = [],
          DefaultTimeoutMs = 0, Permissions = [], Tags = [(''x'', ''x'')]\<rparr> None (Some r) = (None, Some r) \<and>
       lookupCap ''m'' [] (Some r) =
         Some (\<lparr>Provider = ''p'', Method = ''m'', Version = [], InputSchema = [], OutputSchema = [],
          DefaultTimeoutMs = 0, Permissions = [], Tags = [(''t'', [])]\<rparr>, Some 1)"
  by (rule register_drops_new_tags) (simp_all add: trimmed_def)

theorem sharedRegistry_per_scope_witness:
  "fst (sharedRegistry (ScopePointer 9) (emptyHeap :: nat regHeap)) \<noteq>
   fst (sharedRegistry (ScopePointer 7) (snd (sharedRegistry (ScopePointer 9) (emptyHeap :: nat regHeap))))"
proof -
  obtain i h1 where 1: "sharedRegistry (ScopePointer 9) (emptyHeap :: nat regHeap) = (i, h1)"
    by (cases "sharedRegistry (ScopePointer 9) (emptyHeap :: nat regHeap)")
  obtain j h2 where 2: "sharedRegistry (ScopePointer 7) h1 = (j, h2)"
    by (cases "sharedRegistry (ScopePointer 7) h1")
  have "sharedRegistry (ScopePointer 9) (foldl sharedStep emptyHeap []) = (i, h1)" using 1 by simp
  from sharedRegistry_per_scope[OF _ this 2] 1 2 show ?thesis by simp
qed

end
