(* ===== verification/Wire_Codecs.thy ===== *)
theory Wire_Codecs
  imports Go_Strings
begin

unbundle bit_operations_syntax

text \<open>
  The binary frames and identifiers: \<open>file/bin.go\<close> (data and acknowledgement frames of a
  file transfer), \<open>stream/bin.go\<close> (the same for streams), \<open>file/uuid.go\<close> (and its
  copies in \<open>stream/uuid.go\<close> and \<open>flow/handler.go\<close>) and \<open>flow/flow_id.go\<close>.

  A byte is an \<open>8 word\<close>, a \<open>[16]byte\<close> is a list of length 16, and the frame
  kinds and the stream header version, which are constants of the protocol package, are parameters.
\<close>

type_synonym byte = "8 word"

text \<open>\<open>binary.BigEndian\<close>: the \<open>k\<close> bytes of a number, and the number of a byte list.\<close>

fun bePut :: "nat \<Rightarrow> nat \<Rightarrow> byte list" where
  "bePut 0 v = []"
| "bePut (Suc k) v = word_of_nat (v div 256 ^ k) # bePut k v"

fun beGet :: "nat \<Rightarrow> byte list \<Rightarrow> nat" where
  "beGet acc [] = acc"
| "beGet acc (b # bs) = beGet (acc * 256 + unat b) bs"

definition putUint16 :: "16 word \<Rightarrow> byte list" where "putUint16 w = bePut 2 (unat w)"
definition putUint32 :: "32 word \<Rightarrow> byte list" where "putUint32 w = bePut 4 (unat w)"
definition putUint64 :: "64 word \<Rightarrow> byte list" where "putUint64 w = bePut 8 (unat w)"
definition uint16 :: "byte list \<Rightarrow> 16 word" where "uint16 bs = word_of_nat (beGet 0 bs)"
definition uint32 :: "byte list \<Rightarrow> 32 word" where "uint32 bs = word_of_nat (beGet 0 bs)"
definition uint64 :: "byte list \<Rightarrow> 64 word" where "uint64 bs = word_of_nat (beGet 0 bs)"

text \<open>The slice \<open>p[i:j]\<close>.\<close>

definition slice :: "nat \<Rightarrow> nat \<Rightarrow> 'a list \<Rightarrow> 'a list" where
  "slice i j p = take (j - i) (drop i p)"

subsection \<open>File frames\<close>

record binHeaderV1 =
  Ver :: byte
  Flags :: byte
  Reserved :: "16 word"
  SessionID :: "byte list"
  Offset :: "64 word"

definition binHeaderV1Size :: nat where "binHeaderV1Size = 1 + 1 + 2 + 16 + 8"
definition binVerV1 :: byte where "binVerV1 = 1"
definition binFlagFIN :: byte where "binFlagFIN = push_bit 0 1"

text \<open>The kind byte, and the header with the body when the \<open>ok\<close> result is true.\<close>

definition decodeBinHeaderV1 ::
  "byte \<Rightarrow> byte \<Rightarrow> byte list \<Rightarrow> byte \<times> (binHeaderV1 \<times> byte list) option" where
  "decodeBinHeaderV1 kindData kindAck payload =
     (if length payload < 1 then (0, None)
      else let kind = payload ! 0 in
        if kind \<noteq> kindData \<and> kind \<noteq> kindAck then (kind, None)
        else if length payload < 1 + binHeaderV1Size then (kind, None)
        else (kind, Some (\<lparr>Ver = payload ! 1, Flags = payload ! 2,
                           Reserved = uint16 (slice 3 5 payload),
                           SessionID = slice 5 21 payload,
                           Offset = uint64 (slice 21 29 payload)\<rparr>,
                          drop 29 payload)))"

definition encodeBinHeaderV1 ::
  "byte \<Rightarrow> byte \<Rightarrow> byte \<Rightarrow> byte list \<Rightarrow> 64 word \<Rightarrow> bool \<Rightarrow> byte list \<Rightarrow> byte list" where
  "encodeBinHeaderV1 kindData kindAck kind sessionID offset fin body =
     (if kind \<noteq> kindData \<and> kind \<noteq> kindAck then []
      else [kind, binVerV1, if fin then 0 OR binFlagFIN else 0, 0, 0] @ sessionID @ putUint64 offset @
           (if kind = kindData then body else []))"

subsection \<open>Stream frames\<close>

record streamDataHeaderV1 =
  sdVer :: byte
  sdFlags :: byte
  sdDeliveryID :: "byte list"
  sdPosition :: "64 word"
  sdPTSMs :: "64 word"

record streamAckHeaderV1 =
  saVer :: byte
  saFlags :: byte
  saDeliveryID :: "byte list"
  saPosition :: "64 word"
  saCreditUnits :: "32 word"
  saReserved :: "32 word"

definition dataHeaderSizeV1 :: nat where "dataHeaderSizeV1 = 1 + 1 + 1 + 16 + 8 + 8"
definition ackHeaderSizeV1 :: nat where "ackHeaderSizeV1 = 1 + 1 + 1 + 16 + 8 + 4 + 4"

definition decodeDataHeaderV1 :: "byte \<Rightarrow> byte list \<Rightarrow> (streamDataHeaderV1 \<times> byte list) option" where
  "decodeDataHeaderV1 kindData payload =
     (if length payload < dataHeaderSizeV1 \<or> payload ! 0 \<noteq> kindData then None
      else Some (\<lparr>sdVer = payload ! 1, sdFlags = payload ! 2, sdDeliveryID = slice 3 19 payload,
                  sdPosition = uint64 (slice 19 27 payload), sdPTSMs = uint64 (slice 27 35 payload)\<rparr>,
                 drop 35 payload))"

definition encodeDataHeaderV1 ::
  "byte \<Rightarrow> byte \<Rightarrow> byte list \<Rightarrow> 64 word \<Rightarrow> 64 word \<Rightarrow> byte \<Rightarrow> byte list \<Rightarrow> byte list" where
  "encodeDataHeaderV1 kindData headerVersionV1 deliveryID position ptsMs flags body =
     [kindData, headerVersionV1, flags] @ deliveryID @ putUint64 position @ putUint64 ptsMs @ body"

definition decodeAckHeaderV1 :: "byte \<Rightarrow> byte list \<Rightarrow> streamAckHeaderV1 option" where
  "decodeAckHeaderV1 kindAck payload =
     (if length payload < ackHeaderSizeV1 \<or> payload ! 0 \<noteq> kindAck then None
      else Some \<lparr>saVer = payload ! 1, saFlags = payload ! 2, saDeliveryID = slice 3 19 payload,
                 saPosition = uint64 (slice 19 27 payload),
                 saCreditUnits = uint32 (slice 27 31 payload),
                 saReserved = uint32 (slice 31 35 payload)\<rparr>)"

definition encodeAckHeaderV1 ::
  "byte \<Rightarrow> byte \<Rightarrow> byte list \<Rightarrow> 64 word \<Rightarrow> 32 word \<Rightarrow> byte \<Rightarrow> byte list" where
  "encodeAckHeaderV1 kindAck headerVersionV1 deliveryID position creditUnits flags =
     [kindAck, headerVersionV1, flags] @ deliveryID @ putUint64 position @ putUint32 creditUnits @ [0, 0, 0, 0]"

subsection \<open>Identifiers\<close>

text \<open>\<open>hex.Encode\<close> and \<open>hex.DecodeString\<close>.\<close>

definition hexChar :: "nat \<Rightarrow> char" where
  "hexChar n = (if n < 10 then char_of (48 + n) else char_of (87 + n))"

definition hexVal :: "char \<Rightarrow> nat option" where
  "hexVal c =
     (let n = (of_char c :: nat) in
      if 48 \<le> n \<and> n \<le> 57 then Some (n - 48)
      else if 97 \<le> n \<and> n \<le> 102 then Some (n - 87)
      else if 65 \<le> n \<and> n \<le> 70 then Some (n - 55)
      else None)"

definition hexEncode :: "byte list \<Rightarrow> string" where
  "hexEncode bs = concat (map (\<lambda>b. [hexChar (unat b div 16), hexChar (unat b mod 16)]) bs)"

fun hexDecode :: "string \<Rightarrow> byte list option" where
  "hexDecode [] = Some []"
| "hexDecode [c] = None"
| "hexDecode (c # d # cs) =
     (case (hexVal c, hexVal d) of
        (Some x, Some y) \<Rightarrow> map_option (\<lambda>bs. word_of_nat (16 * x + y) # bs) (hexDecode cs)
      | _ \<Rightarrow> None)"

definition uuidToString :: "byte list \<Rightarrow> string" where
  "uuidToString b =
     hexEncode (slice 0 4 b) @ ''-'' @ hexEncode (slice 4 6 b) @ ''-'' @ hexEncode (slice 6 8 b) @ ''-'' @
     hexEncode (slice 8 10 b) @ ''-'' @ hexEncode (slice 10 16 b)"

definition parseUUID :: "string \<Rightarrow> byte list option" where
  "parseUUID str =
     (let s = trimSpace (toLower str) in
      if length s \<noteq> 36 then None
      else if s ! 8 \<noteq> CHR ''-'' \<or> s ! 13 \<noteq> CHR ''-'' \<or> s ! 18 \<noteq> CHR ''-'' \<or> s ! 23 \<noteq> CHR ''-'' then None
      else let raw = filter (\<lambda>c. c \<noteq> CHR ''-'') s in
        if length raw \<noteq> 32 then None
        else case hexDecode raw of
               None \<Rightarrow> None
             | Some b \<Rightarrow> if length b \<noteq> 16 then None else Some b)"

text \<open>The version and variant bits that every new identifier gets, from 16 random bytes.\<close>

definition newUUID :: "byte list \<Rightarrow> byte list" where
  "newUUID rnd =
     rnd[6 := (rnd ! 6 AND 0x0f) OR 0x40, 8 := (rnd ! 8 AND 0x3f) OR 0x80]"

text \<open>The identifier of a flow run (\<open>newUUID\<close> of \<open>flow/handler.go\<close>), as a string.\<close>

definition flowNewUUID :: "byte list \<Rightarrow> string" where
  "flowNewUUID rnd = uuidToString (newUUID rnd)"

text \<open>
  \<open>flow/flow_id.go\<close>: the pattern (five groups of hexadecimal digits in either case)
  and the two checks that use it.
\<close>

definition isHex :: "char \<Rightarrow> bool" where
  "isHex c = (hexVal c \<noteq> None)"

definition flowIDPattern :: "string \<Rightarrow> bool" where
  "flowIDPattern s =
     (length s = 36 \<and>
      list_all isHex (slice 0 8 s) \<and> s ! 8 = CHR ''-'' \<and>
      list_all isHex (slice 9 13 s) \<and> s ! 13 = CHR ''-'' \<and>
      list_all isHex (slice 14 18 s) \<and> s ! 18 = CHR ''-'' \<and>
      list_all isHex (slice 19 23 s) \<and> s ! 23 = CHR ''-'' \<and>
      list_all isHex (slice 24 36 s))"

definition validateFlowID :: "string \<Rightarrow> string + string" where
  "validateFlowID raw =
     (let flowID = trimSpace raw in
      if flowID = [] then Inl ''flow_id required''
      else if \<not> flowIDPattern flowID then Inl ''flow_id must be uuid''
      else Inr flowID)"

definition validateRunID :: "string \<Rightarrow> string + string" where
  "validateRunID raw =
     (let runID = trimSpace raw in
      if runID = [] then Inl ''run_id required''
      else if \<not> flowIDPattern runID then Inl ''run_id must be uuid''
      else Inr runID)"

subsection \<open>Big-endian numbers\<close>

lemma length_bePut [simp]: "length (bePut k v) = k"
  by (induction k) auto

lemma length_putUint [simp]:
  "length (putUint16 a) = 2" "length (putUint32 b) = 4" "length (putUint64 c) = 8"
  by (simp_all add: putUint16_def putUint32_def putUint64_def)

lemma unat_word_of_nat_byte: "unat (word_of_nat n :: byte) = n mod 256"
  by (simp add: unsigned_of_nat take_bit_eq_mod)

lemma beGet_bePut: "beGet acc (bePut k v) = acc * 256 ^ k + v mod 256 ^ k"
proof (induction k arbitrary: acc)
  case (Suc k)
  have "v mod (256 * 256 ^ k) = 256 ^ k * (v div 256 ^ k mod 256) + v mod 256 ^ k"
    by (metis mod_mult2_eq mult.commute)
  with Suc show ?case by (simp add: unat_word_of_nat_byte algebra_simps)
qed simp

lemma beGet_bound: "beGet acc bs < (acc + 1) * 256 ^ length bs"
proof (induction bs arbitrary: acc)
  case (Cons b bs)
  have "acc * 256 + unat b + 1 \<le> (acc + 1) * 256"
    using unsigned_less[of b, where ?'a = nat] by simp
  then have "(acc * 256 + unat b + 1) * 256 ^ length bs \<le> (acc + 1) * 256 * 256 ^ length bs"
    by (rule mult_right_mono) simp
  moreover have "beGet acc (b # bs) < (acc * 256 + unat b + 1) * 256 ^ length bs"
    using Cons[of "acc * 256 + unat b"] by simp
  ultimately show ?case by (simp only: list.size power_Suc mult.assoc add_Suc_right add_0_right)
qed simp

lemma beGet_acc: "beGet acc bs = acc * 256 ^ length bs + beGet 0 bs"
proof (induction bs arbitrary: acc)
  case (Cons b bs)
  show ?case
    using Cons[of "acc * 256 + unat b"] Cons[of "unat b"] by (simp add: algebra_simps)
qed simp

lemma bePut_mod: "n \<ge> k \<Longrightarrow> bePut k (a * 256 ^ n + v) = bePut k v"
proof (induction k)
  case (Suc k)
  have "a * 256 ^ n = (a * 256 ^ (n - Suc k) * 256) * 256 ^ k"
    using Suc.prems by (simp flip: power_Suc power_add add: mult.assoc)
  then have "(a * 256 ^ n + v) div 256 ^ k = a * 256 ^ (n - Suc k) * 256 + v div 256 ^ k"
    by (simp only: div_mult_self3[OF power_not_zero] zero_neq_numeral)
  then have "word_of_nat ((a * 256 ^ n + v) div 256 ^ k) = (word_of_nat (v div 256 ^ k) :: byte)"
    by (intro word_unat_eq_iff[THEN iffD2]) (simp only: unat_word_of_nat_byte mod_mult_self3)
  with Suc show ?case by simp
qed simp

lemma bePut_beGet: "bePut (length bs) (beGet 0 bs) = bs"
proof (induction bs)
  case (Cons b bs)
  have lt: "beGet 0 bs < 256 ^ length bs" using beGet_bound[of 0 bs] by simp
  have eq: "beGet 0 (b # bs) = unat b * 256 ^ length bs + beGet 0 bs"
    by (simp add: beGet_acc[of "unat b"])
  then have "beGet 0 (b # bs) div 256 ^ length bs = unat b" using lt by simp
  moreover have "bePut (length bs) (beGet 0 (b # bs)) = bs"
    unfolding eq using Cons by (simp add: bePut_mod)
  ultimately show ?case by simp
qed simp

lemma uint_put [simp]:
  "uint16 (putUint16 a) = a" "uint32 (putUint32 b) = b" "uint64 (putUint64 c) = c"
  using unsigned_less[of a, where ?'a = nat] unsigned_less[of b, where ?'a = nat]
    unsigned_less[of c, where ?'a = nat]
  by (simp_all add: uint16_def uint32_def uint64_def putUint16_def putUint32_def putUint64_def
      beGet_bePut flip: numeral_eq_Suc)

lemma put_uint64 [simp]: "length bs = 8 \<Longrightarrow> putUint64 (uint64 bs) = bs"
  using bePut_beGet[of bs] beGet_bound[of 0 bs]
  by (simp add: putUint64_def uint64_def unsigned_of_nat take_bit_nat_eq_self)

lemma put_uint32 [simp]: "length bs = 4 \<Longrightarrow> putUint32 (uint32 bs) = bs"
  using bePut_beGet[of bs] beGet_bound[of 0 bs]
  by (simp add: putUint32_def uint32_def unsigned_of_nat take_bit_nat_eq_self)

lemma put_uint16 [simp]: "length bs = 2 \<Longrightarrow> putUint16 (uint16 bs) = bs"
  using bePut_beGet[of bs] beGet_bound[of 0 bs]
  by (simp add: putUint16_def uint16_def unsigned_of_nat take_bit_nat_eq_self)

subsection \<open>Slices\<close>

lemma slice_drop: "i \<le> j \<Longrightarrow> slice i j p @ drop j p = drop i p"
  unfolding slice_def by (metis append_take_drop_id drop_drop le_add_diff_inverse2)

lemma length_slice [simp]: "j \<le> length p \<Longrightarrow> length (slice i j p) = j - i"
  by (simp add: slice_def)

lemma head3: "3 \<le> length p \<Longrightarrow> p = [p ! 0, p ! 1, p ! 2] @ drop 3 p"
  by (cases p; cases "tl p"; cases "tl (tl p)") auto

lemma uint_zero [simp]: "uint16 [0, 0] = 0" "uint32 [0, 0, 0, 0] = 0"
  by (simp_all add: uint16_def uint32_def)

subsection \<open>Frame round trips\<close>

text \<open>A file data frame, as the codec of its session, offset, end mark and body.\<close>

definition fileDataEnc :: "byte \<Rightarrow> byte \<Rightarrow> byte list \<times> 64 word \<times> bool \<times> byte list \<Rightarrow> byte list" where
  "fileDataEnc kD kA x = (case x of (sid, off, fin, body) \<Rightarrow> encodeBinHeaderV1 kD kA kD sid off fin body)"

definition fileDataDec :: "byte \<Rightarrow> byte \<Rightarrow> byte list \<Rightarrow> (byte list \<times> 64 word \<times> bool \<times> byte list) option" where
  "fileDataDec kD kA p =
     (case decodeBinHeaderV1 kD kA p of
        (k, Some (h, body)) \<Rightarrow>
          if k = kD \<and> Ver h = binVerV1 then Some (SessionID h, Offset h, Flags h AND binFlagFIN \<noteq> 0, body) else None
      | _ \<Rightarrow> None)"

lemma decode_encode_bin:
  assumes "length sid = 16" and "k = kD \<or> k = kA"
  shows "decodeBinHeaderV1 kD kA (encodeBinHeaderV1 kD kA k sid off fin body) =
           (k, Some (\<lparr>Ver = binVerV1, Flags = if fin then binFlagFIN else 0, Reserved = 0,
                      SessionID = sid, Offset = off\<rparr>, if k = kD then body else []))"
  using assms
  by (auto simp: decodeBinHeaderV1_def encodeBinHeaderV1_def binHeaderV1Size_def slice_def Let_def)

interpretation fileData: codec "fileDataEnc kD kA" "fileDataDec kD kA" "\<lambda>(sid, _). length sid = 16"
  for kD kA
  by unfold_locales
     (auto simp: fileDataEnc_def fileDataDec_def decode_encode_bin binFlagFIN_def split: if_splits)

definition streamDataEnc ::
  "byte \<Rightarrow> byte \<Rightarrow> byte list \<times> 64 word \<times> 64 word \<times> byte \<times> byte list \<Rightarrow> byte list" where
  "streamDataEnc kD v x = (case x of (did, pos, pts, fl, body) \<Rightarrow> encodeDataHeaderV1 kD v did pos pts fl body)"

definition streamDataDec ::
  "byte \<Rightarrow> byte list \<Rightarrow> (byte list \<times> 64 word \<times> 64 word \<times> byte \<times> byte list) option" where
  "streamDataDec kD p =
     map_option (\<lambda>(h, body). (sdDeliveryID h, sdPosition h, sdPTSMs h, sdFlags h, body)) (decodeDataHeaderV1 kD p)"

lemma decode_encode_data:
  assumes "length did = 16"
  shows "decodeDataHeaderV1 kD (encodeDataHeaderV1 kD v did pos pts fl body) =
           Some (\<lparr>sdVer = v, sdFlags = fl, sdDeliveryID = did, sdPosition = pos, sdPTSMs = pts\<rparr>, body)"
  using assms
  by (simp add: decodeDataHeaderV1_def encodeDataHeaderV1_def dataHeaderSizeV1_def slice_def)

interpretation streamData: codec "streamDataEnc kD v" "streamDataDec kD" "\<lambda>(did, _). length did = 16"
  for kD v
  by unfold_locales (auto simp: streamDataEnc_def streamDataDec_def decode_encode_data)

lemma decode_encode_ack:
  assumes "length did = 16"
  shows "decodeAckHeaderV1 kA (encodeAckHeaderV1 kA v did pos cu fl) =
           Some \<lparr>saVer = v, saFlags = fl, saDeliveryID = did, saPosition = pos, saCreditUnits = cu, saReserved = 0\<rparr>"
  using assms
  by (simp add: decodeAckHeaderV1_def encodeAckHeaderV1_def ackHeaderSizeV1_def slice_def)

definition streamAckEnc :: "byte \<Rightarrow> byte \<Rightarrow> byte list \<times> 64 word \<times> 32 word \<times> byte \<Rightarrow> byte list" where
  "streamAckEnc kA v x = (case x of (did, pos, cu, fl) \<Rightarrow> encodeAckHeaderV1 kA v did pos cu fl)"

definition streamAckDec :: "byte \<Rightarrow> byte list \<Rightarrow> (byte list \<times> 64 word \<times> 32 word \<times> byte) option" where
  "streamAckDec kA p =
     map_option (\<lambda>h. (saDeliveryID h, saPosition h, saCreditUnits h, saFlags h)) (decodeAckHeaderV1 kA p)"

interpretation streamAck: codec "streamAckEnc kA v" "streamAckDec kA" "\<lambda>(did, _). length did = 16"
  for kA v
  by unfold_locales (auto simp: streamAckEnc_def streamAckDec_def decode_encode_ack)

lemma encode_decode_data:
  assumes "decodeDataHeaderV1 kD p = Some (h, body)"
  shows "encodeDataHeaderV1 kD (sdVer h) (sdDeliveryID h) (sdPosition h) (sdPTSMs h) (sdFlags h) body = p"
proof -
  from assms have len: "35 \<le> length p" and p0: "p ! 0 = kD"
    by (auto simp: decodeDataHeaderV1_def dataHeaderSizeV1_def split: if_splits)
  have "p = [kD, p ! 1, p ! 2] @ slice 3 19 p @ slice 19 27 p @ slice 27 35 p @ drop 35 p"
    using head3[of p] slice_drop[of 3 19 p] slice_drop[of 19 27 p] slice_drop[of 27 35 p] len p0 by simp
  moreover have "h = \<lparr>sdVer = p ! 1, sdFlags = p ! 2, sdDeliveryID = slice 3 19 p,
        sdPosition = uint64 (slice 19 27 p), sdPTSMs = uint64 (slice 27 35 p)\<rparr>" "body = drop 35 p"
    using assms by (auto simp: decodeDataHeaderV1_def split: if_splits)
  ultimately show ?thesis using len by (simp add: encodeDataHeaderV1_def)
qed

text \<open>
  C39: decoding an encoded file frame gives back the kind, the session, the offset, the
  end-of-file mark and, for a data frame, the body; an acknowledgement carries no body.
\<close>

theorem file_frame_roundtrip:
  assumes "length sid = 16" and "k = kindData \<or> k = kindAck"
  shows "decodeBinHeaderV1 kindData kindAck (encodeBinHeaderV1 kindData kindAck k sid off fin body) =
           (k, Some (\<lparr>Ver = binVerV1, Flags = if fin then binFlagFIN else 0, Reserved = 0,
                      SessionID = sid, Offset = off\<rparr>, if k = kindData then body else []))"
  by (rule decode_encode_bin[OF assms])

text \<open>
  the frame decoders never accept a frame that is too short or of another
  kind, and a stream data frame that is accepted is exactly the encoding of what was
  decoded from it: decoding loses no bit of the frame.
\<close>

theorem stream_frame_lossless:
  assumes "decodeDataHeaderV1 kindData p = Some (h, body)"
  shows "encodeDataHeaderV1 kindData (sdVer h) (sdDeliveryID h) (sdPosition h) (sdPTSMs h) (sdFlags h) body = p \<and>
         dataHeaderSizeV1 \<le> length p \<and> length (sdDeliveryID h) = 16 \<and> length body = length p - dataHeaderSizeV1"
proof -
  have "dataHeaderSizeV1 \<le> length p" "length (sdDeliveryID h) = 16" "length body = length p - dataHeaderSizeV1"
    using assms by (auto simp: decodeDataHeaderV1_def dataHeaderSizeV1_def split: if_splits)
  with encode_decode_data[OF assms] show ?thesis by simp
qed

text \<open>
  stream data frames and stream acknowledgements decode to what was
  encoded, and when the kinds differ neither is ever taken for the other.
\<close>

theorem stream_frame_roundtrip:
  assumes "length did = 16" and "kindData \<noteq> kindAck"
  shows "decodeDataHeaderV1 kindData (encodeDataHeaderV1 kindData v did pos pts fl body) =
           Some (\<lparr>sdVer = v, sdFlags = fl, sdDeliveryID = did, sdPosition = pos, sdPTSMs = pts\<rparr>, body) \<and>
         decodeAckHeaderV1 kindAck (encodeAckHeaderV1 kindAck v did pos cu fl) =
           Some \<lparr>saVer = v, saFlags = fl, saDeliveryID = did, saPosition = pos, saCreditUnits = cu, saReserved = 0\<rparr> \<and>
         decodeAckHeaderV1 kindAck (encodeDataHeaderV1 kindData v did pos pts fl body) = None \<and>
         decodeDataHeaderV1 kindData (encodeAckHeaderV1 kindAck v did pos cu fl) = None"
  using decode_encode_data[OF assms(1)] decode_encode_ack[OF assms(1)] assms(2)
  by (simp add: decodeAckHeaderV1_def decodeDataHeaderV1_def encodeDataHeaderV1_def encodeAckHeaderV1_def)

theorem file_frame_roundtrip_witness:
  "decodeBinHeaderV1 1 2 (encodeBinHeaderV1 1 2 1 (replicate 16 7) 300 True [9, 8]) =
     (1, Some (\<lparr>Ver = binVerV1, Flags = binFlagFIN, Reserved = 0, SessionID = replicate 16 7, Offset = 300\<rparr>, [9, 8]))"
  using file_frame_roundtrip[of "replicate 16 7" 1 1 2 300 True "[9, 8]"] by simp

theorem stream_frame_lossless_witness:
  "encodeDataHeaderV1 1 5 (replicate 16 7) 300 400 0 [9] = [1, 5, 0] @ replicate 16 7 @ putUint64 300 @ putUint64 400 @ [9] \<and>
   length [9 :: byte] = length ([1, 5, 0] @ replicate 16 7 @ putUint64 300 @ putUint64 400 @ [9]) - dataHeaderSizeV1"
proof -
  have "decodeDataHeaderV1 1 ([1, 5, 0] @ replicate 16 7 @ putUint64 300 @ putUint64 400 @ [9]) =
      Some (\<lparr>sdVer = 5, sdFlags = 0, sdDeliveryID = replicate 16 7, sdPosition = 300, sdPTSMs = 400\<rparr>, [9])"
    using decode_encode_data[of "replicate 16 7" 1 5 300 400 0 "[9]"] by (simp add: encodeDataHeaderV1_def)
  from stream_frame_lossless[OF this] show ?thesis by (simp add: dataHeaderSizeV1_def)
qed

theorem stream_frame_roundtrip_witness:
  "decodeAckHeaderV1 2 (encodeDataHeaderV1 1 5 (replicate 16 7) 300 400 0 [9]) = None"
  using stream_frame_roundtrip[of "replicate 16 7" 1 2 5 300 400 0 "[9]" 1] by simp

subsection \<open>Hexadecimal\<close>

lemma hexVal_hexChar [simp]: "n < 16 \<Longrightarrow> hexVal (hexChar n) = Some n"
  by (auto simp: hexVal_def hexChar_def of_char_of Let_def)

lemma hexVal_bound: "hexVal c = Some n \<Longrightarrow> n < 16"
  by (auto simp: hexVal_def Let_def split: if_splits)

lemma hexChar_hexVal: "hexVal c = Some n \<Longrightarrow> \<not> isUpper c \<Longrightarrow> hexChar n = c"
  by (auto simp: hexVal_def hexChar_def isUpper_def Let_def split: if_splits)

lemma unat_byte_lt: "unat (b :: byte) < 256"
  using unsigned_less[of b, where ?'a = nat] by simp

lemma hexEncode_append [simp]: "hexEncode (xs @ ys) = hexEncode xs @ hexEncode ys"
  by (simp add: hexEncode_def)

lemma hexEncode_simps [simp]:
  "hexEncode [] = []"
  "hexEncode (b # bs) = hexChar (unat b div 16) # hexChar (unat b mod 16) # hexEncode bs"
  by (simp_all add: hexEncode_def)

lemma length_hexEncode [simp]: "length (hexEncode bs) = 2 * length bs"
  by (induction bs) auto

lemma hexDecode_hexEncode [simp]: "hexDecode (hexEncode bs) = Some bs"
proof (induction bs)
  case (Cons b bs)
  have "16 * (unat b div 16) + unat b mod 16 = unat b" by simp
  then have "word_of_nat (16 * (unat b div 16) + unat b mod 16) = b"
    using unat_byte_lt[of b] by (intro word_unat_eq_iff[THEN iffD2]) (simp only: unat_word_of_nat_byte mod_less)
  with Cons unat_byte_lt[of b] show ?case by simp
qed simp

interpretation hex: codec hexEncode hexDecode "\<lambda>_. True"
  by unfold_locales simp

lemma hexEncode_hexDecode:
  "hexDecode s = Some bs \<Longrightarrow> list_all (\<lambda>c. \<not> isUpper c) s \<Longrightarrow> hexEncode bs = s"
proof (induction s arbitrary: bs rule: hexDecode.induct)
  case (3 c d cs)
  then obtain x y bs' where v: "hexVal c = Some x" "hexVal d = Some y"
    and r: "hexDecode cs = Some bs'" and bs: "bs = word_of_nat (16 * x + y) # bs'"
    by (auto split: option.splits)
  have lt: "x < 16" "y < 16" using v hexVal_bound by auto
  then have "16 * x + y < 256" by simp
  then have "unat (word_of_nat (16 * x + y) :: byte) = 16 * x + y"
    by (simp only: unat_word_of_nat_byte mod_less)
  moreover have "hexEncode bs' = cs" using 3 v r by (auto split: option.splits)
  ultimately show ?case using bs lt v 3(3) by (simp add: hexChar_hexVal)
qed auto

text \<open>The characters an encoded byte can give.\<close>

lemma hexChar_range:
  assumes "n < 16"
  shows "isHex (hexChar n) \<and> \<not> isUpper (hexChar n) \<and> hexChar n \<noteq> CHR ''-'' \<and>
         0x20 < (of_char (hexChar n) :: nat) \<and> (of_char (hexChar n) :: nat) < 0x80"
proof -
  have of: "(of_char (hexChar n) :: nat) = (if n < 10 then 48 + n else 87 + n)"
    using assms by (auto simp: hexChar_def of_char_of)
  then have "hexChar n \<noteq> CHR ''-''" by (auto split: if_splits)
  with of assms show ?thesis by (auto simp: isHex_def isUpper_def)
qed

lemma hexEncode_chars:
  assumes "c \<in> set (hexEncode bs)"
  shows "isHex c \<and> \<not> isUpper c \<and> c \<noteq> CHR ''-'' \<and> 0x20 < (of_char c :: nat) \<and> (of_char c :: nat) < 0x80"
proof -
  from assms obtain b where "c = hexChar (unat b div 16) \<or> c = hexChar (unat (b :: byte) mod 16)"
    by (auto simp: hexEncode_def)
  then show ?thesis using hexChar_range unat_byte_lt[of b] by auto
qed

lemma toLower_id:
  assumes "\<And>c. c \<in> set s \<Longrightarrow> \<not> isUpper c \<and> (of_char c :: nat) < 0x80"
  shows "toLower s = s"
  using assms
proof (induction s)
  case (Cons c cs)
  then have "c \<noteq> CHR 0xC4" "c \<noteq> CHR 0xE2" by force+
  with Cons show ?case by (simp add: lowerChar_def)
qed simp

lemma toLower_no_upper: "list_all (\<lambda>c. \<not> isUpper c) (toLower s)"
proof (induction s rule: toLower.induct)
  case (2 c cs)
  have "\<not> isUpper (lowerChar c)"
    by (auto simp: lowerChar_def isUpper_def of_char_of)
  moreover have "\<not> isUpper (CHR ''i'')" "\<not> isUpper (CHR ''k'')" by (simp_all add: isUpper_def)
  ultimately show ?case using 2 by simp
qed simp

subsection \<open>UUIDs\<close>

lemma uuid_slices:
  assumes "length b = 16"
  shows "b = slice 0 4 b @ slice 4 6 b @ slice 6 8 b @ slice 8 10 b @ slice 10 16 b"
  using slice_drop[of 0 4 b] slice_drop[of 4 6 b] slice_drop[of 6 8 b] slice_drop[of 8 10 b]
    slice_drop[of 10 16 b] assms by simp

lemma uuid_chars:
  assumes "c \<in> set (uuidToString b)"
  shows "(isHex c \<or> c = CHR ''-'') \<and> \<not> isUpper c \<and> 0x20 < (of_char c :: nat) \<and> (of_char c :: nat) < 0x80"
  using assms by (auto simp: uuidToString_def isUpper_def dest: hexEncode_chars)

lemma uuid_normal: "trimSpace (toLower (uuidToString b)) = uuidToString b"
  "trimSpace (uuidToString b) = uuidToString b"
proof -
  show t: "trimSpace (uuidToString b) = uuidToString b"
    by (rule trimSpace_graphic) (auto dest: uuid_chars)
  have "toLower (uuidToString b) = uuidToString b"
    by (rule toLower_id) (auto dest: uuid_chars)
  with t show "trimSpace (toLower (uuidToString b)) = uuidToString b" by simp
qed

lemma filter_hexEncode: "filter (\<lambda>c. c \<noteq> CHR ''-'') (hexEncode bs) = hexEncode bs"
  by (rule filter_True) (auto dest: hexEncode_chars)

lemma uuid_undashed:
  assumes "length b = 16"
  shows "filter (\<lambda>c. c \<noteq> CHR ''-'') (uuidToString b) = hexEncode b"
proof -
  have "filter (\<lambda>c. c \<noteq> CHR ''-'') (uuidToString b) =
      hexEncode (slice 0 4 b @ slice 4 6 b @ slice 6 8 b @ slice 8 10 b @ slice 10 16 b)"
    by (simp add: uuidToString_def filter_hexEncode)
  then show ?thesis using uuid_slices[OF assms] by simp
qed

lemma length_uuid: "length b = 16 \<Longrightarrow> length (uuidToString b) = 36"
  by (simp add: uuidToString_def)

lemma uuid_dashes:
  assumes "length b = 16"
  shows "uuidToString b ! 8 = CHR ''-''" "uuidToString b ! 13 = CHR ''-''"
    "uuidToString b ! 18 = CHR ''-''" "uuidToString b ! 23 = CHR ''-''"
  using assms by (simp_all add: uuidToString_def nth_append)

lemma parse_uuid: "length b = 16 \<Longrightarrow> parseUUID (uuidToString b) = Some b"
  by (simp add: parseUUID_def uuid_normal length_uuid uuid_dashes uuid_undashed Let_def)

interpretation uuid: codec uuidToString parseUUID "\<lambda>b. length b = 16"
  by unfold_locales (rule parse_uuid)

lemma slice_step: "i \<le> j \<Longrightarrow> j < length p \<Longrightarrow> drop i p = slice i j p @ p ! j # drop (Suc j) p"
  by (simp add: slice_drop Cons_nth_drop_Suc)

lemma filter_full: "length (filter P xs) = length xs \<Longrightarrow> filter P xs = xs"
  by (metis filter_True length_filter_less less_irrefl)

text \<open>The five groups of a string of the UUID shape.\<close>

lemma uuid_groups:
  assumes "length s = 36" and "s ! 8 = CHR ''-''" and "s ! 13 = CHR ''-''" and "s ! 18 = CHR ''-''"
    and "s ! 23 = CHR ''-''"
  shows "s = slice 0 8 s @ ''-'' @ slice 9 13 s @ ''-'' @ slice 14 18 s @ ''-'' @ slice 19 23 s @ ''-'' @ slice 24 36 s"
proof -
  have "drop 24 s = slice 24 36 s" using assms(1) by (simp add: slice_def)
  then show ?thesis
    using slice_step[of 0 8 s] slice_step[of 9 13 s] slice_step[of 14 18 s] slice_step[of 19 23 s] assms
    by (simp flip: numeral_eq_Suc)
qed

lemma uuid_raw:
  assumes "length s = 36" and "s ! 8 = CHR ''-''" and "s ! 13 = CHR ''-''" and "s ! 18 = CHR ''-''"
    and "s ! 23 = CHR ''-''" and "length (filter (\<lambda>c. c \<noteq> CHR ''-'') s) = 32"
  shows "filter (\<lambda>c. c \<noteq> CHR ''-'') s =
           slice 0 8 s @ slice 9 13 s @ slice 14 18 s @ slice 19 23 s @ slice 24 36 s"
proof -
  let ?F = "filter (\<lambda>c. c \<noteq> CHR ''-'')"
  have f: "?F s = ?F (slice 0 8 s) @ ?F (slice 9 13 s) @ ?F (slice 14 18 s) @ ?F (slice 19 23 s) @ ?F (slice 24 36 s)"
    by (subst uuid_groups[OF assms(1-5)]) simp
  have le: "length (?F (slice i j s)) \<le> j - i" if "j \<le> 36" for i j
    using length_filter_le[of _ "slice i j s"] assms(1) that by simp
  have "length (?F (slice 0 8 s)) = 8" "length (?F (slice 9 13 s)) = 4" "length (?F (slice 14 18 s)) = 4"
    "length (?F (slice 19 23 s)) = 4" "length (?F (slice 24 36 s)) = 12"
    using assms(6) le[of 8 0] le[of 13 9] le[of 18 14] le[of 23 19] le[of 36 24] unfolding f by auto
  then show ?thesis unfolding f using assms(1) by (simp add: filter_full)
qed

lemma parseUUID_sound:
  assumes "parseUUID str = Some b"
  shows "length b = 16 \<and> uuidToString b = trimSpace (toLower str)"
proof -
  define s where "s = trimSpace (toLower str)"
  have s: "length s = 36" "s ! 8 = CHR ''-''" "s ! 13 = CHR ''-''" "s ! 18 = CHR ''-''" "s ! 23 = CHR ''-''"
    "length (filter (\<lambda>c. c \<noteq> CHR ''-'') s) = 32"
    and dec: "hexDecode (filter (\<lambda>c. c \<noteq> CHR ''-'') s) = Some b" and len: "length b = 16"
    using assms by (auto simp: parseUUID_def s_def Let_def split: if_splits option.splits)
  have "list_all (\<lambda>c. \<not> isUpper c) s"
    using toLower_no_upper[of str] set_trimSpace[of "toLower str"] by (auto simp: s_def list_all_iff)
  then have "hexEncode b = filter (\<lambda>c. c \<noteq> CHR ''-'') s"
    by (intro hexEncode_hexDecode[OF dec]) (auto simp: list_all_iff)
  then have "hexEncode (slice 0 4 b) @ hexEncode (slice 4 6 b) @ hexEncode (slice 6 8 b) @
      hexEncode (slice 8 10 b) @ hexEncode (slice 10 16 b) =
      slice 0 8 s @ slice 9 13 s @ slice 14 18 s @ slice 19 23 s @ slice 24 36 s"
    using uuid_slices[OF len] uuid_raw[OF s] by (metis hexEncode_append)
  then have "uuidToString b = s"
    using uuid_groups[OF s(1-5)] len s(1) by (simp add: uuidToString_def)
  with len show ?thesis by (simp add: s_def)
qed

lemma uuid_pattern:
  assumes "length b = 16"
  shows "flowIDPattern (uuidToString b)"
proof -
  have "list_all isHex (hexEncode bs)" for bs
    using hexEncode_chars by (auto simp: list_all_iff)
  then show ?thesis
    using assms uuid_dashes[OF assms] length_uuid[OF assms]
    by (simp add: flowIDPattern_def) (simp add: uuidToString_def slice_def)
qed

lemma length_newUUID [simp]: "length (newUUID rnd) = length rnd"
  by (simp add: newUUID_def)

subsection \<open>Properties of identifiers\<close>

text \<open>
  \<open>parseUUID\<close> inverts \<open>uuidToString\<close> on every 16-byte identifier, and it accepts
  nothing else: a string it accepts is, after lower-casing and trimming, the canonical text of the
  identifier it returns.
\<close>

theorem uuid_roundtrip:
  assumes "length b = 16"
  shows "parseUUID (uuidToString b) = Some b \<and>
         (parseUUID str = Some b \<longleftrightarrow> uuidToString b = trimSpace (toLower str))"
proof -
  have "parseUUID str = Some b" if "uuidToString b = trimSpace (toLower str)"
  proof -
    have "trimSpace (toLower str) = trimSpace (toLower (uuidToString b))"
      using that uuid_normal(1) by metis
    then have "parseUUID str = parseUUID (uuidToString b)" by (simp only: parseUUID_def)
    with parse_uuid[OF assms] show ?thesis by simp
  qed
  then show ?thesis using parse_uuid[OF assms] parseUUID_sound by blast
qed

text \<open>
  an identifier generated for a flow run has version 4 and the RFC variant,
  keeps every other random bit, and passes the validation that later requests naming the run
  or the flow go through.
\<close>

theorem generated_ids_are_valid:
  assumes "length rnd = 16"
  shows "validateRunID (flowNewUUID rnd) = Inr (flowNewUUID rnd) \<and>
         validateFlowID (flowNewUUID rnd) = Inr (flowNewUUID rnd) \<and>
         drop_bit 4 (newUUID rnd ! 6) = 4 \<and> drop_bit 6 (newUUID rnd ! 8) = 2 \<and>
         newUUID rnd ! 6 AND 0x0f = rnd ! 6 AND 0x0f \<and> newUUID rnd ! 8 AND 0x3f = rnd ! 8 AND 0x3f \<and>
         (\<forall>i<16. i \<noteq> 6 \<longrightarrow> i \<noteq> 8 \<longrightarrow> newUUID rnd ! i = rnd ! i)"
proof -
  have len: "length (newUUID rnd) = 16" using assms by simp
  have "flowNewUUID rnd \<noteq> []" using length_uuid[OF len] by (auto simp: flowNewUUID_def)
  moreover have "flowIDPattern (flowNewUUID rnd)" by (simp add: flowNewUUID_def uuid_pattern[OF len])
  moreover have "trimSpace (flowNewUUID rnd) = flowNewUUID rnd"
    by (simp add: flowNewUUID_def uuid_normal)
  ultimately show ?thesis
    using assms
    by (simp add: validateRunID_def validateFlowID_def newUUID_def Let_def drop_bit_or drop_bit_and
        bit.conj_disj_distrib2 and.assoc)
qed

theorem uuid_roundtrip_witness:
  "parseUUID (uuidToString (replicate 16 0xAB)) = Some (replicate 16 0xAB)"
  using uuid_roundtrip[of "replicate 16 0xAB"] by simp

theorem generated_ids_are_valid_witness:
  "validateRunID (flowNewUUID (replicate 16 0xFF)) = Inr (flowNewUUID (replicate 16 0xFF))"
  using generated_ids_are_valid[of "replicate 16 0xFF"] by simp

end
