(* ===== verification/Node_Env.thy ===== *)
theory Node_Env
  imports Go_Strings
begin

text \<open>
  What the sub-protocols see of the framework (\<open>myflowhub-core\<close>, which is not part
  of the repository): connections with their metadata, the frame header, and the
  server with its connection manager. All of it is a parameter of the model. A
  \<open>server\<close> value is one snapshot of the framework: the functions \<open>sGet\<close>, \<open>sByNode\<close> and \<open>sSendErr\<close> and
  the list \<open>sConns\<close> (in the order in which \<open>Range\<close> visits it) are arbitrary.

  A \<open>float64\<close> metadata value is represented by what the code observes of it: whether it is
  at least 0 and its conversion to \<open>uint32\<close>.
\<close>

type_synonym nodeID = "32 word"

datatype metaVal =
    MUint32 "32 word" | MUint64 "64 word" | MInt "64 word" | MInt64 "64 word"
  | MFloat64 bool "32 word" | MString string | MOther

datatype major = MajorCmd | MajorOKResp | MajorOther nat

record header =
  hMajor :: major
  hSubProto :: "8 word"
  hSourceID :: nodeID
  hTargetID :: nodeID
  hMsgID :: "32 word"
  hTraceID :: "32 word"
  hRest :: nat

record conn =
  cID :: string
  cRole :: "metaVal option"
  cNode :: "metaVal option"

record server =
  sNodeID :: nodeID
  sConns :: "conn list"
  sGet :: "string \<Rightarrow> conn option"
  sByNode :: "nodeID \<Rightarrow> conn option"
  sSendErr :: "string \<Rightarrow> bool"
  sHasEventBus :: bool
  sRoleParent :: string

text \<open>The zero value \<open>header.HeaderTcp{}\<close>.\<close>

definition zeroHeader :: header where
  "zeroHeader = \<lparr>hMajor = MajorOther 0, hSubProto = 0, hSourceID = 0, hTargetID = 0,
     hMsgID = 0, hTraceID = 0, hRest = 0\<rparr>"

text \<open>A connection whose role metadata is the string \<open>core.RoleParent\<close>.\<close>

definition isParentConn :: "server \<Rightarrow> conn \<Rightarrow> bool" where
  "isParentConn srv c = (cRole c = Some (MString (sRoleParent srv)))"

definition findParent :: "server option \<Rightarrow> conn option" where
  "findParent osrv = (case osrv of None \<Rightarrow> None | Some srv \<Rightarrow> find (isParentConn srv) (sConns srv))"

text \<open>The node of a connection, from whichever integer type the metadata has.\<close>

definition connNodeID :: "conn \<Rightarrow> nodeID" where
  "connNodeID c =
     (case cNode c of
        Some (MUint32 v) \<Rightarrow> v
      | Some (MUint64 v) \<Rightarrow> ucast v
      | Some (MInt v) \<Rightarrow> if 0 \<le> sint v then ucast v else 0
      | Some (MInt64 v) \<Rightarrow> if 0 \<le> sint v then ucast v else 0
      | Some (MFloat64 nonneg v) \<Rightarrow> if nonneg then v else 0
      | _ \<Rightarrow> 0)"

text \<open>The variant of \<open>flow\<close> and \<open>exec\<close>, which knows only \<open>uint32\<close>.\<close>

definition uintNodeID :: "conn \<Rightarrow> nodeID" where
  "uintNodeID c = (case cNode c of Some (MUint32 v) \<Rightarrow> v | _ \<Rightarrow> 0)"

lemma findParent_SomeD:
  "findParent osrv = Some p \<Longrightarrow> \<exists>srv. osrv = Some srv \<and> p \<in> set (sConns srv) \<and> isParentConn srv p"
  by (auto simp: findParent_def find_Some_iff in_set_conv_nth split: option.splits)

lemma findParent_None [simp]: "findParent None = None"
  by (simp add: findParent_def)

end
