(* ===== verification/Topic_Bus.thy ===== *)
theory Topic_Bus
  imports Node_Env
begin

text \<open>
  \<open>topicbus/topicbus.go\<close>: subscriptions of the directly connected nodes and the
  hop-by-hop forwarding of published events.

  The state keeps two indexes, topic to connections and connection to topics, and the set of
  topics that were announced to the parent. JSON is abstracted: an action receives the decoded
  request (\<open>None\<close> when \<open>json.Unmarshal\<close> fails) and a frame carries structured data; \<open>Publish\<close>
  forwards the undecoded text of its request, which is kept as a string. A
  handler returns the new state and the list of its effects in order: frames
  handed to \<open>Server.Send\<close> (whether the send fails is the server's \<open>sSendErr\<close>), frames written directly
  to a connection, and events published on the event bus.
\<close>

record publishReq =
  pubTopic :: string
  pubName :: string
  pubRest :: string

datatype tbAction =
    ActSubscribe | ActSubscribeResp | ActSubscribeBatch | ActSubscribeBatchResp
  | ActUnsubscribe | ActUnsubscribeResp | ActUnsubscribeBatch | ActUnsubscribeBatchResp
  | ActListSubs | ActListSubsResp | ActPublish

datatype tbData =
    TbResp int string string "string list"
  | TbListResp int "string list"
  | TbBatch "string list"
  | TbRaw string
  | TbPub publishReq

datatype tbOut =
    TbSend string header tbAction tbData
  | TbDirect conn header tbAction tbData
  | TbEvent string publishReq "nodeID option" "nodeID option"

record tbState =
  topicSubs :: "(string, string list) gomap"
  connSubs :: "(string, string list) gomap"
  upstreamActive :: "(string, bool) gomap"
  parentConnID :: string
  parentConnNode :: nodeID
  eventSub :: bool

definition newTopicBus :: tbState where
  "newTopicBus = \<lparr>topicSubs = [], connSubs = [], upstreamActive = [], parentConnID = [],
     parentConnNode = 0, eventSub = False\<rparr>"

fun uniqueStableAcc :: "string list \<Rightarrow> string list \<Rightarrow> string list" where
  "uniqueStableAcc seen [] = []"
| "uniqueStableAcc seen (v # vs) =
     (if v \<in> set seen then uniqueStableAcc seen vs else v # uniqueStableAcc (v # seen) vs)"

definition uniqueStable :: "string list \<Rightarrow> string list" where
  "uniqueStable xs = uniqueStableAcc [] xs"

subsection \<open>The critical sections\<close>

text \<open>One iteration of the loop of \<open>addSubscriptions\<close>.\<close>

definition addOne :: "string \<Rightarrow> tbState \<times> string list \<Rightarrow> string \<Rightarrow> tbState \<times> string list" where
  "addOne connID st t =
     (let (h, needUp) = st; connSet = gget [] (connSubs h) connID in
      if t \<in> set connSet then (h, needUp)
      else
        let subs = gget [] (topicSubs h) t;
            wasEmpty = (subs = []);
            h' = h\<lparr>connSubs := gput connID (sadd t connSet) (connSubs h),
                   topicSubs := gput t (sadd connID subs) (topicSubs h)\<rparr>
        in if wasEmpty \<and> \<not> gget False (upstreamActive h) t
           then (h'\<lparr>upstreamActive := gput t True (upstreamActive h)\<rparr>, needUp @ [t])
           else (h', needUp))"

definition addSubscriptions :: "conn option \<Rightarrow> string list \<Rightarrow> tbState \<Rightarrow> string list \<times> tbState" where
  "addSubscriptions oc topics h =
     (case oc of
        None \<Rightarrow> ([], h)
      | Some c \<Rightarrow>
          if topics = [] then ([], h)
          else
            let connID = cID c;
                h0 = (case map_of (connSubs h) connID of
                        Some _ \<Rightarrow> h
                      | None \<Rightarrow> h\<lparr>connSubs := gput connID [] (connSubs h)\<rparr>);
                (h', needUp) = foldl (addOne connID) (h0, []) topics
            in (needUp, h'))"

text \<open>
  Remove a connection from the subscribers of a topic; when it was the last one, the topic goes
  and, if it was announced upstream, is to be withdrawn.
\<close>

definition dropSub :: "string \<Rightarrow> tbState \<times> string list \<Rightarrow> string \<Rightarrow> tbState \<times> string list" where
  "dropSub connID st t =
     (let (h, needUp) = st in
      case map_of (topicSubs h) t of
        None \<Rightarrow> (h, needUp)
      | Some subs \<Rightarrow>
          let subs' = sdel connID subs in
          if subs' = [] then
            let h' = h\<lparr>topicSubs := gdel t (topicSubs h)\<rparr> in
            if gget False (upstreamActive h) t
            then (h'\<lparr>upstreamActive := gput t False (upstreamActive h)\<rparr>, needUp @ [t])
            else (h', needUp)
          else (h\<lparr>topicSubs := gput t subs' (topicSubs h)\<rparr>, needUp))"

definition removeOne :: "string \<Rightarrow> tbState \<times> string list \<Rightarrow> string \<Rightarrow> tbState \<times> string list" where
  "removeOne connID st t =
     (let (h, needUp) = st; connSet = gget [] (connSubs h) connID in
      if t \<notin> set connSet then (h, needUp)
      else dropSub connID (h\<lparr>connSubs := gput connID (sdel t connSet) (connSubs h)\<rparr>, needUp) t)"

definition removeSubscriptions :: "conn option \<Rightarrow> string list \<Rightarrow> tbState \<Rightarrow> string list \<times> tbState" where
  "removeSubscriptions oc topics h =
     (case oc of
        None \<Rightarrow> ([], h)
      | Some c \<Rightarrow>
          let connID = cID c in
          if topics = [] \<or> map_of (connSubs h) connID = None then ([], h)
          else
            let (h1, needUp) = foldl (removeOne connID) (h, []) topics;
                h2 = (if gget [] (connSubs h1) connID = []
                      then h1\<lparr>connSubs := gdel connID (connSubs h1)\<rparr> else h1)
            in (needUp, h2))"

definition removeConnAll :: "string \<Rightarrow> tbState \<Rightarrow> string list \<times> tbState" where
  "removeConnAll connID h =
     (case map_of (connSubs h) connID of
        None \<Rightarrow> ([], h)
      | Some topics \<Rightarrow>
          let (h', needUp) = foldl (dropSub connID) (h\<lparr>connSubs := gdel connID (connSubs h)\<rparr>, []) topics
          in (needUp, h'))"

definition rollbackUpstreamMarks :: "string list \<Rightarrow> bool \<Rightarrow> tbState \<Rightarrow> tbState" where
  "rollbackUpstreamMarks topics active h =
     (if active then h\<lparr>upstreamActive := fold (\<lambda>t m. gput t False m) topics (upstreamActive h)\<rparr> else h)"

definition listConnTopics :: "conn option \<Rightarrow> tbState \<Rightarrow> string list" where
  "listConnTopics oc h = (case oc of None \<Rightarrow> [] | Some c \<Rightarrow> sort (gget [] (connSubs h) (cID c)))"

definition snapshotActiveTopics :: "tbState \<Rightarrow> string list" where
  "snapshotActiveTopics h = sort (map fst (filter (\<lambda>(t, subs). subs \<noteq> []) (topicSubs h)))"

subsection \<open>Sending\<close>

text \<open>\<open>forwardToConn\<close>: a command frame to a connection of the server; the result is whether it failed.\<close>

definition forwardToConn :: "8 word \<Rightarrow> server \<Rightarrow> conn \<Rightarrow> tbAction \<Rightarrow> tbData \<Rightarrow> bool \<times> tbOut list" where
  "forwardToConn sp srv target act dat =
     (let hdr = zeroHeader\<lparr>hMajor := MajorCmd, hSubProto := sp, hSourceID := sNodeID srv\<rparr>;
          nid = connNodeID target;
          hdr' = (if nid \<noteq> 0 then hdr\<lparr>hTargetID := nid\<rparr> else hdr)
      in (sSendErr srv (cID target), [TbSend (cID target) hdr' act dat]))"

definition forwardSubscribeBatch :: "8 word \<Rightarrow> server \<Rightarrow> conn \<Rightarrow> string list \<Rightarrow> bool \<times> tbOut list" where
  "forwardSubscribeBatch sp srv target topics =
     forwardToConn sp srv target ActSubscribeBatch (TbBatch (uniqueStable topics))"

definition forwardUnsubscribeBatch :: "8 word \<Rightarrow> server \<Rightarrow> conn \<Rightarrow> string list \<Rightarrow> bool \<times> tbOut list" where
  "forwardUnsubscribeBatch sp srv target topics =
     forwardToConn sp srv target ActUnsubscribeBatch (TbBatch (uniqueStable topics))"

definition maybeSubscribeUpstream ::
  "8 word \<Rightarrow> server option \<Rightarrow> string list \<Rightarrow> tbState \<Rightarrow> tbState \<times> tbOut list" where
  "maybeSubscribeUpstream sp osrv topics h =
     (if topics = [] then (h, [])
      else case (osrv, findParent osrv) of
        (Some srv, Some parent) \<Rightarrow>
          let (err, outs) = forwardSubscribeBatch sp srv parent topics
          in (if err then rollbackUpstreamMarks topics True h else h, outs)
      | _ \<Rightarrow> (rollbackUpstreamMarks topics True h, []))"

definition maybeUnsubscribeUpstream ::
  "8 word \<Rightarrow> server option \<Rightarrow> string list \<Rightarrow> tbState \<Rightarrow> tbState \<times> tbOut list" where
  "maybeUnsubscribeUpstream sp osrv topics h =
     (if topics = [] then (h, [])
      else case (osrv, findParent osrv) of
        (Some srv, Some parent) \<Rightarrow> (h, snd (forwardUnsubscribeBatch sp srv parent topics))
      | _ \<Rightarrow> (h, []))"

definition maybeResubscribeUpstream ::
  "8 word \<Rightarrow> server option \<Rightarrow> tbState \<Rightarrow> tbState \<times> tbOut list" where
  "maybeResubscribeUpstream sp osrv h =
     (case (osrv, findParent osrv) of
        (Some srv, Some parent) \<Rightarrow>
          let parentNode = connNodeID parent; parentID = cID parent in
          if parentNode = 0 then (h, [])
          else if parentID = parentConnID h \<and> parentNode = parentConnNode h then (h, [])
          else
            let topics = snapshotActiveTopics h;
                marked = h\<lparr>parentConnID := parentID, parentConnNode := parentNode\<rparr>
            in if topics = [] then (marked, [])
               else
                 let (err, outs) = forwardSubscribeBatch sp srv parent topics
                 in if err then (h, outs)
                    else (marked\<lparr>upstreamActive :=
                            fold (\<lambda>t m. gput t True m) topics (upstreamActive marked)\<rparr>, outs)
      | _ \<Rightarrow> (h\<lparr>parentConnID := [], parentConnNode := 0\<rparr>, []))"

text \<open>\<open>CloneToTCP\<close> is the framework's and a parameter: \<open>None\<close> when it cannot clone.\<close>

definition buildRespHeader ::
  "(header \<Rightarrow> header option) \<Rightarrow> 8 word \<Rightarrow> server option \<Rightarrow> header option \<Rightarrow> header" where
  "buildRespHeader clone sp osrv reqHdr =
     (let base = (case reqHdr of None \<Rightarrow> zeroHeader
                  | Some r \<Rightarrow> (case clone r of None \<Rightarrow> zeroHeader | Some c \<Rightarrow> c));
          src = (case osrv of None \<Rightarrow> 0 | Some srv \<Rightarrow> sNodeID srv);
          tgt = (case reqHdr of None \<Rightarrow> 0 | Some r \<Rightarrow> if hSourceID r \<noteq> 0 then hSourceID r else 0)
      in base\<lparr>hMajor := MajorOKResp, hSubProto := sp, hSourceID := src, hTargetID := tgt\<rparr>)"

record tbEnv =
  eSubProto :: "8 word"
  eClone :: "header \<Rightarrow> header option"
  eServer :: "server option"

definition sendSimpleResp ::
  "tbEnv \<Rightarrow> conn option \<Rightarrow> header option \<Rightarrow> tbAction \<Rightarrow> tbData \<Rightarrow> tbOut list" where
  "sendSimpleResp env oc reqHdr act dat =
     (case oc of
        None \<Rightarrow> []
      | Some c \<Rightarrow>
          let hdr = buildRespHeader (eClone env) (eSubProto env) (eServer env) reqHdr
          in case eServer env of
               Some srv \<Rightarrow> [TbSend (cID c) hdr act dat]
             | None \<Rightarrow> [TbDirect c hdr act dat])"

definition broadcastToSubscribers ::
  "tbEnv \<Rightarrow> conn option \<Rightarrow> string \<Rightarrow> tbAction \<Rightarrow> tbData \<Rightarrow> tbState \<Rightarrow> tbOut list" where
  "broadcastToSubscribers env src topic act dat h =
     (case eServer env of
        None \<Rightarrow> []
      | Some srv \<Rightarrow>
          let srcConnID = (case src of None \<Rightarrow> [] | Some c \<Rightarrow> cID c);
              targetIDs = filter (\<lambda>i. i \<noteq> srcConnID) (gget [] (topicSubs h) topic);
              baseHdr = zeroHeader\<lparr>hMajor := MajorCmd, hSubProto := eSubProto env, hSourceID := sNodeID srv\<rparr>
          in List.map_filter (\<lambda>i.
               case sGet srv i of
                 None \<Rightarrow> None
               | Some c \<Rightarrow>
                   let nid = connNodeID c;
                       hdr = (if nid \<noteq> 0 then baseHdr\<lparr>hTargetID := nid\<rparr> else baseHdr)
                   in Some (TbSend (cID c) hdr act dat)) targetIDs)"

definition forwardPublishUpstream ::
  "tbEnv \<Rightarrow> conn option \<Rightarrow> tbAction \<Rightarrow> tbData \<Rightarrow> tbOut list" where
  "forwardPublishUpstream env src act dat =
     (case (eServer env, findParent (eServer env)) of
        (Some srv, Some parent) \<Rightarrow>
          if (case src of None \<Rightarrow> False | Some c \<Rightarrow> cID c = cID parent) then []
          else snd (forwardToConn (eSubProto env) srv parent act dat)
      | _ \<Rightarrow> [])"

text \<open>The node metadata of an event: present when not zero.\<close>

definition nodeMeta :: "header option \<Rightarrow> (header \<Rightarrow> nodeID) \<Rightarrow> nodeID option" where
  "nodeMeta oh f = (case oh of None \<Rightarrow> None | Some h \<Rightarrow> if f h \<noteq> 0 then Some (f h) else None)"

definition publishFlowTriggerEvent :: "tbEnv \<Rightarrow> header option \<Rightarrow> publishReq \<Rightarrow> tbOut list" where
  "publishFlowTriggerEvent env oh req =
     (case eServer env of
        Some srv \<Rightarrow>
          if sHasEventBus srv
          then [TbEvent ''topicbus.publish'' req (nodeMeta oh hSourceID) (nodeMeta oh hTargetID)] else []
      | None \<Rightarrow> [])"

definition publishFlowReceivedEvent ::
  "tbEnv \<Rightarrow> conn option \<Rightarrow> header option \<Rightarrow> publishReq \<Rightarrow> tbOut list" where
  "publishFlowReceivedEvent env oc oh req =
     (case (oc, eServer env) of
        (Some c, Some srv) \<Rightarrow>
          if isParentConn srv c \<and> sHasEventBus srv
          then [TbEvent ''topicbus.received'' req (nodeMeta oh hSourceID) (nodeMeta oh hTargetID)] else []
      | _ \<Rightarrow> [])"

subsection \<open>Actions\<close>

datatype tbRequest =
    ReqSubscribe "string option"
  | ReqSubscribeBatch "string list"
  | ReqUnsubscribe "string option"
  | ReqUnsubscribeBatch "string list"
  | ReqListSubs
  | ReqPublish string "publishReq option"
  | ReqUnknown

definition handleSubscribe ::
  "tbEnv \<Rightarrow> conn option \<Rightarrow> header option \<Rightarrow> string option \<Rightarrow> tbState \<Rightarrow> tbState \<times> tbOut list" where
  "handleSubscribe env oc oh req h =
     (case req of
        None \<Rightarrow> (h, sendSimpleResp env oc oh ActSubscribeResp (TbResp 400 ''invalid subscribe'' [] []))
      | Some topic \<Rightarrow>
          let (needUp, h1) = addSubscriptions oc [topic] h;
              outs1 = sendSimpleResp env oc oh ActSubscribeResp (TbResp 1 ''ok'' topic []);
              (h2, outs2) = maybeSubscribeUpstream (eSubProto env) (eServer env) needUp h1
          in (h2, outs1 @ outs2))"

definition handleSubscribeBatch ::
  "tbEnv \<Rightarrow> conn option \<Rightarrow> header option \<Rightarrow> string list \<Rightarrow> tbState \<Rightarrow> tbState \<times> tbOut list" where
  "handleSubscribeBatch env oc oh topics h =
     (let (needUp, h1) = addSubscriptions oc topics h;
          outs1 = sendSimpleResp env oc oh ActSubscribeBatchResp (TbResp 1 ''ok'' [] (uniqueStable topics));
          (h2, outs2) = maybeSubscribeUpstream (eSubProto env) (eServer env) needUp h1
      in (h2, outs1 @ outs2))"

definition handleUnsubscribe ::
  "tbEnv \<Rightarrow> conn option \<Rightarrow> header option \<Rightarrow> string option \<Rightarrow> tbState \<Rightarrow> tbState \<times> tbOut list" where
  "handleUnsubscribe env oc oh req h =
     (case req of
        None \<Rightarrow> (h, sendSimpleResp env oc oh ActUnsubscribeResp (TbResp 1 ''ok'' [] []))
      | Some topic \<Rightarrow>
          let (needUp, h1) = removeSubscriptions oc [topic] h;
              outs1 = sendSimpleResp env oc oh ActUnsubscribeResp (TbResp 1 ''ok'' topic []);
              (h2, outs2) = maybeUnsubscribeUpstream (eSubProto env) (eServer env) needUp h1
          in (h2, outs1 @ outs2))"

definition handleUnsubscribeBatch ::
  "tbEnv \<Rightarrow> conn option \<Rightarrow> header option \<Rightarrow> string list \<Rightarrow> tbState \<Rightarrow> tbState \<times> tbOut list" where
  "handleUnsubscribeBatch env oc oh topics h =
     (let (needUp, h1) = removeSubscriptions oc topics h;
          outs1 = sendSimpleResp env oc oh ActUnsubscribeBatchResp (TbResp 1 ''ok'' [] (uniqueStable topics));
          (h2, outs2) = maybeUnsubscribeUpstream (eSubProto env) (eServer env) needUp h1
      in (h2, outs1 @ outs2))"

definition handleListSubs ::
  "tbEnv \<Rightarrow> conn option \<Rightarrow> header option \<Rightarrow> tbState \<Rightarrow> tbState \<times> tbOut list" where
  "handleListSubs env oc oh h =
     (h, sendSimpleResp env oc oh ActListSubsResp (TbListResp 1 (listConnTopics oc h)))"

definition handlePublish ::
  "tbEnv \<Rightarrow> conn option \<Rightarrow> header option \<Rightarrow> string \<Rightarrow> publishReq option \<Rightarrow> tbState \<Rightarrow> tbState \<times> tbOut list" where
  "handlePublish env oc oh raw dec h =
     (case dec of
        None \<Rightarrow> (h, [])
      | Some req \<Rightarrow>
          if trimSpace (pubName req) = [] then (h, [])
          else (h, publishFlowTriggerEvent env oh req @ publishFlowReceivedEvent env oc oh req @
                   broadcastToSubscribers env oc (pubTopic req) ActPublish (TbRaw raw) h @
                   forwardPublishUpstream env oc ActPublish (TbRaw raw)))"

text \<open>The capability \<open>topicbus::publish\<close>: the error message, or the topic and name of the response.\<close>

definition invokeCapabilityPublish ::
  "tbEnv \<Rightarrow> publishReq option \<Rightarrow> tbState \<Rightarrow> (string + string \<times> string) \<times> tbOut list" where
  "invokeCapabilityPublish env dec h =
     (case dec of
        None \<Rightarrow> (Inl ''invalid topicbus::publish args'', [])
      | Some req0 \<Rightarrow>
          let req = req0\<lparr>pubTopic := trimSpace (pubTopic req0), pubName := trimSpace (pubName req0)\<rparr> in
          if pubName req = [] then (Inl ''name required'', [])
          else (Inr (pubTopic req, pubName req),
                publishFlowTriggerEvent env None req @
                broadcastToSubscribers env None (pubTopic req) ActPublish (TbPub req) h @
                forwardPublishUpstream env None ActPublish (TbPub req)))"

definition ensureConnCloseSubscription :: "tbEnv \<Rightarrow> tbState \<Rightarrow> tbState" where
  "ensureConnCloseSubscription env h =
     (case eServer env of None \<Rightarrow> h | Some srv \<Rightarrow> h\<lparr>eventSub := True\<rparr>)"

definition dispatch ::
  "tbEnv \<Rightarrow> conn option \<Rightarrow> header option \<Rightarrow> tbRequest \<Rightarrow> tbState \<Rightarrow> tbState \<times> tbOut list" where
  "dispatch env oc oh req h =
     (case req of
        ReqSubscribe t \<Rightarrow> handleSubscribe env oc oh t h
      | ReqSubscribeBatch ts \<Rightarrow> handleSubscribeBatch env oc oh ts h
      | ReqUnsubscribe t \<Rightarrow> handleUnsubscribe env oc oh t h
      | ReqUnsubscribeBatch ts \<Rightarrow> handleUnsubscribeBatch env oc oh ts h
      | ReqListSubs \<Rightarrow> handleListSubs env oc oh h
      | ReqPublish raw dec \<Rightarrow> handlePublish env oc oh raw dec h
      | ReqUnknown \<Rightarrow> (h, []))"

text \<open>\<open>None\<close> is a payload that is not a message.\<close>

definition onReceive ::
  "tbEnv \<Rightarrow> conn option \<Rightarrow> header option \<Rightarrow> tbRequest option \<Rightarrow> tbState \<Rightarrow> tbState \<times> tbOut list" where
  "onReceive env oc oh msg h =
     (let h1 = ensureConnCloseSubscription env h;
          (h2, outs1) = maybeResubscribeUpstream (eSubProto env) (eServer env) h1
      in case msg of
           None \<Rightarrow> (h2, outs1)
         | Some req \<Rightarrow> let (h3, outs2) = dispatch env oc oh req h2 in (h3, outs1 @ outs2))"

text \<open>The event \<open>conn.closed\<close>, with the connection identifier read from it.\<close>

definition onConnClosed :: "tbEnv \<Rightarrow> string \<Rightarrow> tbState \<Rightarrow> tbState \<times> tbOut list" where
  "onConnClosed env connID h =
     (if connID = [] then (h, [])
      else let (needUp, h1) = removeConnAll connID h
           in maybeUnsubscribeUpstream (eSubProto env) (eServer env) needUp h1)"

subsection \<open>The specification: a relation between connections and topics\<close>

definition subsRel :: "tbState \<Rightarrow> (string \<times> string) set" where
  "subsRel h = {(c, t). c \<in> set (gget [] (topicSubs h) t)}"

definition isActive :: "tbState \<Rightarrow> string \<Rightarrow> bool" where
  "isActive h t = gget False (upstreamActive h) t"

definition hasSubs :: "(string \<times> string) set \<Rightarrow> string \<Rightarrow> bool" where
  "hasSubs R t = (\<exists>c. (c, t) \<in> R)"

text \<open>
  The two indexes agree; no topic is kept without a subscriber and no connection
  without a topic; no index entry lists anything twice.
\<close>

definition tbcore :: "tbState \<Rightarrow> bool" where
  "tbcore h =
     ((\<forall>c t. t \<in> set (gget [] (connSubs h) c) \<longleftrightarrow> (c, t) \<in> subsRel h) \<and>
      (\<forall>t v. map_of (topicSubs h) t = Some v \<longrightarrow> v \<noteq> [] \<and> distinct v) \<and>
      (\<forall>c v. map_of (connSubs h) c = Some v \<longrightarrow> distinct v))"

definition tbinv :: "tbState \<Rightarrow> bool" where
  "tbinv h = (tbcore h \<and> (\<forall>c v. map_of (connSubs h) c = Some v \<longrightarrow> v \<noteq> []))"

lemma subsRel_iff: "(c, t) \<in> subsRel h \<longleftrightarrow> c \<in> set (gget [] (topicSubs h) t)"
  by (simp add: subsRel_def)

lemma gget_distinct:
  "\<forall>k v. map_of m k = Some v \<longrightarrow> distinct v \<Longrightarrow> distinct (gget [] m k)"
  by (simp add: gget_def split: option.split)

lemma tbcoreD:
  assumes "tbcore h"
  shows "t \<in> set (gget [] (connSubs h) c) \<longleftrightarrow> (c, t) \<in> subsRel h"
    and "distinct (gget [] (topicSubs h) t)" and "distinct (gget [] (connSubs h) c)"
    and "map_of (topicSubs h) t = Some v \<Longrightarrow> v \<noteq> [] \<and> distinct v"
    and "map_of (connSubs h) c = Some w \<Longrightarrow> distinct w"
proof -
  show "t \<in> set (gget [] (connSubs h) c) \<longleftrightarrow> (c, t) \<in> subsRel h"
    using assms unfolding tbcore_def by blast
  show v: "v \<noteq> [] \<and> distinct v" if "map_of (topicSubs h) t = Some v" for t v
    using assms that unfolding tbcore_def by blast
  show w: "distinct w" if "map_of (connSubs h) c = Some w" for c w
    using assms that unfolding tbcore_def by blast
  show "distinct (gget [] (topicSubs h) t)" by (rule gget_distinct) (use v in blast)
  show "distinct (gget [] (connSubs h) c)" by (rule gget_distinct) (use w in blast)
qed

lemma tbcoreI:
  assumes "\<And>c t. t \<in> set (gget [] (connSubs h) c) \<longleftrightarrow> c \<in> set (gget [] (topicSubs h) t)"
    and "\<And>t v. map_of (topicSubs h) t = Some v \<Longrightarrow> v \<noteq> [] \<and> distinct v"
    and "\<And>c w. map_of (connSubs h) c = Some w \<Longrightarrow> distinct w"
  shows "tbcore h"
  unfolding tbcore_def subsRel_iff using assms by blast

lemma agreeD: "tbcore h \<Longrightarrow> t \<in> set (gget [] (connSubs h) c) \<longleftrightarrow> c \<in> set (gget [] (topicSubs h) t)"
  using tbcoreD(1) subsRel_iff by blast

lemma hasSubs_iff: "hasSubs (subsRel h) t \<longleftrightarrow> gget [] (topicSubs h) t \<noteq> []"
  by (auto simp: hasSubs_def subsRel_iff) (metis list.set_intros(1) list.exhaust)

subsection \<open>Adding subscriptions\<close>

lemma addOne_state:
  assumes "tbcore h"
  shows "tbcore (fst (addOne c (h, up) t))"
    and "subsRel (fst (addOne c (h, up) t)) = insert (c, t) (subsRel h)"
proof -
  have agree: "(c, t) \<in> subsRel h" if "t \<in> set (gget [] (connSubs h) c)"
    using that tbcoreD(1)[OF assms] by blast
  show r: "subsRel (fst (addOne c (h, up) t)) = insert (c, t) (subsRel h)"
    using agree by (auto simp: addOne_def subsRel_def Let_def)
  have m: "connSubs (fst (addOne c (h, up) t)) = (if t \<in> set (gget [] (connSubs h) c) then connSubs h
      else gput c (sadd t (gget [] (connSubs h) c)) (connSubs h))"
    by (simp add: addOne_def Let_def)
  have n: "topicSubs (fst (addOne c (h, up) t)) = (if t \<in> set (gget [] (connSubs h) c) then topicSubs h
      else gput t (sadd c (gget [] (topicSubs h) t)) (topicSubs h))"
    by (simp add: addOne_def Let_def)
  show "tbcore (fst (addOne c (h, up) t))"
  proof (rule tbcoreI, unfold m n, goal_cases)
    case (1 d u)
    show ?case using agreeD[OF assms, of u d] by auto
  next
    case (2 u v)
    then show ?case
      using tbcoreD(4)[OF assms, of u v] tbcoreD(2)[OF assms, of t] by (auto simp: update_conv' split: if_splits)
  next
    case (3 d w)
    then show ?case
      using tbcoreD(5)[OF assms, of d w] tbcoreD(3)[OF assms, of c] by (auto simp: update_conv' split: if_splits)
  qed
qed

lemma addOne_up:
  "snd (addOne c (h, up) t) =
     (if t \<notin> set (gget [] (connSubs h) c) \<and> \<not> hasSubs (subsRel h) t \<and> \<not> isActive h t then up @ [t] else up)"
  "isActive (fst (addOne c (h, up) t)) u =
     (isActive h u \<or> (u = t \<and> t \<notin> set (gget [] (connSubs h) c) \<and> \<not> hasSubs (subsRel h) t))"
  by (auto simp: addOne_def isActive_def hasSubs_iff Let_def)

lemma addOne_conn_nonempty:
  "(\<forall>d v. d \<noteq> c \<longrightarrow> map_of (connSubs h) d = Some v \<longrightarrow> v \<noteq> []) \<Longrightarrow>
   (\<forall>d v. d \<noteq> c \<longrightarrow> map_of (connSubs (fst (addOne c (h, up) t))) d = Some v \<longrightarrow> v \<noteq> [])"
  by (auto simp: addOne_def Let_def update_conv')

text \<open>The loop: relation, activation marks and the list of topics to announce.\<close>

lemma addLoop:
  assumes "tbcore h"
  shows "tbcore (fst (foldl (addOne c) (h, up) ts)) \<and>
         subsRel (fst (foldl (addOne c) (h, up) ts)) = subsRel h \<union> {c} \<times> set ts \<and>
         (\<exists>new. snd (foldl (addOne c) (h, up) ts) = up @ new \<and> distinct new \<and>
            set new = {t \<in> set ts. \<not> hasSubs (subsRel h) t \<and> \<not> isActive h t}) \<and>
         (\<forall>t. isActive (fst (foldl (addOne c) (h, up) ts)) t \<longleftrightarrow>
            isActive h t \<or> (t \<in> set ts \<and> \<not> hasSubs (subsRel h) t))"
  using assms
proof (induction ts arbitrary: h up)
  case (Cons t ts)
  obtain h1 up1 where one: "addOne c (h, up) t = (h1, up1)" by fastforce
  have core: "tbcore h1" and rel: "subsRel h1 = insert (c, t) (subsRel h)"
    using addOne_state[OF Cons.prems, of c up t] one by auto
  have t_in: "t \<in> set (gget [] (connSubs h) c) \<Longrightarrow> hasSubs (subsRel h) t"
    using tbcoreD(1)[OF Cons.prems] by (auto simp: hasSubs_def)
  have up1: "up1 = (if \<not> hasSubs (subsRel h) t \<and> \<not> isActive h t then up @ [t] else up)"
    and act1: "isActive h1 u = (isActive h u \<or> (u = t \<and> \<not> hasSubs (subsRel h) t))" for u
    using addOne_up[of c h up t] one t_in by (auto split: if_splits)
  have hs1: "hasSubs (subsRel h1) u = (u = t \<or> hasSubs (subsRel h) u)" for u
    by (auto simp: rel hasSubs_def)
  from Cons.IH[OF core, of up1] obtain new where new:
    "snd (foldl (addOne c) (h1, up1) ts) = up1 @ new" "distinct new"
    "set new = {u \<in> set ts. \<not> hasSubs (subsRel h1) u \<and> \<not> isActive h1 u}" by blast
  let ?n = "if \<not> hasSubs (subsRel h) t \<and> \<not> isActive h t then t # new else new"
  have "snd (foldl (addOne c) (h, up) (t # ts)) = up @ ?n"
    using new(1) by (simp add: one up1)
  moreover have "distinct ?n" using new(2,3) hs1 by auto
  moreover have "set ?n = {u \<in> set (t # ts). \<not> hasSubs (subsRel h) u \<and> \<not> isActive h u}"
    using new(3) hs1 act1 by auto
  ultimately have "\<exists>n. snd (foldl (addOne c) (h, up) (t # ts)) = up @ n \<and> distinct n \<and>
      set n = {u \<in> set (t # ts). \<not> hasSubs (subsRel h) u \<and> \<not> isActive h u}"
    by blast
  moreover have "tbcore (fst (foldl (addOne c) (h, up) (t # ts)))"
    and "subsRel (fst (foldl (addOne c) (h, up) (t # ts))) = subsRel h \<union> {c} \<times> set (t # ts)"
    and "\<And>u. isActive (fst (foldl (addOne c) (h, up) (t # ts))) u \<longleftrightarrow>
      isActive h u \<or> (u \<in> set (t # ts) \<and> \<not> hasSubs (subsRel h) u)"
    using Cons.IH[OF core, of up1] rel act1 hs1 by (auto simp: one)
  ultimately show ?case by blast
qed simp

lemma addLoop_conn_nonempty:
  "(\<forall>d v. d \<noteq> c \<longrightarrow> map_of (connSubs (fst st)) d = Some v \<longrightarrow> v \<noteq> []) \<Longrightarrow>
   (\<forall>d v. d \<noteq> c \<longrightarrow> map_of (connSubs (fst (foldl (addOne c) st ts))) d = Some v \<longrightarrow> v \<noteq> [])"
proof (induction ts arbitrary: st)
  case (Cons t ts)
  have "\<forall>d v. d \<noteq> c \<longrightarrow> map_of (connSubs (fst (addOne c st t))) d = Some v \<longrightarrow> v \<noteq> []"
    using addOne_conn_nonempty[OF Cons.prems, of "snd st" t] by (simp only: prod.collapse)
  from Cons.IH[OF this] show ?case by (simp only: foldl_Cons)
qed (simp only: foldl_Nil)

lemma tbcore_empty_entry:
  assumes "tbcore h" and "map_of (connSubs h) c = None"
  shows "tbcore (h\<lparr>connSubs := gput c [] (connSubs h)\<rparr>)"
proof -
  have e: "gget [] (connSubs h) c = []" using assms(2) by (simp add: gget_def)
  show ?thesis
  proof (rule tbcoreI, goal_cases)
    case (1 d u)
    show ?case using agreeD[OF assms(1), of u d] e by auto
  next
    case (2 u v)
    then show ?case using tbcoreD(4)[OF assms(1), of u v] by simp
  next
    case (3 d w)
    then show ?case using tbcoreD(5)[OF assms(1), of d w] by (auto simp: update_conv' split: if_splits)
  qed
qed

text \<open>\<open>addSubscriptions\<close>: what it adds, what is to be announced, what it marks.\<close>

lemma addSubscriptions_spec:
  assumes "tbinv h" and "addSubscriptions (Some c) ts h = (new, h')"
  shows "tbinv h'" and "subsRel h' = subsRel h \<union> {cID c} \<times> set ts"
    and "distinct new" and "set new = {t \<in> set ts. \<not> hasSubs (subsRel h) t \<and> \<not> isActive h t}"
    and "isActive h' t \<longleftrightarrow> isActive h t \<or> (t \<in> set ts \<and> \<not> hasSubs (subsRel h) t)"
proof -
  let ?i = "cID c"
  define h0 where "h0 = (case map_of (connSubs h) ?i of Some _ \<Rightarrow> h
      | None \<Rightarrow> h\<lparr>connSubs := gput ?i [] (connSubs h)\<rparr>)"
  have core0: "tbcore h0"
    using assms(1) tbcore_empty_entry by (auto simp: h0_def tbinv_def split: option.split)
  have same: "subsRel h0 = subsRel h" "isActive h0 = isActive h"
    by (auto simp: h0_def subsRel_def isActive_def split: option.split)
  have ne0: "\<forall>d v. d \<noteq> ?i \<longrightarrow> map_of (connSubs h0) d = Some v \<longrightarrow> v \<noteq> []"
    using assms(1) by (auto simp: h0_def tbinv_def update_conv' split: option.split)
  have "tbinv h' \<and> subsRel h' = subsRel h \<union> {?i} \<times> set ts \<and> distinct new \<and>
      set new = {t \<in> set ts. \<not> hasSubs (subsRel h) t \<and> \<not> isActive h t} \<and>
      (\<forall>t. isActive h' t \<longleftrightarrow> isActive h t \<or> (t \<in> set ts \<and> \<not> hasSubs (subsRel h) t))"
  proof (cases "ts = []")
    case True
    with assms show ?thesis by (simp add: addSubscriptions_def)
  next
    case False
    then have h': "(h', new) = foldl (addOne ?i) (h0, []) ts"
      using assms(2) by (simp add: addSubscriptions_def h0_def Let_def split: prod.splits)
    have L: "tbcore h'" "subsRel h' = subsRel h \<union> {?i} \<times> set ts" "distinct new"
      "set new = {t \<in> set ts. \<not> hasSubs (subsRel h) t \<and> \<not> isActive h t}"
      "\<forall>t. isActive h' t \<longleftrightarrow> isActive h t \<or> (t \<in> set ts \<and> \<not> hasSubs (subsRel h) t)"
      using addLoop[OF core0, of ?i "[]" ts] same unfolding h'[symmetric] by auto
    have "v \<noteq> []" if "map_of (connSubs h') d = Some v" for d v
    proof (cases "d = ?i")
      case True
      have "hd ts \<in> set (gget [] (connSubs h') ?i)"
        using tbcoreD(1)[OF L(1)] L(2) False by auto
      with that True show ?thesis by (auto simp: gget_def)
    next
      case d: False
      have "\<forall>d v. d \<noteq> ?i \<longrightarrow> map_of (connSubs (fst (h', new))) d = Some v \<longrightarrow> v \<noteq> []"
        unfolding h' using addLoop_conn_nonempty[of ?i "(h0, [])" ts] ne0 by simp
      with d that show ?thesis by simp
    qed
    with L show ?thesis by (simp add: tbinv_def)
  qed
  then show "tbinv h'" "subsRel h' = subsRel h \<union> {?i} \<times> set ts" "distinct new"
    "set new = {t \<in> set ts. \<not> hasSubs (subsRel h) t \<and> \<not> isActive h t}"
    "isActive h' t \<longleftrightarrow> isActive h t \<or> (t \<in> set ts \<and> \<not> hasSubs (subsRel h) t)" by auto
qed

subsection \<open>Removing subscriptions\<close>

definition topicsOK :: "tbState \<Rightarrow> bool" where
  "topicsOK h = (\<forall>t v. map_of (topicSubs h) t = Some v \<longrightarrow> v \<noteq> [] \<and> distinct v)"

lemma tbcore_topicsOK: "tbcore h \<Longrightarrow> topicsOK h"
  unfolding topicsOK_def using tbcoreD(4) by blast

text \<open>The topics for which a connection is the only subscriber.\<close>

definition soleSub :: "(string \<times> string) set \<Rightarrow> string \<Rightarrow> string \<Rightarrow> bool" where
  "soleSub R c t = ((c, t) \<in> R \<and> (\<forall>d. (d, t) \<in> R \<longrightarrow> d = c))"

lemma soleSub_iff:
  assumes "topicsOK h"
  shows "soleSub (subsRel h) c t \<longleftrightarrow> (\<exists>v. map_of (topicSubs h) t = Some v \<and> sdel c v = [])"
proof (cases "map_of (topicSubs h) t")
  case None
  then show ?thesis by (simp add: soleSub_def subsRel_iff gget_def)
next
  case (Some v)
  then have "v \<noteq> []" using assms unfolding topicsOK_def by blast
  then have "soleSub (subsRel h) c t \<longleftrightarrow> set v \<subseteq> {c}"
    using Some by (cases v) (auto simp: soleSub_def subsRel_iff gget_def)
  then show ?thesis using Some by (simp add: sdel_Nil_iff)
qed

lemma dropSub_spec:
  assumes "topicsOK h"
  shows "topicsOK (fst (dropSub c (h, up) t))"
    and "subsRel (fst (dropSub c (h, up) t)) = subsRel h - {(c, t)}"
    and "connSubs (fst (dropSub c (h, up) t)) = connSubs h"
    and "snd (dropSub c (h, up) t) = up @ (if soleSub (subsRel h) c t \<and> isActive h t then [t] else [])"
    and "isActive (fst (dropSub c (h, up) t)) u = (isActive h u \<and> \<not> (u = t \<and> soleSub (subsRel h) c t))"
proof -
  have ok: "v \<noteq> [] \<and> distinct v" if "map_of (topicSubs h) u = Some v" for u v
    using assms that unfolding topicsOK_def by blast
  show "topicsOK (fst (dropSub c (h, up) t))"
    unfolding topicsOK_def
  proof (intro allI impI)
    fix u v assume v: "map_of (topicSubs (fst (dropSub c (h, up) t))) u = Some v"
    show "v \<noteq> [] \<and> distinct v"
    proof (cases "map_of (topicSubs h) t")
      case None
      with v ok[of u v] show ?thesis by (simp add: dropSub_def)
    next
      case (Some subs)
      have "u = t \<and> v = sdel c subs \<and> sdel c subs \<noteq> [] \<or> map_of (topicSubs h) u = Some v"
        using v Some by (auto simp: dropSub_def Let_def update_conv' delete_conv' split: if_splits)
      then show ?thesis using ok[of u v] ok[OF Some] by auto
    qed
  qed
  have g: "gget [] (topicSubs (fst (dropSub c (h, up) t))) u =
      (if u = t then sdel c (gget [] (topicSubs h) t) else gget [] (topicSubs h) u)" for u
    by (cases "map_of (topicSubs h) t")
       (auto simp: dropSub_def Let_def gget_def update_conv' delete_conv' sdel_def)
  show "subsRel (fst (dropSub c (h, up) t)) = subsRel h - {(c, t)}"
    by (auto simp: subsRel_def g split: if_splits)
  show "connSubs (fst (dropSub c (h, up) t)) = connSubs h"
    by (simp add: dropSub_def Let_def split: option.split)
  show "snd (dropSub c (h, up) t) = up @ (if soleSub (subsRel h) c t \<and> isActive h t then [t] else [])"
    unfolding soleSub_iff[OF assms] by (auto simp: dropSub_def Let_def isActive_def split: option.splits)
  show "isActive (fst (dropSub c (h, up) t)) u = (isActive h u \<and> \<not> (u = t \<and> soleSub (subsRel h) c t))"
    unfolding soleSub_iff[OF assms] by (auto simp: dropSub_def Let_def isActive_def split: option.splits)
qed

lemma soleSub_diff: "u \<noteq> t \<Longrightarrow> soleSub (R - {(c, t)}) c u = soleSub R c u"
  by (auto simp: soleSub_def)

lemma not_soleSub_removed: "\<not> soleSub (R - {(c, t)}) c t"
  by (auto simp: soleSub_def)

text \<open>
  Both removal loops are runs of a step with this contract; the contract is closed under
  iteration.
\<close>

locale removal_step =
  fixes rstep :: "string \<Rightarrow> tbState \<times> string list \<Rightarrow> string \<Rightarrow> tbState \<times> string list"
    and good :: "tbState \<Rightarrow> bool"
  assumes r_good: "good h \<Longrightarrow> good (fst (rstep c (h, up) t))"
    and r_rel: "good h \<Longrightarrow> subsRel (fst (rstep c (h, up) t)) = subsRel h - {(c, t)}"
    and r_up: "good h \<Longrightarrow> snd (rstep c (h, up) t) =
          up @ (if soleSub (subsRel h) c t \<and> isActive h t then [t] else [])"
    and r_active: "good h \<Longrightarrow> isActive (fst (rstep c (h, up) t)) u =
          (isActive h u \<and> \<not> (u = t \<and> soleSub (subsRel h) c t))"
begin

lemma r_loop:
  assumes "good h"
  shows "good (fst (foldl (rstep c) (h, up) ts)) \<and>
         subsRel (fst (foldl (rstep c) (h, up) ts)) = subsRel h - {c} \<times> set ts \<and>
         (\<exists>gone. snd (foldl (rstep c) (h, up) ts) = up @ gone \<and> distinct gone \<and>
            set gone = {t \<in> set ts. soleSub (subsRel h) c t \<and> isActive h t}) \<and>
         (\<forall>t. isActive (fst (foldl (rstep c) (h, up) ts)) t \<longleftrightarrow>
            isActive h t \<and> \<not> (t \<in> set ts \<and> soleSub (subsRel h) c t))"
  using assms
proof (induction ts arbitrary: h up)
  case (Cons t ts)
  obtain h1 up1 where one: "rstep c (h, up) t = (h1, up1)" by fastforce
  have h1: "good h1" "subsRel h1 = subsRel h - {(c, t)}"
    "up1 = up @ (if soleSub (subsRel h) c t \<and> isActive h t then [t] else [])"
    "\<And>u. isActive h1 u = (isActive h u \<and> \<not> (u = t \<and> soleSub (subsRel h) c t))"
    using r_good[OF Cons.prems, of c up t] r_rel[OF Cons.prems, of c up t] r_up[OF Cons.prems, of c up t]
      r_active[OF Cons.prems, of c up t] one by auto
  have sole: "soleSub (subsRel h1) c u = (u \<noteq> t \<and> soleSub (subsRel h) c u)" for u
    by (cases "u = t") (simp_all add: h1(2) soleSub_diff not_soleSub_removed)
  from Cons.IH[OF h1(1), of up1] obtain gone where gone:
    "snd (foldl (rstep c) (h1, up1) ts) = up1 @ gone" "distinct gone"
    "set gone = {u \<in> set ts. soleSub (subsRel h1) c u \<and> isActive h1 u}" by blast
  let ?g = "(if soleSub (subsRel h) c t \<and> isActive h t then [t] else []) @ gone"
  have "snd (foldl (rstep c) (h, up) (t # ts)) = up @ ?g" using gone(1) by (simp add: one h1(3))
  moreover have "distinct ?g" using gone(2,3) sole by auto
  moreover have "set ?g = {u \<in> set (t # ts). soleSub (subsRel h) c u \<and> isActive h u}"
    using gone(3) sole h1(4) by auto
  ultimately have "\<exists>g. snd (foldl (rstep c) (h, up) (t # ts)) = up @ g \<and> distinct g \<and>
      set g = {u \<in> set (t # ts). soleSub (subsRel h) c u \<and> isActive h u}" by blast
  moreover have "good (fst (foldl (rstep c) (h, up) (t # ts)))"
    and "subsRel (fst (foldl (rstep c) (h, up) (t # ts))) = subsRel h - {c} \<times> set (t # ts)"
    and "\<And>u. isActive (fst (foldl (rstep c) (h, up) (t # ts))) u \<longleftrightarrow>
      isActive h u \<and> \<not> (u \<in> set (t # ts) \<and> soleSub (subsRel h) c u)"
    using Cons.IH[OF h1(1), of up1] h1 sole by (auto simp: one)
  ultimately show ?case by blast
qed simp

end

interpretation dropper: removal_step dropSub topicsOK
  by unfold_locales (simp_all add: dropSub_spec)

lemma connSubs_upd_simps [simp]:
  "topicsOK (h\<lparr>connSubs := m\<rparr>) = topicsOK h" "subsRel (h\<lparr>connSubs := m\<rparr>) = subsRel h"
  "isActive (h\<lparr>connSubs := m\<rparr>) t = isActive h t"
  by (simp_all add: topicsOK_def subsRel_def isActive_def)

lemma removeOne_drop:
  assumes "t \<in> set (gget [] (connSubs h) c)"
  shows "removeOne c (h, up) t =
    dropSub c (h\<lparr>connSubs := gput c (sdel t (gget [] (connSubs h) c)) (connSubs h)\<rparr>, up) t"
  using assms by (simp add: removeOne_def Let_def)

lemma removeOne_tbcore:
  assumes "tbcore h"
  shows "tbcore (fst (removeOne c (h, up) t))"
proof (cases "t \<in> set (gget [] (connSubs h) c)")
  case False
  then show ?thesis using assms by (simp add: removeOne_def Let_def)
next
  case True
  let ?h = "h\<lparr>connSubs := gput c (sdel t (gget [] (connSubs h) c)) (connSubs h)\<rparr>"
  have ok: "topicsOK ?h" using tbcore_topicsOK[OF assms] by simp
  note d = dropSub_spec[OF ok, of c up t]
  show ?thesis unfolding removeOne_drop[OF True]
  proof (rule tbcoreI, goal_cases)
    case (1 e u)
    show ?case using agreeD[OF assms, of u e] d(2) unfolding d(3)
      by (auto simp: set_eq_iff simp flip: subsRel_iff)
  next
    case (2 u v)
    then show ?case using d(1) unfolding topicsOK_def by blast
  next
    case (3 e w)
    then show ?case unfolding d(3)
      using tbcoreD(5)[OF assms, of e w] tbcoreD(3)[OF assms, of c] by (auto simp: update_conv' split: if_splits)
  qed
qed

interpretation remover: removal_step removeOne tbcore
proof
  fix h c up t u assume core: "tbcore h"
  show "tbcore (fst (removeOne c (h, up) t))" by (rule removeOne_tbcore[OF core])
  have ok: "topicsOK h" by (rule tbcore_topicsOK[OF core])
  note inR = tbcoreD(1)[OF core, of t c]
  show "subsRel (fst (removeOne c (h, up) t)) = subsRel h - {(c, t)}"
    and "snd (removeOne c (h, up) t) = up @ (if soleSub (subsRel h) c t \<and> isActive h t then [t] else [])"
    and "isActive (fst (removeOne c (h, up) t)) u = (isActive h u \<and> \<not> (u = t \<and> soleSub (subsRel h) c t))"
    using inR ok
    by (cases "t \<in> set (gget [] (connSubs h) c)";
        simp add: removeOne_drop dropSub_spec; auto simp: removeOne_def soleSub_def Let_def)+
qed

lemma tbinv_tbcore: "tbinv h \<Longrightarrow> tbcore h"
  by (simp add: tbinv_def)

lemma tbinv_nonempty: "tbinv h \<Longrightarrow> map_of (connSubs h) c = Some v \<Longrightarrow> v \<noteq> []"
  unfolding tbinv_def by blast

lemma removeOne_other:
  "d \<noteq> c \<Longrightarrow> map_of (connSubs (fst (removeOne c st t))) d = map_of (connSubs (fst st)) d"
  by (cases st) (auto simp: removeOne_def dropSub_def Let_def update_conv' split: option.splits)

lemma removeLoop_other:
  "d \<noteq> c \<Longrightarrow> map_of (connSubs (fst (foldl (removeOne c) st ts))) d = map_of (connSubs (fst st)) d"
  by (induction ts arbitrary: st) (simp_all add: removeOne_other)

text \<open>Dropping the entry of a connection that has no topic left.\<close>

lemma tbcore_drop_empty:
  assumes "tbcore h" and "gget [] (connSubs h) c = []"
  shows "tbcore (h\<lparr>connSubs := gdel c (connSubs h)\<rparr>)"
proof (rule tbcoreI, goal_cases)
  case (1 d u)
  show ?case using agreeD[OF assms(1), of u d] assms(2) by auto
next
  case (2 u v)
  then show ?case using tbcoreD(4)[OF assms(1), of u v] by simp
next
  case (3 d w)
  then show ?case using tbcoreD(5)[OF assms(1), of d w] by (auto simp: delete_conv' split: if_splits)
qed

lemma tbinvI:
  assumes "tbcore h" and "\<And>c v. map_of (connSubs h) c = Some v \<Longrightarrow> v \<noteq> []"
  shows "tbinv h"
  unfolding tbinv_def using assms by blast

lemma removeSubscriptions_spec:
  assumes inv: "tbinv h" and rm: "removeSubscriptions (Some c) ts h = (gone, h')"
  shows "tbinv h'" and "subsRel h' = subsRel h - {cID c} \<times> set ts" and "distinct gone"
    and "set gone = {t \<in> set ts. soleSub (subsRel h) (cID c) t \<and> isActive h t}"
    and "isActive h' t \<longleftrightarrow> isActive h t \<and> \<not> (t \<in> set ts \<and> soleSub (subsRel h) (cID c) t)"
proof -
  let ?i = "cID c"
  note core = tbinv_tbcore[OF inv]
  have "tbinv h' \<and> subsRel h' = subsRel h - {?i} \<times> set ts \<and> distinct gone \<and>
      set gone = {t \<in> set ts. soleSub (subsRel h) ?i t \<and> isActive h t} \<and>
      (\<forall>t. isActive h' t \<longleftrightarrow> isActive h t \<and> \<not> (t \<in> set ts \<and> soleSub (subsRel h) ?i t))"
  proof (cases "ts = [] \<or> map_of (connSubs h) ?i = None")
    case True
    then have same: "gone = []" "h' = h" using rm by (auto simp: removeSubscriptions_def)
    have "({?i} \<times> set ts) \<inter> subsRel h = {}"
      using True tbcoreD(1)[OF core, of _ ?i] by (auto simp: gget_def)
    then have "\<not> soleSub (subsRel h) ?i t" if "t \<in> set ts" for t
      using that by (auto simp: soleSub_def)
    moreover have "subsRel h - {?i} \<times> set ts = subsRel h"
      using \<open>({?i} \<times> set ts) \<inter> subsRel h = {}\<close> by blast
    ultimately show ?thesis using inv by (auto simp: same)
  next
    case False
    obtain h1 where h1: "foldl (removeOne ?i) (h, []) ts = (h1, gone)"
      and h': "h' = (if gget [] (connSubs h1) ?i = [] then h1\<lparr>connSubs := gdel ?i (connSubs h1)\<rparr> else h1)"
      using rm False by (auto simp: removeSubscriptions_def Let_def split: prod.splits)
    have L: "tbcore h1" "subsRel h1 = subsRel h - {?i} \<times> set ts" "distinct gone"
      "set gone = {t \<in> set ts. soleSub (subsRel h) ?i t \<and> isActive h t}"
      "\<forall>t. isActive h1 t \<longleftrightarrow> isActive h t \<and> \<not> (t \<in> set ts \<and> soleSub (subsRel h) ?i t)"
      using remover.r_loop[OF core, of ?i "[]" ts] by (auto simp: h1)
    have "tbinv h'"
    proof (rule tbinvI)
      show "tbcore h'" using L(1) tbcore_drop_empty by (simp add: h')
      fix d v assume v: "map_of (connSubs h') d = Some v"
      show "v \<noteq> []"
      proof (cases "d = ?i")
        case True
        with v show ?thesis by (auto simp: h' gget_def delete_conv' split: if_splits)
      next
        case d: False
        then have "map_of (connSubs h) d = Some v"
          using v removeLoop_other[OF d, of "(h, [])" ts] by (auto simp: h1 h' delete_conv' split: if_splits)
        then show ?thesis by (rule tbinv_nonempty[OF inv])
      qed
    qed
    moreover have "subsRel h' = subsRel h1" "\<And>t. isActive h' t = isActive h1 t" by (simp_all add: h')
    ultimately show ?thesis using L by simp
  qed
  then show "tbinv h'" "subsRel h' = subsRel h - {?i} \<times> set ts" "distinct gone"
    "set gone = {t \<in> set ts. soleSub (subsRel h) ?i t \<and> isActive h t}"
    "isActive h' t \<longleftrightarrow> isActive h t \<and> \<not> (t \<in> set ts \<and> soleSub (subsRel h) ?i t)" by auto
qed

lemma dropLoop_conn: "connSubs (fst (foldl (dropSub c) st ts)) = connSubs (fst st)"
proof (induction ts arbitrary: st)
  case (Cons t ts)
  have "connSubs (fst (dropSub c st t)) = connSubs (fst st)"
    by (cases st) (simp add: dropSub_def Let_def split: option.split)
  with Cons show ?case by simp
qed simp

lemma removeConnAll_spec:
  assumes inv: "tbinv h" and rm: "removeConnAll c h = (gone, h')"
  shows "tbinv h'" and "subsRel h' = subsRel h - {c} \<times> UNIV" and "distinct gone"
    and "set gone = {t. soleSub (subsRel h) c t \<and> isActive h t}"
    and "isActive h' t \<longleftrightarrow> isActive h t \<and> \<not> soleSub (subsRel h) c t"
proof -
  note core = tbinv_tbcore[OF inv]
  have topics: "set (gget [] (connSubs h) c) = {t. (c, t) \<in> subsRel h}"
    using tbcoreD(1)[OF core] by blast
  have "tbinv h' \<and> subsRel h' = subsRel h - {c} \<times> UNIV \<and> distinct gone \<and>
      set gone = {t. soleSub (subsRel h) c t \<and> isActive h t} \<and>
      (\<forall>t. isActive h' t \<longleftrightarrow> isActive h t \<and> \<not> soleSub (subsRel h) c t)"
  proof (cases "map_of (connSubs h) c")
    case None
    then have "(c, t) \<notin> subsRel h" for t using topics by (auto simp: gget_def)
    with None rm inv show ?thesis by (auto simp: removeConnAll_def soleSub_def)
  next
    case (Some ts)
    let ?h0 = "h\<lparr>connSubs := gdel c (connSubs h)\<rparr>"
    have h': "foldl (dropSub c) (?h0, []) ts = (h', gone)"
      using rm Some by (auto simp: removeConnAll_def split: prod.splits)
    have ts: "set ts = {t. (c, t) \<in> subsRel h}" using topics Some by (simp add: gget_def)
    have ok: "topicsOK ?h0" using tbcore_topicsOK[OF core] by simp
    have L: "topicsOK h'" "subsRel h' = subsRel h - {c} \<times> set ts" "distinct gone"
      "set gone = {t \<in> set ts. soleSub (subsRel h) c t \<and> isActive h t}"
      "\<forall>t. isActive h' t \<longleftrightarrow> isActive h t \<and> \<not> (t \<in> set ts \<and> soleSub (subsRel h) c t)"
      using dropper.r_loop[OF ok, of c "[]" ts] by (auto simp: h')
    have conn: "connSubs h' = gdel c (connSubs h)"
      using dropLoop_conn[of c "(?h0, [])" ts] by (simp add: h')
    have R: "subsRel h' = subsRel h - {c} \<times> UNIV" using L(2) ts by auto
    have "tbinv h'"
    proof (rule tbinvI)
      show "tbcore h'"
      proof (rule tbcoreI, goal_cases)
        case (1 d u)
        have "u \<in> set (gget [] (connSubs h') d) \<longleftrightarrow> (d, u) \<in> subsRel h - {c} \<times> UNIV"
          using tbcoreD(1)[OF core, of u d] by (auto simp: conn)
        then show ?case by (simp add: R[symmetric] subsRel_iff)
      next
        case (2 u v)
        then show ?case using L(1) unfolding topicsOK_def by blast
      next
        case (3 d w)
        then show ?case using tbcoreD(5)[OF core, of d w] by (auto simp: conn delete_conv' split: if_splits)
      qed
      show "v \<noteq> []" if "map_of (connSubs h') d = Some v" for d v
        using that tbinv_nonempty[OF inv, of d v] by (auto simp: conn delete_conv' split: if_splits)
    qed
    moreover have "soleSub (subsRel h) c t \<Longrightarrow> t \<in> set ts" for t using ts by (auto simp: soleSub_def)
    ultimately show ?thesis using L R by auto
  qed
  then show "tbinv h'" "subsRel h' = subsRel h - {c} \<times> UNIV" "distinct gone"
    "set gone = {t. soleSub (subsRel h) c t \<and> isActive h t}"
    "isActive h' t \<longleftrightarrow> isActive h t \<and> \<not> soleSub (subsRel h) c t" by auto
qed

subsection \<open>Interleaved critical sections\<close>

text \<open>
  The sections that \<open>TopicBusHandler.mu\<close> protects, as events: any number of goroutines may execute them
  in any order. \<open>EvResubscribed\<close> is the section that records a successful
  resubscription, with whatever snapshot of the topics was taken earlier.
\<close>

datatype tbSection =
    EvAdd conn "string list"
  | EvRemove conn "string list"
  | EvConnClosed string
  | EvRollback "string list"
  | EvResubscribed string nodeID "string list"
  | EvParentLost

definition tbSectionStep :: "tbState \<Rightarrow> tbSection \<Rightarrow> tbState" where
  "tbSectionStep h ev =
     (case ev of
        EvAdd c ts \<Rightarrow> snd (addSubscriptions (Some c) ts h)
      | EvRemove c ts \<Rightarrow> snd (removeSubscriptions (Some c) ts h)
      | EvConnClosed c \<Rightarrow> snd (removeConnAll c h)
      | EvRollback ts \<Rightarrow> rollbackUpstreamMarks ts True h
      | EvResubscribed p n ts \<Rightarrow>
          h\<lparr>parentConnID := p, parentConnNode := n,
             upstreamActive := fold (\<lambda>t m. gput t True m) ts (upstreamActive h)\<rparr>
      | EvParentLost \<Rightarrow> h\<lparr>parentConnID := [], parentConnNode := 0\<rparr>)"

text \<open>What the sections mean for the relation of connections and topics.\<close>

fun relStep :: "(string \<times> string) set \<Rightarrow> tbSection \<Rightarrow> (string \<times> string) set" where
  "relStep R (EvAdd c ts) = R \<union> {cID c} \<times> set ts"
| "relStep R (EvRemove c ts) = R - {cID c} \<times> set ts"
| "relStep R (EvConnClosed c) = R - {c} \<times> UNIV"
| "relStep R _ = R"

lemma frame_simps [simp]:
  "tbinv (h\<lparr>upstreamActive := m\<rparr>) = tbinv h" "subsRel (h\<lparr>upstreamActive := m\<rparr>) = subsRel h"
  "tbinv (h\<lparr>parentConnID := p\<rparr>) = tbinv h" "subsRel (h\<lparr>parentConnID := p\<rparr>) = subsRel h"
  "tbinv (h\<lparr>parentConnNode := n\<rparr>) = tbinv h" "subsRel (h\<lparr>parentConnNode := n\<rparr>) = subsRel h"
  "tbinv (h\<lparr>eventSub := b\<rparr>) = tbinv h" "subsRel (h\<lparr>eventSub := b\<rparr>) = subsRel h"
  "isActive (h\<lparr>parentConnID := p\<rparr>) = isActive h" "isActive (h\<lparr>parentConnNode := n\<rparr>) = isActive h"
  "isActive (h\<lparr>eventSub := b\<rparr>) = isActive h"
  by (simp_all add: tbinv_def tbcore_def subsRel_def isActive_def fun_eq_iff)

lemma tbSectionStep_spec:
  assumes "tbinv h"
  shows "tbinv (tbSectionStep h ev)" and "subsRel (tbSectionStep h ev) = relStep (subsRel h) ev"
proof -
  have "tbinv (tbSectionStep h ev) \<and> subsRel (tbSectionStep h ev) = relStep (subsRel h) ev"
  proof (cases ev)
    case (EvAdd c ts)
    then show ?thesis
      using addSubscriptions_spec(1,2)[OF assms, of c ts] by (simp add: tbSectionStep_def) (metis prod.collapse)
  next
    case (EvRemove c ts)
    then show ?thesis
      using removeSubscriptions_spec(1,2)[OF assms, of c ts] by (simp add: tbSectionStep_def) (metis prod.collapse)
  next
    case (EvConnClosed c)
    then show ?thesis
      using removeConnAll_spec(1,2)[OF assms, of c] by (simp add: tbSectionStep_def) (metis prod.collapse)
  qed (use assms in \<open>simp_all add: tbSectionStep_def rollbackUpstreamMarks_def\<close>)
  then show "tbinv (tbSectionStep h ev)" "subsRel (tbSectionStep h ev) = relStep (subsRel h) ev" by auto
qed

interpretation tbsec: refining_machine tbSectionStep tbinv "\<lambda>_. True" subsRel relStep
  by unfold_locales (simp_all add: tbSectionStep_spec)

lemma tbinv_new: "tbinv newTopicBus" "subsRel newTopicBus = {}"
  by (simp_all add: newTopicBus_def tbinv_def tbcore_def subsRel_def)

subsection \<open>What the parent is told\<close>

text \<open>
  A whole handler run, message after message, and the subscriptions that the
  frames sent to the parent add up to.
\<close>

datatype tbInput =
    InMessage "conn option" "header option" "tbRequest option"
  | InConnClosed string

definition tbHandle :: "tbEnv \<Rightarrow> tbInput \<Rightarrow> tbState \<Rightarrow> tbState \<times> tbOut list" where
  "tbHandle env inp h =
     (case inp of
        InMessage oc oh msg \<Rightarrow> onReceive env oc oh msg h
      | InConnClosed c \<Rightarrow> onConnClosed env c h)"

fun tbRun :: "tbEnv \<Rightarrow> tbInput list \<Rightarrow> tbState \<Rightarrow> tbState \<times> tbOut list" where
  "tbRun env [] h = (h, [])"
| "tbRun env (i # is) h =
     (let (h1, o1) = tbHandle env i h; (h2, o2) = tbRun env is h1 in (h2, o1 @ o2))"

fun viewStep :: "string \<Rightarrow> string set \<Rightarrow> tbOut \<Rightarrow> string set" where
  "viewStep pid V (TbSend i hdr ActSubscribeBatch (TbBatch ts)) = (if i = pid then V \<union> set ts else V)"
| "viewStep pid V (TbSend i hdr ActUnsubscribeBatch (TbBatch ts)) = (if i = pid then V - set ts else V)"
| "viewStep pid V out = V"

definition parentView :: "string \<Rightarrow> string set \<Rightarrow> tbOut list \<Rightarrow> string set" where
  "parentView pid V outs = foldl (viewStep pid) V outs"

lemma parentView_simps [simp]:
  "parentView pid V [] = V" "parentView pid V (o1 # os) = parentView pid (viewStep pid V o1) os"
  "parentView pid V (xs @ ys) = parentView pid (parentView pid V xs) ys"
  by (simp_all add: parentView_def)

fun isBatch :: "tbOut \<Rightarrow> bool" where
  "isBatch (TbSend i hdr act dat) = (act = ActSubscribeBatch \<or> act = ActUnsubscribeBatch)"
| "isBatch _ = False"

lemma viewStep_quiet: "\<not> isBatch out \<Longrightarrow> viewStep pid V out = V"
  by (cases "(pid, V, out)" rule: viewStep.cases) auto

lemma parentView_quiet: "\<forall>out\<in>set outs. \<not> isBatch out \<Longrightarrow> parentView pid V outs = V"
  by (induction outs arbitrary: V) (simp_all add: viewStep_quiet)

lemma sendSimpleResp_quiet:
  "act \<noteq> ActSubscribeBatch \<Longrightarrow> act \<noteq> ActUnsubscribeBatch \<Longrightarrow>
     parentView pid V (sendSimpleResp env oc oh act dat) = V"
  by (rule parentView_quiet) (auto simp: sendSimpleResp_def Let_def split: option.splits)

lemma handlePublish_quiet: "parentView pid V (snd (handlePublish env oc oh raw dec h)) = V"
proof (rule parentView_quiet, rule ballI)
  fix out assume "out \<in> set (snd (handlePublish env oc oh raw dec h))"
  then show "\<not> isBatch out"
    by (auto simp: handlePublish_def publishFlowTriggerEvent_def publishFlowReceivedEvent_def
        broadcastToSubscribers_def forwardPublishUpstream_def forwardToConn_def Let_def
        List.map_filter_def split: option.splits if_splits)
qed

lemma handlePublish_state: "fst (handlePublish env oc oh raw dec h) = h"
  by (simp add: handlePublish_def split: option.split)

lemma set_uniqueStableAcc: "set (uniqueStableAcc seen xs) = set xs - set seen"
  by (induction seen xs rule: uniqueStableAcc.induct) auto

lemma set_uniqueStable [simp]: "set (uniqueStable xs) = set xs"
  by (simp add: uniqueStable_def set_uniqueStableAcc)

lemma distinct_uniqueStable: "distinct (uniqueStable xs)"
proof -
  have "distinct (uniqueStableAcc seen xs)" for seen
    by (induction seen xs rule: uniqueStableAcc.induct) (auto simp: set_uniqueStableAcc)
  then show ?thesis by (simp add: uniqueStable_def)
qed

text \<open>The topic index is a Go map: no key twice.\<close>

lemma addLoop_wf: "wf_gomap (topicSubs (fst st)) \<Longrightarrow> wf_gomap (topicSubs (fst (foldl (addOne c) st ts)))"
proof (induction ts arbitrary: st)
  case (Cons t ts)
  have "wf_gomap (topicSubs (fst (addOne c st t)))"
    using Cons.prems by (cases st) (auto simp: addOne_def Let_def)
  with Cons.IH show ?case by simp
qed simp

lemma addSubscriptions_wf:
  assumes "wf_gomap (topicSubs h)"
  shows "wf_gomap (topicSubs (snd (addSubscriptions oc ts h)))"
proof (cases oc)
  case (Some c)
  let ?h0 = "case map_of (connSubs h) (cID c) of Some _ \<Rightarrow> h
      | None \<Rightarrow> h\<lparr>connSubs := gput (cID c) [] (connSubs h)\<rparr>"
  obtain h' up where loop: "foldl (addOne (cID c)) (?h0, []) ts = (h', up)" by fastforce
  have "wf_gomap (topicSubs (fst (?h0, [])))" using assms by (simp split: option.split)
  from addLoop_wf[OF this, of "cID c" ts] loop have "wf_gomap (topicSubs h')" by simp
  with assms Some loop show ?thesis by (simp add: addSubscriptions_def Let_def)
qed (simp add: addSubscriptions_def assms)

lemma dropSub_wf: "wf_gomap (topicSubs (fst st)) \<Longrightarrow> wf_gomap (topicSubs (fst (dropSub c st t)))"
  by (cases st) (auto simp: dropSub_def Let_def split: option.split)

lemma removeOne_wf: "wf_gomap (topicSubs (fst st)) \<Longrightarrow> wf_gomap (topicSubs (fst (removeOne c st t)))"
  by (cases st) (auto simp: removeOne_def Let_def intro: dropSub_wf)

lemma foldl_inv: "P st \<Longrightarrow> (\<And>st t. P st \<Longrightarrow> P (f st t)) \<Longrightarrow> P (foldl f st ts)"
  by (induction ts arbitrary: st) auto

lemma removeSubscriptions_wf:
  assumes "wf_gomap (topicSubs h)"
  shows "wf_gomap (topicSubs (snd (removeSubscriptions oc ts h)))"
proof -
  have "wf_gomap (topicSubs (fst (foldl (removeOne c) (h, []) ts)))" for c
    by (rule foldl_inv[where P = "\<lambda>st. wf_gomap (topicSubs (fst st))"]) (simp_all add: assms removeOne_wf)
  then show ?thesis
    using assms by (auto simp: removeSubscriptions_def Let_def split: option.split prod.split) (metis fst_conv)+
qed

lemma removeConnAll_wf:
  assumes "wf_gomap (topicSubs h)"
  shows "wf_gomap (topicSubs (snd (removeConnAll c h)))"
proof -
  have "wf_gomap (topicSubs (fst (foldl (dropSub c) (h\<lparr>connSubs := m\<rparr>, []) ts)))" for m ts
    by (rule foldl_inv[where P = "\<lambda>st. wf_gomap (topicSubs (fst st))"]) (simp_all add: assms dropSub_wf)
  then show ?thesis
    using assms by (auto simp: removeConnAll_def split: option.split prod.split) (metis fst_conv)
qed

text \<open>The state and the parent's view agree: announced, marked and subscribed coincide.\<close>

definition synced :: "tbState \<Rightarrow> string set \<Rightarrow> bool" where
  "synced h V =
     (tbinv h \<and> wf_gomap (topicSubs h) \<and> V = {t. hasSubs (subsRel h) t} \<and>
      (\<forall>t. isActive h t \<longleftrightarrow> hasSubs (subsRel h) t))"

lemma syncedD:
  assumes "synced h V"
  shows "tbinv h" "wf_gomap (topicSubs h)" "V = {t. hasSubs (subsRel h) t}" "isActive h t \<longleftrightarrow> hasSubs (subsRel h) t"
  using assms by (auto simp: synced_def)

lemma snapshot_set:
  assumes "tbinv h" and "wf_gomap (topicSubs h)"
  shows "set (snapshotActiveTopics h) = {t. hasSubs (subsRel h) t}"
proof -
  have "t \<in> set (snapshotActiveTopics h) \<longleftrightarrow> (\<exists>v. map_of (topicSubs h) t = Some v \<and> v \<noteq> [])" for t
    unfolding map_of_eq_in_set[OF assms(2)] by (force simp: snapshotActiveTopics_def)
  then show ?thesis by (auto simp: hasSubs_iff gget_def split: option.splits)
qed

lemma isActive_marks:
  "isActive (h\<lparr>upstreamActive := fold (\<lambda>t m. gput t b m) ts (upstreamActive h)\<rparr>) u =
     (if u \<in> set ts then b else isActive h u)"
proof -
  have "gget False (fold (\<lambda>t m. gput t b m) ts m) u = (if u \<in> set ts then b else gget False m u)" for m
    by (induction ts arbitrary: m) auto
  then show ?thesis by (simp add: isActive_def)
qed

lemma forwardToConn_batch:
  "snd (forwardToConn sp srv p act (TbBatch ts)) =
     [TbSend (cID p) ((if connNodeID p \<noteq> 0 then (\<lambda>x. x\<lparr>hTargetID := connNodeID p\<rparr>) else id)
        (zeroHeader\<lparr>hMajor := MajorCmd, hSubProto := sp, hSourceID := sNodeID srv\<rparr>)) act (TbBatch ts)]"
  "fst (forwardToConn sp srv p act dat) = sSendErr srv (cID p)"
  by (simp_all add: forwardToConn_def Let_def)

text \<open>The frames to the parent change the view exactly by the topics they carry.\<close>

lemma upstream_view:
  assumes "findParent (Some srv) = Some p" and "\<not> sSendErr srv (cID p)"
  shows "fst (maybeSubscribeUpstream sp (Some srv) ts h) = h"
    and "parentView (cID p) V (snd (maybeSubscribeUpstream sp (Some srv) ts h)) = V \<union> set ts"
    and "fst (maybeUnsubscribeUpstream sp (Some srv) ts h) = h"
    and "parentView (cID p) V (snd (maybeUnsubscribeUpstream sp (Some srv) ts h)) = V - set ts"
  using assms
  by (simp_all add: maybeSubscribeUpstream_def maybeUnsubscribeUpstream_def forwardSubscribeBatch_def
      forwardUnsubscribeBatch_def forwardToConn_def Let_def)

lemma synced_resubscribe:
  assumes "synced h V" and "findParent (Some srv) = Some p" and "\<not> sSendErr srv (cID p)"
    and "maybeResubscribeUpstream sp (Some srv) h = (h', outs)"
  shows "synced h' (parentView (cID p) V outs)"
proof -
  note s = syncedD[OF assms(1)]
  have snap: "set (snapshotActiveTopics h) = V" using snapshot_set[OF s(1,2)] s(3) by simp
  have marked: "isActive (h\<lparr>parentConnID := i, parentConnNode := n,
      upstreamActive := fold (\<lambda>t m. gput t True m) (snapshotActiveTopics h) (upstreamActive h)\<rparr>) t
      \<longleftrightarrow> hasSubs (subsRel h) t" for i n t
    using isActive_marks[where h = "h\<lparr>parentConnID := i, parentConnNode := n\<rparr>" and b = True
          and ts = "snapshotActiveTopics h" and u = t]
      s(3) s(4)[of t] snap by simp
  show ?thesis
    using assms(2-4) s snap marked
    by (auto simp: maybeResubscribeUpstream_def forwardSubscribeBatch_def forwardToConn_def Let_def
        synced_def split: if_splits)
qed

lemma synced_subscribe:
  assumes "synced h V" and "findParent (Some srv) = Some p" and "\<not> sSendErr srv (cID p)"
    and "addSubscriptions oc ts h = (new, h1)"
  shows "synced h1 (V \<union> set new)"
proof (cases oc)
  case None
  with assms show ?thesis by (simp add: addSubscriptions_def)
next
  case (Some c)
  note s = syncedD[OF assms(1)]
  note a = addSubscriptions_spec[OF s(1) assms(4)[unfolded Some]]
  have "wf_gomap (topicSubs h1)" using addSubscriptions_wf[OF s(2), of oc ts] assms(4) by simp
  moreover have "hasSubs (subsRel h1) t \<longleftrightarrow> hasSubs (subsRel h) t \<or> t \<in> set ts" for t
    by (auto simp: a(2) hasSubs_def)
  ultimately show ?thesis using a(1,4) a(5) s(3,4) by (auto simp: synced_def)
qed

lemma soleSub_hasSubs: "hasSubs (R - {c} \<times> T) t \<longleftrightarrow> hasSubs R t \<and> \<not> (t \<in> T \<and> soleSub R c t)"
  by (auto simp: hasSubs_def soleSub_def)

lemma synced_unsubscribe:
  assumes "synced h V" and "removeSubscriptions oc ts h = (gone, h1)"
  shows "synced h1 (V - set gone)"
proof (cases oc)
  case None
  with assms show ?thesis by (simp add: removeSubscriptions_def)
next
  case (Some c)
  note s = syncedD[OF assms(1)]
  note a = removeSubscriptions_spec[OF s(1) assms(2)[unfolded Some]]
  have "wf_gomap (topicSubs h1)" using removeSubscriptions_wf[OF s(2), of oc ts] assms(2) by simp
  then show ?thesis using a(1,2,4,5) s(3,4) by (auto simp: synced_def soleSub_hasSubs)
qed

lemma synced_connClosed:
  assumes "synced h V" and "removeConnAll c h = (gone, h1)"
  shows "synced h1 (V - set gone)"
proof -
  note s = syncedD[OF assms(1)]
  note a = removeConnAll_spec[OF s(1) assms(2)]
  have "wf_gomap (topicSubs h1)" using removeConnAll_wf[OF s(2), of c] assms(2) by simp
  then show ?thesis using a(1,2,4,5) s(3,4) by (auto simp: synced_def soleSub_hasSubs)
qed

lemma synced_dispatch:
  assumes "synced h V" and "eServer env = Some srv" and "findParent (Some srv) = Some p"
    and "\<not> sSendErr srv (cID p)"
  shows "synced (fst (dispatch env oc oh req h)) (parentView (cID p) V (snd (dispatch env oc oh req h)))"
proof -
  note view = upstream_view[OF assms(3,4)]
  note sub = synced_subscribe[OF assms(1,3,4)] and unsub = synced_unsubscribe[OF assms(1)]
  show ?thesis
  proof (cases req)
    case (ReqSubscribe t)
    then show ?thesis
      using assms(1,2) view(1,2) sub
      by (auto simp: dispatch_def handleSubscribe_def sendSimpleResp_quiet split: option.split prod.split)
         (metis fst_conv snd_conv view(1,2))+
  next
    case (ReqSubscribeBatch t)
    then show ?thesis
      using assms(1,2) view(1,2) sub
      by (auto simp: dispatch_def handleSubscribeBatch_def sendSimpleResp_quiet split: option.split prod.split)
         (metis fst_conv snd_conv view(1,2))+
  next
    case (ReqUnsubscribe t)
    then show ?thesis
      using assms(1,2) view(3,4) unsub
      by (auto simp: dispatch_def handleUnsubscribe_def sendSimpleResp_quiet split: option.split prod.split)
         (metis fst_conv snd_conv view(3,4))+
  next
    case (ReqUnsubscribeBatch t)
    then show ?thesis
      using assms(1,2) view(3,4) unsub
      by (auto simp: dispatch_def handleUnsubscribeBatch_def sendSimpleResp_quiet split: option.split prod.split)
         (metis fst_conv snd_conv view(3,4))+
  qed (use assms(1) in \<open>simp_all add: dispatch_def handleListSubs_def sendSimpleResp_quiet handlePublish_quiet
        handlePublish_state\<close>)
qed

lemma synced_handle:
  assumes "synced h V" and "eServer env = Some srv" and "findParent (Some srv) = Some p"
    and "\<not> sSendErr srv (cID p)"
  shows "synced (fst (tbHandle env inp h)) (parentView (cID p) V (snd (tbHandle env inp h)))"
proof (cases inp)
  case (InMessage oc oh msg)
  let ?h1 = "ensureConnCloseSubscription env h"
  obtain h2 outs where re: "maybeResubscribeUpstream (eSubProto env) (Some srv) ?h1 = (h2, outs)" by fastforce
  have "synced ?h1 V" using assms(1,2) by (simp add: ensureConnCloseSubscription_def synced_def)
  from synced_resubscribe[OF this assms(3,4) re]
  have "synced h2 (parentView (cID p) V outs)" .
  with synced_dispatch[OF this assms(2-4), of oc oh] show ?thesis
    by (cases msg)
       (auto simp: InMessage tbHandle_def onReceive_def assms(2) re split: prod.split dest: spec,
        metis fst_conv snd_conv)
next
  case (InConnClosed c)
  obtain gone h1 where rm: "removeConnAll c h = (gone, h1)" by fastforce
  with synced_connClosed[OF assms(1) rm] assms(1) upstream_view(3,4)[OF assms(3,4)]
  show ?thesis by (simp add: InConnClosed tbHandle_def onConnClosed_def assms(2))
qed

lemma synced_run:
  assumes "eServer env = Some srv" and "findParent (Some srv) = Some p" and "\<not> sSendErr srv (cID p)"
  shows "synced h V \<Longrightarrow> tbRun env ins h = (h', outs) \<Longrightarrow> synced h' (parentView (cID p) V outs)"
proof (induction ins arbitrary: h V outs)
  case (Cons i "is")
  obtain h1 o1 where one: "tbHandle env i h = (h1, o1)" by fastforce
  obtain o2 where two: "tbRun env is h1 = (h', o2)" "outs = o1 @ o2"
    using Cons.prems(2) one by (auto split: prod.splits)
  from synced_handle[OF Cons.prems(1) assms, of i] one
  have "synced h1 (parentView (cID p) V o1)" by simp
  from Cons.IH[OF this two(1)] show ?case by (simp add: two(2))
qed simp

lemma synced_new: "synced newTopicBus {}"
  using tbinv_new by (simp add: synced_def hasSubs_def isActive_def newTopicBus_def)

subsection \<open>Who receives a published event\<close>

text \<open>How many publish frames a list of effects sends to a connection.\<close>

fun isPublishTo :: "string \<Rightarrow> tbOut \<Rightarrow> bool" where
  "isPublishTo i (TbSend j hdr act dat) = (i = j \<and> act = ActPublish)"
| "isPublishTo i _ = False"

definition publishCount :: "string \<Rightarrow> tbOut list \<Rightarrow> nat" where
  "publishCount i outs = length (filter (isPublishTo i) outs)"

lemma publishCount_append [simp]: "publishCount i (xs @ ys) = publishCount i xs + publishCount i ys"
  by (simp add: publishCount_def)

lemma publishCount_events [simp]:
  "publishCount i (publishFlowTriggerEvent env oh req) = 0"
  "publishCount i (publishFlowReceivedEvent env oc oh req) = 0"
  by (simp_all add: publishCount_def publishFlowTriggerEvent_def publishFlowReceivedEvent_def split: option.split)

lemma publishCount_broadcast:
  assumes "eServer env = Some srv" and law: "\<And>j c. sGet srv j = Some c \<Longrightarrow> cID c = j"
    and "distinct (gget [] (topicSubs h) t)"
  shows "publishCount i (broadcastToSubscribers env (Some src) t ActPublish dat h) =
    (if i \<in> set (gget [] (topicSubs h) t) \<and> i \<noteq> cID src \<and> sGet srv i \<noteq> None then 1 else 0)"
proof -
  have count: "publishCount i (List.map_filter (\<lambda>j. case sGet srv j of None \<Rightarrow> None
        | Some c \<Rightarrow> Some (TbSend (cID c) (f c) ActPublish dat)) js) =
      (if i \<in> set js \<and> sGet srv i \<noteq> None then 1 else 0)" if "distinct js" for js f
    using that
  proof (induction js)
    case (Cons j js)
    then show ?case
      using law[of j] by (cases "sGet srv j") (auto simp: publishCount_def List.map_filter_simps)
  qed (simp add: publishCount_def List.map_filter_simps)
  show ?thesis
    using assms(1) count[OF distinct_filter[OF assms(3), of "\<lambda>j. j \<noteq> cID src"], of "\<lambda>c.
        let base = zeroHeader\<lparr>hMajor := MajorCmd, hSubProto := eSubProto env, hSourceID := sNodeID srv\<rparr>
        in if connNodeID c \<noteq> 0 then base\<lparr>hTargetID := connNodeID c\<rparr> else base"]
    unfolding broadcastToSubscribers_def Let_def by simp
qed

lemma publishCount_upstream:
  assumes "eServer env = Some srv"
  shows "publishCount i (forwardPublishUpstream env (Some src) ActPublish dat) =
    (case findParent (Some srv) of None \<Rightarrow> 0 | Some p \<Rightarrow> if cID p \<noteq> cID src \<and> i = cID p then 1 else 0)"
  using assms
  by (auto simp: forwardPublishUpstream_def forwardToConn_def publishCount_def Let_def split: option.split)

subsection \<open>A concrete node for the examples\<close>

definition demoSrv :: server where
  "demoSrv = \<lparr>sNodeID = 2, sConns = [\<lparr>cID = ''up'', cRole = Some (MString ''parent''), cNode = Some (MUint32 1)\<rparr>],
     sGet = (\<lambda>i. Some \<lparr>cID = i, cRole = None, cNode = None\<rparr>), sByNode = (\<lambda>_. None),
     sSendErr = (\<lambda>_. False), sHasEventBus = False, sRoleParent = ''parent''\<rparr>"

definition demoEnv :: tbEnv where
  "demoEnv = \<lparr>eSubProto = 4, eClone = (\<lambda>_. None), eServer = Some demoSrv\<rparr>"

definition demoConn :: "string \<Rightarrow> conn" where
  "demoConn i = \<lparr>cID = i, cRole = None, cNode = None\<rparr>"

definition demoState :: tbState where
  "demoState = snd (addSubscriptions (Some (demoConn ''b'')) [''t'']
      (snd (addSubscriptions (Some (demoConn ''a'')) [''t''] newTopicBus)))"

definition demoInputs :: "tbInput list" where
  "demoInputs =
     [InMessage (Some (demoConn ''c'')) None (Some (ReqSubscribeBatch [''a'', ''b''])),
      InMessage (Some (demoConn ''c'')) None (Some (ReqUnsubscribe (Some ''a'')))]"

lemma demoEnv_server: "eServer demoEnv = Some demoSrv"
  by (simp add: demoEnv_def)

lemma demoSrv_parent:
  "findParent (Some demoSrv) = Some \<lparr>cID = ''up'', cRole = Some (MString ''parent''), cNode = Some (MUint32 1)\<rparr>"
  by (simp add: demoSrv_def findParent_def isParentConn_def)

lemma demoState_inv: "tbinv demoState"
  using addSubscriptions_spec(1)[OF addSubscriptions_spec(1)[OF tbinv_new(1)]]
  unfolding demoState_def by (metis prod.collapse)

subsection \<open>Properties\<close>

text \<open>
  C16: Whatever the order in which the goroutines' critical sections interleave, starting from
  a fresh handler the two indexes agree with each other, hold no empty or duplicate entry, and the
  subscriptions they describe are those of the relation to which each subscribe adds, and from which each
  unsubscribe and each closed connection removes, exactly its own pairs.
\<close>
theorem topicbus_refines_relation:
  "tbinv (foldl tbSectionStep newTopicBus evs) \<and>
   subsRel (foldl tbSectionStep newTopicBus evs) = foldl relStep {} evs"
  using tbsec.run_refines[OF tbinv_new(1), of evs] tbsec.run_inv[OF tbinv_new(1), of evs] tbinv_new(2)
  by (simp add: list.pred_True)

text \<open>
  C17: As long as the parent connection stays and sends succeed, the topics that the subscribe and
  unsubscribe batches sent to the parent add up to are, after any sequence of messages and
  connection closings, exactly the topics that have a subscriber here.
\<close>
theorem topicbus_parent_view_exact:
  assumes "eServer env = Some srv" and "findParent (Some srv) = Some p" and "\<not> sSendErr srv (cID p)"
    and "tbRun env ins newTopicBus = (h', outs)"
  shows "parentView (cID p) {} outs = {t. hasSubs (subsRel h') t}"
  using synced_run[OF assms(1-3) synced_new assms(4)] by (simp add: synced_def)

theorem topicbus_parent_view_exact_witness:
  "parentView ''up'' {} (snd (tbRun demoEnv demoInputs newTopicBus)) =
     {t. hasSubs (subsRel (fst (tbRun demoEnv demoInputs newTopicBus))) t} \<and>
   parentView ''up'' {} (snd (tbRun demoEnv demoInputs newTopicBus)) = {''b''}"
proof
  show "parentView ''up'' {} (snd (tbRun demoEnv demoInputs newTopicBus)) =
     {t. hasSubs (subsRel (fst (tbRun demoEnv demoInputs newTopicBus))) t}"
    using topicbus_parent_view_exact[of demoEnv demoSrv _ demoInputs, OF demoEnv_server demoSrv_parent]
    by (simp add: demoSrv_def)
  show "parentView ''up'' {} (snd (tbRun demoEnv demoInputs newTopicBus)) = {''b''}" by code_simp
qed

text \<open>
  C37: A published event reaches every connection that subscribed to its topic and that the
  server knows exactly once, the publisher never, and in addition the parent once unless the parent is
  the publisher; no subscription changes.
\<close>
theorem topicbus_publish_exact:
  assumes "eServer env = Some srv" and "\<And>j c. sGet srv j = Some c \<Longrightarrow> cID c = j"
    and "tbinv h" and "trimSpace (pubName req) \<noteq> []"
  shows "fst (handlePublish env (Some src) oh raw (Some req) h) = h \<and>
    publishCount i (snd (handlePublish env (Some src) oh raw (Some req) h)) =
      (if (i, pubTopic req) \<in> subsRel h \<and> i \<noteq> cID src \<and> sGet srv i \<noteq> None then 1 else 0) +
      (case findParent (Some srv) of None \<Rightarrow> 0 | Some p \<Rightarrow> if cID p \<noteq> cID src \<and> i = cID p then 1 else 0)"
  using assms(4) publishCount_broadcast[OF assms(1,2) tbcoreD(2)[OF tbinv_tbcore[OF assms(3)]]]
    publishCount_upstream[OF assms(1)]
  by (simp add: handlePublish_def subsRel_iff)

theorem topicbus_publish_exact_witness:
  "publishCount ''a'' (snd (handlePublish demoEnv (Some (demoConn ''b'')) None ''x''
      (Some \<lparr>pubTopic = ''t'', pubName = ''n'', pubRest = []\<rparr>) demoState)) = 1"
proof -
  have "trimSpace ''n'' \<noteq> []" "(''a'', ''t'') \<in> subsRel demoState" "sGet demoSrv ''a'' \<noteq> None"
    by (code_simp, simp add: subsRel_def, code_simp, simp add: demoSrv_def)
  then show ?thesis
    using topicbus_publish_exact[OF demoEnv_server _ demoState_inv, where src = "demoConn ''b''" and
        req = "\<lparr>pubTopic = ''t'', pubName = ''n'', pubRest = []\<rparr>" and i = "''a''"] demoSrv_parent
    by (auto simp: demoConn_def demoSrv_def)
qed

text \<open>
  Closing a connection removes all its subscriptions from both indexes and nobody else's, and
  withdraws from the parent exactly the announced topics that had no other subscriber.
\<close>
theorem topicbus_close_forgets:
  assumes "tbinv h" and "c \<noteq> []" and "onConnClosed env c h = (h', outs)"
  shows "subsRel h' = {(d, t) \<in> subsRel h. d \<noteq> c} \<and> gget [] (connSubs h') c = [] \<and> tbinv h' \<and>
    (\<forall>srv p. eServer env = Some srv \<longrightarrow> findParent (Some srv) = Some p \<longrightarrow> \<not> sSendErr srv (cID p) \<longrightarrow>
       parentView (cID p) V outs = V - {t. isActive h t \<and> (c, t) \<in> subsRel h \<and> (\<forall>d. (d, t) \<in> subsRel h \<longrightarrow> d = c)})"
proof -
  obtain gone h1 where rm: "removeConnAll c h = (gone, h1)" by fastforce
  note r = removeConnAll_spec[OF assms(1) rm]
  have h': "h' = h1" and outs: "outs = snd (maybeUnsubscribeUpstream (eSubProto env) (eServer env) gone h1)"
    using assms(2,3) rm
    by (auto simp: onConnClosed_def maybeUnsubscribeUpstream_def split: if_splits option.splits)
  have "t \<notin> set (gget [] (connSubs h1) c)" for t
    using tbcoreD(1)[OF tbinv_tbcore[OF r(1)], of t c] r(2) by auto
  then have "gget [] (connSubs h1) c = []" by (cases "gget [] (connSubs h1) c") auto
  moreover have "subsRel h1 = {(d, t) \<in> subsRel h. d \<noteq> c}" using r(2) by auto
  moreover have "set gone = {t. isActive h t \<and> (c, t) \<in> subsRel h \<and> (\<forall>d. (d, t) \<in> subsRel h \<longrightarrow> d = c)}"
    using r(4) by (auto simp: soleSub_def)
  ultimately show ?thesis using r(1) upstream_view(4) by (auto simp: h' outs)
qed

theorem topicbus_close_forgets_witness:
  "subsRel (fst (onConnClosed demoEnv ''b'' demoState)) = {(d, t) \<in> subsRel demoState. d \<noteq> ''b''}"
  using topicbus_close_forgets[OF demoState_inv, of "''b''" demoEnv "fst (onConnClosed demoEnv ''b'' demoState)"
      "snd (onConnClosed demoEnv ''b'' demoState)"] by simp

text \<open>
  When announcing a first subscription to the parent fails, the subscription stays while its
  mark is withdrawn, and a later subscription to the same topic sends nothing to the parent: the
  announcement is repeated only when the parent connection changes. (The comment on
  \<open>rollbackUpstreamMarks\<close> promises that a later subscription triggers it again.)
\<close>
theorem topicbus_failed_announce_not_retried:
  assumes "tbinv h" and "addSubscriptions (Some c) [t] h = ([t], h1)"
    and "eServer env = Some srv" and "findParent (Some srv) = Some p" and "sSendErr srv (cID p)"
    and "maybeSubscribeUpstream (eSubProto env) (eServer env) [t] h1 = (h2, outs)"
  shows "outs \<noteq> [] \<and> \<not> isActive h2 t \<and> (cID c, t) \<in> subsRel h2 \<and>
    maybeSubscribeUpstream sp osrv (fst (addSubscriptions (Some d) [t] h2)) h3 = (h3, [])"
proof -
  note a = addSubscriptions_spec[OF assms(1,2)]
  have h2: "h2 = rollbackUpstreamMarks [t] True h1" and o: "outs \<noteq> []"
    using assms(3-6) by (auto simp: maybeSubscribeUpstream_def forwardSubscribeBatch_def forwardToConn_def Let_def)
  have act: "\<not> isActive h2 t" by (simp add: h2 rollbackUpstreamMarks_def isActive_def)
  have rel: "(cID c, t) \<in> subsRel h2" and inv: "tbinv h2" using a(1,2) by (simp_all add: h2 rollbackUpstreamMarks_def)
  obtain new h' where ad: "addSubscriptions (Some d) [t] h2 = (new, h')" by fastforce
  have "set new = {}" using addSubscriptions_spec(4)[OF inv ad] rel by (auto simp: hasSubs_def)
  then show ?thesis using o act rel ad by (simp add: maybeSubscribeUpstream_def)
qed

theorem topicbus_failed_announce_not_retried_witness:
  "\<not> isActive (fst (maybeSubscribeUpstream 4 (Some (demoSrv\<lparr>sSendErr := (\<lambda>_. True)\<rparr>)) [''t'']
       (snd (addSubscriptions (Some (demoConn ''a'')) [''t''] newTopicBus)))) ''t''"
proof -
  let ?srv = "demoSrv\<lparr>sSendErr := (\<lambda>_. True)\<rparr>" and ?h1 = "snd (addSubscriptions (Some (demoConn ''a'')) [''t''] newTopicBus)"
  let ?env = "demoEnv\<lparr>eServer := Some ?srv\<rparr>"
  have "fst (addSubscriptions (Some (demoConn ''a'')) [''t''] newTopicBus) = [''t'']" by code_simp
  then have a: "addSubscriptions (Some (demoConn ''a'')) [''t''] newTopicBus = ([''t''], ?h1)"
    by (simp add: prod_eq_iff)
  have p: "findParent (Some ?srv) = Some \<lparr>cID = ''up'', cRole = Some (MString ''parent''), cNode = Some (MUint32 1)\<rparr>"
    by (simp add: demoSrv_def findParent_def isParentConn_def)
  show ?thesis
    using topicbus_failed_announce_not_retried[OF tbinv_new(1) a _ p, of ?env, OF _ _ prod.collapse[symmetric]]
    by (simp add: demoEnv_def)
qed

end
