(* ===== verification/File_Paths.thy ===== *)
theory File_Paths
  imports Go_Strings
begin

text \<open>
  \<open>file/path.go\<close>, \<open>file/mkdir.go\<close> and \<open>file/config.go\<close>: the checks that keep the file transfer inside its base
  directory. \<open>path.Clean\<close>, \<open>filepath.Join\<close>, \<open>Abs\<close> and \<open>Rel\<close> of Go's library are modelled for a Unix host
  (where \<open>filepath.FromSlash\<close> is the identity and there are no volume names), on the
  slash-separated segments of a path. The
  working directory, the executable's path and the answers of the operating system are parameters.
\<close>

subsection \<open>Go's path functions\<close>

text \<open>One segment of the input of \<open>path.Clean\<close>, on the reversed stack of segments kept so far.\<close>

definition cleanStep :: "bool \<Rightarrow> string list \<Rightarrow> string \<Rightarrow> string list" where
  "cleanStep rooted stack seg =
     (if seg = [] \<or> seg = ''.'' then stack
      else if seg = ''..'' then
        (case stack of
           [] \<Rightarrow> if rooted then [] else [''..'']
         | s # rest \<Rightarrow> if s = ''..'' then ''..'' # stack else rest)
      else seg # stack)"

definition cleanSegs :: "bool \<Rightarrow> string list \<Rightarrow> string list" where
  "cleanSegs rooted segs = rev (foldl (cleanStep rooted) [] segs)"

definition pathClean :: "string \<Rightarrow> string" where
  "pathClean p =
     (if p = [] then ''.''
      else let rooted = hasPrefix p ''/''; segs = cleanSegs rooted (splitOn CHR ''/'' p)
           in if rooted then CHR ''/'' # joinWith CHR ''/'' segs
              else if segs = [] then ''.'' else joinWith CHR ''/'' segs)"

definition isAbs :: "string \<Rightarrow> bool" where
  "isAbs p = hasPrefix p ''/''"

definition pathJoin :: "string list \<Rightarrow> string" where
  "pathJoin elems =
     (case dropWhile (\<lambda>e. e = []) elems of
        [] \<Rightarrow> []
      | es \<Rightarrow> pathClean (joinWith CHR ''/'' es))"

text \<open>\<open>filepath.Abs\<close>, with the result of \<open>os.Getwd\<close> (\<open>None\<close> when it fails).\<close>

definition pathAbs :: "string option \<Rightarrow> string \<Rightarrow> string option" where
  "pathAbs cwd p = (if isAbs p then Some (pathClean p) else map_option (\<lambda>wd. pathJoin [wd, p]) cwd)"

fun stripCommon :: "string list \<Rightarrow> string list \<Rightarrow> string list \<times> string list" where
  "stripCommon (b # bs) (t # ts) = (if b = t then stripCommon bs ts else (b # bs, t # ts))"
| "stripCommon bs ts = (bs, ts)"

text \<open>The segments of a cleaned path.\<close>

definition pathSegs :: "string \<Rightarrow> string list" where
  "pathSegs p = filter (\<lambda>s. s \<noteq> [] \<and> s \<noteq> ''.'') (splitOn CHR ''/'' p)"

definition pathRel :: "string \<Rightarrow> string \<Rightarrow> string option" where
  "pathRel basepath targpath =
     (let base = pathClean basepath; targ = pathClean targpath in
      if targ = base then Some ''.''
      else if isAbs base \<noteq> isAbs targ then None
      else let (bs, ts) = stripCommon (pathSegs base) (pathSegs targ)
           in if bs \<noteq> [] \<and> ts \<noteq> [] \<and> hd bs = ''..'' then None
              else Some (joinWith CHR ''/'' (replicate (length bs) ''..'' @ ts)))"

subsection \<open>Sanitizing\<close>

datatype pathError = ErrInvalidName | ErrInvalidDir | ErrSystem

definition sanitizeName :: "string \<Rightarrow> pathError + string" where
  "sanitizeName name0 =
     (let name = trimSpace name0 in
      if name = [] \<or> name = ''.'' \<or> name = ''..'' then Inl ErrInvalidName
      else if CHR ''/'' \<in> set name \<or> CHR 0x5C \<in> set name then Inl ErrInvalidName
      else if CHR 0x00 \<in> set name then Inl ErrInvalidName
      else Inr name)"

definition isLetter :: "char \<Rightarrow> bool" where
  "isLetter c = (isLower c \<or> isUpper c)"

definition sanitizeDir :: "string \<Rightarrow> pathError + string" where
  "sanitizeDir dir0 =
     (let dir = trimSpace dir0 in
      if dir = [] \<or> dir = ''.'' then Inr []
      else if CHR 0x00 \<in> set dir then Inl ErrInvalidDir
      else if hasPrefix dir ''/'' \<or> hasPrefix dir [CHR 0x5C] then Inl ErrInvalidDir
      else if 2 \<le> length dir \<and> isLetter (dir ! 0) \<and> dir ! 1 = CHR '':'' then Inl ErrInvalidDir
      else if CHR 0x5C \<in> set dir then Inl ErrInvalidDir
      else let clean = pathClean dir in
        if clean = ''.'' then Inr []
        else if clean = ''..'' \<or> hasPrefix clean ''../'' then Inl ErrInvalidDir
        else Inr clean)"

definition resolvePaths :: "string option \<Rightarrow> string \<Rightarrow> string \<Rightarrow> string \<Rightarrow> pathError + string \<times> string" where
  "resolvePaths cwd baseDir0 dir0 name0 =
     (case sanitizeName name0 of
        Inl e \<Rightarrow> Inl e
      | Inr name \<Rightarrow>
          (case sanitizeDir dir0 of
             Inl e \<Rightarrow> Inl e
           | Inr dir \<Rightarrow>
               let trimmed = trimSpace baseDir0; baseDir = (if trimmed = [] then ''.'' else trimmed)
               in case pathAbs cwd baseDir of
                    None \<Rightarrow> Inl ErrSystem
                  | Some absBase \<Rightarrow>
                      (case pathAbs cwd (pathJoin [absBase, dir, name]) of
                         None \<Rightarrow> Inl ErrSystem
                       | Some absFinal \<Rightarrow>
                           (case pathRel absBase absFinal of
                              None \<Rightarrow> Inl ErrSystem
                            | Some rel \<Rightarrow>
                                if rel = ''..'' \<or> hasPrefix rel ''../'' then Inl ErrInvalidDir
                                else Inr (absFinal, absFinal @ ''.part'')))))"

subsection \<open>Configuration\<close>

type_synonym config = "string \<Rightarrow> string option"

definition readString :: "config option \<Rightarrow> string \<Rightarrow> string \<Rightarrow> string" where
  "readString cfg key def =
     (case cfg of
        None \<Rightarrow> def
      | Some g \<Rightarrow> (case g key of
          None \<Rightarrow> def
        | Some v \<Rightarrow> let s = trimSpace v in if s \<noteq> [] then s else def))"

text \<open>\<open>readInt\<close> and \<open>readInt64\<close>: \<open>int\<close> has 64 bits.\<close>

definition readInt :: "config option \<Rightarrow> string \<Rightarrow> int \<Rightarrow> int" where
  "readInt cfg key def =
     (case cfg of
        None \<Rightarrow> def
      | Some g \<Rightarrow> (case g key of
          None \<Rightarrow> def
        | Some raw \<Rightarrow> (case parseInt64 (trimSpace raw) of
            Some n \<Rightarrow> if 0 < n then n else def
          | None \<Rightarrow> def)))"

definition readUint64 :: "config option \<Rightarrow> string \<Rightarrow> nat \<Rightarrow> nat" where
  "readUint64 cfg key def =
     (case cfg of
        None \<Rightarrow> def
      | Some g \<Rightarrow> (case g key of
          None \<Rightarrow> def
        | Some raw \<Rightarrow> (case parseUint 64 (trimSpace raw) of Some n \<Rightarrow> n | None \<Rightarrow> def)))"

record handlerConfig =
  BaseDir :: string
  MaxSizeBytes :: nat
  MaxConcurrent :: int
  ChunkBytes :: int
  IncompleteTTLSec :: int

text \<open>\<open>filepath.Dir\<close> of a cleaned absolute path: all but the last segment.\<close>

definition pathDir :: "string \<Rightarrow> string" where
  "pathDir p = pathClean (rev (dropWhile (\<lambda>c. c \<noteq> CHR ''/'') (rev p)))"

definition executableDir :: "string option \<Rightarrow> string" where
  "executableDir exe =
     (case exe of
        None \<Rightarrow> []
      | Some e \<Rightarrow> let e' = trimSpace e in if e' = [] \<or> \<not> isAbs e' then [] else pathDir e')"

definition resolveRuntimeBaseDir :: "string option \<Rightarrow> string \<Rightarrow> string" where
  "resolveRuntimeBaseDir exe baseDir0 =
     (let trimmed = trimSpace baseDir0;
          baseDir = pathClean (if trimmed = [] then ''.'' else trimmed)
      in if isAbs baseDir then baseDir
         else if trimSpace (executableDir exe) \<noteq> [] then pathJoin [executableDir exe, baseDir]
         else baseDir)"

definition loadConfig :: "string option \<Rightarrow> config option \<Rightarrow> handlerConfig" where
  "loadConfig exe cfg =
     \<lparr>BaseDir = resolveRuntimeBaseDir exe (readString cfg ''file.base_dir'' ''./file''),
      MaxSizeBytes = readUint64 cfg ''file.max_size_bytes'' 0,
      MaxConcurrent = readInt cfg ''file.max_concurrent'' 4,
      ChunkBytes = readInt cfg ''file.chunk_bytes'' (256 * 1024),
      IncompleteTTLSec = readInt cfg ''file.incomplete_ttl_sec'' 3600\<rparr>"

subsection \<open>Creating a directory\<close>

datatype statResult = StatDir | StatOther | StatNotExist | StatErr

datatype mkdirResult = MkdirOk | MkdirExists | MkdirErr string

text \<open>
  The operating system's answers: \<open>os.MkdirAll\<close> (whether it fails), the two calls of \<open>os.Stat\<close> and \<open>os.Mkdir\<close>.
  Each answer may depend on the path; the calls made are returned.
\<close>

record osAnswers =
  osMkdirAllErr :: "string \<Rightarrow> bool"
  osStat1 :: "string \<Rightarrow> statResult"
  osMkdir :: "string \<Rightarrow> mkdirResult"
  osStat2 :: "string \<Rightarrow> statResult"

datatype osCall = CallMkdirAll string | CallStat string | CallMkdir string

fun containsSub :: "string \<Rightarrow> string \<Rightarrow> bool" where
  "containsSub [] p = (p = [])"
| "containsSub (c # cs) p = (hasPrefix (c # cs) p \<or> containsSub cs p)"

record mkdirOut =
  mkDir :: string
  mkName :: string
  mkCode :: int
  mkMsg :: string

definition mkdirLocalDir ::
  "string option \<Rightarrow> osAnswers \<Rightarrow> string \<Rightarrow> string \<Rightarrow> string \<Rightarrow> mkdirOut \<times> osCall list" where
  "mkdirLocalDir cwd os baseDir dir name =
     (case sanitizeDir dir of
        Inl _ \<Rightarrow> (\<lparr>mkDir = [], mkName = [], mkCode = 400, mkMsg = ''invalid dir''\<rparr>, [])
      | Inr cleanDir \<Rightarrow>
          (case sanitizeName name of
             Inl _ \<Rightarrow> (\<lparr>mkDir = cleanDir, mkName = [], mkCode = 400, mkMsg = ''invalid name''\<rparr>, [])
           | Inr cleanName \<Rightarrow>
               let out = (\<lambda>code msg. \<lparr>mkDir = cleanDir, mkName = cleanName, mkCode = code, mkMsg = msg\<rparr>)
               in case resolvePaths cwd baseDir cleanDir cleanName of
                    Inl _ \<Rightarrow> (out 400 ''invalid path'', [])
                  | Inr (finalPath, _) \<Rightarrow>
                      let c1 = [CallMkdirAll (pathDir finalPath)] in
                      if osMkdirAllErr os (pathDir finalPath) then (out 500 ''mkdir failed'', c1)
                      else let c2 = c1 @ [CallStat finalPath] in
                        (case osStat1 os finalPath of
                           StatDir \<Rightarrow> (out 1 ''ok'', c2)
                         | StatOther \<Rightarrow> (out 409 ''exists'', c2)
                         | StatErr \<Rightarrow> (out 500 ''stat failed'', c2)
                         | StatNotExist \<Rightarrow>
                             let c3 = c2 @ [CallMkdir finalPath] in
                             (case osMkdir os finalPath of
                                MkdirOk \<Rightarrow> (out 1 ''ok'', c3)
                              | MkdirExists \<Rightarrow>
                                  (if osStat2 os finalPath = StatDir then out 1 ''ok'' else out 409 ''exists'',
                                   c3 @ [CallStat finalPath])
                              | MkdirErr e \<Rightarrow>
                                  (if containsSub (toLower e) ''not a directory'' then out 409 ''exists''
                                   else out 500 ''mkdir failed'', c3)))))"

subsection \<open>What cleaning yields\<close>

definition normalSeg :: "string \<Rightarrow> bool" where
  "normalSeg s = (s \<noteq> [] \<and> s \<noteq> ''.'' \<and> s \<noteq> ''..'' \<and> CHR ''/'' \<notin> set s)"

lemma normalSegD: "normalSeg s \<Longrightarrow> s \<noteq> [] \<and> s \<noteq> ''.'' \<and> s \<noteq> ''..'' \<and> CHR ''/'' \<notin> set s"
  by (simp add: normalSeg_def)

text \<open>A rooted path cleans to normal segments; a relative one to parent steps followed by normal segments.\<close>

lemma cleanLoop_rooted:
  "\<forall>s\<in>set segs. CHR ''/'' \<notin> set s \<Longrightarrow> \<forall>s\<in>set stack. normalSeg s \<Longrightarrow>
     \<forall>s\<in>set (foldl (cleanStep True) stack segs). normalSeg s"
proof (induction segs arbitrary: stack)
  case (Cons x segs)
  have "\<forall>s\<in>set (cleanStep True stack x). normalSeg s"
    using Cons.prems by (auto simp: cleanStep_def normalSeg_def split: list.splits)
  with Cons show ?case by simp
qed simp

lemma cleanLoop_relative:
  "\<forall>s\<in>set segs. CHR ''/'' \<notin> set s \<Longrightarrow> \<forall>s\<in>set ns. normalSeg s \<Longrightarrow>
     \<exists>k ms. foldl (cleanStep False) (ns @ replicate j ''..'') segs = ms @ replicate k ''..'' \<and>
            (\<forall>s\<in>set ms. normalSeg s)"
proof (induction segs arbitrary: ns j)
  case (Cons x segs)
  have "\<exists>k ms. cleanStep False (ns @ replicate j ''..'') x = ms @ replicate k ''..'' \<and> (\<forall>s\<in>set ms. normalSeg s)"
  proof (cases "x = ''..''")
    case True
    show ?thesis
    proof (cases ns)
      case Nil
      have "cleanStep False (replicate j ''..'') ''..'' = [] @ replicate (Suc j) ''..''"
        by (cases j) (simp_all add: cleanStep_def)
      then show ?thesis unfolding True Nil by (metis append_Nil ball_empty set_empty)
    next
      case (Cons n ns')
      then have "cleanStep False (ns @ replicate j ''..'') x = ns' @ replicate j ''..''"
        using Cons.prems(2) True by (simp add: cleanStep_def normalSeg_def)
      then show ?thesis using Cons.prems(2) Cons by auto
    qed
  next
    case False
    have "cleanStep False (ns @ replicate j ''..'') x =
        (if x = [] \<or> x = ''.'' then ns else x # ns) @ replicate j ''..''"
      using False by (simp add: cleanStep_def)
    moreover have "\<forall>s\<in>set (if x = [] \<or> x = ''.'' then ns else x # ns). normalSeg s"
      using Cons.prems False by (simp add: normalSeg_def)
    ultimately show ?thesis by blast
  qed
  then obtain k ms where "cleanStep False (ns @ replicate j ''..'') x = ms @ replicate k ''..''"
    and "\<forall>s\<in>set ms. normalSeg s" by blast
  with Cons.IH[of ms k] Cons.prems(1) show ?case by simp
qed auto

lemma splitOn_free_parts: "\<forall>s\<in>set (splitOn sep p). sep \<notin> set s"
  using splitOn_parts by blast

lemma cleanSegs_rooted: "\<forall>s\<in>set (cleanSegs True (splitOn CHR ''/'' p)). normalSeg s"
  using cleanLoop_rooted[OF splitOn_free_parts, of "[]"] by (simp add: cleanSegs_def)

lemma cleanSegs_relative:
  "\<exists>k ms. cleanSegs False (splitOn CHR ''/'' p) = replicate k ''..'' @ ms \<and> (\<forall>s\<in>set ms. normalSeg s)"
proof -
  obtain k ms where "foldl (cleanStep False) [] (splitOn CHR ''/'' p) = ms @ replicate k ''..''"
    and "\<forall>s\<in>set ms. normalSeg s"
    using cleanLoop_relative[OF splitOn_free_parts[of "CHR ''/''" p], of "[]" 0] by auto
  then have "cleanSegs False (splitOn CHR ''/'' p) = replicate k ''..'' @ rev ms \<and> (\<forall>s\<in>set (rev ms). normalSeg s)"
    by (simp add: cleanSegs_def)
  then show ?thesis by blast
qed

lemma cleanLoop_skip: "\<forall>s\<in>set segs. normalSeg s \<Longrightarrow> foldl (cleanStep r) stack segs = rev segs @ stack"
  by (induction segs arbitrary: stack) (auto simp: cleanStep_def dest: normalSegD)

text \<open>An absolute path with the given segments.\<close>

definition absPath :: "string list \<Rightarrow> string" where
  "absPath segs = CHR ''/'' # joinWith CHR ''/'' segs"

lemma pathClean_abs:
  assumes "hasPrefix p ''/''"
  shows "\<exists>segs. pathClean p = absPath segs \<and> (\<forall>s\<in>set segs. normalSeg s)"
  using assms cleanSegs_rooted[of p] by (cases p) (auto simp: pathClean_def absPath_def hasPrefix_def Let_def)

lemma hasPrefix_slash: "hasPrefix p ''/'' \<longleftrightarrow> (\<exists>r. p = CHR ''/'' # r)"
  by (auto simp: hasPrefix_iff)

lemma pathClean_relative:
  assumes "hasPrefix (pathClean p) ''/''"
  shows "hasPrefix p ''/''"
proof (rule ccontr)
  assume rel: "\<not> hasPrefix p ''/''"
  let ?segs = "cleanSegs False (splitOn CHR ''/'' p)"
  obtain k ms where segs: "?segs = replicate k ''..'' @ ms" "\<forall>s\<in>set ms. normalSeg s"
    using cleanSegs_relative by blast
  have "?segs \<noteq> []" "hasPrefix (joinWith CHR ''/'' ?segs) ''/''"
    using assms rel by (auto simp: pathClean_def hasPrefix_def Let_def split: if_splits)
  then have "hd ?segs = [] \<or> CHR ''/'' \<in> set (hd ?segs)"
    by (cases "(CHR ''/'', ?segs)" rule: joinWith.cases) (auto simp: hasPrefix_slash Cons_eq_append_conv append_eq_Cons_conv)
  moreover have "hd ?segs = ''..'' \<or> normalSeg (hd ?segs)"
    using segs \<open>?segs \<noteq> []\<close> by (cases k) auto
  ultimately show False by (auto dest: normalSegD)
qed

lemma splitOn_joinWith_normal:
  "\<forall>s\<in>set segs. normalSeg s \<Longrightarrow> segs \<noteq> [] \<Longrightarrow> splitOn CHR ''/'' (joinWith CHR ''/'' segs) = segs"
  by (rule splitOn_join) (auto dest: normalSegD)

lemma foldl_clean_split:
  "\<forall>s\<in>set segs. normalSeg s \<Longrightarrow>
     foldl (cleanStep r) stack (splitOn CHR ''/'' (joinWith CHR ''/'' segs)) = rev segs @ stack"
  by (cases "segs = []") (simp add: cleanStep_def, simp add: splitOn_joinWith_normal cleanLoop_skip)

lemma absPath_split: "splitOn CHR ''/'' (absPath segs) = [] # splitOn CHR ''/'' (joinWith CHR ''/'' segs)"
  by (simp add: absPath_def)

lemma pathClean_absPath [simp]:
  "\<forall>s\<in>set segs. normalSeg s \<Longrightarrow> pathClean (absPath segs) = absPath segs"
  using foldl_clean_split[of segs True "[]"]
  by (simp add: pathClean_def cleanSegs_def absPath_def hasPrefix_slash cleanStep_def Let_def)

lemma isAbs_absPath [simp]: "isAbs (absPath segs)"
  by (simp add: isAbs_def absPath_def hasPrefix_def)

text \<open>Joining a directory of normal segments and a name to an absolute path.\<close>

lemma pathJoin_abs:
  assumes "\<forall>s\<in>set bs. normalSeg s" and "\<forall>s\<in>set ds. normalSeg s" and "normalSeg n"
  shows "pathJoin [absPath bs, joinWith CHR ''/'' ds, n] = absPath (bs @ ds @ [n])"
proof -
  let ?j = "absPath bs @ CHR ''/'' # joinWith CHR ''/'' ds @ CHR ''/'' # n"
  have "foldl (cleanStep True) [] (splitOn CHR ''/'' ?j) = rev (bs @ ds @ [n])"
    using assms foldl_clean_split[of bs True "[]"] foldl_clean_split[of ds True "rev bs"]
      foldl_clean_split[of "[n]" True "rev ds @ rev bs"]
    by (simp add: splitOn_append absPath_split cleanStep_def)
  moreover have "hasPrefix ?j ''/''" by (simp add: absPath_def hasPrefix_def)
  moreover have "pathJoin [absPath bs, joinWith CHR ''/'' ds, n] = pathClean ?j"
    by (simp add: pathJoin_def absPath_def)
  ultimately show ?thesis by (simp add: pathClean_def cleanSegs_def absPath_def)
qed

lemma pathSegs_absPath: "\<forall>s\<in>set segs. normalSeg s \<Longrightarrow> pathSegs (absPath segs) = segs"
  by (cases "segs = []")
     (simp_all add: pathSegs_def absPath_split splitOn_joinWith_normal filter_id_conv normalSeg_def)

lemma absPath_inj:
  "\<forall>s\<in>set xs. normalSeg s \<Longrightarrow> \<forall>s\<in>set ys. normalSeg s \<Longrightarrow> absPath xs = absPath ys \<Longrightarrow> xs = ys"
  using pathSegs_absPath by metis

lemma stripCommon_append: "stripCommon bs (bs @ ts) = ([], ts)"
proof (induction bs)
  case Nil
  then show ?case by (cases ts) auto
qed simp

lemma pathRel_below:
  assumes "\<forall>s\<in>set bs. normalSeg s" and "\<forall>s\<in>set ts. normalSeg s" and "ts \<noteq> []"
  shows "pathRel (absPath bs) (absPath (bs @ ts)) = Some (joinWith CHR ''/'' ts)"
proof -
  have all: "\<forall>s\<in>set (bs @ ts). normalSeg s" using assms by auto
  have "absPath (bs @ ts) \<noteq> absPath bs" using absPath_inj[OF all assms(1)] assms(3) by auto
  then show ?thesis
    using assms all by (simp add: pathRel_def pathSegs_absPath stripCommon_append Let_def)
qed

lemma joinWith_up:
  assumes "\<forall>s\<in>set segs. CHR ''/'' \<notin> set s" and "segs \<noteq> []"
  shows "joinWith CHR ''/'' segs = ''..'' \<or> hasPrefix (joinWith CHR ''/'' segs) ''../'' \<longleftrightarrow> hd segs = ''..''"
proof
  assume "joinWith CHR ''/'' segs = ''..'' \<or> hasPrefix (joinWith CHR ''/'' segs) ''../''"
  then have "hd (splitOn CHR ''/'' (joinWith CHR ''/'' segs)) = ''..''" by (auto simp: hasPrefix_iff split: list.split)
  then show "hd segs = ''..''" using splitOn_join[OF assms(2,1)] by simp
next
  assume "hd segs = ''..''"
  then show "joinWith CHR ''/'' segs = ''..'' \<or> hasPrefix (joinWith CHR ''/'' segs) ''../''"
    using assms(2) by (cases "(CHR ''/'', segs)" rule: joinWith.cases) (auto simp: hasPrefix_def)
qed

lemma joinWith_snoc_extend: "joinWith sep (xs @ [n @ p]) = joinWith sep (xs @ [n]) @ p"
  by (cases "xs = []") (simp_all add: joinWith_append)

lemma pathDir_absPath:
  assumes "\<forall>s\<in>set xs. normalSeg s" and "normalSeg n"
  shows "pathDir (absPath (xs @ [n])) = absPath xs"
proof -
  have cut: "rev (dropWhile (\<lambda>c. c \<noteq> CHR ''/'') (rev (u @ CHR ''/'' # n))) = u @ ''/''" for u
    using normalSegD[OF assms(2)] by (simp add: dropWhile_append)
  show ?thesis
  proof (cases "xs = []")
    case True
    then show ?thesis using cut[of "[]"] pathClean_absPath[of "[]"] by (simp add: pathDir_def absPath_def)
  next
    case False
    have "foldl (cleanStep True) [] (splitOn CHR ''/'' (absPath xs @ ''/'')) = rev xs"
      using foldl_clean_split[OF assms(1), of True "[]"] by (simp add: splitOn_append absPath_split cleanStep_def)
    then have "pathClean (absPath xs @ ''/'') = absPath xs"
      by (simp add: pathClean_def cleanSegs_def absPath_def hasPrefix_slash)
    then show ?thesis
      using False cut[of "absPath xs"] by (simp add: pathDir_def absPath_def joinWith_append)
  qed
qed

subsection \<open>What sanitizing guarantees\<close>

definition safeSeg :: "string \<Rightarrow> bool" where
  "safeSeg s = (normalSeg s \<and> CHR 0x5C \<notin> set s \<and> CHR 0x00 \<notin> set s)"

lemma sanitizeName_Inr: "sanitizeName n0 = Inr n \<Longrightarrow> safeSeg n \<and> n = trimSpace n0"
  by (auto simp: sanitizeName_def safeSeg_def normalSeg_def Let_def split: if_splits)

lemma cleanLoop_chars:
  "x \<in> set s \<Longrightarrow> s \<in> set (foldl (cleanStep r) stack segs) \<Longrightarrow>
     (\<exists>u\<in>set stack. x \<in> set u) \<or> (\<exists>u\<in>set segs. x \<in> set u) \<or> x = CHR ''.''"
proof (induction segs arbitrary: stack)
  case (Cons y segs)
  have "(\<exists>u\<in>set (cleanStep r stack y). x \<in> set u) \<Longrightarrow>
      (\<exists>u\<in>set stack. x \<in> set u) \<or> x \<in> set y \<or> x = CHR ''.''"
    by (auto simp: cleanStep_def split: if_splits list.splits)
  with Cons show ?case by fastforce
qed auto

lemma sanitizeDir_Inr:
  assumes "sanitizeDir d0 = Inr d"
  shows "\<exists>ds. d = joinWith CHR ''/'' ds \<and> (\<forall>s\<in>set ds. safeSeg s)"
proof (cases "d = []")
  case True
  then have "d = joinWith CHR ''/'' []" by simp
  then show ?thesis by (metis empty_iff list.set(1))
next
  case False
  let ?t = "trimSpace d0"
  let ?segs = "cleanSegs False (splitOn CHR ''/'' ?t)"
  have t: "?t \<noteq> []" "\<not> hasPrefix ?t ''/''" "CHR 0x5C \<notin> set ?t" "CHR 0x00 \<notin> set ?t"
    and d: "d = pathClean ?t" "d \<noteq> ''.''" "\<not> (d = ''..'' \<or> hasPrefix d ''../'')"
    using assms False by (auto simp: sanitizeDir_def Let_def split: if_splits)
  have dj: "?segs \<noteq> []" "d = joinWith CHR ''/'' ?segs"
    using d t by (auto simp: pathClean_def Let_def split: if_splits)
  obtain k ms where segs: "?segs = replicate k ''..'' @ ms" "\<forall>s\<in>set ms. normalSeg s"
    using cleanSegs_relative by blast
  have free: "\<forall>s\<in>set ?segs. CHR ''/'' \<notin> set s" using segs by (auto dest: normalSegD)
  have "hd ?segs \<noteq> ''..''" using joinWith_up[OF free dj(1)] d(3) dj(2) by simp
  then have "k = 0" using segs(1) by (cases k) auto
  moreover have "x \<in> set ?t \<or> x = CHR ''.''" if "s \<in> set ?segs" "x \<in> set s" for s x
    using cleanLoop_chars[OF that(2), of False "[]" "splitOn CHR ''/'' ?t"] that(1) splitOn_parts
    by (fastforce simp: cleanSegs_def)
  ultimately have "\<forall>s\<in>set ?segs. safeSeg s" using segs t(3,4) by (fastforce simp: safeSeg_def)
  with dj(2) show ?thesis by blast
qed

lemma pathAbs_abs:
  assumes "\<And>wd. cwd = Some wd \<Longrightarrow> isAbs wd" and "pathAbs cwd p = Some a"
  shows "\<exists>bs. a = absPath bs \<and> (\<forall>s\<in>set bs. normalSeg s)"
proof (cases "isAbs p")
  case True
  with assms(2) pathClean_abs[of p] show ?thesis by (auto simp: pathAbs_def isAbs_def)
next
  case False
  then obtain wd where wd: "cwd = Some wd" "a = pathJoin [wd, p]" using assms(2) by (auto simp: pathAbs_def)
  with assms(1) obtain r where "wd = CHR ''/'' # r" by (auto simp: isAbs_def hasPrefix_slash)
  then have "a = pathClean (wd @ CHR ''/'' # p)" "hasPrefix (wd @ CHR ''/'' # p) ''/''"
    using wd by (simp_all add: pathJoin_def hasPrefix_slash)
  with pathClean_abs show ?thesis by auto
qed

definition resolveBase :: "string \<Rightarrow> string" where
  "resolveBase b = (if trimSpace b = [] then ''.'' else trimSpace b)"

lemma safe_normal: "\<forall>s\<in>set ds. safeSeg s \<Longrightarrow> \<forall>s\<in>set ds. normalSeg s"
  by (simp add: safeSeg_def)

text \<open>What \<open>resolvePaths\<close> computes once its inputs are acceptable: the check of the relative path never fires.\<close>

lemma resolvePaths_value:
  assumes "sanitizeName n0 = Inr n" and "sanitizeDir d0 = Inr (joinWith CHR ''/'' ds)" and "\<forall>s\<in>set ds. safeSeg s"
    and "pathAbs cwd (resolveBase b) = Some (absPath bs)" and "\<forall>s\<in>set bs. normalSeg s"
  shows "resolvePaths cwd b d0 n0 = Inr (absPath (bs @ ds @ [n]), absPath (bs @ ds @ [n @ ''.part'']))"
proof -
  have n: "normalSeg n" using sanitizeName_Inr[OF assms(1)] unfolding safeSeg_def by blast
  note ds = safe_normal[OF assms(3)]
  have dn: "\<forall>s\<in>set (ds @ [n]). normalSeg s" and all: "\<forall>s\<in>set (bs @ ds @ [n]). normalSeg s"
    using n ds assms(5) by auto
  have free: "\<forall>s\<in>set (ds @ [n]). CHR ''/'' \<notin> set s" using dn by (auto dest: normalSegD)
  have "hd (ds @ [n]) \<noteq> ''..''" using dn by (cases ds) (auto dest: normalSegD)
  then have rel: "\<not> (joinWith CHR ''/'' (ds @ [n]) = ''..'' \<or> hasPrefix (joinWith CHR ''/'' (ds @ [n])) ''../'')"
    using joinWith_up[OF free] by simp
  have part: "absPath (bs @ ds @ [n]) @ ''.part'' = absPath (bs @ ds @ [n @ ''.part''])"
    using joinWith_snoc_extend[of "CHR ''/''" "bs @ ds" n] by (simp add: absPath_def)
  show ?thesis
    unfolding resolvePaths_def using assms(1,2,4) pathJoin_abs[OF assms(5) ds n] all rel part
      pathRel_below[OF assms(5) dn]
    by (simp add: resolveBase_def pathAbs_def Let_def split: if_splits)
qed

lemma resolvePaths_Inr:
  assumes "\<And>wd. cwd = Some wd \<Longrightarrow> isAbs wd" and "resolvePaths cwd b d0 n0 = Inr (final, part)"
  shows "\<exists>bs ds n. pathAbs cwd (resolveBase b) = Some (absPath bs) \<and> (\<forall>s\<in>set bs. normalSeg s) \<and>
    sanitizeDir d0 = Inr (joinWith CHR ''/'' ds) \<and> (\<forall>s\<in>set ds. safeSeg s) \<and> sanitizeName n0 = Inr n \<and> safeSeg n \<and>
    final = absPath (bs @ ds @ [n]) \<and> part = absPath (bs @ ds @ [n @ ''.part''])"
proof -
  obtain n d a where nd: "sanitizeName n0 = Inr n" "sanitizeDir d0 = Inr d"
    and a: "pathAbs cwd (resolveBase b) = Some a"
    using assms(2) by (auto simp: resolvePaths_def resolveBase_def Let_def split: sum.splits option.splits if_splits)
  obtain ds where ds: "d = joinWith CHR ''/'' ds" "\<forall>s\<in>set ds. safeSeg s" using sanitizeDir_Inr[OF nd(2)] by blast
  obtain bs where bs: "a = absPath bs" "\<forall>s\<in>set bs. normalSeg s" using pathAbs_abs[OF assms(1) a] by blast
  show ?thesis
    using resolvePaths_value[OF nd(1) nd(2)[unfolded ds(1)] ds(2) a[unfolded bs(1)] bs(2)] nd ds a bs assms(2)
      sanitizeName_Inr[OF nd(1)] by auto
qed

subsection \<open>Configuration values\<close>

lemma readInt_range:
  assumes "0 < d" and "d < 2 ^ 63"
  shows "0 < readInt cfg k d \<and> readInt cfg k d < 2 ^ 63"
proof -
  have "n < 2 ^ 63" if "parseInt64 s = Some n" for s n
    using that by (auto simp: parseInt64_def Let_def split: option.splits if_splits)
  then show ?thesis using assms by (auto simp: readInt_def split: option.split)
qed

lemma readUint64_range: "d < 2 ^ 64 \<Longrightarrow> readUint64 cfg k d < 2 ^ 64"
  by (auto simp: readUint64_def dest: parseUint_bound split: option.split)

lemma pathDir_abs:
  assumes "isAbs p"
  shows "\<exists>bs. pathDir p = absPath bs \<and> (\<forall>s\<in>set bs. normalSeg s)"
proof -
  obtain r where p: "p = CHR ''/'' # r" using assms by (auto simp: isAbs_def hasPrefix_slash)
  have "hasPrefix (rev (dropWhile (\<lambda>c. c \<noteq> CHR ''/'') (rev p))) ''/''"
    unfolding p by (auto simp: dropWhile_append hasPrefix_def)
  from pathClean_abs[OF this] show ?thesis by (simp add: pathDir_def)
qed

lemma resolveRuntimeBaseDir_abs:
  assumes "exe = Some e" and "isAbs (trimSpace e)"
  shows "\<exists>bs. resolveRuntimeBaseDir exe b = absPath bs \<and> (\<forall>s\<in>set bs. normalSeg s)"
proof -
  define base where "base = pathClean (if trimSpace b = [] then ''.'' else trimSpace b)"
  have e: "executableDir exe = pathDir (trimSpace e)"
    using assms by (cases "trimSpace e") (auto simp: executableDir_def isAbs_def hasPrefix_def)
  obtain ps where ps: "executableDir exe = absPath ps" "\<forall>s\<in>set ps. normalSeg s"
    using pathDir_abs[OF assms(2)] e by auto
  have "CHR ''/'' \<in> set (trimSpace (executableDir exe))"
    by (rule trimSpace_keeps) (simp_all add: ps(1) absPath_def spaceRunes_def)
  then have ne: "trimSpace (executableDir exe) \<noteq> []" by auto
  show ?thesis
  proof (cases "isAbs base")
    case True
    have rt: "resolveRuntimeBaseDir exe b = base" using True by (simp add: resolveRuntimeBaseDir_def base_def Let_def)
    have "hasPrefix (if trimSpace b = [] then ''.'' else trimSpace b) ''/''"
      using True pathClean_relative unfolding base_def isAbs_def by blast
    from pathClean_abs[OF this] show ?thesis by (simp add: rt base_def)
  next
    case False
    have "resolveRuntimeBaseDir exe b = pathClean (absPath ps @ CHR ''/'' # base)"
      using False ne ps(1) by (simp add: resolveRuntimeBaseDir_def base_def pathJoin_def absPath_def Let_def)
    moreover have "hasPrefix (absPath ps @ CHR ''/'' # base) ''/''" by (simp add: absPath_def hasPrefix_slash)
    ultimately show ?thesis using pathClean_abs by simp
  qed
qed

subsection \<open>Properties\<close>

text \<open>
  C15: A path that \<open>resolvePaths\<close> returns lies strictly below the base directory: its
  segments are those of the absolute base directory followed by at least one further segment, none of which is empty, \<open>.\<close>,
  \<open>..\<close> or contains a slash, a backslash or a NUL. The partial file is in the same directory.
\<close>
theorem resolvePaths_confined:
  assumes "\<And>wd. cwd = Some wd \<Longrightarrow> isAbs wd" and "resolvePaths cwd baseDir dir name = Inr (final, part)"
  shows "\<exists>bs ds n. pathAbs cwd (resolveBase baseDir) = Some (absPath bs) \<and>
    final = absPath (bs @ ds @ [n]) \<and> part = absPath (bs @ ds @ [n @ ''.part'']) \<and>
    (\<forall>s\<in>set (ds @ [n]). s \<notin> {[], ''.'', ''..''} \<and> set s \<inter> {CHR ''/'', CHR 0x5C, CHR 0x00} = {})"
  using resolvePaths_Inr[OF assms] by (auto simp: safeSeg_def normalSeg_def)

theorem resolvePaths_confined_witness:
  "isAbs ''/srv'' \<and>
   (\<exists>bs ds n. pathAbs (Some ''/srv'') (resolveBase ''./file'') = Some (absPath bs) \<and>
      ''/srv/file/b/x.txt'' = absPath (bs @ ds @ [n]))"
proof
  have r: "resolvePaths (Some ''/srv'') ''./file'' ''a/../b'' ''x.txt'' = Inr (''/srv/file/b/x.txt'', ''/srv/file/b/x.txt.part'')"
    by code_simp
  show abs: "isAbs ''/srv''" by code_simp
  show "\<exists>bs ds n. pathAbs (Some ''/srv'') (resolveBase ''./file'') = Some (absPath bs) \<and>
      ''/srv/file/b/x.txt'' = absPath (bs @ ds @ [n])"
    using resolvePaths_confined[OF _ r] abs by blast
qed

text \<open>
  With a working directory, the only requests that \<open>resolvePaths\<close> refuses are those whose name or directory is
  refused on its own; the final check of the relative path never rejects anything.
\<close>
theorem resolvePaths_accepts:
  assumes "isAbs wd"
  shows "isl (resolvePaths (Some wd) baseDir dir name) \<longleftrightarrow> isl (sanitizeName name) \<or> isl (sanitizeDir dir)"
proof (cases "isl (sanitizeName name) \<or> isl (sanitizeDir dir)")
  case True
  then show ?thesis by (auto simp: resolvePaths_def split: sum.split)
next
  case False
  then obtain n d where nd: "sanitizeName name = Inr n" "sanitizeDir dir = Inr d"
    by (metis isl_def sum.exhaust)
  obtain ds where ds: "d = joinWith CHR ''/'' ds" "\<forall>s\<in>set ds. safeSeg s" using sanitizeDir_Inr[OF nd(2)] by blast
  obtain a where a: "pathAbs (Some wd) (resolveBase baseDir) = Some a"
    by (cases "isAbs (resolveBase baseDir)") (simp_all add: pathAbs_def)
  obtain bs where bs: "a = absPath bs" "\<forall>s\<in>set bs. normalSeg s" using pathAbs_abs[OF _ a] assms by auto
  show ?thesis
    using False resolvePaths_value[OF nd(1) nd(2)[unfolded ds(1)] ds(2) a[unfolded bs(1)] bs(2)] by simp
qed

theorem resolvePaths_accepts_witness:
  "isAbs ''/srv'' \<and> \<not> isl (resolvePaths (Some ''/srv'') ''files'' ''a/b'' ''c'') \<and>
   isl (resolvePaths (Some ''/srv'') ''files'' ''a/../..'' ''c'')"
proof -
  have "isAbs ''/srv''" "\<not> isl (sanitizeName ''c'')" "\<not> isl (sanitizeDir ''a/b'')" "isl (sanitizeDir ''a/../..'')"
    by code_simp+
  then show ?thesis using resolvePaths_accepts[of "''/srv''"] by simp
qed

text \<open>
  Two accepted requests that resolve to the same file under the same base directory have the same sanitized
  directory and name.
\<close>
theorem resolvePaths_injective:
  assumes "\<And>wd. cwd = Some wd \<Longrightarrow> isAbs wd"
    and "resolvePaths cwd baseDir dir name = Inr (final, part)"
    and "resolvePaths cwd baseDir dir' name' = Inr (final, part')"
  shows "sanitizeDir dir = sanitizeDir dir' \<and> sanitizeName name = sanitizeName name' \<and> part = part'"
proof -
  obtain bs ds n where 1: "pathAbs cwd (resolveBase baseDir) = Some (absPath bs)" "\<forall>s\<in>set bs. normalSeg s"
    "sanitizeDir dir = Inr (joinWith CHR ''/'' ds)" "\<forall>s\<in>set ds. safeSeg s" "sanitizeName name = Inr n" "safeSeg n"
    "final = absPath (bs @ ds @ [n])" "part = absPath (bs @ ds @ [n @ ''.part''])"
    using resolvePaths_Inr[OF assms(1,2)] by blast
  obtain bs' ds' n' where 2: "pathAbs cwd (resolveBase baseDir) = Some (absPath bs')" "\<forall>s\<in>set bs'. normalSeg s"
    "sanitizeDir dir' = Inr (joinWith CHR ''/'' ds')" "\<forall>s\<in>set ds'. safeSeg s" "sanitizeName name' = Inr n'" "safeSeg n'"
    "final = absPath (bs' @ ds' @ [n'])" "part' = absPath (bs' @ ds' @ [n' @ ''.part''])"
    using resolvePaths_Inr[OF assms(1,3)] by blast
  have "bs @ ds @ [n] = bs' @ ds' @ [n']"
    by (rule absPath_inj) (use 1 2 in \<open>auto simp: safeSeg_def\<close>)
  moreover have "bs = bs'" by (rule absPath_inj) (use 1 2 in auto)
  ultimately show ?thesis using 1 2 by simp
qed

theorem resolvePaths_injective_witness:
  "sanitizeDir ''a/../b'' = sanitizeDir ''./b/'' \<and> sanitizeName ''x'' = sanitizeName '' x ''"
proof -
  have "resolvePaths None ''/srv'' ''a/../b'' ''x'' = Inr (''/srv/b/x'', ''/srv/b/x.part'')"
    "resolvePaths None ''/srv'' ''./b/'' '' x '' = Inr (''/srv/b/x'', ''/srv/b/x.part'')" by code_simp+
  from resolvePaths_injective[OF _ this] show ?thesis by simp
qed

fun osCallPath :: "osCall \<Rightarrow> string" where
  "osCallPath (CallMkdirAll p) = p"
| "osCallPath (CallStat p) = p"
| "osCallPath (CallMkdir p) = p"

lemma mkdir_calls:
  assumes "c \<in> set (snd (mkdirLocalDir cwd os b d n))"
  shows "\<exists>d' n' final part. resolvePaths cwd b d' n' = Inr (final, part) \<and> osCallPath c \<in> {final, pathDir final}"
  using assms
  by (auto simp: mkdirLocalDir_def Let_def split: sum.splits if_splits statResult.splits mkdirResult.splits) blast+

text \<open>
  Every path that \<open>mkdirLocalDir\<close> hands to the operating system is the base
  directory or lies below it, whatever directory and name are requested and whatever the operating system answers; a
  refused request (code 400) touches nothing.
\<close>
theorem mkdirLocalDir_confined:
  assumes "\<And>wd. cwd = Some wd \<Longrightarrow> isAbs wd" and "mkdirLocalDir cwd os baseDir dir name = (out, calls)"
  shows "(\<forall>c\<in>set calls. \<exists>bs ds. pathAbs cwd (resolveBase baseDir) = Some (absPath bs) \<and>
            osCallPath c = absPath (bs @ ds) \<and> (\<forall>s\<in>set ds. safeSeg s)) \<and>
         (mkCode out = 400 \<longrightarrow> calls = [])"
proof (intro conjI ballI impI)
  fix c assume "c \<in> set calls"
  with assms(2) obtain d' n' final part where f: "resolvePaths cwd baseDir d' n' = Inr (final, part)"
    and c: "osCallPath c \<in> {final, pathDir final}" using mkdir_calls[of c cwd os baseDir dir name] by auto
  obtain bs ds n where r: "pathAbs cwd (resolveBase baseDir) = Some (absPath bs)" "\<forall>s\<in>set bs. normalSeg s"
    "\<forall>s\<in>set ds. safeSeg s" "safeSeg n" "final = absPath (bs @ ds @ [n])"
    using resolvePaths_Inr[OF assms(1) f] by blast
  have "pathDir final = absPath (bs @ ds)"
    using pathDir_absPath[of "bs @ ds" n] r by (auto simp: safeSeg_def)
  with c r have "osCallPath c = absPath (bs @ (ds @ [n])) \<or> osCallPath c = absPath (bs @ ds)" by auto
  then show "\<exists>bs ds. pathAbs cwd (resolveBase baseDir) = Some (absPath bs) \<and>
      osCallPath c = absPath (bs @ ds) \<and> (\<forall>s\<in>set ds. safeSeg s)"
    using r(1,3,4) by (elim disjE) (intro exI[of _ bs] exI[of _ "ds @ [n]"], simp, intro exI[of _ bs] exI[of _ ds], simp)
next
  assume "mkCode out = 400"
  then show "calls = []"
    using assms(2)
    by (auto simp: mkdirLocalDir_def Let_def split: sum.splits if_splits statResult.splits mkdirResult.splits)
qed

definition demoOs :: osAnswers where
  "demoOs = \<lparr>osMkdirAllErr = (\<lambda>_. False), osStat1 = (\<lambda>_. StatNotExist), osMkdir = (\<lambda>_. MkdirOk), osStat2 = (\<lambda>_. StatDir)\<rparr>"

theorem mkdirLocalDir_confined_witness:
  "\<exists>bs ds. pathAbs None (resolveBase ''/srv'') = Some (absPath bs) \<and> ''/srv/a/b'' = absPath (bs @ ds)"
proof -
  have m: "mkdirLocalDir None demoOs ''/srv'' ''a'' ''b'' =
      (\<lparr>mkDir = ''a'', mkName = ''b'', mkCode = 1, mkMsg = ''ok''\<rparr>,
       [CallMkdirAll ''/srv/a'', CallStat ''/srv/a/b'', CallMkdir ''/srv/a/b''])" by code_simp
  from mkdirLocalDir_confined[OF _ m] show ?thesis by auto
qed

text \<open>
  The directory that \<open>mkdirLocalDir\<close> reports need not be the one it creates: sanitizing is
  not idempotent, since cleaning may uncover a trailing space that the second pass (inside
  \<open>resolvePaths\<close>) trims. It may also uncover a drive prefix, which the check on the
  uncleaned text does not see.
\<close>
theorem sanitizeDir_not_idempotent:
  "sanitizeDir ''b /x/..'' = Inr ''b '' \<and> sanitizeDir ''b '' = Inr ''b'' \<and>
   mkdirLocalDir None demoOs ''/srv'' ''b /x/..'' ''n'' =
     (\<lparr>mkDir = ''b '', mkName = ''n'', mkCode = 1, mkMsg = ''ok''\<rparr>,
      [CallMkdirAll ''/srv/b'', CallStat ''/srv/b/n'', CallMkdir ''/srv/b/n'']) \<and>
   sanitizeDir ''C:x'' = Inl ErrInvalidDir \<and> sanitizeDir ''a/../C:x'' = Inr ''C:x''"
  by (intro conjI) code_simp+

text \<open>
  Whatever the configuration contains, the limits of the file handler are sane: positive
  concurrency, chunk size and timeout within 64 bits, a size limit that fits \<open>uint64\<close>, and, when
  the executable's directory is known, an absolute clean base directory.
\<close>
theorem loadConfig_sane:
  assumes "exe = Some e" and "isAbs (trimSpace e)"
  shows "0 < MaxConcurrent (loadConfig exe cfg) \<and> MaxConcurrent (loadConfig exe cfg) < 2 ^ 63 \<and>
    0 < ChunkBytes (loadConfig exe cfg) \<and> ChunkBytes (loadConfig exe cfg) < 2 ^ 63 \<and>
    0 < IncompleteTTLSec (loadConfig exe cfg) \<and> IncompleteTTLSec (loadConfig exe cfg) < 2 ^ 63 \<and>
    MaxSizeBytes (loadConfig exe cfg) < 2 ^ 64 \<and>
    (\<exists>bs. BaseDir (loadConfig exe cfg) = absPath bs \<and> (\<forall>s\<in>set bs. normalSeg s))"
proof -
  have i: "0 < readInt cfg k d \<and> readInt cfg k d < 2 ^ 63" if "0 < d" "d < 2 ^ 63" for k d
    using readInt_range[OF that] .
  have u: "readUint64 cfg k 0 < 2 ^ 64" for k by (rule readUint64_range) simp
  show ?thesis
    using i[of 4] i[of "256 * 1024"] i[of 3600] u resolveRuntimeBaseDir_abs[OF assms]
    by (simp add: loadConfig_def)
qed

theorem loadConfig_sane_witness:
  "isAbs (trimSpace ''/opt/hub/hub_server'') \<and>
   ChunkBytes (loadConfig (Some ''/opt/hub/hub_server'') (Some (\<lambda>_. Some ''-7''))) < 2 ^ 63"
proof -
  have "isAbs (trimSpace ''/opt/hub/hub_server'')" by code_simp
  with loadConfig_sane[OF refl this] show ?thesis by blast
qed

end
