(* ===== verification/File_Session.thy ===== *)
theory File_Session
  imports File_Paths Wire_Codecs Node_Env
begin

text \<open>
  The data plane of \<open>file\<close> (\<open>file/handler.go\<close>, \<open>sessions.go\<close>): receiving sessions that write chunks in order and
  keep early chunks in a bounded buffer, their completion, the sending loop, and the files behind
  them. Offsets are \<open>uint64\<close>: natural numbers with the wrap-around written out.

  Files are inodes: a path names an inode, an open file is an inode with a position, so that
  two sessions on one path share the bytes as they do in the code. The operating system's answers
  (which calls fail, how many bytes a read returns) and SHA-256 are parameters.
\<close>

subsection \<open>Files\<close>

record fsys =
  fsInode :: "(string, nat) gomap"
  fsData :: "(nat, byte list) gomap"
  fsNext :: nat

text \<open>
  \<open>omWrite\<close>: a write at a position of an inode fails after this many bytes. \<open>omRead\<close>: how many bytes a read at an
  offset returns, cut to what is left (a read of a file that is not at its end returns at least one byte).
\<close>

record osModel =
  omMkdirAllErr :: "string \<Rightarrow> bool"
  omIsDir :: "string \<Rightarrow> bool"
  omOpenErr :: "string \<Rightarrow> bool"
  omTruncErr :: "string \<Rightarrow> bool"
  omSeekErr :: "string \<Rightarrow> bool"
  omRenameErr :: "string \<Rightarrow> bool"
  omWrite :: "nat \<Rightarrow> nat \<Rightarrow> nat option"
  omRead :: "nat \<Rightarrow> nat"
  omReadErr :: "nat \<Rightarrow> bool"
  omSha256 :: "byte list \<Rightarrow> string"

definition fsContent :: "string \<Rightarrow> fsys \<Rightarrow> byte list option" where
  "fsContent p fs = (case map_of (fsInode fs) p of None \<Rightarrow> None | Some i \<Rightarrow> Some (gget [] (fsData fs) i))"

text \<open>\<open>os.OpenFile\<close> with \<open>O_CREATE|O_RDWR\<close>.\<close>

definition fsOpen :: "string \<Rightarrow> fsys \<Rightarrow> nat \<times> fsys" where
  "fsOpen p fs =
     (case map_of (fsInode fs) p of
        Some i \<Rightarrow> (i, fs)
      | None \<Rightarrow> (fsNext fs, fs\<lparr>fsInode := gput p (fsNext fs) (fsInode fs),
                              fsData := gput (fsNext fs) [] (fsData fs), fsNext := fsNext fs + 1\<rparr>))"

definition padTo :: "nat \<Rightarrow> byte list \<Rightarrow> byte list" where
  "padTo n d = take n d @ replicate (n - length d) 0"

definition fsTruncate :: "nat \<Rightarrow> nat \<Rightarrow> fsys \<Rightarrow> fsys" where
  "fsTruncate i n fs = fs\<lparr>fsData := gput i (padTo n (gget [] (fsData fs) i)) (fsData fs)\<rparr>"

definition fsWrite :: "nat \<Rightarrow> nat \<Rightarrow> byte list \<Rightarrow> fsys \<Rightarrow> fsys" where
  "fsWrite i pos bs fs =
     (let d = gget [] (fsData fs) i
      in fs\<lparr>fsData := gput i (padTo pos d @ bs @ drop (pos + length bs) d) (fsData fs)\<rparr>)"

definition fsRemove :: "string \<Rightarrow> fsys \<Rightarrow> fsys" where
  "fsRemove p fs = fs\<lparr>fsInode := gdel p (fsInode fs)\<rparr>"

text \<open>\<open>os.Rename\<close>: whether it failed, and the files afterwards.\<close>

definition fsRename :: "osModel \<Rightarrow> string \<Rightarrow> string \<Rightarrow> fsys \<Rightarrow> bool \<times> fsys" where
  "fsRename os a b fs =
     (if omRenameErr os a then (True, fs)
      else case map_of (fsInode fs) a of
             None \<Rightarrow> (True, fs)
           | Some i \<Rightarrow> (False, fs\<lparr>fsInode := gput b i (gdel a (fsInode fs))\<rparr>))"

subsection \<open>Sessions\<close>

record recvSession =
  rsProvider :: nodeID
  rsConsumer :: nodeID
  rsDir :: string
  rsName :: string
  rsFinal :: string
  rsPart :: string
  rsSize :: nat
  rsSha :: string
  rsOverwrite :: bool
  rsFile :: "(nat \<times> nat) option"
  rsExpected :: nat
  rsPending :: "(nat, byte list) gomap"
  rsPendingBytes :: nat
  rsMaxPending :: nat
  rsFinSeen :: bool
  rsLastActive :: int
  rsLastAck :: nat
  rsLastAckTime :: "int option"

record sendSession =
  ssProvider :: nodeID
  ssConsumer :: nodeID
  ssDir :: string
  ssName :: string
  ssPath :: string
  ssSize :: nat
  ssSha :: string
  ssStartFrom :: nat
  ssAcked :: nat
  ssLastActive :: int

definition add64 :: "nat \<Rightarrow> nat \<Rightarrow> nat" where "add64 a b = (a + b) mod 2 ^ 64"
definition sub64 :: "nat \<Rightarrow> nat \<Rightarrow> nat" where "sub64 a b = (a + 2 ^ 64 - b) mod 2 ^ 64"

text \<open>\<open>s.file.Write\<close>: whether it failed; the position moves by what was written.\<close>

definition writeFile :: "osModel \<Rightarrow> byte list \<Rightarrow> recvSession \<Rightarrow> fsys \<Rightarrow> bool \<times> recvSession \<times> fsys" where
  "writeFile os bs s fs =
     (case rsFile s of
        None \<Rightarrow> (True, s, fs)
      | Some (i, pos) \<Rightarrow>
          (case omWrite os i pos of
             None \<Rightarrow> (False, s\<lparr>rsFile := Some (i, pos + length bs)\<rparr>, fsWrite i pos bs fs)
           | Some n \<Rightarrow> let bs' = take n bs
                       in (True, s\<lparr>rsFile := Some (i, pos + length bs')\<rparr>, fsWrite i pos bs' fs)))"

lemma writeFile_pending [simp]: "rsPending (fst (snd (writeFile os bs s fs))) = rsPending s"
  by (auto simp: writeFile_def Let_def split: option.split)

lemma gdel_length: "map_of m k = Some v \<Longrightarrow> length (gdel k m) < length m"
proof -
  assume "map_of m k = Some v"
  then have "(k, v) \<in> set m" by (rule map_of_SomeD)
  then show ?thesis by (auto simp: AList.delete_eq intro!: length_filter_less)
qed

text \<open>The loop that writes the buffered chunks that have become the next ones.\<close>

function flushPending :: "osModel \<Rightarrow> recvSession \<Rightarrow> fsys \<Rightarrow> bool \<Rightarrow> recvSession \<times> fsys \<times> bool" where
  "flushPending os s fs wrote =
     (case map_of (rsPending s) (rsExpected s) of
        None \<Rightarrow> (s, fs, wrote)
      | Some next \<Rightarrow>
          let s1 = s\<lparr>rsPending := gdel (rsExpected s) (rsPending s),
                     rsPendingBytes := sub64 (rsPendingBytes s) (length next)\<rparr>;
              r = writeFile os next s1 fs
          in if next = [] then flushPending os s1 fs wrote
             else if fst r then (fst (snd r), snd (snd r), wrote)
             else flushPending os ((fst (snd r))\<lparr>rsExpected := add64 (rsExpected s) (length next)\<rparr>) (snd (snd r)) True)"
  by pat_completeness auto

termination
  by (relation "measure (\<lambda>(os, s, fs, wrote). length (rsPending s))") (auto simp: gdel_length)

declare flushPending.simps [simp del]

text \<open>\<open>applyRecvChunk\<close>: expected offset, completed, wrote, and the session and files afterwards.\<close>

definition applyRecvChunk ::
  "osModel \<Rightarrow> int \<Rightarrow> nat \<Rightarrow> byte list \<Rightarrow> bool \<Rightarrow> recvSession \<Rightarrow> fsys \<Rightarrow> (nat \<times> bool \<times> bool) \<times> recvSession \<times> fsys" where
  "applyRecvChunk os now offset dat fin s fs =
     (if rsFile s = None then ((rsExpected s, False, False), s, fs)
      else
        let s1 = s\<lparr>rsLastActive := now, rsFinSeen := rsFinSeen s \<or> fin\<rparr>;
            keep = ((rsExpected s, False, False), s1, fs)
        in if offset < rsExpected s then keep
           else if rsExpected s < offset then
             (if rsMaxPending s < add64 (rsPendingBytes s) (length dat) then keep
              else if map_of (rsPending s) offset \<noteq> None then keep
              else ((rsExpected s, False, False),
                    s1\<lparr>rsPending := gput offset dat (rsPending s), rsPendingBytes := add64 (rsPendingBytes s) (length dat)\<rparr>, fs))
           else if dat = [] then
             let (s2, fs2, wrote) = flushPending os s1 fs False
             in ((rsExpected s2, rsFinSeen s2 \<and> rsExpected s2 = rsSize s2, wrote), s2, fs2)
           else
             let (err, s2, fs2) = writeFile os dat s1 fs
             in if err then ((rsExpected s, False, False), s2, fs2)
                else
                  let (s3, fs3, wrote) = flushPending os (s2\<lparr>rsExpected := add64 (rsExpected s) (length dat)\<rparr>) fs2 True
                  in ((rsExpected s3, rsFinSeen s3 \<and> rsExpected s3 = rsSize s3, wrote), s3, fs3))"

text \<open>\<open>verifyPart\<close>, with \<open>sha256File\<close>.\<close>

definition verifyPart :: "osModel \<Rightarrow> string \<Rightarrow> nat \<Rightarrow> string \<Rightarrow> fsys \<Rightarrow> bool" where
  "verifyPart os path want shaHex fs =
     (case fsContent path fs of
        None \<Rightarrow> False
      | Some d \<Rightarrow>
          if omIsDir os path then False
          else if length d \<noteq> want then False
          else if shaHex = [] then True
          else if omOpenErr os path then False
          else equalFold (trimSpace shaHex) (omSha256 os d))"

text \<open>Remove the target when overwriting, then rename: the end of a transfer.\<close>

definition promotePart :: "osModel \<Rightarrow> bool \<Rightarrow> string \<Rightarrow> string \<Rightarrow> fsys \<Rightarrow> fsys" where
  "promotePart os overwrite part final fs =
     snd (fsRename os part final (if overwrite then fsRemove final fs else fs))"

text \<open>The reads of \<open>sendFileData\<close> from an offset on: offset, end mark and bytes of each frame.\<close>

definition readLen :: "osModel \<Rightarrow> nat \<Rightarrow> nat \<Rightarrow> nat \<Rightarrow> nat" where
  "readLen os chunk off left = max 1 (min (omRead os off) (min chunk left))"

function readChunks :: "osModel \<Rightarrow> nat \<Rightarrow> byte list \<Rightarrow> nat \<Rightarrow> (nat \<times> bool \<times> byte list) list" where
  "readChunks os chunk content off =
     (if length content \<le> off \<or> omReadErr os off then []
      else
        let n = readLen os chunk off (length content - off);
            fin = (off + n = length content)
        in (off, fin, take n (drop off content)) # (if fin then [] else readChunks os chunk content (off + n)))"
  by pat_completeness auto

termination
  by (relation "measure (\<lambda>(os, chunk, content, off). length content - off)")
     (auto simp: readLen_def intro: diff_less_mono2)

declare readChunks.simps [simp del]

subsection \<open>What a receiving session keeps\<close>

lemma add64_small [simp]: "a + b < 2 ^ 64 \<Longrightarrow> add64 a b = a + b"
  by (simp add: add64_def)

lemma sub64_small [simp]: "b \<le> a \<Longrightarrow> a < 2 ^ 64 \<Longrightarrow> sub64 a b = a - b"
  unfolding sub64_def by (simp only: add_diff_assoc2[symmetric] mod_add_self2 mod_less less_imp_diff_less)

definition pendingSize :: "(nat, byte list) gomap \<Rightarrow> nat" where
  "pendingSize m = sum_list (map (length \<circ> snd) m)"

lemma pendingSize_Nil [simp]: "pendingSize [] = 0"
  by (simp add: pendingSize_def)

lemma gput_new: "map_of m k = None \<Longrightarrow> gput k v m = m @ [(k, v)]"
  by (induction m) (auto split: if_splits)

lemma pendingSize_put: "map_of m k = None \<Longrightarrow> pendingSize (gput k v m) = pendingSize m + length v"
  by (simp add: gput_new pendingSize_def)

lemma pendingSize_del: "wf_gomap m \<Longrightarrow> map_of m k = Some v \<Longrightarrow> pendingSize (gdel k m) + length v = pendingSize m"
proof (induction m)
  case (Cons p m)
  obtain j w where p: "p = (j, w)" by (cases p)
  show ?case
  proof (cases "j = k")
    case True
    then have "k \<notin> fst ` set m" using Cons.prems(1) p by auto
    then have "gdel k m = m" by (simp add: delete_id)
    then show ?thesis using True Cons.prems p by (simp add: pendingSize_def)
  next
    case False
    then show ?thesis using Cons p by (simp add: pendingSize_def)
  qed
qed simp

text \<open>A chunk of the file \<open>content\<close>: the bytes found at its offset.\<close>

definition chunkOf :: "byte list \<Rightarrow> nat \<Rightarrow> byte list \<Rightarrow> bool" where
  "chunkOf content off dat = (off + length dat \<le> length content \<and> take (length dat) (drop off content) = dat)"

text \<open>
  The invariant of a session that receives \<open>content\<close> into inode \<open>i\<close>: the file holds exactly the bytes before the expected
  offset, the file position is that offset, every buffered chunk belongs to the content, and the buffer's
  size is counted exactly and within its limit.
\<close>

definition recvInv :: "byte list \<Rightarrow> nat \<Rightarrow> recvSession \<Rightarrow> fsys \<Rightarrow> bool" where
  "recvInv content i s fs =
     (rsFile s = Some (i, rsExpected s) \<and> gget [] (fsData fs) i = take (rsExpected s) content \<and>
      rsExpected s \<le> length content \<and> rsSize s = length content \<and> length content < 2 ^ 63 \<and>
      wf_gomap (rsPending s) \<and> (\<forall>off dat. map_of (rsPending s) off = Some dat \<longrightarrow> chunkOf content off dat) \<and>
      rsPendingBytes s = pendingSize (rsPending s) \<and> rsPendingBytes s \<le> rsMaxPending s \<and> rsMaxPending s < 2 ^ 63)"

lemma recvInvI:
  assumes "rsFile s = Some (i, rsExpected s)" "gget [] (fsData fs) i = take (rsExpected s) content"
    "rsExpected s \<le> length content" "rsSize s = length content" "length content < 2 ^ 63" "wf_gomap (rsPending s)"
    "\<And>off dat. map_of (rsPending s) off = Some dat \<Longrightarrow> chunkOf content off dat"
    "rsPendingBytes s = pendingSize (rsPending s)" "rsPendingBytes s \<le> rsMaxPending s" "rsMaxPending s < 2 ^ 63"
  shows "recvInv content i s fs"
  unfolding recvInv_def using assms by (intro conjI) blast+

lemma recvInvD:
  assumes "recvInv content i s fs"
  shows "rsFile s = Some (i, rsExpected s)" "gget [] (fsData fs) i = take (rsExpected s) content"
    "rsExpected s \<le> length content" "rsSize s = length content" "length content < 2 ^ 63" "wf_gomap (rsPending s)"
    "\<And>off dat. map_of (rsPending s) off = Some dat \<Longrightarrow> chunkOf content off dat"
    "rsPendingBytes s = pendingSize (rsPending s)" "rsPendingBytes s \<le> rsMaxPending s" "rsMaxPending s < 2 ^ 63"
  using assms unfolding recvInv_def by blast+

text \<open>Writes that fail write nothing.\<close>

definition cleanWrites :: "osModel \<Rightarrow> bool" where
  "cleanWrites os = (\<forall>i pos. omWrite os i pos \<in> {None, Some 0})"

lemma gget_fsWrite [simp]:
  "gget [] (fsData (fsWrite i pos bs fs)) j =
     (if j = i then padTo pos (gget [] (fsData fs) i) @ bs @ drop (pos + length bs) (gget [] (fsData fs) i)
      else gget [] (fsData fs) j)"
  by (simp add: fsWrite_def Let_def)

lemma fsWrite_inode [simp]: "fsInode (fsWrite i pos bs fs) = fsInode fs"
  by (simp add: fsWrite_def Let_def)

lemma take_chunk: "chunkOf content off dat \<Longrightarrow> take off content @ dat = take (off + length dat) content"
  unfolding chunkOf_def by (metis take_add)

lemma padTo_take: "p \<le> length content \<Longrightarrow> padTo p (take p content) = take p content"
  by (simp add: padTo_def)

text \<open>One write of the next chunk: it either fails without effect or extends the file by the chunk.\<close>

lemma writeFile_cases:
  assumes "recvInv content i s fs" and "cleanWrites os" and "chunkOf content (rsExpected s) dat"
  obtains fs' where "writeFile os dat s fs = (True, s, fs')" "gget [] (fsData fs') i = take (rsExpected s) content"
      "fsInode fs' = fsInode fs"
    | fs' where "writeFile os dat s fs = (False, s\<lparr>rsFile := Some (i, rsExpected s + length dat)\<rparr>, fs')"
      "gget [] (fsData fs') i = take (rsExpected s + length dat) content" "fsInode fs' = fsInode fs"
proof -
  note I = recvInvD[OF assms(1)]
  have "omWrite os i (rsExpected s) \<in> {None, Some 0}" using assms(2) by (simp add: cleanWrites_def)
  then consider "omWrite os i (rsExpected s) = None" | "omWrite os i (rsExpected s) = Some 0" by auto
  then show ?thesis
  proof cases
    case 1
    have "writeFile os dat s fs = (False, s\<lparr>rsFile := Some (i, rsExpected s + length dat)\<rparr>, fsWrite i (rsExpected s) dat fs)"
      using 1 I(1) by (simp add: writeFile_def)
    then show ?thesis
      by (rule that(2)) (simp_all add: I(2) padTo_take[OF I(3)] take_chunk[OF assms(3)])
  next
    case 2
    have "s\<lparr>rsFile := Some (i, rsExpected s)\<rparr> = s" using I(1) by simp
    then have "writeFile os dat s fs = (True, s, fsWrite i (rsExpected s) [] fs)"
      using 2 I(1) by (simp add: writeFile_def)
    then show ?thesis
      by (rule that(1)) (simp_all add: I(2) padTo_take[OF I(3)])
  qed
qed

text \<open>What the loop never changes.\<close>

definition rsCore :: "recvSession \<Rightarrow> recvSession" where
  "rsCore s = s\<lparr>rsFile := None, rsExpected := 0, rsPending := [], rsPendingBytes := 0\<rparr>"

lemma rsCoreD:
  assumes "rsCore t = rsCore s"
  shows "rsProvider t = rsProvider s" "rsConsumer t = rsConsumer s" "rsFinal t = rsFinal s" "rsPart t = rsPart s"
    "rsSize t = rsSize s" "rsSha t = rsSha s" "rsOverwrite t = rsOverwrite s" "rsMaxPending t = rsMaxPending s"
    "rsFinSeen t = rsFinSeen s"
  using assms by (cases s; cases t; simp add: rsCore_def)+

lemma rsCore_upd [simp]:
  "rsCore (s\<lparr>rsFile := f\<rparr>) = rsCore s" "rsCore (s\<lparr>rsExpected := e\<rparr>) = rsCore s"
  "rsCore (s\<lparr>rsPending := p\<rparr>) = rsCore s" "rsCore (s\<lparr>rsPendingBytes := b\<rparr>) = rsCore s"
  by (simp_all add: rsCore_def)

lemma recvInv_drop:
  assumes "recvInv content i s fs" and "map_of (rsPending s) off = Some dat"
  shows "recvInv content i (s\<lparr>rsPending := gdel off (rsPending s), rsPendingBytes := sub64 (rsPendingBytes s) (length dat)\<rparr>) fs"
proof -
  note I = recvInvD[OF assms(1)]
  have sz: "pendingSize (gdel off (rsPending s)) + length dat = pendingSize (rsPending s)"
    by (rule pendingSize_del[OF I(6) assms(2)])
  have "rsPendingBytes s < 2 ^ 64" using I(9,10) by simp
  then have sub: "sub64 (rsPendingBytes s) (length dat) = pendingSize (gdel off (rsPending s))"
    using sz I(8) by (subst sub64_small) auto
  show ?thesis
  proof (rule recvInvI)
    fix o' d' assume "map_of (rsPending (s\<lparr>rsPending := gdel off (rsPending s),
        rsPendingBytes := sub64 (rsPendingBytes s) (length dat)\<rparr>)) o' = Some d'"
    then show "chunkOf content o' d'" using I(7)[of o' d'] by (auto simp: delete_conv' split: if_splits)
  qed (use I sub sz in \<open>auto simp del: map_of_eq_Some_iff\<close>)
qed

lemma recvInv_advance:
  assumes "recvInv content i s fs" and "chunkOf content (rsExpected s) dat"
    and "gget [] (fsData fs') i = take (rsExpected s + length dat) content"
  shows "recvInv content i (s\<lparr>rsFile := Some (i, rsExpected s + length dat), rsExpected := add64 (rsExpected s) (length dat)\<rparr>) fs'"
proof -
  note I = recvInvD[OF assms(1)]
  have le: "rsExpected s + length dat \<le> length content" using assms(2) by (simp add: chunkOf_def)
  then have [simp]: "add64 (rsExpected s) (length dat) = rsExpected s + length dat" using I(5) by simp
  show ?thesis
    by (rule recvInvI) (use I le assms(3) in \<open>auto simp del: map_of_eq_Some_iff\<close>)
qed

lemma recvInv_fs: "recvInv content i s fs \<Longrightarrow> gget [] (fsData fs') i = take (rsExpected s) content \<Longrightarrow> recvInv content i s fs'"
  by (auto simp: recvInv_def simp del: map_of_eq_Some_iff)

lemma flushPending_inv:
  assumes "recvInv content i s fs" and "cleanWrites os" and "flushPending os s fs w = (s', fs', w')"
  shows "recvInv content i s' fs' \<and> rsCore s' = rsCore s \<and> rsExpected s \<le> rsExpected s' \<and> fsInode fs' = fsInode fs"
  using assms
proof (induction os s fs w arbitrary: s' fs' w' rule: flushPending.induct)
  case (1 os s fs w)
  show ?case
  proof (cases "map_of (rsPending s) (rsExpected s)")
    case None
    then show ?thesis using "1.prems" by (subst (asm) flushPending.simps) auto
  next
    case (Some dat)
    let ?s1 = "s\<lparr>rsPending := gdel (rsExpected s) (rsPending s), rsPendingBytes := sub64 (rsPendingBytes s) (length dat)\<rparr>"
    have inv1: "recvInv content i ?s1 fs" by (rule recvInv_drop[OF "1.prems"(1) Some])
    have ch: "chunkOf content (rsExpected s) dat" by (rule recvInvD(7)[OF "1.prems"(1) Some])
    note run = "1.prems"(3)[unfolded flushPending.simps[of os s fs w] Some option.case Let_def]
    show ?thesis
    proof (cases "dat = []")
      case True
      with run have "flushPending os ?s1 fs w = (s', fs', w')" by simp
      from "1.IH"(1)[OF Some refl refl True inv1 "1.prems"(2) this] show ?thesis by simp
    next
      case False
      from inv1 "1.prems"(2) ch have "chunkOf content (rsExpected ?s1) dat" by simp
      from writeFile_cases[OF inv1 "1.prems"(2) this] show ?thesis
      proof cases
        case (1 fs1)
        with run False have "s' = ?s1" "fs' = fs1" by auto
        then show ?thesis using recvInv_fs[OF inv1, of fs1] 1 by simp
      next
        case (2 fs1)
        let ?s2 = "?s1\<lparr>rsFile := Some (i, rsExpected s + length dat), rsExpected := add64 (rsExpected s) (length dat)\<rparr>"
        have inv2: "recvInv content i ?s2 fs1" using recvInv_advance[OF inv1, of dat fs1] ch 2 by simp
        have le: "rsExpected s \<le> rsExpected ?s2"
          using ch recvInvD(5)[OF "1.prems"(1)] by (simp add: chunkOf_def)
        have "flushPending os ?s2 fs1 True = (s', fs', w')" using run False 2 by simp
        with "1.IH"(2)[OF Some refl refl False, of s' fs' w'] 2 inv2 "1.prems"(2)
        have "recvInv content i s' fs' \<and> rsCore s' = rsCore ?s2 \<and> rsExpected ?s2 \<le> rsExpected s' \<and> fsInode fs' = fsInode fs1"
          by simp
        then show ?thesis using 2 le by simp
      qed
    qed
  qed
qed

lemma recvInv_touch: "recvInv content i (s\<lparr>rsLastActive := t, rsFinSeen := b\<rparr>) fs = recvInv content i s fs"
  by (simp add: recvInv_def)

lemma recvInv_buffer:
  assumes "recvInv content i s fs" and "chunkOf content off dat" and "map_of (rsPending s) off = None"
    and "\<not> rsMaxPending s < add64 (rsPendingBytes s) (length dat)"
  shows "recvInv content i (s\<lparr>rsPending := gput off dat (rsPending s), rsPendingBytes := add64 (rsPendingBytes s) (length dat)\<rparr>) fs"
proof -
  note I = recvInvD[OF assms(1)]
  have "rsPendingBytes s + length dat < 2 ^ 64" using I(5,9,10) assms(2) by (simp add: chunkOf_def)
  then have sum: "add64 (rsPendingBytes s) (length dat) = rsPendingBytes s + length dat" by (rule add64_small)
  show ?thesis
  proof (rule recvInvI)
    fix o' d' assume "map_of (rsPending (s\<lparr>rsPending := gput off dat (rsPending s),
        rsPendingBytes := add64 (rsPendingBytes s) (length dat)\<rparr>)) o' = Some d'"
    then show "chunkOf content o' d'"
      using I(7)[of o' d'] assms(2) by (auto simp: update_conv' split: if_splits)
  qed (use I assms(4) sum in \<open>auto simp: pendingSize_put[OF assms(3)] simp del: map_of_eq_Some_iff\<close>)
qed

text \<open>
  One data frame keeps the invariant, never moves the expected offset back, and reports completion only when the
  whole content is in the file and the end mark was seen.
\<close>

lemma applyRecvChunk_inv:
  assumes "recvInv content i s fs" and "cleanWrites os" and "chunkOf content off dat"
    and "applyRecvChunk os now off dat fin s fs = ((e, done, wrote), s', fs')"
  shows "recvInv content i s' fs' \<and> rsCore s' = rsCore (s\<lparr>rsLastActive := now, rsFinSeen := rsFinSeen s \<or> fin\<rparr>) \<and>
    rsExpected s \<le> rsExpected s' \<and> fsInode fs' = fsInode fs \<and> e = rsExpected s' \<and>
    (done \<longrightarrow> rsExpected s' = length content \<and> rsFinSeen s')"
proof -
  let ?s1 = "s\<lparr>rsLastActive := now, rsFinSeen := rsFinSeen s \<or> fin\<rparr>"
  note I = recvInvD[OF assms(1)]
  have inv1: "recvInv content i ?s1 fs" using assms(1) by (simp add: recvInv_touch)
  have fil: "rsFile s \<noteq> None" using I(1) by simp
  note run = assms(4)[unfolded applyRecvChunk_def Let_def]
  consider "off < rsExpected s" | "rsExpected s < off" | "off = rsExpected s" "dat = []" | "off = rsExpected s" "dat \<noteq> []"
    by linarith
  then show ?thesis
  proof cases
    case 1
    then show ?thesis using run fil inv1 by auto
  next
    case 2
    show ?thesis
    proof (cases "rsMaxPending s < add64 (rsPendingBytes s) (length dat) \<or> map_of (rsPending s) off \<noteq> None")
      case True
      with run fil 2 have "((rsExpected s, False, False), ?s1, fs) = ((e, done, wrote), s', fs')" by (auto split: if_splits)
      then show ?thesis using inv1 by auto
    next
      case False
      then show ?thesis using run fil 2 recvInv_buffer[OF inv1 assms(3)] by auto
    qed
  next
    case 3
    obtain t ft w where fl: "flushPending os ?s1 fs False = (t, ft, w)" by (cases "flushPending os ?s1 fs False")
    have "e = rsExpected t \<and> done = (rsFinSeen t \<and> rsExpected t = rsSize t) \<and> s' = t \<and> fs' = ft"
      using run fil 3 fl by auto
    then show ?thesis using flushPending_inv[OF inv1 assms(2) fl] recvInvD(4)[of content i t ft] by auto
  next
    case 4
    with assms(3) have "chunkOf content (rsExpected ?s1) dat" by simp
    from writeFile_cases[OF inv1 assms(2) this] show ?thesis
    proof cases
      case (1 fs1)
      then show ?thesis using run fil 4 recvInv_fs[OF inv1, of fs1] by auto
    next
      case (2 fs1)
      let ?s2 = "?s1\<lparr>rsFile := Some (i, rsExpected s + length dat), rsExpected := add64 (rsExpected s) (length dat)\<rparr>"
      have inv2: "recvInv content i ?s2 fs1" using recvInv_advance[OF inv1, of dat fs1] 4 assms(3) 2 by simp
      obtain t ft w where fl: "flushPending os ?s2 fs1 True = (t, ft, w)" by (cases "flushPending os ?s2 fs1 True")
      have "e = rsExpected t \<and> done = (rsFinSeen t \<and> rsExpected t = rsSize t) \<and> s' = t \<and> fs' = ft"
        using run fil 4 2 fl by auto
      then show ?thesis
        using flushPending_inv[OF inv2 assms(2) fl] recvInvD(4)[of content i t ft] 2 4 assms(3) I(5)
        by (auto simp: chunkOf_def)
    qed
  qed
qed

subsection \<open>Progress when writes succeed\<close>

text \<open>
  The buffer \<open>p\<close> with expected offset \<open>e\<close> drained to \<open>p'\<close> and \<open>e'\<close>: nothing is due any more, nothing that is not
  written was lost, and the expected offset stays on the chunk boundaries \<open>B\<close>.
\<close>

definition drained ::
  "nat set \<Rightarrow> (nat \<rightharpoonup> byte list) \<Rightarrow> nat \<Rightarrow> (nat \<rightharpoonup> byte list) \<Rightarrow> nat \<Rightarrow> bool" where
  "drained B p e p' e' =
     (p' e' = None \<and> (\<forall>off dat. p off = Some dat \<and> dat \<noteq> [] \<longrightarrow> off < e' \<or> p' off = Some dat) \<and>
      (\<forall>off dat. p' off = Some dat \<longrightarrow> p off = Some dat) \<and>
      ((\<forall>off dat. p off = Some dat \<longrightarrow> off \<in> B \<longrightarrow> off + length dat \<in> B) \<longrightarrow> e \<in> B \<longrightarrow> e' \<in> B))"

lemma drained_start: "p e = None \<Longrightarrow> drained B p e p e"
  by (simp add: drained_def)

lemma drained_chunk:
  assumes "p e = Some dat" and "dat = [] \<or> e < e'" and "drained B (p(e := None)) (e + length dat) p' e'"
  shows "drained B p e p' e'"
proof -
  note D = assms(3)[unfolded drained_def]
  have 1: "p' e' = None" using D by (rule conjunct1)
  have 2: "off < e' \<or> p' off = Some d" if "p off = Some d" "d \<noteq> []" for off d
    using that assms(1,2) D[THEN conjunct2, THEN conjunct1, rule_format, of off d] by (cases "off = e") auto
  have 3: "p off = Some d" if "p' off = Some d" for off d
    using that D[THEN conjunct2, THEN conjunct2, THEN conjunct1, rule_format, of off d] by (cases "off = e") auto
  have 4: "e' \<in> B" if c: "\<forall>off d. p off = Some d \<longrightarrow> off \<in> B \<longrightarrow> off + length d \<in> B" and "e \<in> B"
  proof -
    have "e + length dat \<in> B" using that assms(1) by blast
    moreover have "\<forall>off d. (p(e := None)) off = Some d \<longrightarrow> off \<in> B \<longrightarrow> off + length d \<in> B" using c by simp
    ultimately show ?thesis using assms(3) unfolding drained_def by blast
  qed
  show ?thesis unfolding drained_def using 1 2 3 4 by blast
qed

lemma flushPending_drains:
  assumes "recvInv content i s fs" and "\<forall>i pos. omWrite os i pos = None" and "flushPending os s fs w = (s', fs', w')"
  shows "drained B (map_of (rsPending s)) (rsExpected s) (map_of (rsPending s')) (rsExpected s') \<and> (w \<longrightarrow> w')"
  using assms
proof (induction os s fs w arbitrary: s' fs' w' rule: flushPending.induct)
  case (1 os s fs w)
  have cw: "cleanWrites os" using "1.prems"(2) by (simp add: cleanWrites_def)
  show ?case
  proof (cases "map_of (rsPending s) (rsExpected s)")
    case None
    then show ?thesis using "1.prems" by (subst (asm) flushPending.simps) (auto intro: drained_start)
  next
    case (Some dat)
    let ?s1 = "s\<lparr>rsPending := gdel (rsExpected s) (rsPending s), rsPendingBytes := sub64 (rsPendingBytes s) (length dat)\<rparr>"
    have inv1: "recvInv content i ?s1 fs" by (rule recvInv_drop[OF "1.prems"(1) Some])
    have ch: "chunkOf content (rsExpected s) dat" by (rule recvInvD(7)[OF "1.prems"(1) Some])
    note run = "1.prems"(3)[unfolded flushPending.simps[of os s fs w] Some option.case Let_def]
    show ?thesis
    proof (cases "dat = []")
      case True
      with run have "flushPending os ?s1 fs w = (s', fs', w')" by simp
      from "1.IH"(1)[OF Some refl refl True inv1 "1.prems"(2) this]
      show ?thesis using drained_chunk[of "map_of (rsPending s)", OF Some, of "rsExpected s'" B "map_of (rsPending s')"] True
        by (simp add: delete_conv' fun_upd_def)
    next
      case False
      from inv1 ch have "chunkOf content (rsExpected ?s1) dat" by simp
      from writeFile_cases[OF inv1 cw this] show ?thesis
      proof cases
        case (1 fs1)
        then show ?thesis using "1.prems"(2) recvInvD(1)[OF inv1] by (simp add: writeFile_def)
      next
        case (2 fs1)
        let ?s2 = "?s1\<lparr>rsFile := Some (i, rsExpected s + length dat), rsExpected := add64 (rsExpected s) (length dat)\<rparr>"
        have inv2: "recvInv content i ?s2 fs1" using recvInv_advance[OF inv1, of dat fs1] ch 2 by simp
        have sum: "add64 (rsExpected s) (length dat) = rsExpected s + length dat"
          using ch recvInvD(5)[OF "1.prems"(1)] by (simp add: chunkOf_def)
        have fl: "flushPending os ?s2 fs1 True = (s', fs', w')" using run False 2 by simp
        have "rsExpected s + length dat \<le> rsExpected s'" using flushPending_inv[OF inv2 cw fl] sum by simp
        then have le: "rsExpected s < rsExpected s'" using False by (cases dat) auto
        from "1.IH"(2)[OF Some refl refl False, of s' fs' w'] 2 inv2 "1.prems"(2) fl
        have "drained B (map_of (rsPending ?s2)) (rsExpected ?s2) (map_of (rsPending s')) (rsExpected s') \<and> w'" by simp
        then show ?thesis using drained_chunk[of "map_of (rsPending s)", OF Some disjI2[OF le], of B "map_of (rsPending s')"] sum
          by (simp add: delete_conv' fun_upd_def)
      qed
    qed
  qed
qed

subsection \<open>The frames of one transfer\<close>

text \<open>The chunks of a transfer as a set, and their boundaries.\<close>

definition chunkSet :: "(nat \<times> bool \<times> byte list) list \<Rightarrow> (nat \<times> byte list) set" where
  "chunkSet frames = (\<lambda>(off, fin, dat). (off, dat)) ` set frames"

definition boundaries :: "byte list \<Rightarrow> (nat \<times> byte list) set \<Rightarrow> nat set" where
  "boundaries content C = insert (length content) (fst ` C)"

text \<open>
  A family of chunks that covers the content from \<open>start\<close> on: nonempty chunks of the content, one per offset,
  each ending where another one or the content ends.
\<close>

definition covers :: "byte list \<Rightarrow> nat \<Rightarrow> (nat \<times> byte list) set \<Rightarrow> bool" where
  "covers content start C =
     (finite C \<and> inj_on fst C \<and> start \<in> boundaries content C \<and>
      (\<forall>(off, dat)\<in>C. dat \<noteq> [] \<and> chunkOf content off dat \<and> off + length dat \<in> boundaries content C))"

lemma length_take_drop: "start + m \<le> length xs \<Longrightarrow> length (take m (drop start xs)) = m"
  by simp

lemma readChunks_cases:
  obtains (stop) "length content \<le> start \<or> omReadErr os start" "readChunks os n content start = []"
    | (last) m where "1 \<le> m" "start + m = length content"
        "readChunks os n content start = [(start, True, take m (drop start content))]"
    | (more) m where "1 \<le> m" "start + m < length content"
        "readChunks os n content start = (start, False, take m (drop start content)) # readChunks os n content (start + m)"
proof (cases "length content \<le> start \<or> omReadErr os start")
  case True
  then have "readChunks os n content start = []" by (subst readChunks.simps) simp
  with True show ?thesis by (rule stop)
next
  case False
  define m where "m = readLen os n start (length content - start)"
  have m: "1 \<le> m" "start + m \<le> length content" using False by (auto simp: m_def readLen_def)
  have eq: "readChunks os n content start = (start, start + m = length content, take m (drop start content)) #
      (if start + m = length content then [] else readChunks os n content (start + m))"
    using False by (subst readChunks.simps) (simp add: m_def Let_def)
  show ?thesis
    by (cases "start + m = length content") (use m eq in \<open>auto intro: last[of m] more[of m]\<close>)
qed

lemma readChunks_frames:
  assumes "(off, fin, dat) \<in> set (readChunks os n content start)"
  shows "dat \<noteq> [] \<and> chunkOf content off dat \<and> fin = (off + length dat = length content) \<and> start \<le> off"
  using assms
proof (induction "length content - start" arbitrary: start rule: less_induct)
  case less
  show ?case
  proof (cases rule: readChunks_cases[of content start os n])
    case stop
    then show ?thesis using less.prems by simp
  next
    case (last m)
    have "length (take m (drop start content)) = m" by (rule length_take_drop) (use last in simp)
    then show ?thesis using less.prems last by (auto simp: chunkOf_def)
  next
    case (more m)
    have len: "length (take m (drop start content)) = m" by (rule length_take_drop) (use more in simp)
    show ?thesis
    proof (cases "(off, fin, dat) \<in> set (readChunks os n content (start + m))")
      case True
      have "length content - (start + m) < length content - start" using more by linarith
      from less.hyps[OF this True] show ?thesis by simp
    next
      case False
      then have "off = start" "dat = take m (drop start content)" "\<not> fin" using less.prems more(3) by auto
      then show ?thesis using len more(1,2) by (auto simp: chunkOf_def)
    qed
  qed
qed

lemma readChunks_offsets: "distinct (map fst (readChunks os n content start))"
proof (induction "length content - start" arbitrary: start rule: less_induct)
  case less
  show ?case
  proof (cases rule: readChunks_cases[of content start os n])
    case (more m)
    have "length content - (start + m) < length content - start" using more by linarith
    from less.hyps[OF this] have "distinct (map fst (readChunks os n content (start + m)))" .
    moreover have "start \<notin> fst ` set (readChunks os n content (start + m))"
      using readChunks_frames[of _ _ _ os n content "start + m"] more(1) by fastforce
    ultimately show ?thesis unfolding more(3) by simp
  qed simp_all
qed

lemma readChunks_boundaries:
  assumes "\<forall>off. \<not> omReadErr os off" and "start \<le> length content"
  shows "start \<in> boundaries content (chunkSet (readChunks os n content start)) \<and>
    (\<forall>f\<in>set (readChunks os n content start).
       fst f + length (snd (snd f)) \<in> boundaries content (chunkSet (readChunks os n content start)))"
  using assms(2)
proof (induction "length content - start" arbitrary: start rule: less_induct)
  case less
  show ?case
  proof (cases rule: readChunks_cases[of content start os n])
    case stop
    then show ?thesis using less.prems assms(1) by (simp add: boundaries_def)
  next
    case (last m)
    then show ?thesis by (auto simp: boundaries_def chunkSet_def)
  next
    case (more m)
    let ?r = "readChunks os n content (start + m)"
    have len: "length (take m (drop start content)) = m" by (rule length_take_drop) (use more in simp)
    have "length content - (start + m) < length content - start" "start + m \<le> length content" using more by linarith+
    from less.hyps[OF this] have IH: "start + m \<in> boundaries content (chunkSet ?r)"
      "\<forall>f\<in>set ?r. fst f + length (snd (snd f)) \<in> boundaries content (chunkSet ?r)" by auto
    have "boundaries content (chunkSet (readChunks os n content start)) = insert start (boundaries content (chunkSet ?r))"
      unfolding more(3) by (auto simp: boundaries_def chunkSet_def)
    then show ?thesis unfolding more(3) using IH len by simp
  qed
qed

lemma readChunks_total: "sum_list (map (\<lambda>f. length (snd (snd f))) (readChunks os n content start)) \<le> length content - start"
proof (induction "length content - start" arbitrary: start rule: less_induct)
  case less
  show ?case
  proof (cases rule: readChunks_cases[of content start os n])
    case (more m)
    have "length content - (start + m) < length content - start" using more by linarith
    from less.hyps[OF this] show ?thesis unfolding more(3) using more(1,2) by simp
  qed auto
qed

lemma readChunks_size:
  "(\<Sum>(off, dat)\<in>chunkSet (readChunks os n content start). length dat) \<le> length content - start"
proof -
  let ?fr = "readChunks os n content start"
  have inj: "inj_on fst (set ?fr)" and dist: "distinct ?fr"
    using readChunks_offsets[of os n content start] by (simp_all add: distinct_map)
  have "inj_on (\<lambda>(off, fin, dat). (off, dat)) (set ?fr)" using inj by (force simp: inj_on_def)
  then have "(\<Sum>(off, dat)\<in>chunkSet ?fr. length dat) = (\<Sum>f\<in>set ?fr. length (snd (snd f)))"
    unfolding chunkSet_def by (subst sum.reindex) (auto simp: case_prod_unfold)
  also have "\<dots> = sum_list (map (\<lambda>f. length (snd (snd f))) ?fr)"
    by (simp add: sum_list_distinct_conv_sum_set[OF dist])
  finally show ?thesis using readChunks_total[of os n content start] by simp
qed

lemma readChunks_covers:
  assumes "\<forall>off. \<not> omReadErr os off" and "start \<le> length content"
  shows "covers content start (chunkSet (readChunks os n content start))"
proof -
  let ?fr = "readChunks os n content start"
  have "inj_on fst (set ?fr)" using readChunks_offsets[of os n content start] by (simp add: distinct_map)
  then have "inj_on fst (chunkSet ?fr)" by (force simp: chunkSet_def inj_on_def)
  moreover have "dat \<noteq> [] \<and> chunkOf content off dat \<and> off + length dat \<in> boundaries content (chunkSet ?fr)"
    if "(off, dat) \<in> chunkSet ?fr" for off dat
  proof -
    from that obtain fin where f: "(off, fin, dat) \<in> set ?fr" by (auto simp: chunkSet_def)
    from readChunks_frames[OF f] bspec[OF conjunct2[OF readChunks_boundaries[OF assms, of n]] f] show ?thesis by simp
  qed
  moreover have "finite (chunkSet ?fr)" by (simp add: chunkSet_def)
  ultimately show ?thesis using readChunks_boundaries[OF assms, of n] unfolding covers_def by blast
qed

subsection \<open>Chunks in any order\<close>

text \<open>
  A session that has been given the chunks \<open>R\<close> of the family \<open>C\<close>: each is written or buffered, the buffer holds
  nothing else, the chunk that is due is not in it, and the last byte written ended one of them.
\<close>

definition chunkEnds :: "(nat \<times> byte list) set \<Rightarrow> nat set" where
  "chunkEnds R = (\<lambda>(off, dat). off + length dat) ` R"

definition gatherInv ::
  "byte list \<Rightarrow> nat \<Rightarrow> nat \<Rightarrow> (nat \<times> byte list) set \<Rightarrow> (nat \<times> byte list) set \<Rightarrow> recvSession \<Rightarrow> fsys \<Rightarrow> bool" where
  "gatherInv content i start C R s fs =
     (recvInv content i s fs \<and> R \<subseteq> C \<and> set (rsPending s) \<subseteq> R \<and> map_of (rsPending s) (rsExpected s) = None \<and>
      rsExpected s \<in> boundaries content C \<and> rsExpected s \<in> insert start (chunkEnds R) \<and>
      (\<forall>(off, dat)\<in>R. off < rsExpected s \<or> map_of (rsPending s) off = Some dat))"

lemma gatherInv_complete:
  assumes "gatherInv content i start C C s fs" and "covers content start C"
  shows "rsExpected s = length content"
proof (rule ccontr)
  assume ne: "rsExpected s \<noteq> length content"
  then obtain dat where "(rsExpected s, dat) \<in> C"
    using assms(1) unfolding gatherInv_def boundaries_def by force
  then show False using assms(1) unfolding gatherInv_def by fastforce
qed

lemma pendingSize_set: "wf_gomap m \<Longrightarrow> pendingSize m = (\<Sum>(off, dat)\<in>set m. length dat)"
proof -
  assume "wf_gomap m"
  then have "distinct m" by (simp add: distinct_map)
  then show ?thesis by (simp add: pendingSize_def sum_list_distinct_conv_sum_set case_prod_unfold comp_def)
qed

lemma gather_room:
  assumes "gatherInv content i start C R s fs" and "covers content start C" and "(off, dat) \<in> C"
    and "map_of (rsPending s) off = None" and "(\<Sum>(off, dat)\<in>C. length dat) \<le> rsMaxPending s"
  shows "\<not> rsMaxPending s < add64 (rsPendingBytes s) (length dat)"
proof -
  have inv: "recvInv content i s fs" and sub: "set (rsPending s) \<subseteq> C" using assms(1) unfolding gatherInv_def by blast+
  note I = recvInvD[OF inv]
  have fin: "finite C" using assms(2) by (simp add: covers_def)
  have new: "(off, dat) \<notin> set (rsPending s)" using assms(4) by (force simp: map_of_eq_None_iff)
  have "pendingSize (rsPending s) + length dat = (\<Sum>(off, dat)\<in>insert (off, dat) (set (rsPending s)). length dat)"
    using new by (simp add: pendingSize_set[OF I(6)])
  also have "\<dots> \<le> (\<Sum>(off, dat)\<in>C. length dat)"
    by (rule sum_mono2) (use fin sub assms(3) in auto)
  finally have "rsPendingBytes s + length dat \<le> rsMaxPending s" using I(8) assms(5) by simp
  moreover from this I(10) have "rsPendingBytes s + length dat < 2 ^ 64" by simp
  ultimately show ?thesis by simp
qed

lemma covers_chunk:
  assumes "covers content start C" and "(off, dat) \<in> C"
  shows "dat \<noteq> []" "chunkOf content off dat" "off + length dat \<in> boundaries content C"
    "(off, dat') \<in> C \<Longrightarrow> dat' = dat"
  using assms unfolding covers_def inj_on_def by force+

lemma gather_start:
  assumes "recvInv content i s fs" and "rsPending s = []" and "rsExpected s = start" and "covers content start C"
  shows "gatherInv content i start C {} s fs"
  using assms by (auto simp: gatherInv_def covers_def)

text \<open>After the loop, whatever was in the buffer is written or still there.\<close>

lemma gather_flush:
  assumes "recvInv content i s fs" and "set (rsPending s) \<subseteq> R" "R \<subseteq> C" and "covers content start C"
    and "rsExpected s \<in> boundaries content C" "rsExpected s \<in> insert start (chunkEnds R)" and "\<forall>i pos. omWrite os i pos = None"
    and "\<forall>(off, dat)\<in>R. off < rsExpected s \<or> map_of (rsPending s) off = Some dat"
    and "flushPending os s fs w = (s', fs', w')"
  shows "gatherInv content i start C R s' fs' \<and> (w \<longrightarrow> w')"
proof -
  have cw: "cleanWrites os" using assms(7) by (simp add: cleanWrites_def)
  note inv' = flushPending_inv[OF assms(1) cw assms(9)]
  note dr = flushPending_drains[OF assms(1,7,9), of "boundaries content C"]
  note D = dr[THEN conjunct1, unfolded drained_def]
  have old: "(off, dat) \<in> C" if "map_of (rsPending s) off = Some dat" for off dat
    using map_of_SomeD[OF that] assms(2,3) by blast
  have sub: "set (rsPending s') \<subseteq> R"
  proof
    fix x assume x: "x \<in> set (rsPending s')"
    obtain off dat where xe: "x = (off, dat)" by (cases x)
    with x inv' have "map_of (rsPending s') off = Some dat"
      by (auto intro: map_of_is_SomeI recvInvD(6))
    then show "x \<in> R" using D map_of_SomeD[of "rsPending s" off dat] assms(2) xe by blast
  qed
  have bnd: "rsExpected s' \<in> boundaries content C"
  proof -
    have "\<forall>off dat. map_of (rsPending s) off = Some dat \<longrightarrow> off \<in> boundaries content C \<longrightarrow>
        off + length dat \<in> boundaries content C"
      using covers_chunk(3)[OF assms(4) old] by blast
    then show ?thesis using D assms(5) by blast
  qed
  have ends: "rsExpected s' \<in> insert start (chunkEnds R)"
  proof -
    have "off + length dat \<in> insert start (chunkEnds R)" if "map_of (rsPending s) off = Some dat" for off dat
      using map_of_SomeD[OF that] assms(2) by (force simp: chunkEnds_def)
    then show ?thesis
      using flushPending_drains[OF assms(1,7,9), of "insert start (chunkEnds R)"] assms(6) unfolding drained_def by blast
  qed
  have "off < rsExpected s' \<or> map_of (rsPending s') off = Some dat" if "(off, dat) \<in> R" for off dat
  proof -
    from that assms(8) consider "off < rsExpected s" | "map_of (rsPending s) off = Some dat" by blast
    then show ?thesis
    proof cases
      case 1
      then show ?thesis using inv' by linarith
    next
      case 2
      then show ?thesis using D covers_chunk(1)[OF assms(4) old[OF 2]] by blast
    qed
  qed
  then show ?thesis using inv' sub bnd ends D dr assms(3) unfolding gatherInv_def by blast
qed

text \<open>
  One frame of the family: it is written or buffered. When it completes the content, the frame reports that bytes were
  written.
\<close>

lemma gather_step:
  assumes "gatherInv content i start C R s fs" and "covers content start C" and "\<forall>i pos. omWrite os i pos = None"
    and "(off, dat) \<in> C" and "off \<le> rsExpected s \<or> (\<Sum>(off, dat)\<in>C. length dat) \<le> rsMaxPending s"
    and "applyRecvChunk os now off dat fin s fs = ((e, done, wrote), s', fs')"
  shows "gatherInv content i start C (insert (off, dat) R) s' fs' \<and> (rsExpected s < rsExpected s' \<longrightarrow> wrote) \<and>
    (wrote \<longrightarrow> done = (rsFinSeen s' \<and> rsExpected s' = length content))"
proof -
  let ?s1 = "s\<lparr>rsLastActive := now, rsFinSeen := rsFinSeen s \<or> fin\<rparr>"
  note G = assms(1)[unfolded gatherInv_def]
  have inv: "recvInv content i s fs" using G by blast
  then have inv1: "recvInv content i ?s1 fs" by (simp add: recvInv_touch)
  note ch = covers_chunk[OF assms(2,4)]
  have cw: "cleanWrites os" using assms(3) by (simp add: cleanWrites_def)
  have fil: "rsFile s \<noteq> None" using recvInvD(1)[OF inv] by simp
  note run = assms(6)[unfolded applyRecvChunk_def Let_def]
  consider "off < rsExpected s" | "rsExpected s < off" "map_of (rsPending s) off \<noteq> None"
    | "rsExpected s < off" "map_of (rsPending s) off = None" | "off = rsExpected s" by fastforce
  then show ?thesis
  proof cases
    case 1
    then have "s' = ?s1" "fs' = fs" "\<not> wrote" using run fil by auto
    then show ?thesis using G 1 inv1 assms(4) by (auto simp: gatherInv_def chunkEnds_def simp del: map_of_eq_Some_iff)
  next
    case 2
    then obtain dat' where d: "map_of (rsPending s) off = Some dat'" by blast
    then have "dat' = dat" using map_of_SomeD[OF d] G ch(4) by blast
    moreover have "((rsExpected s, False, False), ?s1, fs) = ((e, done, wrote), s', fs')" using run fil 2 by (auto split: if_splits)
    ultimately show ?thesis using G d inv1 assms(4) by (auto simp: gatherInv_def chunkEnds_def simp del: map_of_eq_Some_iff)
  next
    case 3
    then have "(\<Sum>(off, dat)\<in>C. length dat) \<le> rsMaxPending s" using assms(5) by simp
    note room = gather_room[OF assms(1,2,4) 3(2) this]
    have s': "s' = ?s1\<lparr>rsPending := gput off dat (rsPending ?s1), rsPendingBytes := add64 (rsPendingBytes ?s1) (length dat)\<rparr>"
      "fs' = fs" "\<not> wrote" using run fil 3 room by auto
    then have inv': "recvInv content i s' fs'" using recvInv_buffer[OF inv1 ch(2)] 3 room by simp
    have "set (rsPending s') \<subseteq> insert (off, dat) R" using G s'(1) 3 by (auto simp: gput_new)
    moreover have m: "map_of (rsPending s') o' = (if o' = off then Some dat else map_of (rsPending s) o')" for o'
      using s'(1) by (simp add: update_conv')
    moreover have "o' < rsExpected s \<or> map_of (rsPending s') o' = Some d'" if mem: "(o', d') \<in> insert (off, dat) R" for o' d'
    proof (cases "(o', d') = (off, dat)")
      case False
      then have "o' < rsExpected s \<or> map_of (rsPending s) o' = Some d'" using mem G by blast
      then show ?thesis using 3 m[of o'] by (cases "o' = off") auto
    qed (use m in simp)
    ultimately show ?thesis using G 3 inv' s' assms(4) unfolding gatherInv_def by (auto simp: chunkEnds_def simp del: map_of_eq_Some_iff)
  next
    case 4
    have "chunkOf content (rsExpected ?s1) dat" using ch(2) 4 by simp
    from writeFile_cases[OF inv1 cw this] show ?thesis
    proof cases
      case (1 fs1)
      then show ?thesis using assms(3) recvInvD(1)[OF inv] by (simp add: writeFile_def)
    next
      case (2 fs1)
      let ?s2 = "?s1\<lparr>rsFile := Some (i, rsExpected s + length dat), rsExpected := add64 (rsExpected s) (length dat)\<rparr>"
      have inv2: "recvInv content i ?s2 fs1" using recvInv_advance[OF inv1, of dat fs1] 4 ch(2) 2 by simp
      have sum: "rsExpected ?s2 = rsExpected s + length dat"
        using ch(2) recvInvD(5)[OF inv] 4 by (simp add: chunkOf_def)
      obtain t ft w where fl: "flushPending os ?s2 fs1 True = (t, ft, w)" by (cases "flushPending os ?s2 fs1 True")
      have res: "done = (rsFinSeen t \<and> rsExpected t = rsSize t)" "wrote = w" "s' = t" "fs' = ft"
        using run fil 4 2 fl ch(1) by auto
      have "gatherInv content i start C (insert (off, dat) R) t ft \<and> (True \<longrightarrow> w)"
      proof (rule gather_flush[OF inv2 _ _ assms(2) _ _ assms(3) _ fl])
        show "set (rsPending ?s2) \<subseteq> insert (off, dat) R" using G by auto
        show "insert (off, dat) R \<subseteq> C" using G assms(4) by blast
        show "rsExpected ?s2 \<in> insert start (chunkEnds (insert (off, dat) R))" using sum 4 by (simp add: chunkEnds_def)
        show "rsExpected ?s2 \<in> boundaries content C" using sum ch(3) 4 by simp
        show "\<forall>(o', d')\<in>insert (off, dat) R. o' < rsExpected ?s2 \<or> map_of (rsPending ?s2) o' = Some d'"
          using G sum 4 ch(1) by (auto simp del: map_of_eq_Some_iff)
      qed
      moreover from this have "rsSize t = length content" by (simp add: gatherInv_def recvInv_def)
      ultimately show ?thesis using res by simp
    qed
  qed
qed

end
