(* ===== verification/File_Handler.thy ===== *)
theory File_Handler
  imports File_Session
begin

text \<open>
  The handler of \<open>file\<close> (\<open>file/handler.go\<close>): routing and permission of control requests, the local operations (pull,
  offer, list, read text, mkdir), the responses that open sessions, the data and acknowledgement frames, and
  the janitor. The state is the two session tables and the files; \<open>sendFileData\<close>, which the code starts as a
  goroutine, is an action of its own that the output \<open>FSpawn\<close> announces.

  The JSON decoding of a control frame is an argument (\<open>ctrlMsg\<close>). \<open>CloneToTCPForForward\<close>, the permission
  table and the kinds of the frames, which other repositories define, are parameters in \<open>fileEnv\<close>. \<open>feWalk\<close> is what
  \<open>filepath.WalkDir\<close> reports: the files under a directory, each with whether it is older than the deadline.
\<close>

record readReq =
  rqOp :: string
  rqTarget :: nodeID
  rqDir :: string
  rqName :: string
  rqResumeFrom :: nat
  rqMaxBytes :: "32 word"

record writeReq =
  wqOp :: string
  wqTarget :: nodeID
  wqSessionID :: string
  wqDir :: string
  wqName :: string
  wqSize :: nat
  wqSha :: string
  wqOverwrite :: "bool option"

record readResp =
  rrCode :: int
  rrMsg :: string
  rrOp :: string
  rrSessionID :: string
  rrProvider :: nodeID
  rrConsumer :: nodeID
  rrDir :: string
  rrName :: string
  rrSize :: nat
  rrSha :: string
  rrStartFrom :: nat
  rrChunk :: "32 word"
  rrFiles :: "string list"
  rrDirs :: "string list"
  rrText :: string
  rrTruncated :: bool

record writeResp =
  wrCode :: int
  wrMsg :: string
  wrOp :: string
  wrSessionID :: string
  wrProvider :: nodeID
  wrConsumer :: nodeID
  wrDir :: string
  wrName :: string
  wrSize :: nat
  wrSha :: string
  wrAccept :: bool
  wrResumeFrom :: nat

definition zeroRead :: readResp where
  "zeroRead = \<lparr>rrCode = 0, rrMsg = [], rrOp = [], rrSessionID = [], rrProvider = 0, rrConsumer = 0, rrDir = [], rrName = [],
     rrSize = 0, rrSha = [], rrStartFrom = 0, rrChunk = 0, rrFiles = [], rrDirs = [], rrText = [], rrTruncated = False\<rparr>"

definition zeroWrite :: writeResp where
  "zeroWrite = \<lparr>wrCode = 0, wrMsg = [], wrOp = [], wrSessionID = [], wrProvider = 0, wrConsumer = 0, wrDir = [], wrName = [],
     wrSize = 0, wrSha = [], wrAccept = False, wrResumeFrom = 0\<rparr>"

text \<open>The action of a control frame with its decoded data; the flag says whether the decoding succeeded.\<close>

datatype ctrlMsg =
    CtrlBad
  | CtrlRead bool readReq
  | CtrlWrite bool writeReq
  | CtrlReadResp bool readResp
  | CtrlWriteResp bool writeResp
  | CtrlOther

datatype filePayload = FpRead readResp | FpWrite writeResp | FpBytes "byte list"

datatype fileOut = FSend string header filePayload | FSpawn "byte list"

record fileState =
  fRecv :: "(byte list, recvSession) gomap"
  fSend :: "(byte list, sendSession) gomap"
  fLastJanitor :: int

record fileEnv =
  feServer :: "server option"
  feCfg :: "config option"
  feExe :: "string option"
  feCwd :: "string option"
  fePerm :: "(nodeID \<Rightarrow> string \<Rightarrow> bool) option"
  feNow :: int
  feOs :: osModel
  feMk :: osAnswers
  feReadDir :: "string \<Rightarrow> (string \<times> bool) list option"
  feWalk :: "string \<Rightarrow> (string \<times> bool) list"
  feHop :: "header \<Rightarrow> header option"
  feRand :: "byte list option"
  feKCtrl :: byte
  feKData :: byte
  feKAck :: byte
  feSub :: "8 word"
  feMajorMsg :: major

type_synonym fileSt = "fileState \<times> fsys"

abbreviation feConf :: "fileEnv \<Rightarrow> handlerConfig" where
  "feConf env \<equiv> loadConfig (feExe env) (feCfg env)"

definition newFileHandler :: fileState where
  "newFileHandler = \<lparr>fRecv = [], fSend = [], fLastJanitor = 0\<rparr>"

subsection \<open>Session tables\<close>

definition totalSessions :: "fileState \<Rightarrow> int" where
  "totalSessions h = int (length (fRecv h) + length (fSend h))"

definition addRecvSession :: "byte list \<Rightarrow> recvSession \<Rightarrow> fileState \<Rightarrow> fileState" where
  "addRecvSession sid s h = h\<lparr>fRecv := gput sid s (fRecv h)\<rparr>"

definition removeRecvSession :: "byte list \<Rightarrow> fileState \<Rightarrow> fileState" where
  "removeRecvSession sid h = h\<lparr>fRecv := gdel sid (fRecv h)\<rparr>"

definition addSendSession :: "byte list \<Rightarrow> sendSession \<Rightarrow> fileState \<Rightarrow> fileState" where
  "addSendSession sid s h = h\<lparr>fSend := gput sid s (fSend h)\<rparr>"

definition removeSendSession :: "byte list \<Rightarrow> fileState \<Rightarrow> fileState" where
  "removeSendSession sid h = h\<lparr>fSend := gdel sid (fSend h)\<rparr>"

subsection \<open>Sending\<close>

text \<open>The next hop to a node: its connection when it is below, else the parent.\<close>

definition fileNextHop :: "server \<Rightarrow> nodeID \<Rightarrow> conn option" where
  "fileNextHop srv target = (case sByNode srv target of Some c \<Rightarrow> Some c | None \<Rightarrow> findParent (Some srv))"

definition fileSendToNode :: "fileEnv \<Rightarrow> nodeID \<Rightarrow> header \<Rightarrow> filePayload \<Rightarrow> fileOut list" where
  "fileSendToNode env target hdr pl =
     (if target = 0 then []
      else case feServer env of
             None \<Rightarrow> []
           | Some srv \<Rightarrow> (case fileNextHop srv target of None \<Rightarrow> [] | Some c \<Rightarrow> [FSend (cID c) hdr pl]))"

definition sendCtrlToNode :: "fileEnv \<Rightarrow> header option \<Rightarrow> nodeID \<Rightarrow> filePayload \<Rightarrow> fileOut list" where
  "sendCtrlToNode env reqHdr target pl =
     (if target = 0 then []
      else case feServer env of
             None \<Rightarrow> []
           | Some srv \<Rightarrow>
               let hdr0 = zeroHeader\<lparr>hMajor := MajorOKResp, hSubProto := feSub env, hSourceID := sNodeID srv, hTargetID := target\<rparr>;
                   hdr = (case reqHdr of None \<Rightarrow> hdr0 | Some r \<Rightarrow> hdr0\<lparr>hMsgID := hMsgID r, hTraceID := hTraceID r\<rparr>)
               in case fileNextHop srv target of None \<Rightarrow> [] | Some c \<Rightarrow> [FSend (cID c) hdr pl])"

definition sendReadResp :: "fileEnv \<Rightarrow> header option \<Rightarrow> nodeID \<Rightarrow> readResp \<Rightarrow> fileOut list" where
  "sendReadResp env reqHdr target d = sendCtrlToNode env reqHdr target (FpRead (d\<lparr>rrOp := toLower (trimSpace (rrOp d))\<rparr>))"

definition sendWriteResp :: "fileEnv \<Rightarrow> header option \<Rightarrow> nodeID \<Rightarrow> writeResp \<Rightarrow> fileOut list" where
  "sendWriteResp env reqHdr target d = sendCtrlToNode env reqHdr target (FpWrite (d\<lparr>wrOp := toLower (trimSpace (wrOp d))\<rparr>))"

definition fileHasPermission :: "fileEnv \<Rightarrow> nodeID \<Rightarrow> string \<Rightarrow> bool" where
  "fileHasPermission env node perm = (case fePerm env of None \<Rightarrow> False | Some has \<Rightarrow> has node perm)"

definition forwardCtrlEnd :: "fileEnv \<Rightarrow> header \<Rightarrow> byte list \<Rightarrow> nodeID \<Rightarrow> fileOut list" where
  "forwardCtrlEnd env hdr payload target =
     (case feServer env of
        None \<Rightarrow> []
      | Some srv \<Rightarrow>
          (case fileNextHop srv target of
             None \<Rightarrow> []
           | Some next \<Rightarrow>
               (case feHop env hdr of
                  None \<Rightarrow> []
                | Some fh \<Rightarrow> [FSend (cID next) (fh\<lparr>hTargetID := target\<rparr>) (FpBytes payload)])))"

definition forwardCtrlByHeaderTarget :: "fileEnv \<Rightarrow> header \<Rightarrow> byte list \<Rightarrow> fileOut list" where
  "forwardCtrlByHeaderTarget env hdr payload =
     (if hTargetID hdr = 0 then [] else forwardCtrlEnd env hdr payload (hTargetID hdr))"

text \<open>Forward to a connection with another target, or report that the hop limit is used up.\<close>

definition forwardVia ::
  "fileEnv \<Rightarrow> header \<Rightarrow> byte list \<Rightarrow> conn \<Rightarrow> nodeID \<Rightarrow> (int \<Rightarrow> string \<Rightarrow> fileOut list) \<Rightarrow> fileOut list" where
  "forwardVia env hdr payload c target sendErr =
     (case feHop env hdr of
        None \<Rightarrow> sendErr 500 ''hop limit exceeded''
      | Some fh \<Rightarrow> [FSend (cID c) (fh\<lparr>hTargetID := target\<rparr>) (FpBytes payload)])"

definition routeCtrlRequest ::
  "fileEnv \<Rightarrow> conn \<Rightarrow> header \<Rightarrow> byte list \<Rightarrow> nodeID \<Rightarrow> string \<Rightarrow> nodeID \<Rightarrow>
   (int \<Rightarrow> string \<Rightarrow> fileOut list) \<Rightarrow> (handlerConfig \<Rightarrow> fileSt \<Rightarrow> fileSt \<times> fileOut list) \<Rightarrow> fileSt \<Rightarrow> fileSt \<times> fileOut list" where
  "routeCtrlRequest env c hdr payload requester perm target sendErr handleLocal st =
     (case feServer env of
        None \<Rightarrow> (st, [])
      | Some srv \<Rightarrow>
          if isParentConn srv c then
            (if target = sNodeID srv then handleLocal (feConf env) st
             else (st, forwardCtrlEnd env hdr payload target))
          else if target = sNodeID srv then
            (if \<not> fileHasPermission env requester perm then (st, sendErr 403 ''permission denied'')
             else handleLocal (feConf env) st)
          else
            (case sByNode srv target of
               None \<Rightarrow>
                 (case findParent (Some srv) of
                    None \<Rightarrow> (st, sendErr 404 ''not found'')
                  | Some parent \<Rightarrow> (st, forwardVia env hdr payload parent target sendErr))
             | Some targetConn \<Rightarrow>
                 (case (case sByNode srv requester of
                          Some rc \<Rightarrow> if cID rc = cID targetConn then Some rc else None
                        | None \<Rightarrow> None) of
                    Some rc \<Rightarrow>
                      if connNodeID rc = 0 then (st, sendErr 500 ''invalid route'')
                      else (st, forwardVia env hdr payload rc (connNodeID rc) sendErr)
                  | None \<Rightarrow>
                      if \<not> fileHasPermission env requester perm then (st, sendErr 403 ''permission denied'')
                      else (st, forwardVia env hdr payload targetConn target sendErr))))"

subsection \<open>Local operations that only read\<close>

text \<open>The listing shared by \<open>handleListLocal\<close> and \<open>invokeCapabilityList\<close>: code, message, directory, files and directories.\<close>

definition listDir :: "fileEnv \<Rightarrow> handlerConfig \<Rightarrow> string \<Rightarrow> int \<times> string \<times> string \<times> string list \<times> string list" where
  "listDir env cfg dir0 =
     (case sanitizeDir dir0 of
        Inl _ \<Rightarrow> (400, ''invalid dir'', dir0, [], [])
      | Inr dir \<Rightarrow>
          let root = pathJoin [BaseDir cfg, dir] in
          if dir = [] \<and> omMkdirAllErr (feOs env) root then (500, ''mkdir failed'', dir, [], [])
          else case feReadDir env root of
                 None \<Rightarrow> if dir = [] then (500, ''read failed'', dir, [], []) else (404, ''not found'', dir, [], [])
               | Some entries \<Rightarrow>
                   (1, ''ok'', dir, sort (map fst (filter (\<lambda>(_, isDir). \<not> isDir) entries)),
                    sort (map fst (filter (\<lambda>(_, isDir). isDir) entries))))"

definition handleListLocal :: "fileEnv \<Rightarrow> header \<Rightarrow> readReq \<Rightarrow> handlerConfig \<Rightarrow> fileOut list" where
  "handleListLocal env hdr req cfg =
     (let (code, msg, dir, files, dirs) = listDir env cfg (rqDir req)
      in sendReadResp env (Some hdr) (hSourceID hdr)
           (zeroRead\<lparr>rrCode := code, rrMsg := msg, rrOp := ''list'', rrDir := dir, rrFiles := files, rrDirs := dirs\<rparr>))"

definition invokeCapabilityList :: "fileEnv \<Rightarrow> string option \<Rightarrow> string + string \<times> string list \<times> string list" where
  "invokeCapabilityList env dec =
     (case dec of
        None \<Rightarrow> Inl ''invalid file::list args''
      | Some dir0 \<Rightarrow>
          let (code, msg, dir, files, dirs) = listDir env (feConf env) dir0
          in if code = 1 then Inr (dir, files, dirs) else Inl msg)"

text \<open>\<open>utf8.Valid\<close>.\<close>

fun utf8Valid :: "nat list \<Rightarrow> bool" where
  "utf8Valid [] = True"
| "utf8Valid (a # xs) =
     (let cont = (\<lambda>lo hi b. lo \<le> b \<and> b \<le> hi) in
      if a < 0x80 then utf8Valid xs
      else if 0xC2 \<le> a \<and> a \<le> 0xDF then
        (case xs of b # ys \<Rightarrow> cont 0x80 0xBF b \<and> utf8Valid ys | _ \<Rightarrow> False)
      else if 0xE0 \<le> a \<and> a \<le> 0xEF then
        (case xs of b # c # ys \<Rightarrow>
           cont (if a = 0xE0 then 0xA0 else 0x80) (if a = 0xED then 0x9F else 0xBF) b \<and> cont 0x80 0xBF c \<and> utf8Valid ys
         | _ \<Rightarrow> False)
      else if 0xF0 \<le> a \<and> a \<le> 0xF4 then
        (case xs of b # c # d # ys \<Rightarrow>
           cont (if a = 0xF0 then 0x90 else 0x80) (if a = 0xF4 then 0x8F else 0xBF) b \<and>
           cont 0x80 0xBF c \<and> cont 0x80 0xBF d \<and> utf8Valid ys
         | _ \<Rightarrow> False)
      else False)"

text \<open>The limit on the text: 64 KiB when none is asked for, 256 KiB at most.\<close>

definition textLimit :: "32 word \<Rightarrow> nat" where
  "textLimit w = (let n = unat w; n1 = (if n = 0 then 64 * 1024 else n) in if 256 * 1024 < n1 then 256 * 1024 else n1)"

text \<open>The reading shared by \<open>handleReadTextLocal\<close> and \<open>invokeCapabilityReadText\<close>: an error, or size and bytes.\<close>

definition readText ::
  "fileEnv \<Rightarrow> handlerConfig \<Rightarrow> string \<Rightarrow> string \<Rightarrow> 32 word \<Rightarrow> fsys \<Rightarrow> (int \<times> string \<times> nat) + (nat \<times> byte list)" where
  "readText env cfg dir name limit fs =
     (case resolvePaths (feCwd env) (BaseDir cfg) dir name of
        Inl _ \<Rightarrow> Inl (400, ''invalid path'', 0)
      | Inr (finalPath, _) \<Rightarrow>
          (case fsContent finalPath fs of
             None \<Rightarrow> Inl (404, ''not found'', 0)
           | Some d \<Rightarrow>
               if omIsDir (feOs env) finalPath then Inl (404, ''not found'', 0)
               else if 0 < MaxSizeBytes cfg \<and> MaxSizeBytes cfg < length d then Inl (413, ''too large'', length d)
               else if omOpenErr (feOs env) finalPath then Inl (500, ''open failed'', 0)
               else if omReadErr (feOs env) 0 then Inl (500, ''read failed'', 0)
               else let buf = take (textLimit limit) d in
                    if \<not> utf8Valid (map unat buf) then Inl (415, ''not text'', 0) else Inr (length d, buf)))"

definition handleReadTextLocal :: "fileEnv \<Rightarrow> header \<Rightarrow> readReq \<Rightarrow> handlerConfig \<Rightarrow> fsys \<Rightarrow> fileOut list" where
  "handleReadTextLocal env hdr req cfg fs =
     (case feServer env of
        None \<Rightarrow> []
      | Some srv \<Rightarrow>
          let respond = (\<lambda>d. sendReadResp env (Some hdr) (hSourceID hdr) (d\<lparr>rrOp := ''read_text''\<rparr>));
              dir = trimSpace (rqDir req); name = trimSpace (rqName req);
              about = zeroRead\<lparr>rrProvider := sNodeID srv, rrConsumer := hSourceID hdr, rrDir := dir, rrName := name\<rparr>
          in if rqTarget req \<noteq> 0 \<and> rqTarget req \<noteq> sNodeID srv
             then respond (zeroRead\<lparr>rrCode := 400, rrMsg := ''target mismatch''\<rparr>)
             else case readText env cfg dir name (rqMaxBytes req) fs of
                    Inl (code, msg, n) \<Rightarrow>
                      if code = 500 then respond (zeroRead\<lparr>rrCode := code, rrMsg := msg\<rparr>)
                      else respond (about\<lparr>rrCode := code, rrMsg := msg, rrSize := n\<rparr>)
                  | Inr (n, buf) \<Rightarrow>
                      respond (about\<lparr>rrCode := 1, rrMsg := ''ok'', rrSize := n, rrText := map (char_of \<circ> unat) buf,
                                rrTruncated := length buf < n\<rparr>))"

definition invokeCapabilityReadText ::
  "fileEnv \<Rightarrow> (string \<times> string \<times> 32 word) option \<Rightarrow> fsys \<Rightarrow> string + string \<times> string \<times> nat \<times> byte list \<times> bool" where
  "invokeCapabilityReadText env dec fs =
     (case dec of
        None \<Rightarrow> Inl ''invalid file::read_text args''
      | Some (dir0, name0, limit) \<Rightarrow>
          (case readText env (feConf env) (trimSpace dir0) (trimSpace name0) limit fs of
             Inl (code, msg, n) \<Rightarrow> Inl msg
           | Inr (n, buf) \<Rightarrow> Inr (trimSpace dir0, trimSpace name0, n, buf, length buf < n)))"

definition handleMkdirLocal :: "fileEnv \<Rightarrow> header \<Rightarrow> writeReq \<Rightarrow> handlerConfig \<Rightarrow> fileOut list" where
  "handleMkdirLocal env hdr req cfg =
     (let r = fst (mkdirLocalDir (feCwd env) (feMk env) (BaseDir cfg) (wqDir req) (wqName req));
          resp = zeroWrite\<lparr>wrCode := mkCode r, wrMsg := mkMsg r, wrOp := ''mkdir'', wrDir := mkDir r, wrName := mkName r\<rparr>
      in sendWriteResp env (Some hdr) (hSourceID hdr)
           (case feServer env of
              Some srv \<Rightarrow> if mkCode r = 1 then resp\<lparr>wrProvider := sNodeID srv, wrConsumer := hSourceID hdr\<rparr> else resp
            | None \<Rightarrow> resp))"

definition invokeCapabilityMkdir :: "fileEnv \<Rightarrow> (string \<times> string) option \<Rightarrow> string + string \<times> string" where
  "invokeCapabilityMkdir env dec =
     (case dec of
        None \<Rightarrow> Inl ''invalid file::mkdir args''
      | Some (dir, name) \<Rightarrow>
          let r = fst (mkdirLocalDir (feCwd env) (feMk env) (BaseDir (feConf env)) dir name)
          in if mkCode r \<noteq> 1 then Inl (mkMsg r) else Inr (mkDir r, mkName r))"

subsection \<open>Opening sessions\<close>

definition newRecvSession ::
  "fileEnv \<Rightarrow> nodeID \<Rightarrow> nodeID \<Rightarrow> string \<Rightarrow> string \<Rightarrow> string \<Rightarrow> string \<Rightarrow> nat \<Rightarrow> string \<Rightarrow> bool \<Rightarrow> nat \<Rightarrow> nat \<Rightarrow> recvSession" where
  "newRecvSession env provider consumer dir name final part sz sha overwrite i start =
     \<lparr>rsProvider = provider, rsConsumer = consumer, rsDir = trimSpace dir, rsName = trimSpace name, rsFinal = final, rsPart = part,
      rsSize = sz, rsSha = trimSpace sha, rsOverwrite = overwrite, rsFile = Some (i, start), rsExpected = start, rsPending = [],
      rsPendingBytes = 0, rsMaxPending = nat (ChunkBytes (feConf env)) * 8 mod 2 ^ 64, rsFinSeen = False,
      rsLastActive = feNow env, rsLastAck = 0, rsLastAckTime = None\<rparr>"

definition handlePullAsProvider ::
  "fileEnv \<Rightarrow> header \<Rightarrow> readReq \<Rightarrow> handlerConfig \<Rightarrow> fileSt \<Rightarrow> fileSt \<times> fileOut list" where
  "handlePullAsProvider env hdr req cfg st =
     (case feServer env of
        None \<Rightarrow> (st, [])
      | Some srv \<Rightarrow>
          let (h, fs) = st; consumer = hSourceID hdr; provider = sNodeID srv;
              about = zeroRead\<lparr>rrOp := ''pull'', rrProvider := provider, rrConsumer := consumer, rrDir := rqDir req, rrName := rqName req\<rparr>;
              respond = sendReadResp env (Some hdr) consumer
          in case resolvePaths (feCwd env) (BaseDir cfg) (rqDir req) (rqName req) of
               Inl _ \<Rightarrow> (st, respond (about\<lparr>rrCode := 400, rrMsg := ''invalid path''\<rparr>))
             | Inr (finalPath, _) \<Rightarrow>
                 (case (if omIsDir (feOs env) finalPath then None else fsContent finalPath fs) of
                    None \<Rightarrow> (st, respond (about\<lparr>rrCode := 404, rrMsg := ''not found''\<rparr>))
                  | Some d \<Rightarrow>
                      let sz = length d in
                      if 0 < MaxSizeBytes cfg \<and> MaxSizeBytes cfg < sz
                      then (st, respond (about\<lparr>rrCode := 413, rrMsg := ''too large'', rrSize := sz\<rparr>))
                      else if MaxConcurrent cfg \<le> totalSessions h
                      then (st, respond (about\<lparr>rrCode := 429, rrMsg := ''too many sessions'', rrSize := sz\<rparr>))
                      else
                        let startFrom = (if sz < rqResumeFrom req then 0 else rqResumeFrom req) in
                        (case feRand env of
                           None \<Rightarrow> (st, respond (zeroRead\<lparr>rrCode := 500, rrMsg := ''uuid failed'', rrOp := ''pull''\<rparr>))
                         | Some rnd \<Rightarrow>
                             let sid = newUUID rnd;
                                 outs = respond (about\<lparr>rrCode := 1, rrMsg := ''ok'', rrSessionID := uuidToString sid,
                                          rrDir := trimSpace (rqDir req), rrName := trimSpace (rqName req), rrSize := sz,
                                          rrStartFrom := startFrom, rrChunk := word_of_int (ChunkBytes cfg)\<rparr>)
                             in if sz \<le> startFrom then (st, outs)
                                else ((addSendSession sid
                                         \<lparr>ssProvider = provider, ssConsumer = consumer, ssDir = trimSpace (rqDir req),
                                          ssName = trimSpace (rqName req), ssPath = finalPath, ssSize = sz, ssSha = [],
                                          ssStartFrom = startFrom, ssAcked = 0, ssLastActive = feNow env\<rparr> h, fs),
                                      outs @ [FSpawn sid]))))"

definition handleReadRespLocal :: "fileEnv \<Rightarrow> header \<Rightarrow> bool \<Rightarrow> readResp \<Rightarrow> fileSt \<Rightarrow> fileSt" where
  "handleReadRespLocal env hdr ok resp st =
     (if \<not> ok \<or> rrCode resp \<noteq> 1 \<or> toLower (trimSpace (rrOp resp)) \<noteq> ''pull'' then st
      else case feServer env of
        None \<Rightarrow> st
      | Some srv \<Rightarrow>
          let (h, fs) = st; local = sNodeID srv; cfg = feConf env;
              provider = (if rrProvider resp = 0 then hSourceID hdr else rrProvider resp)
          in if rrConsumer resp \<noteq> 0 \<and> rrConsumer resp \<noteq> local then st
             else case parseUUID (rrSessionID resp) of
               None \<Rightarrow> st
             | Some sid \<Rightarrow>
                 if provider = 0 then st
                 else if 0 < MaxSizeBytes cfg \<and> MaxSizeBytes cfg < rrSize resp then st
                 else if MaxConcurrent cfg \<le> totalSessions h then st
                 else case resolvePaths (feCwd env) (BaseDir cfg) (rrDir resp) (rrName resp) of
                   Inl _ \<Rightarrow> st
                 | Inr (finalPath, partPath) \<Rightarrow>
                     if omMkdirAllErr (feOs env) (pathDir finalPath) then st
                     else if omOpenErr (feOs env) partPath then st
                     else
                       let (i, fs1) = fsOpen partPath fs; startFrom = rrStartFrom resp in
                       if startFrom = rrSize resp \<and> rrSize resp \<noteq> 0 then
                         (h, if verifyPart (feOs env) partPath (rrSize resp) (trimSpace (rrSha resp)) fs1
                             then promotePart (feOs env) True partPath finalPath fs1 else fs1)
                       else if omTruncErr (feOs env) partPath \<or> 2 ^ 63 \<le> startFrom then (h, fs1)
                       else
                         let fs2 = fsTruncate i startFrom fs1 in
                         if omSeekErr (feOs env) partPath then (h, fs2)
                         else (addRecvSession sid (newRecvSession env provider local (rrDir resp) (rrName resp) finalPath partPath
                                 (rrSize resp) (rrSha resp) True i startFrom) h, fs2))"

text \<open>The part file that an offer can resume: its size when it is not too long; a longer one is removed.\<close>

definition resumePart :: "fileEnv \<Rightarrow> string \<Rightarrow> nat \<Rightarrow> fsys \<Rightarrow> nat \<times> fsys" where
  "resumePart env part sz fs =
     (case (if omIsDir (feOs env) part then None else fsContent part fs) of
        None \<Rightarrow> (0, fs)
      | Some d \<Rightarrow> if length d \<le> sz then (length d, fs) else (0, fsRemove part fs))"

definition handleOfferAsConsumer ::
  "fileEnv \<Rightarrow> header \<Rightarrow> writeReq \<Rightarrow> handlerConfig \<Rightarrow> fileSt \<Rightarrow> fileSt \<times> fileOut list" where
  "handleOfferAsConsumer env hdr req cfg st =
     (case feServer env of
        None \<Rightarrow> (st, [])
      | Some srv \<Rightarrow>
          let (h, fs) = st; local = sNodeID srv; provider = hSourceID hdr;
              sidText = trimSpace (wqSessionID req);
              fail = (\<lambda>code msg. sendWriteResp env (Some hdr) provider
                        (zeroWrite\<lparr>wrCode := code, wrMsg := msg, wrOp := ''offer'', wrSessionID := sidText\<rparr>));
              accept = (\<lambda>resume. sendWriteResp env (Some hdr) provider
                        (zeroWrite\<lparr>wrCode := 1, wrMsg := ''ok'', wrOp := ''offer'', wrSessionID := sidText, wrProvider := provider,
                          wrConsumer := local, wrDir := trimSpace (wqDir req), wrName := trimSpace (wqName req), wrSize := wqSize req,
                          wrSha := trimSpace (wqSha req), wrAccept := True, wrResumeFrom := resume\<rparr>))
          in if wqTarget req \<noteq> 0 \<and> wqTarget req \<noteq> local then (st, fail 400 ''target mismatch'')
             else if 0 < MaxSizeBytes cfg \<and> MaxSizeBytes cfg < wqSize req then (st, fail 413 ''too large'')
             else case parseUUID (wqSessionID req) of
               None \<Rightarrow> (st, fail 400 ''invalid session'')
             | Some sid \<Rightarrow>
                 let overwrite = (case wqOverwrite req of None \<Rightarrow> True | Some b \<Rightarrow> b) in
                 (case resolvePaths (feCwd env) (BaseDir cfg) (wqDir req) (wqName req) of
                    Inl _ \<Rightarrow> (st, fail 400 ''invalid path'')
                  | Inr (finalPath, partPath) \<Rightarrow>
                      if omMkdirAllErr (feOs env) (pathDir finalPath) then (st, fail 500 ''mkdir failed'')
                      else if \<not> overwrite \<and> (fsContent finalPath fs \<noteq> None \<or> omIsDir (feOs env) finalPath)
                      then (st, fail 409 ''exists'')
                      else if MaxConcurrent cfg \<le> totalSessions h then (st, fail 429 ''too many sessions'')
                      else
                        let (resumeFrom, fs1) = resumePart env partPath (wqSize req) fs in
                        if resumeFrom = wqSize req \<and> wqSize req \<noteq> 0 then
                          ((h, if verifyPart (feOs env) partPath (wqSize req) (trimSpace (wqSha req)) fs1
                               then promotePart (feOs env) overwrite partPath finalPath fs1 else fsRemove partPath fs1),
                           accept resumeFrom)
                        else if omOpenErr (feOs env) partPath then ((h, fs1), fail 500 ''open failed'')
                        else
                          let (i, fs2) = fsOpen partPath fs1 in
                          if omTruncErr (feOs env) partPath then ((h, fs2), fail 500 ''truncate failed'')
                          else
                            let fs3 = fsTruncate i resumeFrom fs2 in
                            if omSeekErr (feOs env) partPath then ((h, fs3), fail 500 ''seek failed'')
                            else ((addRecvSession sid (newRecvSession env provider local (wqDir req) (wqName req) finalPath partPath
                                     (wqSize req) (wqSha req) overwrite i resumeFrom) h, fs3), accept resumeFrom)))"

definition handleWriteRespLocal :: "fileEnv \<Rightarrow> header \<Rightarrow> bool \<Rightarrow> writeResp \<Rightarrow> fileSt \<Rightarrow> fileSt \<times> fileOut list" where
  "handleWriteRespLocal env hdr ok resp st =
     (if \<not> ok \<or> wrCode resp \<noteq> 1 \<or> \<not> wrAccept resp then (st, [])
      else case feServer env of
        None \<Rightarrow> (st, [])
      | Some srv \<Rightarrow>
          let (h, fs) = st; provider = sNodeID srv; dir = trimSpace (wrDir resp); name = trimSpace (wrName resp)
          in if wrProvider resp \<noteq> 0 \<and> wrProvider resp \<noteq> provider then (st, [])
             else case parseUUID (wrSessionID resp) of
               None \<Rightarrow> (st, [])
             | Some sid \<Rightarrow>
                 if name = [] \<or> wrSize resp = 0 then (st, [])
                 else if MaxConcurrent (feConf env) \<le> totalSessions h then (st, [])
                 else case resolvePaths (feCwd env) (BaseDir (feConf env)) dir name of
                   Inl _ \<Rightarrow> (st, [])
                 | Inr (filePath, _) \<Rightarrow>
                     ((addSendSession sid
                         \<lparr>ssProvider = provider, ssConsumer = hSourceID hdr, ssDir = dir, ssName = name, ssPath = filePath,
                          ssSize = wrSize resp, ssSha = trimSpace (wrSha resp), ssStartFrom = wrResumeFrom resp, ssAcked = 0,
                          ssLastActive = feNow env\<rparr> h, fs),
                      [FSpawn sid]))"

subsection \<open>Data and acknowledgements\<close>

definition maybeSendAck :: "fileEnv \<Rightarrow> byte list \<Rightarrow> nat \<Rightarrow> recvSession \<Rightarrow> recvSession \<times> fileOut list" where
  "maybeSendAck env sid expected s =
     (let step0 = nat (ChunkBytes (feConf env)) * 4 mod 2 ^ 64; step = (if step0 = 0 then 256 * 1024 else step0) in
      if expected = rsSize s \<or> step \<le> sub64 expected (rsLastAck s) \<or>
         (case rsLastAckTime s of None \<Rightarrow> True | Some t \<Rightarrow> 500 * 10 ^ 6 \<le> feNow env - t)
      then (s\<lparr>rsLastAck := expected, rsLastAckTime := Some (feNow env)\<rparr>,
            if rsProvider s = 0 \<or> rsConsumer s = 0 then []
            else fileSendToNode env (rsProvider s)
                   (zeroHeader\<lparr>hMajor := feMajorMsg env, hSubProto := feSub env, hSourceID := rsConsumer s, hTargetID := rsProvider s\<rparr>)
                   (FpBytes (encodeBinHeaderV1 (feKData env) (feKAck env) (feKAck env) sid (word_of_nat expected) False [])))
      else (s, []))"

definition finishRecvSession :: "fileEnv \<Rightarrow> byte list \<Rightarrow> fileSt \<Rightarrow> fileSt" where
  "finishRecvSession env sid st =
     (let (h, fs) = st in
      case map_of (fRecv h) sid of
        None \<Rightarrow> st
      | Some s \<Rightarrow>
          (removeRecvSession sid h,
           if verifyPart (feOs env) (rsPart s) (rsSize s) (trimSpace (rsSha s)) fs
           then promotePart (feOs env) (rsOverwrite s) (rsPart s) (rsFinal s) fs else fs))"

definition handleData :: "fileEnv \<Rightarrow> header \<Rightarrow> byte list \<Rightarrow> fileSt \<Rightarrow> fileSt \<times> fileOut list" where
  "handleData env hdr payload st =
     (let (h, fs) = st in
      case decodeBinHeaderV1 (feKData env) (feKAck env) payload of
        (kind, Some (bh, body)) \<Rightarrow>
          if kind \<noteq> feKData env \<or> Ver bh \<noteq> binVerV1 then (st, [])
          else (case map_of (fRecv h) (SessionID bh) of
                  None \<Rightarrow> (st, [])
                | Some s \<Rightarrow>
                    let fin = (Flags bh AND binFlagFIN \<noteq> 0); offset = unat (Offset bh) in
                    if hTargetID hdr \<noteq> rsConsumer s \<or> hSourceID hdr \<noteq> rsProvider s then (st, [])
                    else if body = [] \<and> \<not> fin then (st, [])
                    else if rsSize s < offset then (st, [])
                    else if rsSize s < add64 offset (length body) then (st, [])
                    else
                      let ((expected, completed, wrote), s1, fs1) = applyRecvChunk (feOs env) (feNow env) offset body fin s fs in
                      if \<not> wrote then ((addRecvSession (SessionID bh) s1 h, fs1), [])
                      else
                        let (s2, outs) = maybeSendAck env (SessionID bh) expected s1;
                            st2 = (addRecvSession (SessionID bh) s2 h, fs1)
                        in (if completed then finishRecvSession env (SessionID bh) st2 else st2, outs))
      | _ \<Rightarrow> (st, []))"

definition handleAck :: "fileEnv \<Rightarrow> header \<Rightarrow> byte list \<Rightarrow> fileSt \<Rightarrow> fileSt" where
  "handleAck env hdr payload st =
     (let (h, fs) = st in
      case decodeBinHeaderV1 (feKData env) (feKAck env) payload of
        (kind, Some (bh, body)) \<Rightarrow>
          if kind \<noteq> feKAck env \<or> Ver bh \<noteq> binVerV1 then st
          else (case map_of (fSend h) (SessionID bh) of
                  None \<Rightarrow> st
                | Some s \<Rightarrow>
                    if hTargetID hdr \<noteq> ssProvider s \<or> hSourceID hdr \<noteq> ssConsumer s then st
                    else (addSendSession (SessionID bh)
                            (s\<lparr>ssAcked := max (ssAcked s) (unat (Offset bh)), ssLastActive := feNow env\<rparr>) h, fs))
      | _ \<Rightarrow> st)"

definition dataFrame :: "fileEnv \<Rightarrow> byte list \<Rightarrow> nat \<times> bool \<times> byte list \<Rightarrow> byte list" where
  "dataFrame env sid f =
     (case f of (off, fin, dat) \<Rightarrow> encodeBinHeaderV1 (feKData env) (feKAck env) (feKData env) sid (word_of_nat off) fin dat)"

text \<open>The goroutine that sends a file. The early returns leave the session in the table.\<close>

definition sendFileData :: "fileEnv \<Rightarrow> byte list \<Rightarrow> fileSt \<Rightarrow> fileSt \<times> fileOut list" where
  "sendFileData env sid st =
     (let (h, fs) = st in
      case map_of (fSend h) sid of
        None \<Rightarrow> (st, [])
      | Some s \<Rightarrow>
          let chunk = (if ChunkBytes (feConf env) \<le> 0 then 256 * 1024 else nat (ChunkBytes (feConf env))) in
          if ssPath s = [] \<or> ssProvider s = 0 \<or> ssConsumer s = 0 then (st, [])
          else (case (if omOpenErr (feOs env) (ssPath s) then None else fsContent (ssPath s) fs) of
                  None \<Rightarrow> (st, [])
                | Some d \<Rightarrow>
                    if omIsDir (feOs env) (ssPath s) then (st, [])
                    else if ssSize s \<noteq> 0 \<and> length d \<noteq> ssSize s then (st, [])
                    else
                      let startFrom = (if length d < ssStartFrom s then 0 else ssStartFrom s) in
                      if omSeekErr (feOs env) (ssPath s) then (st, [])
                      else
                        ((removeSendSession sid h, fs),
                         concat (map (\<lambda>f. fileSendToNode env (ssConsumer s)
                             (zeroHeader\<lparr>hMajor := feMajorMsg env, hSubProto := feSub env, hSourceID := ssProvider s, hTargetID := ssConsumer s\<rparr>)
                             (FpBytes (dataFrame env sid f)))
                           (readChunks (feOs env) chunk d startFrom)))))"

subsection \<open>The janitor\<close>

definition cleanupExpiredSessions :: "fileEnv \<Rightarrow> handlerConfig \<Rightarrow> fileSt \<Rightarrow> fileSt" where
  "cleanupExpiredSessions env cfg st =
     (let (h, fs) = st in
      if IncompleteTTLSec cfg \<le> 0 then st
      else
        let deadline = feNow env - IncompleteTTLSec cfg * 10 ^ 9;
            expired = filter (\<lambda>(sid, s). rsLastActive s < deadline) (fRecv h)
        in (h\<lparr>fRecv := filter (\<lambda>(sid, s). \<not> rsLastActive s < deadline) (fRecv h)\<rparr>,
            fold (\<lambda>(sid, s) fs. if rsPart s \<noteq> [] then fsRemove (rsPart s) fs else fs) expired fs))"

definition cleanupExpiredParts :: "fileEnv \<Rightarrow> handlerConfig \<Rightarrow> fileSt \<Rightarrow> fileSt" where
  "cleanupExpiredParts env cfg st =
     (let (h, fs) = st; root = trimSpace (BaseDir cfg) in
      if IncompleteTTLSec cfg \<le> 0 \<or> root = [] then st
      else (h, fold (\<lambda>(path, old) fs. if hasSuffix (toLower path) ''.part'' \<and> old then fsRemove path fs else fs)
                 (feWalk env root) fs))"

text \<open>\<open>maybeJanitor\<close>, with the goroutine run at once; \<open>time.Now().Unix()\<close> is in seconds.\<close>

definition maybeJanitor :: "fileEnv \<Rightarrow> fileSt \<Rightarrow> fileSt" where
  "maybeJanitor env st =
     (let (h, fs) = st; cfg = feConf env; ttl = IncompleteTTLSec cfg in
      if ttl \<le> 0 then st
      else
        let interval = (if ttl div 2 < 300 then 300 else ttl div 2); now = feNow env div 10 ^ 9 in
        if fLastJanitor h \<noteq> 0 \<and> now - fLastJanitor h < interval then st
        else cleanupExpiredParts env cfg (cleanupExpiredSessions env cfg (h\<lparr>fLastJanitor := now\<rparr>, fs)))"

subsection \<open>Requests and dispatch\<close>

definition permRead :: string where "permRead = ''file.read''"
definition permWrite :: string where "permWrite = ''file.write''"

definition handleReadRequest ::
  "fileEnv \<Rightarrow> conn \<Rightarrow> header \<Rightarrow> byte list \<Rightarrow> readReq \<Rightarrow> fileSt \<Rightarrow> fileSt \<times> fileOut list" where
  "handleReadRequest env c hdr payload req st =
     (case feServer env of
        None \<Rightarrow> (st, [])
      | Some srv \<Rightarrow>
          let op = toLower (trimSpace (rqOp req)); requester = hSourceID hdr;
              fail = (\<lambda>code msg. sendReadResp env (Some hdr) requester (zeroRead\<lparr>rrCode := code, rrMsg := msg, rrOp := op\<rparr>));
              route = (\<lambda>target doit. routeCtrlRequest env c hdr payload requester permRead target fail doit st)
          in if op = ''pull'' then
               (if rqTarget req = 0 then (st, fail 400 ''target required'')
                else route (rqTarget req) (\<lambda>cfg. handlePullAsProvider env hdr req cfg))
             else if op = ''list'' then
               route (if rqTarget req = 0 then sNodeID srv else rqTarget req)
                 (\<lambda>cfg st. (st, handleListLocal env hdr req cfg))
             else if op = ''read_text'' then
               (if rqTarget req = 0 then (st, fail 400 ''target required'')
                else route (rqTarget req) (\<lambda>cfg st. (st, handleReadTextLocal env hdr req cfg (snd st))))
             else (st, fail 400 ''invalid op''))"

definition handleWriteRequest ::
  "fileEnv \<Rightarrow> conn \<Rightarrow> header \<Rightarrow> byte list \<Rightarrow> writeReq \<Rightarrow> fileSt \<Rightarrow> fileSt \<times> fileOut list" where
  "handleWriteRequest env c hdr payload req st =
     (let op = toLower (trimSpace (wqOp req)); requester = hSourceID hdr;
          respond = sendWriteResp env (Some hdr) requester;
          route = (\<lambda>fail doit. routeCtrlRequest env c hdr payload requester permWrite (wqTarget req) fail doit st)
      in if op = ''offer'' then
           (if wqTarget req = 0 then (st, respond (zeroWrite\<lparr>wrCode := 400, wrMsg := ''target required'', wrOp := op\<rparr>))
            else route (\<lambda>code msg. respond (zeroWrite\<lparr>wrCode := code, wrMsg := msg, wrOp := op,
                          wrSessionID := trimSpace (wqSessionID req)\<rparr>))
                   (\<lambda>cfg. handleOfferAsConsumer env hdr req cfg))
         else if op = ''mkdir'' then
           (if wqTarget req = 0 then (st, respond (zeroWrite\<lparr>wrCode := 400, wrMsg := ''target required'', wrOp := op\<rparr>))
            else route (\<lambda>code msg. respond (zeroWrite\<lparr>wrCode := code, wrMsg := msg, wrOp := op, wrDir := trimSpace (wqDir req),
                          wrName := trimSpace (wqName req)\<rparr>))
                   (\<lambda>cfg st. (st, handleMkdirLocal env hdr req cfg)))
         else (st, respond (zeroWrite\<lparr>wrCode := 400, wrMsg := ''invalid op'', wrOp := op\<rparr>)))"

definition handleCtrl ::
  "fileEnv \<Rightarrow> conn \<Rightarrow> header \<Rightarrow> byte list \<Rightarrow> ctrlMsg \<Rightarrow> fileSt \<Rightarrow> fileSt \<times> fileOut list" where
  "handleCtrl env c hdr payload msg st =
     (case feServer env of
        None \<Rightarrow> (st, [])
      | Some srv \<Rightarrow>
          if length payload < 2 then (st, [])
          else case msg of
            CtrlBad \<Rightarrow> (st, [])
          | CtrlRead ok req \<Rightarrow>
              if \<not> ok then (st, sendReadResp env (Some hdr) (hSourceID hdr)
                 (zeroRead\<lparr>rrCode := 400, rrMsg := ''invalid read'', rrOp := trimSpace (rqOp req)\<rparr>))
              else handleReadRequest env c hdr payload req st
          | CtrlWrite ok req \<Rightarrow>
              if \<not> ok then (st, sendWriteResp env (Some hdr) (hSourceID hdr)
                 (zeroWrite\<lparr>wrCode := 400, wrMsg := ''invalid write'', wrOp := trimSpace (wqOp req)\<rparr>))
              else handleWriteRequest env c hdr payload req st
          | CtrlReadResp ok resp \<Rightarrow>
              if hTargetID hdr = sNodeID srv then (handleReadRespLocal env hdr ok resp st, [])
              else (st, forwardCtrlByHeaderTarget env hdr payload)
          | CtrlWriteResp ok resp \<Rightarrow>
              if hTargetID hdr = sNodeID srv then handleWriteRespLocal env hdr ok resp st
              else (st, forwardCtrlByHeaderTarget env hdr payload)
          | CtrlOther \<Rightarrow>
              if hTargetID hdr \<noteq> sNodeID srv then (st, forwardCtrlByHeaderTarget env hdr payload) else (st, []))"

definition fileOnReceive ::
  "fileEnv \<Rightarrow> conn \<Rightarrow> header option \<Rightarrow> byte list \<Rightarrow> ctrlMsg \<Rightarrow> fileSt \<Rightarrow> fileSt \<times> fileOut list" where
  "fileOnReceive env c oh payload msg st =
     (case oh of
        None \<Rightarrow> (st, [])
      | Some hdr \<Rightarrow>
          if payload = [] then (st, [])
          else if hd payload = feKCtrl env then
            let (st1, outs) = handleCtrl env c hdr payload msg st in (maybeJanitor env st1, outs)
          else if hd payload = feKData env then handleData env hdr payload st
          else if hd payload = feKAck env then (handleAck env hdr payload st, [])
          else (st, []))"

subsection \<open>One transfer\<close>

text \<open>Data frames of one session, delivered one after the other.\<close>

definition deliverFrames :: "fileEnv \<Rightarrow> header \<Rightarrow> byte list \<Rightarrow> (nat \<times> bool \<times> byte list) list \<Rightarrow> fileSt \<Rightarrow> fileSt" where
  "deliverFrames env hdr sid frames st = fold (\<lambda>f st. fst (handleData env hdr (dataFrame env sid f) st)) frames st"

text \<open>What a session keeps for its whole life.\<close>

definition rsTransfer :: "recvSession \<Rightarrow> nodeID \<times> nodeID \<times> string \<times> string \<times> string \<times> bool \<times> nat" where
  "rsTransfer s = (rsProvider s, rsConsumer s, rsFinal s, rsPart s, rsSha s, rsOverwrite s, rsMaxPending s)"

lemma rsTransfer_core: "rsCore t = rsCore (s\<lparr>rsLastActive := a, rsFinSeen := b\<rparr>) \<Longrightarrow> rsTransfer t = rsTransfer s \<and> rsFinSeen t = b"
  using rsCoreD[of t "s\<lparr>rsLastActive := a, rsFinSeen := b\<rparr>"] by (simp add: rsTransfer_def)

lemma maybeSendAck_session:
  "fst (maybeSendAck env sid e s) = s \<or>
   fst (maybeSendAck env sid e s) = s\<lparr>rsLastAck := e, rsLastAckTime := Some (feNow env)\<rparr>"
  by (simp add: maybeSendAck_def Let_def)

lemma recvInv_ack [simp]: "recvInv content i (s\<lparr>rsLastAck := e, rsLastAckTime := t\<rparr>) fs = recvInv content i s fs"
  by (simp add: recvInv_def)

lemma maybeSendAck_keeps:
  "recvInv content i (fst (maybeSendAck env sid e s)) fs = recvInv content i s fs"
  "gatherInv content i start C R (fst (maybeSendAck env sid e s)) fs = gatherInv content i start C R s fs"
  "rsTransfer (fst (maybeSendAck env sid e s)) = rsTransfer s"
  "rsExpected (fst (maybeSendAck env sid e s)) = rsExpected s"
  "rsFinSeen (fst (maybeSendAck env sid e s)) = rsFinSeen s"
  "rsSize (fst (maybeSendAck env sid e s)) = rsSize s"
  using maybeSendAck_session[of env sid e s] by (auto simp: gatherInv_def rsTransfer_def)

text \<open>A data frame of the session, when the header and the bounds are right.\<close>

lemma handleData_frame:
  assumes "length sid = 16" and "map_of (fRecv h) sid = Some s" and "hTargetID hdr = rsConsumer s"
    and "hSourceID hdr = rsProvider s" and "dat \<noteq> []" and "off + length dat \<le> rsSize s" and "rsSize s < 2 ^ 63"
    and "applyRecvChunk (feOs env) (feNow env) off dat fin s fs = ((e, done, wrote), s1, fs1)"
  shows "fst (handleData env hdr (dataFrame env sid (off, fin, dat)) (h, fs)) =
    (if \<not> wrote then (addRecvSession sid s1 h, fs1)
     else let st2 = (addRecvSession sid (fst (maybeSendAck env sid e s1)) h, fs1)
          in if done then finishRecvSession env sid st2 else st2)"
proof -
  have off: "off < 2 ^ 64" using assms(6,7) by simp
  then have "unat (word_of_nat off :: 64 word) = off" by (simp add: unat_of_nat)
  moreover have "add64 off (length dat) = off + length dat" using assms(6,7) by simp
  moreover have "((if fin then binFlagFIN else 0) AND binFlagFIN \<noteq> 0) = fin" by (simp add: binFlagFIN_def)
  ultimately show ?thesis
    using assms
    by (simp add: handleData_def dataFrame_def decode_encode_bin[OF assms(1)] Let_def case_prod_unfold del: map_of_eq_Some_iff)
qed

text \<open>The part is complete: the transfer ends with the content under the final name.\<close>

lemma finish_promotes:
  assumes "map_of (fRecv h) sid = Some s" and "recvInv content i s fs" and "rsExpected s = length content"
    and "map_of (fsInode fs) (rsPart s) = Some i" and "rsPart s \<noteq> rsFinal s"
    and "\<not> omIsDir (feOs env) (rsPart s)" and "\<not> omOpenErr (feOs env) (rsPart s)" and "\<not> omRenameErr (feOs env) (rsPart s)"
    and "trimSpace (rsSha s) = [] \<or> equalFold (trimSpace (trimSpace (rsSha s))) (omSha256 (feOs env) content)"
  shows "\<exists>h' fs'. finishRecvSession env sid (h, fs) = (h', fs') \<and> map_of (fRecv h') sid = None \<and>
    fsContent (rsFinal s) fs' = Some content"
proof -
  note I = recvInvD[OF assms(2)]
  have c: "fsContent (rsPart s) fs = Some content" using assms(3,4) I(2) by (simp add: fsContent_def)
  then have v: "verifyPart (feOs env) (rsPart s) (rsSize s) (trimSpace (rsSha s)) fs"
    using assms(6,7,9) I(4) by (auto simp: verifyPart_def)
  have "fsContent (rsFinal s) (promotePart (feOs env) (rsOverwrite s) (rsPart s) (rsFinal s) fs) = Some content"
    using assms(4,5,8) I(2) assms(3)
    by (auto simp: promotePart_def fsRename_def fsRemove_def fsContent_def update_conv' delete_conv')
  then show ?thesis
    using v assms(1) by (simp add: finishRecvSession_def removeRecvSession_def delete_conv')
qed

text \<open>Where a transfer stands after the chunks \<open>R\<close>: under way, or done with the content under the final name.\<close>

definition transferInv ::
  "byte list \<Rightarrow> byte list \<Rightarrow> nat \<Rightarrow> nat \<Rightarrow> (nat \<times> byte list) set \<Rightarrow> recvSession \<Rightarrow> (nat \<times> byte list) set \<Rightarrow> fileSt \<Rightarrow> bool" where
  "transferInv sid content i start C s0 R st =
     ((\<exists>s. map_of (fRecv (fst st)) sid = Some s \<and> gatherInv content i start C R s (snd st) \<and> rsTransfer s = rsTransfer s0 \<and>
         (length content \<in> chunkEnds R \<longrightarrow> rsFinSeen s) \<and> rsExpected s < length content \<and>
         map_of (fsInode (snd st)) (rsPart s0) = Some i) \<or>
      (map_of (fRecv (fst st)) sid = None \<and> fsContent (rsFinal s0) (snd st) = Some content))"

text \<open>The operating system does its work on the files of one transfer.\<close>

definition osHealthy :: "fileEnv \<Rightarrow> byte list \<Rightarrow> recvSession \<Rightarrow> bool" where
  "osHealthy env content s0 =
     ((\<forall>i pos. omWrite (feOs env) i pos = None) \<and> rsPart s0 \<noteq> rsFinal s0 \<and> \<not> omIsDir (feOs env) (rsPart s0) \<and>
      \<not> omOpenErr (feOs env) (rsPart s0) \<and> \<not> omRenameErr (feOs env) (rsPart s0) \<and>
      (trimSpace (rsSha s0) = [] \<or> equalFold (trimSpace (trimSpace (rsSha s0))) (omSha256 (feOs env) content)))"

lemma transfer_step:
  assumes "length sid = 16" and "covers content start C" and "osHealthy env content s0"
    and "hTargetID hdr = rsConsumer s0" and "hSourceID hdr = rsProvider s0"
    and "\<And>s. map_of (fRecv (fst st)) sid = Some s \<Longrightarrow> off \<le> rsExpected s \<or> (\<Sum>(off, dat)\<in>C. length dat) \<le> rsMaxPending s0"
    and "start < length content"
    and "(off, dat) \<in> C" and "fin = (off + length dat = length content)" and "transferInv sid content i start C s0 R st"
  shows "transferInv sid content i start C s0 (insert (off, dat) R) (fst (handleData env hdr (dataFrame env sid (off, fin, dat)) st)) \<and>
    (\<forall>s s'. map_of (fRecv (fst st)) sid = Some s \<longrightarrow>
       map_of (fRecv (fst (fst (handleData env hdr (dataFrame env sid (off, fin, dat)) st)))) sid = Some s' \<longrightarrow> rsExpected s \<le> rsExpected s')"
proof -
  obtain h fs where st: "st = (h, fs)" by (cases st)
  note os = assms(3)[unfolded osHealthy_def]
  show ?thesis
  proof (cases "map_of (fRecv h) sid")
    case None
    then have "fst (handleData env hdr (dataFrame env sid (off, fin, dat)) (h, fs)) = (h, fs)"
      by (simp add: handleData_def dataFrame_def decode_encode_bin[OF assms(1)])
    then show ?thesis using assms(10) None st by (simp add: transferInv_def)
  next
    case (Some s)
    with assms(10) st have g: "gatherInv content i start C R s fs" and tr: "rsTransfer s = rsTransfer s0"
      and fs0: "length content \<in> chunkEnds R \<longrightarrow> rsFinSeen s" and lt: "rsExpected s < length content"
      and ino: "map_of (fsInode fs) (rsPart s0) = Some i" by (auto simp: transferInv_def simp del: map_of_eq_Some_iff)
    have inv: "recvInv content i s fs" using g by (simp add: gatherInv_def)
    note I = recvInvD[OF inv] and ch = covers_chunk[OF assms(2,8)]
    note tr' = tr[unfolded rsTransfer_def prod.inject]
    obtain e cpl wrote s1 fs1 where
      ap: "applyRecvChunk (feOs env) (feNow env) off dat fin s fs = ((e, cpl, wrote), s1, fs1)"
      by (metis prod_cases3 surj_pair)
    have cw: "cleanWrites (feOs env)" using os by (simp add: cleanWrites_def)
    note A = applyRecvChunk_inv[OF inv cw ch(2) ap]
    have room: "off \<le> rsExpected s \<or> (\<Sum>(off, dat)\<in>C. length dat) \<le> rsMaxPending s" using assms(6)[of s] st Some tr' by simp
    have ok: "\<forall>i pos. omWrite (feOs env) i pos = None" using os by blast
    note G = gather_step[OF g assms(2) ok assms(8) room ap]
    from A rsTransfer_core[where t = s1 and s = s and a = "feNow env" and b = "rsFinSeen s \<or> fin"]
    have tr1: "rsTransfer s1 = rsTransfer s" "rsFinSeen s1 = (rsFinSeen s \<or> fin)" by auto
    have fin1: "length content \<in> chunkEnds (insert (off, dat) R) \<longrightarrow> rsFinSeen s1"
      using fs0 assms(9) tr1 by (auto simp: chunkEnds_def)
    note run = handleData_frame[OF assms(1) Some _ _ ch(1) _ _ ap, of hdr]
    have eq: "fst (handleData env hdr (dataFrame env sid (off, fin, dat)) st) =
      (if \<not> wrote then (addRecvSession sid s1 h, fs1)
       else let st2 = (addRecvSession sid (fst (maybeSendAck env sid e s1)) h, fs1)
            in if cpl then finishRecvSession env sid st2 else st2)"
      unfolding st by (rule run) (use assms(4,5) tr' I(4,5) ch(2) in \<open>auto simp: chunkOf_def\<close>)
    have ino1: "map_of (fsInode fs1) (rsPart s0) = Some i" using A ino by simp
    have inv1: "recvInv content i s1 fs1" and g1: "gatherInv content i start C (insert (off, dat) R) s1 fs1" using A G by auto
    show ?thesis
    proof (cases "rsExpected s1 = length content")
      case True
      then have wd: "wrote" using G lt by simp
      have "length content \<in> insert start (chunkEnds (insert (off, dat) R))" using g1 True by (simp add: gatherInv_def)
      then have "rsFinSeen s1" using fin1 assms(7) by auto
      then have d: "cpl" using G wd True by simp
      let ?s2 = "fst (maybeSendAck env sid e s1)"
      have "rsTransfer ?s2 = rsTransfer s0" using tr tr1 by (simp add: maybeSendAck_keeps)
      then have t2: "rsPart ?s2 = rsPart s0" "rsFinal ?s2 = rsFinal s0" "rsSha ?s2 = rsSha s0" by (auto simp: rsTransfer_def)
      have "\<exists>h' fs'. finishRecvSession env sid (addRecvSession sid ?s2 h, fs1) = (h', fs') \<and> map_of (fRecv h') sid = None \<and>
          fsContent (rsFinal ?s2) fs' = Some content"
        by (rule finish_promotes[where i = i])
           (use inv1 True ino1 os t2 in \<open>auto simp: addRecvSession_def update_conv' maybeSendAck_keeps\<close>)
      then show ?thesis using eq wd d t2 by (auto simp: transferInv_def)
    next
      case False
      then have lt1: "rsExpected s1 < length content" using recvInvD(3)[OF inv1] by simp
      have nd: "wrote \<Longrightarrow> \<not> cpl" using G False by simp
      let ?s2 = "if wrote then fst (maybeSendAck env sid e s1) else s1"
      have "fst (handleData env hdr (dataFrame env sid (off, fin, dat)) st) = (addRecvSession sid ?s2 h, fs1)"
        using eq nd by (auto simp: Let_def)
      moreover have "gatherInv content i start C (insert (off, dat) R) ?s2 fs1 \<and> rsTransfer ?s2 = rsTransfer s0 \<and>
          rsExpected ?s2 < length content \<and> rsExpected s \<le> rsExpected ?s2 \<and> (length content \<in> chunkEnds (insert (off, dat) R) \<longrightarrow> rsFinSeen ?s2)"
        using g1 tr tr1 lt1 fin1 A by (auto simp: maybeSendAck_keeps)
      ultimately show ?thesis unfolding transferInv_def using ino1 Some st
        by (auto simp: addRecvSession_def update_conv' simp del: map_of_eq_Some_iff)
    qed
  qed
qed

lemma transfer_run:
  assumes "length sid = 16" and "covers content start C" and "osHealthy env content s0"
    and "hTargetID hdr = rsConsumer s0" and "hSourceID hdr = rsProvider s0"
    and "(\<Sum>(off, dat)\<in>C. length dat) \<le> rsMaxPending s0" and "start < length content"
    and "transferInv sid content i start C s0 R st"
    and "\<forall>(off, fin, dat)\<in>set frames. (off, dat) \<in> C \<and> fin = (off + length dat = length content)"
  shows "transferInv sid content i start C s0 (R \<union> chunkSet frames) (deliverFrames env hdr sid frames st)"
  using assms(8,9)
proof (induction frames arbitrary: R st)
  case (Cons f frames)
  obtain off fin dat where f: "f = (off, fin, dat)" by (cases f)
  from Cons.prems(2) f have "(off, dat) \<in> C" "fin = (off + length dat = length content)" by auto
  from transfer_step[OF assms(1-5) disjI2[OF assms(6)] assms(7) this Cons.prems(1), THEN conjunct1] Cons.IH[of "insert (off, dat) R"] Cons.prems(2) f
  show ?case by (simp add: deliverFrames_def chunkSet_def)
qed (simp add: deliverFrames_def chunkSet_def)

text \<open>The frames of a transfer in the order in which they are sent need no buffer at all.\<close>

lemma transfer_in_order:
  assumes "length sid = 16" and "covers content start C" and "osHealthy env content s0"
    and "hTargetID hdr = rsConsumer s0" and "hSourceID hdr = rsProvider s0" and "start < length content"
    and "chunkSet (readChunks os n content pos) \<subseteq> C"
    and "transferInv sid content i start C s0 R st"
    and "\<And>s. map_of (fRecv (fst st)) sid = Some s \<Longrightarrow> rsExpected s = pos" and "\<forall>e\<in>insert start (chunkEnds R). e \<le> pos"
  shows "transferInv sid content i start C s0 (R \<union> chunkSet (readChunks os n content pos))
    (deliverFrames env hdr sid (readChunks os n content pos) st)"
  using assms(7-10)
proof (induction "length content - pos" arbitrary: pos R st rule: less_induct)
  case less
  let ?step = "\<lambda>fin dat. fst (handleData env hdr (dataFrame env sid (pos, fin, dat)) st)"
  have step: "transferInv sid content i start C s0 (insert (pos, dat) R) (?step fin dat) \<and>
      (\<forall>s s'. map_of (fRecv (fst st)) sid = Some s \<longrightarrow> map_of (fRecv (fst (?step fin dat))) sid = Some s' \<longrightarrow> rsExpected s \<le> rsExpected s')"
    if "(pos, dat) \<in> C" "fin = (pos + length dat = length content)" for fin dat
    by (rule transfer_step[OF assms(1-5) disjI1 assms(6) that less.prems(2)]) (simp add: less.prems(3))
  show ?case
  proof (cases rule: readChunks_cases[of content pos os n])
    case stop
    then show ?thesis using less.prems(2) by (simp add: deliverFrames_def chunkSet_def)
  next
    case (last m)
    have len: "length (take m (drop pos content)) = m" by (rule length_take_drop) (use last in simp)
    have mem: "(pos, take m (drop pos content)) \<in> C" using less.prems(1) last(3) by (simp add: chunkSet_def)
    show ?thesis using step[OF mem] last len by (simp add: deliverFrames_def chunkSet_def)
  next
    case (more m)
    let ?dat = "take m (drop pos content)"
    have len: "length ?dat = m" by (rule length_take_drop) (use more in simp)
    have mem: "(pos, ?dat) \<in> C" using less.prems(1) more(3) by (simp add: chunkSet_def)
    let ?st = "?step False ?dat"
    from more(2) len have ne: "False = (pos + length ?dat = length content)" by simp
    note st1 = step[OF mem ne]
    have t: "transferInv sid content i start C s0 (insert (pos, ?dat) R) ?st" by (rule st1[THEN conjunct1])
    have bound: "\<forall>e\<in>insert start (chunkEnds (insert (pos, ?dat) R)). e \<le> pos + m"
      using less.prems(4) len by (auto simp: chunkEnds_def)
    have pos': "rsExpected s = pos + m" if s: "map_of (fRecv (fst ?st)) sid = Some s" for s
    proof -
      from t s have g: "gatherInv content i start C (insert (pos, ?dat) R) s (snd ?st)"
        by (auto simp: transferInv_def simp del: map_of_eq_Some_iff)
      note G = g[unfolded gatherInv_def]
      have "pos \<le> rsExpected s"
      proof (cases "map_of (fRecv (fst st)) sid")
        case None
        then have "?st = st" by (cases st) (simp add: handleData_def dataFrame_def decode_encode_bin[OF assms(1)])
        then show ?thesis using s None by simp
      next
        case (Some s1)
        then show ?thesis using st1 s less.prems(3)[OF Some] by blast
      qed
      moreover have "pos < rsExpected s \<or> map_of (rsPending s) pos = Some ?dat" using G by blast
      ultimately have "pos < rsExpected s" using G by (cases "rsExpected s = pos") (auto simp del: map_of_eq_Some_iff)
      moreover have "rsExpected s = pos + m \<or> rsExpected s \<in> insert start (chunkEnds R)"
        using G len by (auto simp: chunkEnds_def)
      ultimately show ?thesis using less.prems(4) by fastforce
    qed
    have "length content - (pos + m) < length content - pos" using more by linarith
    from less.hyps[OF this _ t pos' bound] less.prems(1) more(3)
    show ?thesis by (simp add: deliverFrames_def chunkSet_def)
  qed
qed

end
