(* ===== verification/File_Transfer.thy ===== *)
theory File_Transfer
  imports File_Handler
begin

text \<open>
  The properties of the file handler: a pull from request to file, chunks in any order, what any sequence of data frames
  leaves in the part file, who may have requests executed, and three weaknesses of the session handling.
\<close>

subsection \<open>A pull, end to end\<close>

lemma transfer_done:
  assumes "transferInv sid content i start C s0 C st" and "covers content start C"
  shows "map_of (fRecv (fst st)) sid = None \<and> fsContent (rsFinal s0) (snd st) = Some content"
  using assms(1) gatherInv_complete[OF _ assms(2)] unfolding transferInv_def by fastforce

text \<open>The outputs of one node delivered to the data handler of another.\<close>

definition deliverOuts :: "fileEnv \<Rightarrow> fileOut list \<Rightarrow> fileSt \<Rightarrow> fileSt" where
  "deliverOuts env outs st =
     fold (\<lambda>out st. case out of FSend _ hdr (FpBytes p) \<Rightarrow> fst (handleData env hdr p st) | _ \<Rightarrow> st) outs st"

lemma pull_op: "toLower (trimSpace ''pull'') = ''pull''"
  by code_simp

lemma length_sendReadResp: "length (sendReadResp env rh t d) \<le> 1"
  by (simp add: sendReadResp_def sendCtrlToNode_def Let_def split: option.split)

lemma sendReadResp_eq:
  "sendReadResp env rh t d = [FSend cid hr pl] \<Longrightarrow> pl = FpRead (d\<lparr>rrOp := toLower (trimSpace (rrOp d))\<rparr>) \<and> t \<noteq> 0"
  by (auto simp: sendReadResp_def sendCtrlToNode_def Let_def split: option.splits if_splits)

text \<open>What a provider did when it answers a pull with a session.\<close>

lemma pull_accepted:
  assumes "handlePullAsProvider P hq req cfg (h, fs) = (st', [FSend cid hr (FpRead resp), FSpawn sid])"
    and "feServer P = Some sp" and "resolvePaths (feCwd P) (BaseDir cfg) (rqDir req) (rqName req) = Inr (pf, pp)"
    and "fsContent pf fs = Some content" and "rqResumeFrom req = 0"
  shows "\<exists>rnd. feRand P = Some rnd \<and> sid = newUUID rnd \<and> content \<noteq> [] \<and> hSourceID hq \<noteq> 0 \<and> \<not> omIsDir (feOs P) pf \<and>
    rrCode resp = 1 \<and> rrOp resp = ''pull'' \<and> rrSessionID resp = uuidToString sid \<and> rrProvider resp = sNodeID sp \<and>
    rrConsumer resp = hSourceID hq \<and> rrDir resp = trimSpace (rqDir req) \<and> rrName resp = trimSpace (rqName req) \<and>
    rrSize resp = length content \<and> rrStartFrom resp = 0 \<and> rrSha resp = [] \<and>
    (\<exists>s. st' = (addSendSession sid s h, fs) \<and> ssPath s = pf \<and> ssProvider s = sNodeID sp \<and> ssConsumer s = hSourceID hq \<and>
         ssSize s = length content \<and> ssStartFrom s = 0)"
proof -
  have no: "sendReadResp P rh t d \<noteq> [FSend cid hr (FpRead resp), FSpawn sid]" for rh t d
    using length_sendReadResp[of P rh t d] by auto
  from assms obtain rnd where rnd: "feRand P = Some rnd" and dir: "\<not> omIsDir (feOs P) pf"
    and ok: "\<not> (0 < MaxSizeBytes cfg \<and> MaxSizeBytes cfg < length content)" "\<not> MaxConcurrent cfg \<le> totalSessions h"
    by (auto simp: handlePullAsProvider_def Let_def no split: if_splits option.splits)
  have ne: "content \<noteq> []" using assms rnd dir ok by (auto simp: handlePullAsProvider_def Let_def no split: if_splits)
  let ?resp = "zeroRead\<lparr>rrOp := ''pull'', rrProvider := sNodeID sp, rrConsumer := hSourceID hq, rrCode := 1, rrMsg := ''ok'',
      rrSessionID := uuidToString (newUUID rnd), rrDir := trimSpace (rqDir req), rrName := trimSpace (rqName req),
      rrSize := length content, rrStartFrom := 0, rrChunk := word_of_int (ChunkBytes cfg)\<rparr>"
  from assms rnd dir ok ne
  have outs: "sendReadResp P (Some hq) (hSourceID hq) ?resp = [FSend cid hr (FpRead resp)]" and sid: "sid = newUUID rnd"
    and st': "\<exists>s. st' = (addSendSession (newUUID rnd) s h, fs) \<and> ssPath s = pf \<and> ssProvider s = sNodeID sp \<and>
       ssConsumer s = hSourceID hq \<and> ssSize s = length content \<and> ssStartFrom s = 0"
    by (auto simp: handlePullAsProvider_def Let_def)
  from sendReadResp_eq[OF outs] have "resp = ?resp\<lparr>rrOp := ''pull''\<rparr>" "hSourceID hq \<noteq> 0" by (auto simp: pull_op zeroRead_def)
  then show ?thesis using rnd dir ne st' sid by (auto simp: zeroRead_def)
qed

text \<open>The session that a pull response opens at the consumer.\<close>

lemma response_opens:
  assumes "feServer Q = Some sq" and "rrCode resp = 1" and "rrOp resp = ''pull''" and "rrConsumer resp = sNodeID sq"
    and "rrProvider resp \<noteq> 0" and "parseUUID (rrSessionID resp) = Some sid"
    and "\<not> (0 < MaxSizeBytes (feConf Q) \<and> MaxSizeBytes (feConf Q) < rrSize resp)"
    and "totalSessions h < MaxConcurrent (feConf Q)"
    and "resolvePaths (feCwd Q) (BaseDir (feConf Q)) (rrDir resp) (rrName resp) = Inr (qf, qp)"
    and "\<not> omMkdirAllErr (feOs Q) (pathDir qf)" and "\<not> omOpenErr (feOs Q) qp" and "\<not> omTruncErr (feOs Q) qp"
    and "\<not> omSeekErr (feOs Q) qp" and "rrStartFrom resp = 0" and "rrSize resp \<noteq> 0"
  obtains i fs' where "handleReadRespLocal Q hr True resp (h, fs) =
      (addRecvSession sid (newRecvSession Q (rrProvider resp) (sNodeID sq) (rrDir resp) (rrName resp) qf qp
         (rrSize resp) (rrSha resp) True i 0) h, fs')"
    "map_of (fsInode fs') qp = Some i" "gget [] (fsData fs') i = []"
proof -
  obtain i fs1 where o: "fsOpen qp fs = (i, fs1)" by (cases "fsOpen qp fs")
  then have "map_of (fsInode fs1) qp = Some i" by (auto simp: fsOpen_def update_conv' split: option.splits)
  then have "map_of (fsInode (fsTruncate i 0 fs1)) qp = Some i" "gget [] (fsData (fsTruncate i 0 fs1)) i = []"
    by (simp_all add: fsTruncate_def padTo_def)
  moreover have "handleReadRespLocal Q hr True resp (h, fs) =
      (addRecvSession sid (newRecvSession Q (rrProvider resp) (sNodeID sq) (rrDir resp) (rrName resp) qf qp
         (rrSize resp) (rrSha resp) True i 0) h, fsTruncate i 0 fs1)"
    using assms o by (auto simp: handleReadRespLocal_def pull_op Let_def)
  ultimately show ?thesis using that by blast
qed

text \<open>The frames that the sending loop hands to the next hop.\<close>

lemma sendFileData_frames:
  assumes "map_of (fSend h) sid = Some s" and "feServer P = Some sp" and "fileNextHop sp (ssConsumer s) = Some c"
    and "ssPath s \<noteq> []" and "ssProvider s \<noteq> 0" and "ssConsumer s \<noteq> 0" and "fsContent (ssPath s) fs = Some content"
    and "\<not> omOpenErr (feOs P) (ssPath s)" and "\<not> omIsDir (feOs P) (ssPath s)" and "\<not> omSeekErr (feOs P) (ssPath s)"
    and "ssSize s = length content" and "ssStartFrom s \<le> length content"
  shows "\<exists>n. sendFileData P sid (h, fs) =
    ((removeSendSession sid h, fs),
     map (\<lambda>f. FSend (cID c) (zeroHeader\<lparr>hMajor := feMajorMsg P, hSubProto := feSub P, hSourceID := ssProvider s, hTargetID := ssConsumer s\<rparr>)
                (FpBytes (dataFrame P sid f))) (readChunks (feOs P) n content (ssStartFrom s)))"
proof -
  have one: "fileSendToNode P (ssConsumer s) hd pl = [FSend (cID c) hd pl]" for hd pl
    using assms(2,3,6) by (simp add: fileSendToNode_def)
  have conc: "concat (map (\<lambda>f. [g f]) xs) = map g xs" for g :: "nat \<times> bool \<times> byte list \<Rightarrow> fileOut" and xs
    by (induction xs) auto
  show ?thesis using assms by (auto simp: sendFileData_def Let_def one conc)
qed

lemma deliverOuts_frames:
  assumes "feKData P = feKData Q" and "feKAck P = feKAck Q"
  shows "deliverOuts Q (map (\<lambda>f. FSend cid hdr (FpBytes (dataFrame P sid f))) frames) st = deliverFrames Q hdr sid frames st"
proof -
  have "dataFrame P sid f = dataFrame Q sid f" for f using assms by (simp add: dataFrame_def)
  then show ?thesis by (induction frames arbitrary: st) (auto simp: deliverOuts_def deliverFrames_def)
qed

lemma newRecv_inv:
  assumes "gget [] (fsData fs) i = []" and "length content < 2 ^ 63" and "ChunkBytes (feConf Q) < 2 ^ 60"
  shows "recvInv content i (newRecvSession Q p c d n f pt (length content) sha ov i 0) fs"
proof -
  have "nat (ChunkBytes (feConf Q)) < 2 ^ 60" using assms(3) by (simp add: nat_less_iff)
  then have "nat (ChunkBytes (feConf Q)) * 8 mod 2 ^ 64 < 2 ^ 63" by (simp add: mod_less)
  then show ?thesis using assms(1,2) by (simp add: recvInv_def newRecvSession_def)
qed

text \<open>A session opened at offset 0 that gets the frames of the content in order.\<close>

lemma opened_transfer:
  assumes "length sid = 16" and "content \<noteq> []" "length content < 2 ^ 63" and "\<forall>off. \<not> omReadErr os off"
    and "ChunkBytes (feConf Q) < 2 ^ 60" and "qp \<noteq> qf" and "\<not> omOpenErr (feOs Q) qp" "\<not> omIsDir (feOs Q) qp"
      "\<not> omRenameErr (feOs Q) qp" "\<forall>i pos. omWrite (feOs Q) i pos = None"
    and "map_of (fsInode fs) qp = Some i" and "gget [] (fsData fs) i = []"
    and "hSourceID hdr = prov" and "hTargetID hdr = con"
  shows "\<exists>h' fs'. deliverFrames Q hdr sid (readChunks os n content 0)
      (addRecvSession sid (newRecvSession Q prov con d nm qf qp (length content) [] True i 0) h, fs) = (h', fs') \<and>
    map_of (fRecv h') sid = None \<and> fsContent qf fs' = Some content"
proof -
  define s0 where "s0 = newRecvSession Q prov con d nm qf qp (length content) [] True i 0"
  let ?fr = "readChunks os n content 0"
  let ?C = "chunkSet ?fr" and ?st = "(addRecvSession sid s0 h, fs)"
  have s0: "rsProvider s0 = prov" "rsConsumer s0 = con" "rsPart s0 = qp" "rsFinal s0 = qf" "rsSha s0 = trimSpace []"
    "rsExpected s0 = 0" "rsPending s0 = []" by (simp_all add: s0_def newRecvSession_def)
  have inv: "recvInv content i s0 fs" unfolding s0_def by (rule newRecv_inv[OF assms(12,3,5)])
  have cov: "covers content 0 ?C" by (rule readChunks_covers[OF assms(4)]) simp
  have healthy: "osHealthy Q content s0" using assms s0 by (simp add: osHealthy_def)
  have init: "transferInv sid content i 0 ?C s0 {} ?st"
    unfolding transferInv_def using gather_start[OF inv s0(7,6) cov] assms(2,11) s0
    by (auto simp: addRecvSession_def update_conv' chunkEnds_def simp del: map_of_eq_Some_iff)
  have "transferInv sid content i 0 ?C s0 ({} \<union> ?C) (deliverFrames Q hdr sid ?fr ?st)"
    by (rule transfer_in_order[OF assms(1) cov healthy _ _ _ _ init])
       (use assms(2,13,14) s0 in \<open>auto simp: addRecvSession_def update_conv' chunkEnds_def\<close>)
  then have "transferInv sid content i 0 ?C s0 ?C (deliverFrames Q hdr sid ?fr ?st)" by simp
  from transfer_done[OF this cov] show ?thesis
    unfolding s0_def[symmetric] using s0(4) by (cases "deliverFrames Q hdr sid ?fr ?st") simp
qed



subsection \<open>Any sequence of data frames\<close>

text \<open>A frame only touches the file that its session has open.\<close>

lemma writeFile_frame:
  assumes "rsFile s = Some (i, p)" and "writeFile os dat s fs = (err, s', fs')"
  shows "(\<exists>p'. rsFile s' = Some (i, p')) \<and> (\<forall>j. j \<noteq> i \<longrightarrow> gget [] (fsData fs') j = gget [] (fsData fs) j)"
  using assms by (auto simp: writeFile_def Let_def split: option.splits)

lemma flushPending_frame:
  assumes "rsFile s = Some (i, p)" and "flushPending os s fs w = (s', fs', w')"
  shows "\<forall>j. j \<noteq> i \<longrightarrow> gget [] (fsData fs') j = gget [] (fsData fs) j"
  using assms
proof (induction os s fs w arbitrary: p s' fs' w' rule: flushPending.induct)
  case (1 os s fs w)
  show ?case
  proof (cases "map_of (rsPending s) (rsExpected s)")
    case None
    then show ?thesis using "1.prems" by (subst (asm) flushPending.simps) auto
  next
    case (Some dat)
    let ?s1 = "s\<lparr>rsPending := gdel (rsExpected s) (rsPending s), rsPendingBytes := sub64 (rsPendingBytes s) (length dat)\<rparr>"
    note run = "1.prems"(2)[unfolded flushPending.simps[of os s fs w] Some option.case Let_def]
    obtain err s2 fs2 where w: "writeFile os dat ?s1 fs = (err, s2, fs2)" by (cases "writeFile os dat ?s1 fs")
    have f: "rsFile ?s1 = Some (i, p)" using "1.prems"(1) by simp
    show ?thesis
    proof (cases "dat = []")
      case True
      then show ?thesis using "1.IH"(1)[OF Some refl refl True f] run by simp
    next
      case False
      from writeFile_frame[OF f w] obtain p' where p': "rsFile s2 = Some (i, p')" and same: "\<forall>j. j \<noteq> i \<longrightarrow> gget [] (fsData fs2) j = gget [] (fsData fs) j"
        by blast
      show ?thesis
      proof (cases err)
        case True
        then show ?thesis using run False w same by simp
      next
        case ok: False
        then have "flushPending os (s2\<lparr>rsExpected := add64 (rsExpected s) (length dat)\<rparr>) fs2 True = (s', fs', w')" using run False w by simp
        then show ?thesis using "1.IH"(2)[OF Some refl refl False, of p' s' fs' w'] w ok p' same by simp
      qed
    qed
  qed
qed

lemma applyRecvChunk_frame:
  assumes "rsFile s = Some (i, p)" and "applyRecvChunk os now off dat fin s fs = (r, s', fs')"
  shows "\<forall>j. j \<noteq> i \<longrightarrow> gget [] (fsData fs') j = gget [] (fsData fs) j"
proof -
  let ?s1 = "s\<lparr>rsLastActive := now, rsFinSeen := rsFinSeen s \<or> fin\<rparr>"
  have f1: "rsFile ?s1 = Some (i, p)" using assms(1) by simp
  note run = assms(2)[unfolded applyRecvChunk_def Let_def]
  consider "off \<noteq> rsExpected s" | "off = rsExpected s" "dat = []" | "off = rsExpected s" "dat \<noteq> []" by blast
  then show ?thesis
  proof cases
    case 1
    then have "fs' = fs" using run assms(1) by (auto split: if_splits)
    then show ?thesis by simp
  next
    case 2
    obtain t ft w where fl: "flushPending os ?s1 fs False = (t, ft, w)" by (cases "flushPending os ?s1 fs False")
    then have "fs' = ft" using run assms(1) 2 by auto
    then show ?thesis using flushPending_frame[OF f1 fl] by simp
  next
    case 3
    obtain err s2 fs2 where w: "writeFile os dat ?s1 fs = (err, s2, fs2)" by (cases "writeFile os dat ?s1 fs")
    from writeFile_frame[OF f1 w] obtain p' where p': "rsFile s2 = Some (i, p')"
      and same: "\<forall>j. j \<noteq> i \<longrightarrow> gget [] (fsData fs2) j = gget [] (fsData fs) j" by blast
    let ?s3 = "s2\<lparr>rsExpected := add64 (rsExpected s) (length dat)\<rparr>"
    obtain t ft w' where fl: "flushPending os ?s3 fs2 True = (t, ft, w')" by (cases "flushPending os ?s3 fs2 True")
    have "fs' = (if err then fs2 else ft)" using run assms(1) 3 w fl by auto
    moreover have "\<forall>j. j \<noteq> i \<longrightarrow> gget [] (fsData ft) j = gget [] (fsData fs2) j"
      by (rule flushPending_frame[OF _ fl, of i p']) (use p' in simp)
    ultimately show ?thesis using same by auto
  qed
qed

text \<open>The frames of arbitrary senders; those that pass for frames of the session carry bytes of the content.\<close>

definition genuine :: "fileEnv \<Rightarrow> byte list \<Rightarrow> byte list \<Rightarrow> recvSession \<Rightarrow> header \<times> byte list \<Rightarrow> bool" where
  "genuine env sid content s f =
     (\<forall>bh body. decodeBinHeaderV1 (feKData env) (feKAck env) (snd f) = (feKData env, Some (bh, body)) \<and> Ver bh = binVerV1 \<and>
        SessionID bh = sid \<and> hTargetID (fst f) = rsConsumer s \<and> hSourceID (fst f) = rsProvider s \<longrightarrow>
        chunkOf content (unat (Offset bh)) body)"

definition handleFrames :: "fileEnv \<Rightarrow> (header \<times> byte list) list \<Rightarrow> fileSt \<Rightarrow> fileSt" where
  "handleFrames env frames st = fold (\<lambda>(hdr, p) st. fst (handleData env hdr p st)) frames st"

text \<open>What a data frame can do to the state: nothing, or a chunk applied to the session it names.\<close>

lemma handleData_cases:
  obtains "fst (handleData env hdr p (h, fs)) = (h, fs)"
  | bh body s e cpl wrote s1 fs1 where "decodeBinHeaderV1 (feKData env) (feKAck env) p = (feKData env, Some (bh, body))" "Ver bh = binVerV1"
      "map_of (fRecv h) (SessionID bh) = Some s" "hTargetID hdr = rsConsumer s" "hSourceID hdr = rsProvider s"
      "\<not> rsSize s < add64 (unat (Offset bh)) (length body)" "unat (Offset bh) \<le> rsSize s"
      "applyRecvChunk (feOs env) (feNow env) (unat (Offset bh)) body (Flags bh AND binFlagFIN \<noteq> 0) s fs = ((e, cpl, wrote), s1, fs1)"
      "fst (handleData env hdr p (h, fs)) =
        (if \<not> wrote then (addRecvSession (SessionID bh) s1 h, fs1)
         else let st2 = (addRecvSession (SessionID bh) (fst (maybeSendAck env (SessionID bh) e s1)) h, fs1)
              in if cpl then finishRecvSession env (SessionID bh) st2 else st2)"
proof (cases "fst (handleData env hdr p (h, fs)) = (h, fs)")
  case ne: False
  obtain kind ob where d: "decodeBinHeaderV1 (feKData env) (feKAck env) p = (kind, ob)" by (cases "decodeBinHeaderV1 (feKData env) (feKAck env) p")
  from ne d obtain bh body where ob: "ob = Some (bh, body)" by (cases ob) (auto simp: handleData_def)
  with ne d have k: "kind = feKData env" "Ver bh = binVerV1" by (auto simp: handleData_def split: if_splits)
  from ne d ob k obtain s where s: "map_of (fRecv h) (SessionID bh) = Some s"
    by (cases "map_of (fRecv h) (SessionID bh)") (auto simp: handleData_def)
  obtain e cpl wrote s1 fs1 where
    ap: "applyRecvChunk (feOs env) (feNow env) (unat (Offset bh)) body (Flags bh AND binFlagFIN \<noteq> 0) s fs = ((e, cpl, wrote), s1, fs1)"
    by (metis prod_cases3 surj_pair)
  note run = handleData_def[of env hdr p "(h, fs)", unfolded d ob k Let_def prod.case option.case s]
  from ne run have g: "hTargetID hdr = rsConsumer s" "hSourceID hdr = rsProvider s" "\<not> (body = [] \<and> Flags bh AND binFlagFIN = 0)"
    "\<not> rsSize s < unat (Offset bh)" "\<not> rsSize s < add64 (unat (Offset bh)) (length body)"
    by (auto simp: k split: if_splits)
  show ?thesis
  proof (rule that(2)[OF d[unfolded ob k] k(2) s g(1,2,5) _ ap])
    show "unat (Offset bh) \<le> rsSize s" using g(4) by simp
    show "fst (handleData env hdr p (h, fs)) =
        (if \<not> wrote then (addRecvSession (SessionID bh) s1 h, fs1)
         else let st2 = (addRecvSession (SessionID bh) (fst (maybeSendAck env (SessionID bh) e s1)) h, fs1)
              in if cpl then finishRecvSession env (SessionID bh) st2 else st2)"
      using g run by (auto simp: ap k Let_def case_prod_unfold)
  qed
qed (rule that(1))

text \<open>Where the only session of a node stands: under way with a prefix of the content, or ended.\<close>

definition soleInv :: "byte list \<Rightarrow> byte list \<Rightarrow> nat \<Rightarrow> recvSession \<Rightarrow> fsys \<Rightarrow> fileSt \<Rightarrow> bool" where
  "soleInv sid content i s0 fs0 st =
     ((\<exists>s. fRecv (fst st) = [(sid, s)] \<and> recvInv content i s (snd st) \<and> rsTransfer s = rsTransfer s0 \<and>
         fsInode (snd st) = fsInode fs0 \<and> (\<forall>j. j \<noteq> i \<longrightarrow> gget [] (fsData (snd st)) j = gget [] (fsData fs0) j)) \<or>
      (fRecv (fst st) = [] \<and> fsContent (rsFinal s0) (snd st) \<in> {None, Some content, fsContent (rsFinal s0) fs0}))"

lemma finish_sole:
  assumes "fRecv h = [(sid, s)]" and "recvInv content i s fs" and "rsExpected s = length content" and "rsTransfer s = rsTransfer s0"
    and "fsInode fs = fsInode fs0" and "\<forall>j. j \<noteq> i \<longrightarrow> gget [] (fsData fs) j = gget [] (fsData fs0) j"
    and "map_of (fsInode fs0) (rsPart s0) = Some i" and "map_of (fsInode fs0) (rsFinal s0) \<noteq> Some i"
  shows "soleInv sid content i s0 fs0 (finishRecvSession env sid (h, fs))"
proof -
  have f: "rsFinal s = rsFinal s0" "rsPart s = rsPart s0" using assms(4) by (simp_all add: rsTransfer_def)
  have old: "fsContent (rsFinal s0) fs = fsContent (rsFinal s0) fs0"
    using assms(5,6,8) by (auto simp: fsContent_def split: option.split)
  have part: "gget [] (fsData fs) i = content" using recvInvD(2)[OF assms(2)] assms(3) by simp
  have pf: "rsPart s0 \<noteq> rsFinal s0" using assms(7,8) by auto
  have "fsContent (rsFinal s0) (promotePart os ov (rsPart s0) (rsFinal s0) fs) \<in> {None, Some content, fsContent (rsFinal s0) fs}" for os ov
    using assms(5,7) part pf
    by (cases ov; cases "omRenameErr os (rsPart s0)")
       (simp_all add: promotePart_def fsRename_def fsRemove_def fsContent_def update_conv' delete_conv')
  then show ?thesis
    using assms(1) f old by (auto simp: soleInv_def finishRecvSession_def removeRecvSession_def)
qed

lemma sole_step:
  assumes "soleInv sid content i s0 fs0 st" and "cleanWrites (feOs env)" and "genuine env sid content s0 (hdr, p)"
    and "map_of (fsInode fs0) (rsPart s0) = Some i" and "map_of (fsInode fs0) (rsFinal s0) \<noteq> Some i"
  shows "soleInv sid content i s0 fs0 (fst (handleData env hdr p st))"
proof -
  obtain h fs where st: "st = (h, fs)" by (cases st)
  show ?thesis
  proof (cases rule: handleData_cases[of env hdr p h fs])
    case 1
    then show ?thesis using assms(1) st by simp
  next
    case (2 bh body s e cpl wrote s1 fs1)
    from assms(1) st 2(3) have sole: "fRecv h = [(sid, s)]" "SessionID bh = sid" and inv: "recvInv content i s fs"
      and tr: "rsTransfer s = rsTransfer s0" and ino: "fsInode fs = fsInode fs0"
      and same: "\<forall>j. j \<noteq> i \<longrightarrow> gget [] (fsData fs) j = gget [] (fsData fs0) j"
      unfolding soleInv_def by (auto split: if_splits)
    have ch: "chunkOf content (unat (Offset bh)) body"
      using assms(3) 2(1,2,4,5) sole(2) tr unfolding genuine_def rsTransfer_def by auto
    note A = applyRecvChunk_inv[OF inv assms(2) ch 2(8)]
    have tr1: "rsTransfer s1 = rsTransfer s0" using A rsTransfer_core[of s1] tr by metis
    have same1: "\<forall>j. j \<noteq> i \<longrightarrow> gget [] (fsData fs1) j = gget [] (fsData fs0) j"
      using applyRecvChunk_frame[OF recvInvD(1)[OF inv] 2(8)] same by simp
    let ?s2 = "fst (maybeSendAck env sid e s1)"
    have put: "fRecv (addRecvSession sid t h) = [(sid, t)]" for t using sole(1) by (simp add: addRecvSession_def)
    have go: "soleInv sid content i s0 fs0 (addRecvSession sid t h, fs1)" if "recvInv content i t fs1" "rsTransfer t = rsTransfer s0" for t
      unfolding soleInv_def using that put[of t] A ino same1 by auto
    have fin: "soleInv sid content i s0 fs0 (finishRecvSession env sid (addRecvSession sid ?s2 h, fs1))" if cpl
      by (rule finish_sole[OF put]) (use A that tr1 ino same1 assms(4,5) in \<open>auto simp: maybeSendAck_keeps\<close>)
    show ?thesis
      using go[of s1] go[of ?s2] fin A tr1 by (auto simp: st 2(9) sole(2) maybeSendAck_keeps Let_def)
  qed
qed


subsection \<open>Who may have requests executed\<close>

text \<open>The permission that a request needs.\<close>

fun ctrlPerm :: "ctrlMsg \<Rightarrow> string option" where
  "ctrlPerm (CtrlRead ok req) = Some permRead"
| "ctrlPerm (CtrlWrite ok req) = Some permWrite"
| "ctrlPerm _ = None"

text \<open>An answer that reports an error.\<close>

fun isRefusal :: "filePayload \<Rightarrow> bool" where
  "isRefusal (FpRead r) = (rrCode r \<noteq> 1)"
| "isRefusal (FpWrite w) = (wrCode w \<noteq> 1)"
| "isRefusal (FpBytes p) = False"

text \<open>Outputs that refuse the request, or pass it to the parent or back into the requester's own branch.\<close>

definition harmless :: "server \<Rightarrow> nodeID \<Rightarrow> byte list \<Rightarrow> fileOut \<Rightarrow> bool" where
  "harmless srv requester payload out =
     (case out of
        FSpawn sid \<Rightarrow> False
      | FSend cid hdr pl \<Rightarrow>
          isRefusal pl \<or>
          pl = FpBytes payload \<and>
            ((\<exists>p. findParent (Some srv) = Some p \<and> cid = cID p) \<or> (\<exists>rc. sByNode srv requester = Some rc \<and> cid = cID rc)))"

lemma sendCtrl_sends: "o' \<in> set (sendCtrlToNode env rh t pl) \<Longrightarrow> \<exists>cid hdr. o' = FSend cid hdr pl"
  by (auto simp: sendCtrlToNode_def Let_def split: option.splits if_splits)

lemma sendReadResp_harmless: "rrCode d \<noteq> 1 \<Longrightarrow> \<forall>o'\<in>set (sendReadResp env rh t d). harmless srv q p o'"
  unfolding sendReadResp_def by (auto dest!: sendCtrl_sends simp: harmless_def)

lemma sendWriteResp_harmless: "wrCode d \<noteq> 1 \<Longrightarrow> \<forall>o'\<in>set (sendWriteResp env rh t d). harmless srv q p o'"
  unfolding sendWriteResp_def by (auto dest!: sendCtrl_sends simp: harmless_def)

lemma route_refused:
  assumes "feServer env = Some srv" and "\<not> isParentConn srv c" and "\<not> fileHasPermission env q perm"
    and "\<And>code msg. code \<noteq> 1 \<Longrightarrow> \<forall>o'\<in>set (sendErr code msg). harmless srv q payload o'"
  shows "\<exists>outs. routeCtrlRequest env c hdr payload q perm target sendErr handleLocal st = (st, outs) \<and>
    (\<forall>o'\<in>set outs. harmless srv q payload o')"
proof -
  have via: "\<forall>o'\<in>set (forwardVia env hdr payload d t sendErr). harmless srv q payload o'"
    if "findParent (Some srv) = Some d \<or> sByNode srv q = Some d" for d t
    using that assms(4)[of 500] by (auto simp: forwardVia_def harmless_def split: option.split)
  have err: "\<forall>o'\<in>set (sendErr 403 m). harmless srv q payload o'" "\<forall>o'\<in>set (sendErr 404 m). harmless srv q payload o'"
    "\<forall>o'\<in>set (sendErr 500 m). harmless srv q payload o'" for m by (rule assms(4), simp)+
  show ?thesis
    by (simp add: routeCtrlRequest_def assms(1-3) err split: option.split) (use via in blast)
qed

text \<open>
  C14: A read or write request that does not come from the parent, and whose requester lacks the permission for it, is not executed:
  the sessions and the files stay as they are, no data is sent, and the node answers with an error or passes the request on unchanged, to the
  parent or into the branch from which the requester is reached, never into another branch.
\<close>
theorem file_request_authorized:
  assumes "feServer env = Some srv" and "\<not> isParentConn srv c" and "ctrlPerm msg = Some perm"
    and "\<not> fileHasPermission env (hSourceID hdr) perm"
  shows "\<exists>outs. handleCtrl env c hdr payload msg st = (st, outs) \<and> (\<forall>o'\<in>set outs. harmless srv (hSourceID hdr) payload o')"
proof (cases msg)
  case (CtrlRead ok req)
  have no: "\<not> fileHasPermission env (hSourceID hdr) permRead" using assms(3,4) CtrlRead by simp
  let ?ok = "\<lambda>r. \<exists>outs. r = (st, outs) \<and> (\<forall>o'\<in>set outs. harmless srv (hSourceID hdr) payload o')"
  let ?fail = "\<lambda>op code msg. sendReadResp env (Some hdr) (hSourceID hdr) (zeroRead\<lparr>rrCode := code, rrMsg := msg, rrOp := op\<rparr>)"
  have rt: "?ok (routeCtrlRequest env c hdr payload (hSourceID hdr) permRead t (?fail op) doit st)" for t op doit
    by (rule route_refused[OF assms(1,2) no]) (rule sendReadResp_harmless, simp)
  have fl: "?ok (st, ?fail op 400 m)" for op m 
    using sendReadResp_harmless[of "zeroRead\<lparr>rrCode := 400, rrMsg := m, rrOp := op\<rparr>" env "Some hdr" "hSourceID hdr" srv "hSourceID hdr" payload]
    by simp
  have rd: "?ok (handleReadRequest env c hdr payload req st)"
    unfolding handleReadRequest_def assms(1) option.case Let_def using rt fl by (simp split: if_split)
  then show ?thesis
    by (auto simp: handleCtrl_def assms(1) CtrlRead intro!: sendReadResp_harmless)
next
  case (CtrlWrite ok req)
  have no: "\<not> fileHasPermission env (hSourceID hdr) permWrite" using assms(3,4) CtrlWrite by simp
  let ?ok = "\<lambda>r. \<exists>outs. r = (st, outs) \<and> (\<forall>o'\<in>set outs. harmless srv (hSourceID hdr) payload o')"
  have rt: "?ok (routeCtrlRequest env c hdr payload (hSourceID hdr) permWrite t
      (\<lambda>code msg. sendWriteResp env (Some hdr) (hSourceID hdr) (f code msg)) doit st)"
    if "\<And>code msg. wrCode (f code msg) = code" for t f doit
    by (rule route_refused[OF assms(1,2) no]) (rule sendWriteResp_harmless, simp add: that)
  have fl: "?ok (st, sendWriteResp env (Some hdr) (hSourceID hdr) (zeroWrite\<lparr>wrCode := 400, wrMsg := m, wrOp := op\<rparr>))" for op m
    using sendWriteResp_harmless[of "zeroWrite\<lparr>wrCode := 400, wrMsg := m, wrOp := op\<rparr>" env "Some hdr" "hSourceID hdr" srv "hSourceID hdr" payload]
    by simp
  have wr: "?ok (handleWriteRequest env c hdr payload req st)"
    unfolding handleWriteRequest_def Let_def using rt fl by (simp split: if_split)
  then show ?thesis
    by (auto simp: handleCtrl_def assms(1) CtrlWrite intro!: sendWriteResp_harmless)
qed (use assms(3) in auto)

subsection \<open>Weaknesses of the session handling\<close>

text \<open>
  Writing does not need the permission to write. A \<open>read_resp\<close> is not matched with a pull that this node asked for: a node that
  nobody granted anything sends one on its own, names a file, and follows with data frames; its bytes end up under the final name.
\<close>
theorem file_unsolicited_write:
  assumes "feServer env = Some srv" and "fePerm env = None" and "hTargetID hdr = sNodeID srv" and "2 \<le> length payload"
    and "rrCode resp = 1" "rrOp resp = ''pull''" "rrConsumer resp = sNodeID srv" "rrProvider resp = hSourceID hdr" "hSourceID hdr \<noteq> 0"
      "parseUUID (rrSessionID resp) = Some sid" "length sid = 16" "rrSize resp = length content" "rrStartFrom resp = 0" "rrSha resp = []"
    and "content \<noteq> []" "length content < 2 ^ 63"
    and "MaxSizeBytes (feConf env) = 0" "totalSessions h < MaxConcurrent (feConf env)" "ChunkBytes (feConf env) < 2 ^ 60"
    and "resolvePaths (feCwd env) (BaseDir (feConf env)) (rrDir resp) (rrName resp) = Inr (qf, qp)" "qp \<noteq> qf"
    and "\<not> omMkdirAllErr (feOs env) (pathDir qf)" "\<not> omOpenErr (feOs env) qp" "\<not> omTruncErr (feOs env) qp"
      "\<not> omSeekErr (feOs env) qp" "\<not> omIsDir (feOs env) qp" "\<not> omRenameErr (feOs env) qp" "\<forall>i pos. omWrite (feOs env) i pos = None"
    and "\<forall>off. \<not> omReadErr os off"
  shows "\<exists>h' fs'. deliverFrames env (zeroHeader\<lparr>hSourceID := hSourceID hdr, hTargetID := sNodeID srv\<rparr>) sid (readChunks os n content 0)
      (fst (handleCtrl env c hdr payload (CtrlReadResp True resp) (h, fs))) = (h', fs') \<and> fsContent qf fs' = Some content"
proof -
  obtain i fs1 where opened: "handleReadRespLocal env hdr True resp (h, fs) =
      (addRecvSession sid (newRecvSession env (rrProvider resp) (sNodeID srv) (rrDir resp) (rrName resp) qf qp
         (rrSize resp) (rrSha resp) True i 0) h, fs1)" and ino: "map_of (fsInode fs1) qp = Some i" "gget [] (fsData fs1) i = []"
    by (rule response_opens[OF assms(1,5,6,7) _ assms(10) _ assms(18,20,22,23,24,25,13), where hr = hdr and fs = fs])
       (use assms(8,9,12,15,17) in auto)
  have "fst (handleCtrl env c hdr payload (CtrlReadResp True resp) (h, fs)) =
      (addRecvSession sid (newRecvSession env (hSourceID hdr) (sNodeID srv) (rrDir resp) (rrName resp) qf qp (length content) [] True i 0) h, fs1)"
    using assms(1,3,4,8,12,14) opened by (simp add: handleCtrl_def)
  then show ?thesis
    using opened_transfer[OF assms(11,15,16,29,19,21,23,26,27,28) ino, where prov = "hSourceID hdr" and con = "sNodeID srv"
        and hdr = "zeroHeader\<lparr>hSourceID := hSourceID hdr, hTargetID := sNodeID srv\<rparr>" and n = n and h = h and d = "rrDir resp"
        and nm = "rrName resp"]
    by auto
qed

text \<open>No frame removes a sending session.\<close>

lemma fSend_readResp: "fSend (fst (handleReadRespLocal env hdr ok r st)) = fSend (fst st)"
  unfolding handleReadRespLocal_def Let_def case_prod_unfold addRecvSession_def
  by (simp split: option.split sum.split)

lemma fSend_offer: "fSend (fst (fst (handleOfferAsConsumer env hdr wq cfg st))) = fSend (fst st)"
  unfolding handleOfferAsConsumer_def Let_def case_prod_unfold addRecvSession_def
  by (simp split: option.split sum.split)

lemma fSend_pull: "map_of (fSend (fst st)) sid \<noteq> None \<Longrightarrow> map_of (fSend (fst (fst (handlePullAsProvider env hdr rq cfg st)))) sid \<noteq> None"
  unfolding handlePullAsProvider_def Let_def case_prod_unfold addSendSession_def
  by (simp add: update_conv' split: option.split sum.split) blast

lemma fSend_writeResp: "map_of (fSend (fst st)) sid \<noteq> None \<Longrightarrow> map_of (fSend (fst (fst (handleWriteRespLocal env hdr ok w st)))) sid \<noteq> None"
  unfolding handleWriteRespLocal_def Let_def case_prod_unfold addSendSession_def
  by (simp add: update_conv' split: option.split sum.split)

lemma fSend_route:
  assumes "map_of (fSend (fst st)) sid \<noteq> None"
    and "\<And>cfg. map_of (fSend (fst (fst (doit cfg st)))) sid \<noteq> None"
  shows "map_of (fSend (fst (fst (routeCtrlRequest env c hdr p q perm t fail doit st)))) sid \<noteq> None"
  using assms by (simp add: routeCtrlRequest_def split: option.split)

lemma fSend_ctrl:
  assumes "map_of (fSend (fst st)) sid \<noteq> None"
  shows "map_of (fSend (fst (fst (handleCtrl env c hdr p msg st)))) sid \<noteq> None"
proof -
  have rd: "map_of (fSend (fst (fst (handleReadRequest env c hdr p rq st)))) sid \<noteq> None" for rq
    unfolding handleReadRequest_def Let_def using assms fSend_route[OF assms] fSend_pull[OF assms]
    by (simp split: option.split)
  have wr: "map_of (fSend (fst (fst (handleWriteRequest env c hdr p wq st)))) sid \<noteq> None" for wq
    unfolding handleWriteRequest_def Let_def using assms fSend_route[OF assms] fSend_offer[of env hdr wq _ st]
    by simp
  show ?thesis
    using rd wr assms fSend_readResp[of env hdr _ _ st] fSend_writeResp[OF assms]
    unfolding handleCtrl_def by (simp split: option.split ctrlMsg.split)
qed

lemma fSend_janitor: "fSend (fst (maybeJanitor env st)) = fSend (fst st)"
  by (simp add: maybeJanitor_def cleanupExpiredParts_def cleanupExpiredSessions_def Let_def case_prod_unfold)

lemma fSend_data: "fSend (fst (fst (handleData env hdr p st))) = fSend (fst st)"
proof (cases rule: handleData_cases[of env hdr p "fst st" "snd st"])
  case (2 bh body s e cpl wrote s1 fs1)
  then show ?thesis
    by (simp add: addRecvSession_def finishRecvSession_def removeRecvSession_def Let_def split: option.split)
qed simp

lemma fSend_onReceive:
  assumes "map_of (fSend (fst st)) sid \<noteq> None"
  shows "map_of (fSend (fst (fst (fileOnReceive env c oh p msg st)))) sid \<noteq> None"
proof -
  have ack: "map_of (fSend (fst (handleAck env hdr p st))) sid \<noteq> None" for hdr
    using assms by (simp add: handleAck_def addSendSession_def update_conv' Let_def case_prod_unfold split: option.split)
  show ?thesis
    using assms ack fSend_ctrl[OF assms] fSend_data[of env _ p st] fSend_janitor
    unfolding fileOnReceive_def by (simp add: case_prod_unfold Let_def split: option.split)
qed

text \<open>
  A sending session whose file cannot be sent is never given back. A \<open>write_resp\<close> that accepts an offer for a name under which this node has no file
  opens a session; the sending loop gives up without closing it; and no frame that is handled later, in whatever configuration and at whatever time,
  removes it, the janitor included. Since the number of sessions is limited, a peer can use up all of them.
\<close>
theorem file_send_session_leak:
  assumes "feServer env = Some srv" and "hTargetID hdr = sNodeID srv" and "2 \<le> length payload"
    and "wrCode resp = 1" "wrAccept resp" "wrProvider resp = 0" "wrSize resp \<noteq> 0" "trimSpace (wrName resp) \<noteq> []"
      "parseUUID (wrSessionID resp) = Some sid" "totalSessions h < MaxConcurrent (feConf env)" "map_of (fSend h) sid = None"
    and "resolvePaths (feCwd env) (BaseDir (feConf env)) (trimSpace (wrDir resp)) (trimSpace (wrName resp)) = Inr (path, part)"
    and "fsContent path fs = None"
  shows "let st1 = fst (handleCtrl env c hdr payload (CtrlWriteResp True resp) (h, fs));
             st2 = fst (sendFileData env sid st1);
             st3 = fold (\<lambda>(env', c', oh, p, msg) st. fst (fileOnReceive env' c' oh p msg st)) later st2
         in totalSessions (fst st2) = totalSessions h + 1 \<and> map_of (fSend (fst st3)) sid \<noteq> None"
proof -
  obtain s where st1: "fst (handleCtrl env c hdr payload (CtrlWriteResp True resp) (h, fs)) = (addSendSession sid s h, fs)"
    and p: "ssPath s = path"
    using assms by (auto simp: handleCtrl_def handleWriteRespLocal_def Let_def)
  have m: "map_of (fSend (addSendSession sid s h)) sid = Some s" by (simp add: addSendSession_def update_conv')
  have st2: "fst (sendFileData env sid (addSendSession sid s h, fs)) = (addSendSession sid s h, fs)"
    using m p assms(13) by (simp add: sendFileData_def Let_def)
  have keep: "map_of (fSend (fst (fold (\<lambda>(env', c', oh, p, msg) st. fst (fileOnReceive env' c' oh p msg st)) later st))) sid \<noteq> None"
    if "map_of (fSend (fst st)) sid \<noteq> None" for st
    using that
  proof (induction later arbitrary: st)
    case (Cons x later)
    then show ?case using fSend_onReceive[OF Cons.prems] by (cases x) simp
  qed simp
  have "totalSessions (addSendSession sid s h) = totalSessions h + 1"
    using assms(11) by (simp add: totalSessions_def addSendSession_def gput_new)
  then show ?thesis using keep[of "(addSendSession sid s h, fs)"] m by (simp add: st1 st2 Let_def)
qed

text \<open>
  An empty file never arrives. A session for a file of size 0, which a pull of an empty file opens, does not end whatever data frames are handled:
  no frame writes anything, so that the end of the file is not noticed, and the final name is not created.
\<close>
theorem file_empty_never_arrives:
  assumes "fRecv h = [(sid, s0)]" and "rsSize s0 = 0" and "rsPending s0 = []" and "rsExpected s0 = 0"
    and "\<forall>f\<in>set frames. length (snd f) < 2 ^ 64"
  shows "let (h', fs') = handleFrames env frames (h, fs) in
    (\<exists>s. fRecv h' = [(sid, s)] \<and> rsFinal s = rsFinal s0) \<and> fs' = fs"
proof -
  let ?I = "\<lambda>st. (\<exists>s. fRecv (fst st) = [(sid, s)] \<and> rsFinal s = rsFinal s0 \<and> rsSize s = 0 \<and> rsPending s = [] \<and> rsExpected s = 0) \<and> snd st = fs"
  have step: "?I (fst (handleData env hdr p st))" if I: "?I st" and len: "length p < 2 ^ 64" for hdr p st
  proof (cases rule: handleData_cases[of env hdr p "fst st" "snd st"])
    case 1
    then show ?thesis using I by (cases st) auto
  next
    case (2 bh body s e cpl wrote s1 fs1)
    from I 2(3) have s: "SessionID bh = sid" "fRecv (fst st) = [(sid, s)]" "rsFinal s = rsFinal s0" "rsSize s = 0" "rsPending s = []" "rsExpected s = 0"
      by (auto split: if_splits)
    have "length body < 2 ^ 64" using 2(1) len by (auto simp: decodeBinHeaderV1_def Let_def split: if_splits)
    moreover have "unat (Offset bh) = 0" using 2(7) s(4) by simp
    ultimately have "body = []" using 2(6) s(4) by (simp add: add64_def)
    with 2(8) s have "s1 = s \<and> fs1 = snd st \<and> \<not> wrote \<or>
        s1 = s\<lparr>rsLastActive := feNow env, rsFinSeen := rsFinSeen s \<or> Flags bh AND binFlagFIN \<noteq> 0\<rparr> \<and> fs1 = snd st \<and> \<not> wrote"
      using \<open>unat (Offset bh) = 0\<close>
      by (auto simp: applyRecvChunk_def Let_def flushPending.simps[of _ "s\<lparr>rsLastActive := _, rsFinSeen := _\<rparr>"] split: if_splits)
    then show ?thesis using 2(9) s I by (auto simp: addRecvSession_def)
  qed
  have "?I (handleFrames env frames st)" if "?I st" for st
    using assms(5) that
  proof (induction frames arbitrary: st)
    case (Cons f frames)
    then show ?case using step[of st "snd f" "fst f"] by (cases f) (simp add: handleFrames_def)
  qed (simp add: handleFrames_def)
  from this[of "(h, fs)"] show ?thesis using assms(1-4) by (auto simp: case_prod_unfold)
qed

subsection \<open>Witnesses\<close>

definition demoOsModel :: osModel where
  "demoOsModel = \<lparr>omMkdirAllErr = \<lambda>_. False, omIsDir = \<lambda>_. False, omOpenErr = \<lambda>_. False, omTruncErr = \<lambda>_. False,
     omSeekErr = \<lambda>_. False, omRenameErr = \<lambda>_. False, omWrite = \<lambda>_ _. None, omRead = \<lambda>_. 2, omReadErr = \<lambda>_. False,
     omSha256 = \<lambda>_. []\<rparr>"

definition demoPeer :: conn where
  "demoPeer = \<lparr>cID = ''c1'', cRole = None, cNode = None\<rparr>"

definition demoFileSrv :: "nodeID \<Rightarrow> server" where
  "demoFileSrv node = \<lparr>sNodeID = node, sConns = [demoPeer], sGet = \<lambda>_. Some demoPeer, sByNode = \<lambda>_. Some demoPeer, sSendErr = \<lambda>_. False,
     sHasEventBus = False, sRoleParent = ''parent''\<rparr>"

definition demoFileEnv :: "nodeID \<Rightarrow> fileEnv" where
  "demoFileEnv node = \<lparr>feServer = Some (demoFileSrv node), feCfg = None, feExe = None, feCwd = Some ''/srv'', fePerm = None, feNow = 0,
     feOs = demoOsModel, feMk = demoOs, feReadDir = \<lambda>_. None, feWalk = \<lambda>_. [], feHop = Some, feRand = Some (replicate 16 0),
     feKCtrl = 1, feKData = 2, feKAck = 3, feSub = 5, feMajorMsg = MajorOther 1\<rparr>"

lemma demoFileEnv_simps [simp]:
  "feServer (demoFileEnv k) = Some (demoFileSrv k)" "feCfg (demoFileEnv k) = None" "feExe (demoFileEnv k) = None"
  "feCwd (demoFileEnv k) = Some ''/srv''" "fePerm (demoFileEnv k) = None" "feOs (demoFileEnv k) = demoOsModel"
  "feKData (demoFileEnv k) = 2" "feKAck (demoFileEnv k) = 3" "feRand (demoFileEnv k) = Some (replicate 16 0)"
  "sNodeID (demoFileSrv k) = k" "sByNode (demoFileSrv k) = (\<lambda>_. Some demoPeer)" "isParentConn (demoFileSrv k) demoPeer = False"
  by (simp_all add: demoFileEnv_def demoFileSrv_def isParentConn_def demoPeer_def)

lemma demoOsModel_simps [simp]:
  "omMkdirAllErr demoOsModel p = False" "omIsDir demoOsModel p = False" "omOpenErr demoOsModel p = False" "omTruncErr demoOsModel p = False"
  "omSeekErr demoOsModel p = False" "omRenameErr demoOsModel p = False" "omWrite demoOsModel i n = None" "omReadErr demoOsModel n = False"
  "omRead demoOsModel n = 2"
  by (simp_all add: demoOsModel_def)

lemma demo_base: "resolveRuntimeBaseDir None ''./file'' = ''file''"
  by code_simp

lemma demo_conf [simp]:
  "loadConfig None None = \<lparr>BaseDir = ''file'', MaxSizeBytes = 0, MaxConcurrent = 4, ChunkBytes = 262144, IncompleteTTLSec = 3600\<rparr>"
  by (simp add: loadConfig_def readString_def readInt_def readUint64_def demo_base)

lemma demo_paths [simp]:
  "resolvePaths (Some ''/srv'') ''file'' [] ''x'' = Inr (''/srv/file/x'', ''/srv/file/x.part'')"
  by code_simp

lemma demo_trim [simp]: "trimSpace [] = []" "trimSpace ''x'' = ''x''"
  by code_simp+

definition demoSid :: "byte list" where "demoSid = newUUID (replicate 16 0)"

lemma demoSid_length [simp]: "length demoSid = 16" by (simp add: demoSid_def)

definition demoFiles :: fsys where
  "demoFiles = \<lparr>fsInode = [(''/srv/file/x'', 0)], fsData = [(0, [10, 20, 30])], fsNext = 1\<rparr>"

definition demoNoFiles :: fsys where "demoNoFiles = \<lparr>fsInode = [], fsData = [], fsNext = 0\<rparr>"

definition demoPull :: readReq where
  "demoPull = \<lparr>rqOp = ''pull'', rqTarget = 1, rqDir = [], rqName = ''x'', rqResumeFrom = 0, rqMaxBytes = 0\<rparr>"

definition demoPullResp :: readResp where
  "demoPullResp = zeroRead\<lparr>rrCode := 1, rrMsg := ''ok'', rrOp := ''pull'', rrSessionID := uuidToString demoSid, rrProvider := 1,
     rrConsumer := 2, rrName := ''x'', rrSize := 3, rrChunk := 262144\<rparr>"

definition demoRespHdr :: header where
  "demoRespHdr = zeroHeader\<lparr>hMajor := MajorOKResp, hSubProto := 5, hSourceID := 1, hTargetID := 2\<rparr>"

lemma demo_pull:
  "handlePullAsProvider (demoFileEnv 1) (zeroHeader\<lparr>hSourceID := 2\<rparr>) demoPull (feConf (demoFileEnv 1)) (newFileHandler, demoFiles) =
     ((addSendSession demoSid \<lparr>ssProvider = 1, ssConsumer = 2, ssDir = [], ssName = ''x'', ssPath = ''/srv/file/x'', ssSize = 3, ssSha = [],
         ssStartFrom = 0, ssAcked = 0, ssLastActive = 0\<rparr> newFileHandler, demoFiles),
      [FSend ''c1'' demoRespHdr (FpRead demoPullResp), FSpawn demoSid])"
  by (simp add: handlePullAsProvider_def demoPull_def demoPullResp_def demoSid_def demoFiles_def fsContent_def gget_def newFileHandler_def
      totalSessions_def sendReadResp_def sendCtrlToNode_def fileNextHop_def pull_op zeroRead_def zeroHeader_def Let_def demoPeer_def
      demoFileEnv_def demoFileSrv_def demoOsModel_def demoRespHdr_def numeral_3_eq_3)


text \<open>A session that has received nothing, with its part file.\<close>

definition demoRecv :: recvSession where
  "demoRecv = newRecvSession (demoFileEnv 2) 1 2 [] ''x'' ''/srv/file/x'' ''/srv/file/x.part'' 3 [] True 0 0"

definition demoPartFiles :: fsys where
  "demoPartFiles = \<lparr>fsInode = [(''/srv/file/x.part'', 0)], fsData = [(0, [])], fsNext = 1\<rparr>"

definition demoDataHdr :: header where "demoDataHdr = zeroHeader\<lparr>hSourceID := 1, hTargetID := 2\<rparr>"

lemma demoRecv_inv: "recvInv [10, 20, 30] 0 demoRecv demoPartFiles"
  using newRecv_inv[of demoPartFiles 0 "[10, 20, 30]" "demoFileEnv 2" 1 2 "[]" "''x''" "''/srv/file/x''" "''/srv/file/x.part''" "[]" True]
  by (simp add: demoRecv_def demoPartFiles_def gget_def numeral_3_eq_3)

lemma demoPart_inode [simp]: "map_of (fsInode demoPartFiles) p = (if p = ''/srv/file/x.part'' then Some 0 else None)"
  by (simp add: demoPartFiles_def)

lemma demoRecv_simps [simp]:
  "rsProvider demoRecv = 1" "rsConsumer demoRecv = 2" "rsFinal demoRecv = ''/srv/file/x''" "rsPart demoRecv = ''/srv/file/x.part''"
  "rsExpected demoRecv = 0" "rsPending demoRecv = []" "rsSha demoRecv = []" "rsMaxPending demoRecv = 2097152"
  by (simp_all add: demoRecv_def newRecvSession_def)

lemma demo_chunks: "readChunks demoOsModel 8 [10, 20, 30] 0 = [(0, False, [10, 20]), (2, True, [30])]"
proof -
  have "readChunks demoOsModel 8 [10, 20, 30] 2 = [(2, True, [30])]"
    by (subst readChunks.simps) (simp add: readLen_def numeral_2_eq_2)
  then show ?thesis by (subst readChunks.simps) (simp add: readLen_def numeral_2_eq_2)
qed


definition demoFrames :: "(header \<times> byte list) list" where
  "demoFrames = [(demoDataHdr, dataFrame (demoFileEnv 2) demoSid (2, True, [30])),
     (demoDataHdr\<lparr>hSourceID := 7\<rparr>, dataFrame (demoFileEnv 2) demoSid (0, False, [99]))]"

lemma demo_unat2 [simp]: "unat (word_of_nat 2 :: 64 word) = 2"
  by simp


theorem file_request_authorized_witness:
  "\<exists>outs. handleCtrl (demoFileEnv 2) demoPeer demoDataHdr [1, 0] (CtrlRead True demoPull) (newFileHandler, demoFiles) =
      ((newFileHandler, demoFiles), outs) \<and> (\<forall>o'\<in>set outs. harmless (demoFileSrv 2) 1 [1, 0] o')"
  using file_request_authorized[of "demoFileEnv 2" "demoFileSrv 2" demoPeer "CtrlRead True demoPull" permRead demoDataHdr "[1, 0]"
      "(newFileHandler, demoFiles)"]
  by (simp add: fileHasPermission_def demoDataHdr_def)

theorem file_unsolicited_write_witness:
  "\<exists>h' fs'. deliverFrames (demoFileEnv 2) (zeroHeader\<lparr>hSourceID := 1, hTargetID := 2\<rparr>) demoSid (readChunks demoOsModel 8 [10, 20, 30] 0)
      (fst (handleCtrl (demoFileEnv 2) demoPeer demoDataHdr [1, 0] (CtrlReadResp True demoPullResp) (newFileHandler, demoNoFiles))) = (h', fs') \<and>
    fsContent ''/srv/file/x'' fs' = Some [10, 20, 30]"
  using file_unsolicited_write[of "demoFileEnv 2" "demoFileSrv 2" demoDataHdr "[1, 0]" demoPullResp demoSid "[10, 20, 30]" newFileHandler
      "''/srv/file/x''" "''/srv/file/x.part''" demoOsModel 8 demoPeer demoNoFiles]
  by (simp add: demoDataHdr_def zeroHeader_def demoPullResp_def zeroRead_def parse_uuid newFileHandler_def totalSessions_def)

definition demoAccept :: writeResp where
  "demoAccept = zeroWrite\<lparr>wrCode := 1, wrAccept := True, wrSize := 3, wrName := ''x'', wrSessionID := uuidToString demoSid\<rparr>"

theorem file_send_session_leak_witness:
  "let st1 = fst (handleCtrl (demoFileEnv 2) demoPeer demoDataHdr [1, 0] (CtrlWriteResp True demoAccept) (newFileHandler, demoNoFiles));
       st2 = fst (sendFileData (demoFileEnv 2) demoSid st1);
       st3 = fst (fileOnReceive ((demoFileEnv 2)\<lparr>feNow := 10 ^ 18\<rparr>) demoPeer (Some demoDataHdr) [1, 0] CtrlOther st2)
   in totalSessions (fst st2) = 1 \<and> map_of (fSend (fst st3)) demoSid \<noteq> None"
  using file_send_session_leak[of "demoFileEnv 2" "demoFileSrv 2" demoDataHdr "[1, 0]" demoAccept demoSid newFileHandler
      "''/srv/file/x''" "''/srv/file/x.part''" demoNoFiles demoPeer
      "[((demoFileEnv 2)\<lparr>feNow := 10 ^ 18\<rparr>, demoPeer, Some demoDataHdr, [1, 0], CtrlOther)]"]
  by (simp add: demoDataHdr_def zeroHeader_def demoAccept_def zeroWrite_def parse_uuid newFileHandler_def totalSessions_def demoNoFiles_def
      fsContent_def Let_def)

theorem file_empty_never_arrives_witness:
  "let (h', fs') = handleFrames (demoFileEnv 2) demoFrames (newFileHandler\<lparr>fRecv := [(demoSid, demoRecv\<lparr>rsSize := 0\<rparr>)]\<rparr>, demoPartFiles) in
    (\<exists>s. fRecv h' = [(demoSid, s)] \<and> rsFinal s = ''/srv/file/x'') \<and> fs' = demoPartFiles"
  using file_empty_never_arrives[of "newFileHandler\<lparr>fRecv := [(demoSid, demoRecv\<lparr>rsSize := 0\<rparr>)]\<rparr>" demoSid "demoRecv\<lparr>rsSize := 0\<rparr>"
      demoFrames "demoFileEnv 2" demoPartFiles]
  by (simp add: demoFrames_def dataFrame_def encodeBinHeaderV1_def putUint64_def)

end
