(* ===== verification/Forward.thy ===== *)
theory Forward
  imports Node_Env File_Paths
begin

text \<open>
  \<open>forward/forward.go\<close>: the handler for sub-protocols without a handler of their own. It drops a
  frame, sends it to a configured node, or passes it to the parent. The configuration keys,
  \<open>core.ParseBool\<close> and the header clones of \<open>kit\<close> belong to the framework and are
  parameters (\<open>fwdEnv\<close>).
\<close>

record fwdEnv =
  fParseBool :: "string \<Rightarrow> bool \<Rightarrow> bool"
  fKeyEnable :: string
  fKeyTarget :: string
  fKeyMap :: string
  fCloneWithTarget :: "header \<Rightarrow> nodeID \<Rightarrow> header option"
  fCloneRequest :: "header \<Rightarrow> header option"

record fwdHandler =
  fwForward :: bool
  subTargets :: "(8 word, nodeID) gomap"
  fallbackParent :: bool

definition parseUint32 :: "string \<Rightarrow> nodeID option" where
  "parseUint32 v = map_option word_of_nat (parseUint 32 (trimSpace v))"

text \<open>One pair of the table \<open>subproto=nodeID;...\<close>; pairs that do not parse are skipped.\<close>

definition loadPair :: "(8 word, nodeID) gomap \<Rightarrow> string \<Rightarrow> (8 word, nodeID) gomap" where
  "loadPair m p0 =
     (let p = trimSpace p0 in
      if p = [] then m
      else case splitN2 CHR ''='' p of
             [k, v] \<Rightarrow>
               (case (parseUint 8 (trimSpace k), parseUint32 v) of
                  (Some subID, Some nodeID) \<Rightarrow> gput (word_of_nat subID) nodeID m
                | _ \<Rightarrow> m)
           | _ \<Rightarrow> m)"

definition loadMap :: "string \<Rightarrow> fwdHandler \<Rightarrow> fwdHandler" where
  "loadMap raw h = h\<lparr>subTargets := foldl loadPair (subTargets h) (splitOn CHR '';'' raw)\<rparr>"

definition newDefaultForwardHandler :: "fwdEnv \<Rightarrow> config option \<Rightarrow> fwdHandler" where
  "newDefaultForwardHandler env cfg =
     (let h0 = \<lparr>fwForward = False, subTargets = [], fallbackParent = True\<rparr> in
      case cfg of
        None \<Rightarrow> h0
      | Some get \<Rightarrow>
          let h1 = (case get (fKeyEnable env) of
                      None \<Rightarrow> h0
                    | Some raw \<Rightarrow> if trimSpace raw \<noteq> []
                        then h0\<lparr>fwForward := fParseBool env raw False, fallbackParent := False\<rparr> else h0);
              h2 = (case get (fKeyTarget env) of
                      None \<Rightarrow> h1
                    | Some raw \<Rightarrow> (case parseUint32 raw of
                        Some i \<Rightarrow> h1\<lparr>subTargets := gput 0 i (subTargets h1)\<rparr> | None \<Rightarrow> h1))
          in case get (fKeyMap env) of None \<Rightarrow> h2 | Some raw \<Rightarrow> loadMap raw h2)"

definition resolveTarget :: "fwdHandler \<Rightarrow> 8 word \<Rightarrow> nodeID" where
  "resolveTarget h sub =
     (case map_of (subTargets h) sub of Some t \<Rightarrow> t | None \<Rightarrow> gget 0 (subTargets h) 0)"

text \<open>A frame handed to \<open>Server.Send\<close>: connection and header (the payload is passed on as it is).\<close>

datatype fwdSend = FwdSend string header

definition forwardToNode :: "server \<Rightarrow> header \<Rightarrow> fwdSend list" where
  "forwardToNode srv hdr =
     (case sByNode srv (hTargetID hdr) of
        Some c \<Rightarrow> [FwdSend (cID c) hdr]
      | None \<Rightarrow>
          (case find (\<lambda>c. cNode c = Some (MUint32 (hTargetID hdr))) (sConns srv) of
             Some c \<Rightarrow> [FwdSend (cID c) hdr]
           | None \<Rightarrow> []))"

definition forwardToParent :: "fwdEnv \<Rightarrow> server \<Rightarrow> header \<Rightarrow> fwdSend list" where
  "forwardToParent env srv hdr =
     (case findParent (Some srv) of
        None \<Rightarrow> []
      | Some parent \<Rightarrow>
          (case fCloneRequest env hdr of
             None \<Rightarrow> []
           | Some clone \<Rightarrow> [FwdSend (cID parent) (clone\<lparr>hSourceID := sNodeID srv\<rparr>)]))"

definition fwdOnReceive :: "fwdEnv \<Rightarrow> fwdHandler \<Rightarrow> server option \<Rightarrow> header option \<Rightarrow> fwdSend list" where
  "fwdOnReceive env h osrv oh =
     (case oh of
        None \<Rightarrow> []
      | Some hdr \<Rightarrow>
          (case osrv of
             None \<Rightarrow> []
           | Some srv \<Rightarrow>
               let targetNode = resolveTarget h (hSubProto hdr) in
               if fwForward h \<and> targetNode \<noteq> 0 then
                 (case fCloneWithTarget env hdr targetNode of
                    None \<Rightarrow> []
                  | Some th \<Rightarrow> forwardToNode srv (th\<lparr>hSourceID := sNodeID srv\<rparr>))
               else if fwForward h \<and> targetNode = 0 then []
               else if fallbackParent h then forwardToParent env srv hdr
               else []))"

subsection \<open>The table\<close>

lemma find_SomeD: "find P xs = Some x \<Longrightarrow> x \<in> set xs \<and> P x"
  by (induction xs) (auto split: if_splits)

text \<open>The text of one pair and of a whole table.\<close>

definition showPair :: "8 word \<times> nodeID \<Rightarrow> string" where
  "showPair kv = formatUint (fst kv) @ CHR ''='' # formatUint (snd kv)"

definition showTable :: "(8 word \<times> nodeID) list \<Rightarrow> string" where
  "showTable t = joinWith CHR '';'' (map showPair t)"

lemma formatUint_chars: "c \<in> set (formatUint w) \<Longrightarrow> 48 \<le> (of_char c :: nat) \<and> (of_char c :: nat) \<le> 57"
  using formatNat_digits by (auto simp: formatUint_def isDigit_def)

lemma trimSpace_formatUint [simp]: "trimSpace (formatUint w) = formatUint w"
  by (rule trimSpace_graphic) (auto dest!: formatUint_chars)

lemma showPair_chars: "c \<in> set (showPair kv) \<Longrightarrow> 48 \<le> (of_char c :: nat) \<and> (of_char c :: nat) \<le> 57 \<or> c = CHR ''=''"
  by (auto simp: showPair_def dest!: formatUint_chars)

lemma trimSpace_showPair [simp]: "trimSpace (showPair kv) = showPair kv"
  by (rule trimSpace_graphic) (auto dest!: showPair_chars)

lemma showPair_free: "CHR '';'' \<notin> set (showPair kv)"
  using showPair_chars by fastforce

lemma loadPair_showPair: "loadPair m (showPair (k, v)) = gput k v m"
proof -
  have k: "CHR ''='' \<notin> set (formatUint k)" using formatUint_chars by fastforce
  have p8: "parseUint 8 (formatUint k) = Some (unat k)" using parseUint_formatUint[of k] by simp
  have p32: "parseUint 32 (formatUint v) = Some (unat v)" using parseUint_formatUint[of v] by simp
  have "showPair (k, v) \<noteq> []" by (simp add: showPair_def)
  then show ?thesis
    unfolding loadPair_def
    by (simp add: showPair_def splitN2_cons[OF k] parseUint32_def p8 p32 trimSpace_showPair[of "(k, v)", unfolded showPair_def, simplified])
qed

lemma loadMap_showTable:
  assumes "t \<noteq> []"
  shows "subTargets (loadMap (showTable t) h) = foldl (\<lambda>m (k, v). gput k v m) (subTargets h) t"
proof -
  have "splitOn CHR '';'' (showTable t) = map showPair t"
    unfolding showTable_def by (rule splitOn_join) (auto simp: assms showPair_free)
  moreover have "foldl loadPair m (map showPair t) = foldl (\<lambda>m (k, v). gput k v m) m t" for m
    by (induction t arbitrary: m) (auto simp: loadPair_showPair)
  ultimately show ?thesis by (simp add: loadMap_def)
qed

lemma foldl_gput:
  "distinct (map fst t) \<Longrightarrow>
     map_of (foldl (\<lambda>m (k, v). gput k v m) m t) x = (case map_of t x of Some v \<Rightarrow> Some v | None \<Rightarrow> map_of m x)"
proof (induction t arbitrary: m)
  case (Cons kv t)
  obtain k v where kv: "kv = (k, v)" by fastforce
  have "k \<notin> fst ` set t" using Cons.prems kv by auto
  then have "map_of t k = None" by (simp add: map_of_eq_None_iff)
  with Cons kv show ?case by (auto simp: update_conv' split: option.split)
qed simp

subsection \<open>Properties\<close>

text \<open>
  A routing table written as \<open>sub=node;sub=node\<close> is read back exactly: a listed sub-protocol
  resolves to its node and every other one to the default target.
\<close>
theorem forward_table_roundtrip:
  assumes "t \<noteq> []" and "distinct (map fst t)"
  shows "resolveTarget (loadMap (showTable t) h) sub =
    (case map_of t sub of Some n \<Rightarrow> n
     | None \<Rightarrow> (case map_of (subTargets h) sub of Some n \<Rightarrow> n
        | None \<Rightarrow> (case map_of t 0 of Some n \<Rightarrow> n | None \<Rightarrow> gget 0 (subTargets h) 0)))"
  by (simp add: resolveTarget_def loadMap_showTable[OF assms(1)] foldl_gput[OF assms(2)] gget_def split: option.split)

theorem forward_table_roundtrip_witness:
  "resolveTarget (loadMap (showTable [(7, 42), (0, 9)]) \<lparr>fwForward = True, subTargets = [], fallbackParent = False\<rparr>) 7 = 42 \<and>
   resolveTarget (loadMap (showTable [(7, 42), (0, 9)]) \<lparr>fwForward = True, subTargets = [], fallbackParent = False\<rparr>) 8 = 9"
  using forward_table_roundtrip[of "[(7, 42), (0, 9)]" "\<lparr>fwForward = True, subTargets = [], fallbackParent = False\<rparr>"]
  by simp


definition demoFwdEnv :: fwdEnv where
  "demoFwdEnv = \<lparr>fParseBool = (\<lambda>s d. s = ''true''), fKeyEnable = ''e'', fKeyTarget = ''t'', fKeyMap = ''m'',
     fCloneWithTarget = (\<lambda>x t. Some (x\<lparr>hTargetID := t\<rparr>)), fCloneRequest = Some\<rparr>"

definition demoFwdSrv :: server where
  "demoFwdSrv = \<lparr>sNodeID = 2, sConns = [\<lparr>cID = ''k'', cRole = None, cNode = Some (MUint32 42)\<rparr>],
     sGet = (\<lambda>_. None), sByNode = (\<lambda>_. None), sSendErr = (\<lambda>_. False), sHasEventBus = False, sRoleParent = ''parent''\<rparr>"

definition demoFwdConfig :: config where
  "demoFwdConfig k =
     (if k = ''e'' then Some ''true'' else if k = ''m'' then Some (showTable [(7, 42)]) else None)"

definition demoFwdHandler :: fwdHandler where
  "demoFwdHandler = newDefaultForwardHandler demoFwdEnv (Some demoFwdConfig)"

lemma demoFwdHandler_eq: "demoFwdHandler = \<lparr>fwForward = True, subTargets = [(7, 42)], fallbackParent = False\<rparr>"
proof -
  have "trimSpace ''true'' \<noteq> []" by code_simp
  then show ?thesis
    using loadMap_showTable[of "[(7, 42)]"]
    by (simp add: demoFwdHandler_def newDefaultForwardHandler_def demoFwdEnv_def demoFwdConfig_def loadMap_def Let_def)
qed


end
