(* ===== verification/Var_State.thy ===== *)
theory Var_State
  imports Node_Env
begin

text \<open>
  The state of \<open>varstore\<close> and its critical sections (\<open>varstore/varstore.go\<close>, \<open>types.go\<close>, \<open>persistence.go\<close>,
  \<open>helpers.go\<close>): variable records keyed by \<open>owner:name\<close> with a cache of the owners of a
  name, subscriptions with their index by connection, the tables of requests that wait for an answer from the parent,
  and the persistence behind the records.

  The persistence is an interface of the code: a record of three operations over a state of
  its own type, with the contract stated by the locale \<open>var_persistence\<close>; \<open>memoryPersistence\<close>, the
  implementation the repository has, is an interpretation. The values of
  \<open>protocol.VisibilityPublic\<close> and \<open>VisibilityPrivate\<close> are those of the schema in \<open>varstore.go\<close>.
\<close>

definition visibilityPublic :: string where
  "visibilityPublic = ''public''"

definition visibilityPrivate :: string where
  "visibilityPrivate = ''private''"

record varRecord =
  rValue :: string
  rOwner :: nodeID
  rIsPublic :: bool
  rVisibility :: string
  rType :: string

definition zeroRecord :: varRecord where
  "zeroRecord = \<lparr>rValue = [], rOwner = 0, rIsPublic = False, rVisibility = [], rType = []\<rparr>"

text \<open>\<open>protocol.SetReq\<close>, which is also the persisted document.\<close>

record varDoc =
  dName :: string
  dValue :: string
  dVisibility :: string
  dType :: string
  dOwner :: nodeID

datatype pendingKind = PkGet | PkList | PkSet | PkRevoke | PkSubscribe

type_synonym pendingKey = "nodeID \<times> string \<times> pendingKind"

record pendingWaiter =
  wConn :: string
  wRequester :: nodeID
  wMsgID :: "32 word"
  wTraceID :: "32 word"

record pendingWrite =
  createdAt :: int
  writeWaiters :: "pendingWaiter list"

record 'p persistenceOps =
  pLoadAll :: "'p \<Rightarrow> varDoc list option"
  pSave :: "varDoc \<Rightarrow> 'p \<Rightarrow> bool \<times> 'p"
  pDelete :: "nodeID \<Rightarrow> string \<Rightarrow> 'p \<Rightarrow> bool \<times> 'p"

record 'p varState =
  vrecords :: "(string, varRecord) gomap"
  vpending :: "(pendingKey, pendingWaiter list) gomap"
  vwriting :: "(32 word, pendingWrite) gomap"
  vcache :: "(string, nodeID list) gomap"
  sweepAt :: int
  subscriptions :: "(string, (nodeID, string list) gomap) gomap"
  vconnSubs :: "(string, string list) gomap"
  upstreamSubs :: "(string, bool) gomap"
  pendingSubs :: "(pendingKey, pendingWaiter list) gomap"
  writeMsgSeq :: "32 word"
  vstore :: 'p

subsection \<open>Helpers\<close>

definition firstNonZero :: "nodeID \<Rightarrow> nodeID \<Rightarrow> nodeID" where
  "firstNonZero a b = (if a \<noteq> 0 then a else b)"

definition validVarName :: "string \<Rightarrow> bool" where
  "validVarName name =
     (name \<noteq> [] \<and> list_all (\<lambda>ch. isLower ch \<or> isUpper ch \<or> isDigit ch \<or> ch = CHR ''_'') name)"

definition varKey :: "nodeID \<Rightarrow> string \<Rightarrow> string" where
  "varKey owner name = formatUint owner @ '':'' @ name"

definition varStorageKey :: "nodeID \<Rightarrow> string \<Rightarrow> string" where
  "varStorageKey owner name = varKey owner (trimSpace name)"

definition splitKey :: "string \<Rightarrow> nodeID \<times> string" where
  "splitKey key =
     (case splitN2 CHR '':'' key of
        [a, b] \<Rightarrow> (case parseUint 32 a of None \<Rightarrow> (0, []) | Some owner \<Rightarrow> (word_of_nat owner, b))
      | _ \<Rightarrow> (0, []))"

text \<open>\<open>nextWriteMsgID\<close>: the process-wide counter wraps around and skips 0.\<close>

definition nextWriteMsgID :: "'p varState \<Rightarrow> 32 word \<times> 'p varState" where
  "nextWriteMsgID h =
     (let v = writeMsgSeq h + 1; v' = (if v = 0 then v + 1 else v) in (v', h\<lparr>writeMsgSeq := v'\<rparr>))"

subsection \<open>Memory persistence\<close>

type_synonym memStore = "(string, varDoc) gomap"

definition docLess :: "varDoc \<Rightarrow> varDoc \<Rightarrow> bool" where
  "docLess a b = (if dOwner a \<noteq> dOwner b then dOwner a < dOwner b else dName a < dName b)"

text \<open>\<open>sort.Slice\<close> with this order, as an insertion sort.\<close>

fun insertDoc :: "varDoc \<Rightarrow> varDoc list \<Rightarrow> varDoc list" where
  "insertDoc d [] = [d]"
| "insertDoc d (e # es) = (if docLess e d then e # insertDoc d es else d # e # es)"

definition sortDocs :: "varDoc list \<Rightarrow> varDoc list" where
  "sortDocs docs = foldr insertDoc docs []"

definition memLoadAll :: "memStore \<Rightarrow> varDoc list option" where
  "memLoadAll p = Some (sortDocs (map snd p))"

definition memSave :: "varDoc \<Rightarrow> memStore \<Rightarrow> bool \<times> memStore" where
  "memSave doc p =
     (let name = trimSpace (dName doc) in
      if dOwner doc = 0 \<or> name = [] then (True, p)
      else let doc' = doc\<lparr>dName := name\<rparr>
           in (False, gput (varStorageKey (dOwner doc') (dName doc')) doc' p))"

definition memDelete :: "nodeID \<Rightarrow> string \<Rightarrow> memStore \<Rightarrow> bool \<times> memStore" where
  "memDelete owner name0 p =
     (let name = trimSpace name0 in
      if owner = 0 \<or> name = [] then (True, p) else (False, gdel (varStorageKey owner name) p))"

definition memoryPersistence :: "memStore persistenceOps" where
  "memoryPersistence = \<lparr>pLoadAll = memLoadAll, pSave = memSave, pDelete = memDelete\<rparr>"

definition newVarStore :: "32 word \<Rightarrow> 'p \<Rightarrow> 'p varState" where
  "newVarStore seed store =
     \<lparr>vrecords = [], vpending = [], vwriting = [], vcache = [], sweepAt = 0, subscriptions = [],
      vconnSubs = [], upstreamSubs = [], pendingSubs = [], writeMsgSeq = seed, vstore = store\<rparr>"

subsection \<open>Records\<close>

definition lookupOwned :: "nodeID \<Rightarrow> string \<Rightarrow> 'p varState \<Rightarrow> varRecord option" where
  "lookupOwned owner name h =
     (if owner = 0 \<or> name = [] then None else map_of (vrecords h) (varKey owner name))"

definition addOwnerCache :: "string \<Rightarrow> nodeID \<Rightarrow> (string, nodeID list) gomap \<Rightarrow> (string, nodeID list) gomap" where
  "addOwnerCache name owner c =
     (if owner = 0 \<or> name = [] then c else gput name (sadd owner (gget [] c name)) c)"

definition saveRecord :: "string \<Rightarrow> varRecord \<Rightarrow> 'p varState \<Rightarrow> 'p varState" where
  "saveRecord name rec h =
     (if name = [] \<or> rOwner rec = 0 then h
      else h\<lparr>vrecords := gput (varKey (rOwner rec) name) rec (vrecords h),
             vcache := addOwnerCache name (rOwner rec) (vcache h)\<rparr>)"

definition deleteRecord :: "nodeID \<Rightarrow> string \<Rightarrow> 'p varState \<Rightarrow> 'p varState" where
  "deleteRecord owner name h =
     (if owner = 0 \<or> name = [] then h
      else h\<lparr>vrecords := gdel (varKey owner name) (vrecords h),
             vcache :=
               (case map_of (vcache h) name of
                  None \<Rightarrow> vcache h
                | Some owners \<Rightarrow>
                    let owners' = sdel owner owners in
                    if owners' = [] then gdel name (vcache h) else gput name owners' (vcache h))\<rparr>)"

definition listNames :: "nodeID \<Rightarrow> bool \<Rightarrow> 'p varState \<Rightarrow> string list" where
  "listNames owner includePrivate h =
     (if owner = 0 then []
      else List.map_filter (\<lambda>(key, rec).
             if \<not> includePrivate \<and> \<not> rIsPublic rec then None
             else if hasPrefix key (formatUint owner @ '':'') then
               (case splitN2 CHR '':'' key of
                  [_, n] \<Rightarrow> if n \<noteq> [] then Some n else None
                | _ \<Rightarrow> None)
             else None) (vrecords h))"

text \<open>One document of \<open>loadPersistedRecords\<close>; the loop builds a new record map and a new cache.\<close>

definition docRecord :: "varDoc \<Rightarrow> varRecord" where
  "docRecord doc =
     (let vis = trimSpace (dVisibility doc);
          rec = \<lparr>rValue = dValue doc, rOwner = dOwner doc,
                 rIsPublic = equalFold vis visibilityPublic, rVisibility = vis, rType = dType doc\<rparr>
      in if vis = [] then rec\<lparr>rVisibility := visibilityPrivate, rIsPublic := False\<rparr> else rec)"

definition loadDoc ::
  "(string, varRecord) gomap \<times> (string, nodeID list) gomap \<Rightarrow> varDoc \<Rightarrow>
   (string, varRecord) gomap \<times> (string, nodeID list) gomap" where
  "loadDoc st doc =
     (let (recs, cache) = st; name = trimSpace (dName doc) in
      if dOwner doc = 0 \<or> \<not> validVarName name then (recs, cache)
      else (gput (varKey (dOwner doc) name) (docRecord doc) recs,
            gput name (sadd (dOwner doc) (gget [] cache name)) cache))"

definition loadPersistedRecords :: "'p persistenceOps \<Rightarrow> 'p varState \<Rightarrow> bool \<times> 'p varState" where
  "loadPersistedRecords ops h =
     (case pLoadAll ops (vstore h) of
        None \<Rightarrow> (True, h)
      | Some docs \<Rightarrow>
          let (recs, cache) = foldl loadDoc ([], []) docs
          in (False, h\<lparr>vrecords := recs, vcache := cache\<rparr>))"

definition docOf :: "string \<Rightarrow> varRecord \<Rightarrow> varDoc" where
  "docOf name rec =
     (let vis = trimSpace (rVisibility rec) in
      \<lparr>dName = trimSpace name, dValue = rValue rec,
       dVisibility = (if vis = [] then visibilityPrivate else vis), dType = rType rec, dOwner = rOwner rec\<rparr>)"

definition persistRecord :: "'p persistenceOps \<Rightarrow> string \<Rightarrow> varRecord \<Rightarrow> 'p varState \<Rightarrow> bool \<times> 'p varState" where
  "persistRecord ops name rec h =
     (let (err, p) = pSave ops (docOf name rec) (vstore h) in (err, h\<lparr>vstore := p\<rparr>))"

definition persistDelete :: "'p persistenceOps \<Rightarrow> nodeID \<Rightarrow> string \<Rightarrow> 'p varState \<Rightarrow> bool \<times> 'p varState" where
  "persistDelete ops owner name h =
     (let (err, p) = pDelete ops owner (trimSpace name) (vstore h) in (err, h\<lparr>vstore := p\<rparr>))"

subsection \<open>Subscriptions\<close>

definition addSubscription :: "nodeID \<Rightarrow> string \<Rightarrow> nodeID \<Rightarrow> string \<Rightarrow> 'p varState \<Rightarrow> 'p varState" where
  "addSubscription owner name subscriber connID h =
     (if owner = 0 \<or> name = [] \<or> subscriber = 0 \<or> connID = [] then h
      else let key = varKey owner name;
               subs = gget [] (subscriptions h) key;
               conns = gget [] subs subscriber
           in h\<lparr>subscriptions := gput key (gput subscriber (sadd connID conns) subs) (subscriptions h),
                vconnSubs := gput connID (sadd key (gget [] (vconnSubs h) connID)) (vconnSubs h)\<rparr>)"

text \<open>Remove a key from the index entry of a connection, and the entry with its last key.\<close>

definition dropConnKey :: "string \<Rightarrow> string \<Rightarrow> (string, string list) gomap \<Rightarrow> (string, string list) gomap" where
  "dropConnKey key connID m =
     (case map_of m connID of
        None \<Rightarrow> m
      | Some keys \<Rightarrow> let keys' = sdel key keys in if keys' = [] then gdel connID m else gput connID keys' m)"

definition removeSubscriptionByKey :: "string \<Rightarrow> nodeID \<Rightarrow> string \<Rightarrow> 'p varState \<Rightarrow> bool \<times> 'p varState" where
  "removeSubscriptionByKey key subscriber connID h =
     (let cs1 = (if connID \<noteq> [] then dropConnKey key connID (vconnSubs h) else vconnSubs h) in
      case map_of (subscriptions h) key of
        None \<Rightarrow> (False, h\<lparr>vconnSubs := cs1\<rparr>)
      | Some subs \<Rightarrow>
          if subscriber = 0 then
            (True, h\<lparr>vconnSubs := fold (dropConnKey key) (concat (map snd subs)) cs1,
                     subscriptions := gdel key (subscriptions h)\<rparr>)
          else
            let (subs', cs2) =
                  (case map_of subs subscriber of
                     None \<Rightarrow> (subs, cs1)
                   | Some conns \<Rightarrow>
                       let conns' = (if connID \<noteq> [] then sdel connID conns else conns);
                           cs2 = (if connID \<noteq> [] then cs1 else fold (dropConnKey key) conns cs1)
                       in (if conns' = [] then gdel subscriber subs else gput subscriber conns' subs, cs2))
            in if subs' = []
               then (True, h\<lparr>vconnSubs := cs2, subscriptions := gdel key (subscriptions h)\<rparr>)
               else (False, h\<lparr>vconnSubs := cs2, subscriptions := gput key subs' (subscriptions h)\<rparr>))"

definition removeSubscription ::
  "nodeID \<Rightarrow> string \<Rightarrow> nodeID \<Rightarrow> string \<Rightarrow> 'p varState \<Rightarrow> bool \<times> 'p varState" where
  "removeSubscription owner name subscriber connID h =
     (if owner = 0 \<or> name = [] then (False, h)
      else removeSubscriptionByKey (varKey owner name) subscriber connID h)"

text \<open>Drop one connection from the subscribers of a key, then empty nodes, then an empty key.\<close>

definition dropConnFromKey ::
  "string \<Rightarrow> (string, (nodeID, string list) gomap) gomap \<Rightarrow> string \<Rightarrow> (string, (nodeID, string list) gomap) gomap" where
  "dropConnFromKey connID m key =
     (case map_of m key of
        None \<Rightarrow> m
      | Some subs \<Rightarrow>
          let subs' = map_entries (\<lambda>conns. let c = sdel connID conns in if c = [] then None else Some c) subs
          in if subs' = [] then gdel key m else gput key subs' m)"

definition removeConnSubscriptions :: "string \<Rightarrow> 'p varState \<Rightarrow> string list \<times> 'p varState" where
  "removeConnSubscriptions connID h =
     (if connID = [] then ([], h)
      else case map_of (vconnSubs h) connID of
             None \<Rightarrow> ([], h)
           | Some keys \<Rightarrow>
               (keys, h\<lparr>subscriptions := foldl (dropConnFromKey connID) (subscriptions h) keys,
                        vconnSubs := gdel connID (vconnSubs h)\<rparr>))"

definition subscriberCount :: "string \<Rightarrow> 'p varState \<Rightarrow> nat" where
  "subscriberCount key h = sum_list (map (\<lambda>(_, conns). length conns) (gget [] (subscriptions h) key))"

definition subscribersFor :: "string \<Rightarrow> nodeID \<Rightarrow> 'p varState \<Rightarrow> (nodeID, string list) gomap" where
  "subscribersFor key exclude h =
     filter (\<lambda>(node, conns). node \<noteq> exclude \<and> conns \<noteq> []) (gget [] (subscriptions h) key)"

definition clearSubscriptionsExcept :: "string \<Rightarrow> nodeID \<Rightarrow> 'p varState \<Rightarrow> nodeID list \<times> 'p varState" where
  "clearSubscriptionsExcept key keepNode h =
     (let subs = gget [] (subscriptions h) key in
      if subs = [] then ([], h)
      else
        let gone = filter (\<lambda>(node, _). node \<noteq> keepNode) subs;
            kept = filter (\<lambda>(node, _). node = keepNode) subs;
            cs = fold (dropConnKey key) (concat (map snd gone)) (vconnSubs h)
        in (map fst gone,
            h\<lparr>vconnSubs := cs,
              subscriptions :=
                (if kept = [] \<or> length kept = 1 \<and> keepNode \<noteq> 0 \<and> gget [] kept keepNode = []
                 then gdel key (subscriptions h) else gput key kept (subscriptions h))\<rparr>))"

definition markUpstreamSubscribed :: "string \<Rightarrow> bool \<Rightarrow> 'p varState \<Rightarrow> 'p varState" where
  "markUpstreamSubscribed key v h =
     h\<lparr>upstreamSubs := (if v then gput key True (upstreamSubs h) else gdel key (upstreamSubs h))\<rparr>"

definition upstreamSubscribed :: "string \<Rightarrow> 'p varState \<Rightarrow> bool" where
  "upstreamSubscribed key h = gget False (upstreamSubs h) key"

subsection \<open>Requests waiting for an answer\<close>

definition addPending ::
  "nodeID \<Rightarrow> string \<Rightarrow> string \<Rightarrow> pendingKind \<Rightarrow> header option \<Rightarrow> 'p varState \<Rightarrow> 'p varState" where
  "addPending owner name connID kind oh h =
     (let w = (case oh of
                 None \<Rightarrow> \<lparr>wConn = connID, wRequester = 0, wMsgID = 0, wTraceID = 0\<rparr>
               | Some x \<Rightarrow> \<lparr>wConn = connID, wRequester = hSourceID x, wMsgID = hMsgID x, wTraceID = hTraceID x\<rparr>);
          k = (owner, name, kind)
      in h\<lparr>vpending := gput k (gget [] (vpending h) k @ [w]) (vpending h)\<rparr>)"

definition popPending :: "nodeID \<Rightarrow> string \<Rightarrow> pendingKind \<Rightarrow> 'p varState \<Rightarrow> pendingWaiter list \<times> 'p varState" where
  "popPending owner name kind h =
     (let k = (owner, name, kind) in (gget [] (vpending h) k, h\<lparr>vpending := gdel k (vpending h)\<rparr>))"

definition addPendingSubscribe ::
  "nodeID \<Rightarrow> string \<Rightarrow> nodeID \<Rightarrow> string \<Rightarrow> header option \<Rightarrow> 'p varState \<Rightarrow> 'p varState" where
  "addPendingSubscribe owner name subscriber connID oh h =
     (if owner = 0 \<or> name = [] \<or> subscriber = 0 \<or> connID = [] then h
      else
        let w = (case oh of
                   None \<Rightarrow> \<lparr>wConn = connID, wRequester = subscriber, wMsgID = 0, wTraceID = 0\<rparr>
                 | Some x \<Rightarrow> \<lparr>wConn = connID, wRequester = subscriber, wMsgID = hMsgID x, wTraceID = hTraceID x\<rparr>);
            k = (owner, name, PkSubscribe)
        in h\<lparr>pendingSubs := gput k (gget [] (pendingSubs h) k @ [w]) (pendingSubs h)\<rparr>)"

definition popPendingSubscribe :: "nodeID \<Rightarrow> string \<Rightarrow> 'p varState \<Rightarrow> pendingWaiter list \<times> 'p varState" where
  "popPendingSubscribe owner name h =
     (let k = (owner, name, PkSubscribe) in (gget [] (pendingSubs h) k, h\<lparr>pendingSubs := gdel k (pendingSubs h)\<rparr>))"

definition hasPendingSubscribe :: "nodeID \<Rightarrow> string \<Rightarrow> 'p varState \<Rightarrow> bool" where
  "hasPendingSubscribe owner name h = (map_of (pendingSubs h) (owner, name, PkSubscribe) \<noteq> None)"

text \<open>A write that was passed to the parent; \<open>now\<close> is the time in nanoseconds.\<close>

definition addPendingWrite :: "int \<Rightarrow> 32 word \<Rightarrow> pendingWaiter \<Rightarrow> 'p varState \<Rightarrow> 'p varState" where
  "addPendingWrite now upMsgID waiter h =
     (if upMsgID = 0 \<or> wConn waiter = [] then h
      else
        let p = gget \<lparr>createdAt = 0, writeWaiters = []\<rparr> (vwriting h) upMsgID;
            p1 = (if createdAt p = 0 then p\<lparr>createdAt := now\<rparr> else p)
        in h\<lparr>vwriting := gput upMsgID (p1\<lparr>writeWaiters := writeWaiters p1 @ [waiter]\<rparr>) (vwriting h)\<rparr>)"

definition popPendingWrite :: "32 word \<Rightarrow> 'p varState \<Rightarrow> pendingWaiter list \<times> 'p varState" where
  "popPendingWrite upMsgID h =
     (if upMsgID = 0 then ([], h)
      else (writeWaiters (gget \<lparr>createdAt = 0, writeWaiters = []\<rparr> (vwriting h) upMsgID),
            h\<lparr>vwriting := gdel upMsgID (vwriting h)\<rparr>))"

definition pendingWriteTTL :: int where
  "pendingWriteTTL = 90 * 1000000000"

definition pendingWriteSweepInterval :: int where
  "pendingWriteSweepInterval = 15 * 1000000000"

definition maybeSweepWriting :: "int \<Rightarrow> 'p varState \<Rightarrow> 'p varState" where
  "maybeSweepWriting now h =
     (if now - sweepAt h < pendingWriteSweepInterval then h
      else let cutoff = now - pendingWriteTTL
           in h\<lparr>sweepAt := now,
                vwriting := filter (\<lambda>(_, p). \<not> (createdAt p = 0 \<or> createdAt p < cutoff)) (vwriting h)\<rparr>)"

text \<open>Forget every request of a closed connection, in the three tables.\<close>

definition dropWaiters :: "string \<Rightarrow> pendingWaiter list \<Rightarrow> pendingWaiter list option" where
  "dropWaiters connID items =
     (let out = filter (\<lambda>it. wConn it \<noteq> connID) items in if out = [] then None else Some out)"

definition removeConnPending :: "string \<Rightarrow> 'p varState \<Rightarrow> 'p varState" where
  "removeConnPending connID h =
     (if connID = [] then h
      else h\<lparr>vpending := map_entries (dropWaiters connID) (vpending h),
             vwriting := map_entries (\<lambda>p. map_option (\<lambda>ws. p\<lparr>writeWaiters := ws\<rparr>) (dropWaiters connID (writeWaiters p))) (vwriting h),
             pendingSubs := map_entries (dropWaiters connID) (pendingSubs h)\<rparr>)"

subsection \<open>Keys\<close>

lemma formatUint_no_colon: "CHR '':'' \<notin> set (formatUint w)"
  using formatNat_digits by (force simp: formatUint_def isDigit_def)

lemma splitKey_varKey [simp]: "splitKey (varKey owner name) = (owner, name)"
proof -
  have "parseUint 32 (formatUint owner) = Some (unat owner)" using parseUint_formatUint[of owner] by simp
  then show ?thesis
    using splitN2_cons[OF formatUint_no_colon, of owner name] by (simp add: splitKey_def varKey_def)
qed

interpretation vkey: codec "\<lambda>(owner, name). varKey owner name" "\<lambda>k. Some (splitKey k)" "\<lambda>_. True"
  by unfold_locales auto

lemma varKey_inj [simp]: "varKey o1 n1 = varKey o2 n2 \<longleftrightarrow> o1 = o2 \<and> n1 = n2"
  using vkey.enc_inj[of "(o1, n1)" "(o2, n2)"] by auto

lemma validVarName_chars: "validVarName n \<Longrightarrow> c \<in> set n \<Longrightarrow> 0x20 < (of_char c :: nat) \<and> (of_char c :: nat) < 0x80"
  by (fastforce simp: validVarName_def list_all_iff isLower_def isUpper_def isDigit_def)

lemma validVarName_trim: "validVarName n \<Longrightarrow> trimSpace n = n"
  by (rule trimSpace_graphic) (rule validVarName_chars)

subsection \<open>Message identifiers of forwarded writes\<close>

fun writeIDs :: "nat \<Rightarrow> 'p varState \<Rightarrow> 32 word list" where
  "writeIDs 0 h = []"
| "writeIDs (Suc k) h = (let (i, h') = nextWriteMsgID h in i # writeIDs k h')"

lemma word32_Suc_wrap:
  fixes u :: "32 word"
  shows "unat (if u + 1 = 0 then u + 1 + 1 else u + 1) = unat u mod (2 ^ 32 - 1) + 1"
proof (cases "u + 1 = 0")
  case True
  then have "u = - 1" by (metis add_eq_0_iff2 minus_minus)
  then have "unat u = 2 ^ 32 - 1" by (simp add: unsigned_minus_1_eq_mask mask_eq_exp_minus_1)
  then show ?thesis using True by simp
next
  case False
  have "unat u + 1 \<noteq> 2 ^ 32"
  proof
    assume a: "unat u + 1 = 2 ^ 32"
    have "u + 1 = word_of_nat (unat u + 1)" by simp
    also have "\<dots> = 0" unfolding a by simp
    finally show False using False by simp
  qed
  moreover have "unat u < 2 ^ 32" using unsigned_less[of u, where ?'a = nat] by simp
  ultimately have lt: "unat u < 2 ^ 32 - 1" by linarith
  then have "unat (u + 1) = unat u + 1" by (simp add: unat_word_ariths)
  with False lt show ?thesis by simp
qed

lemma writeIDs_nth:
  "k < n \<Longrightarrow> unat (writeIDs n h ! k) = (unat (writeMsgSeq h) + k) mod (2 ^ 32 - 1) + 1"
proof (induction n arbitrary: h k)
  case (Suc n)
  obtain i h' where nx: "nextWriteMsgID h = (i, h')" by fastforce
  then have i: "i = (if writeMsgSeq h + 1 = 0 then writeMsgSeq h + 1 + 1 else writeMsgSeq h + 1)" "writeMsgSeq h' = i"
    by (auto simp: nextWriteMsgID_def Let_def)
  have u: "unat i = unat (writeMsgSeq h) mod (2 ^ 32 - 1) + 1" unfolding i(1) by (rule word32_Suc_wrap)
  show ?case
  proof (cases k)
    case 0
    then show ?thesis using nx u by simp
  next
    case (Suc j)
    then have "unat (writeIDs n h' ! j) = (unat i + j) mod (2 ^ 32 - 1) + 1" using Suc.IH[of j h'] Suc.prems i(2) by simp
    also have "(unat i + j) mod (2 ^ 32 - 1) = (unat (writeMsgSeq h) + Suc j) mod (2 ^ 32 - 1)"
      unfolding u by (metis (no_types, lifting) add.assoc add_Suc_right mod_add_left_eq plus_1_eq_Suc)
    finally show ?thesis using nx Suc by simp
  qed
qed simp

lemma length_writeIDs [simp]: "length (writeIDs n h) = n"
  by (induction n arbitrary: h) (simp_all split: prod.split)

lemma mod_add_inj:
  assumes "(a + i) mod m = (a + j) mod m" and "i < m" and "j < (m :: nat)"
  shows "i = j"
proof -
  have "x = y" if "x \<le> y" "y < m" "(a + x) mod m = (a + y) mod m" for x y
  proof -
    have "m dvd y - x" using that mod_eq_dvd_iff_nat[of "a + x" "a + y" m] by simp
    with that show "x = y" by (auto dest!: dvd_imp_le)
  qed
  from this[of i j] this[of j i] assms show ?thesis by (cases "i \<le> j") auto
qed

subsection \<open>Records and the cache of owners\<close>

definition varinv :: "'p varState \<Rightarrow> bool" where
  "varinv h =
     ((\<forall>owner name. owner \<in> set (gget [] (vcache h) name) \<longleftrightarrow> map_of (vrecords h) (varKey owner name) \<noteq> None) \<and>
      (\<forall>k r. map_of (vrecords h) k = Some r \<longrightarrow> rOwner r \<noteq> 0 \<and> (\<exists>n. n \<noteq> [] \<and> k = varKey (rOwner r) n)) \<and>
      (\<forall>n v. map_of (vcache h) n = Some v \<longrightarrow> v \<noteq> [] \<and> distinct v))"

lemma varinvD:
  assumes "varinv h"
  shows "owner \<in> set (gget [] (vcache h) name) \<longleftrightarrow> map_of (vrecords h) (varKey owner name) \<noteq> None"
    and "map_of (vrecords h) k = Some r \<Longrightarrow> rOwner r \<noteq> 0 \<and> (\<exists>n. n \<noteq> [] \<and> k = varKey (rOwner r) n)"
    and "map_of (vcache h) n = Some v \<Longrightarrow> v \<noteq> [] \<and> distinct v"
    and "distinct (gget [] (vcache h) n)"
proof -
  show c: "map_of (vcache h) n = Some v \<Longrightarrow> v \<noteq> [] \<and> distinct v" for n v
    using assms unfolding varinv_def by blast
  show "distinct (gget [] (vcache h) n)" using c[of n] by (cases "map_of (vcache h) n") (simp_all add: gget_def)
qed (use assms in \<open>unfold varinv_def, blast+\<close>)

lemma varinvI:
  assumes "\<And>owner name. owner \<in> set (gget [] (vcache h) name) \<longleftrightarrow> map_of (vrecords h) (varKey owner name) \<noteq> None"
    and "\<And>k r. map_of (vrecords h) k = Some r \<Longrightarrow> rOwner r \<noteq> 0 \<and> (\<exists>n. n \<noteq> [] \<and> k = varKey (rOwner r) n)"
    and "\<And>n v. map_of (vcache h) n = Some v \<Longrightarrow> v \<noteq> [] \<and> distinct v"
  shows "varinv h"
  unfolding varinv_def using assms by blast

lemma varinv_key: "varinv h \<Longrightarrow> map_of (vrecords h) (varKey owner name) = Some r \<Longrightarrow> rOwner r = owner \<and> owner \<noteq> 0 \<and> name \<noteq> []"
  using varinvD(2)[of h "varKey owner name" r] by auto

lemma saveRecord_varinv [invs]:
  assumes "varinv h"
  shows "varinv (saveRecord name rec h)"
proof (cases "name = [] \<or> rOwner rec = 0")
  case True
  with assms show ?thesis by (auto simp: saveRecord_def)
next
  case False
  then have r: "vrecords (saveRecord name rec h) = gput (varKey (rOwner rec) name) rec (vrecords h)"
    and c: "vcache (saveRecord name rec h) = gput name (sadd (rOwner rec) (gget [] (vcache h) name)) (vcache h)"
    by (auto simp: saveRecord_def addOwnerCache_def)
  show ?thesis
  proof (rule varinvI, unfold r c, goal_cases)
    case (1 owner n)
    show ?case using varinvD(1)[OF assms, of owner n] by (auto simp: update_conv')
  next
    case (2 k rec')
    then show ?case using False varinvD(2)[OF assms, of k rec'] by (auto simp: update_conv' split: if_splits)
  next
    case (3 n v)
    then show ?case using varinvD(3)[OF assms, of n v] varinvD(4)[OF assms, of name] by (auto simp: update_conv' split: if_splits)
  qed
qed

lemma deleteRecord_cache:
  "\<not> (owner = 0 \<or> name = []) \<Longrightarrow>
     set (gget [] (vcache (deleteRecord owner name h)) n) = set (gget [] (vcache h) n) - (if n = name then {owner} else {})"
  by (auto simp: deleteRecord_def Let_def gget_def delete_conv' update_conv' sdel_Nil_iff split: option.split)

lemma deleteRecord_varinv [invs]:
  assumes "varinv h"
  shows "varinv (deleteRecord owner name h)"
proof (cases "owner = 0 \<or> name = []")
  case True
  with assms show ?thesis by (auto simp: deleteRecord_def)
next
  case False
  then have r: "vrecords (deleteRecord owner name h) = gdel (varKey owner name) (vrecords h)"
    by (auto simp: deleteRecord_def)
  show ?thesis
  proof (rule varinvI, goal_cases)
    case (1 ow n)
    show ?case unfolding deleteRecord_cache[OF False] r
      using varinvD(1)[OF assms, of ow n] by (auto simp: delete_conv')
  next
    case (2 k rec')
    then show ?case unfolding r using varinvD(2)[OF assms, of k rec'] by (auto simp: delete_conv' split: if_splits)
  next
    case (3 n v)
    then show ?case
      using False varinvD(3)[OF assms, of n v] varinvD(3)[OF assms, of name]
      by (auto simp: deleteRecord_def Let_def delete_conv' update_conv' split: option.splits if_splits)
  qed
qed

text \<open>Loading documents is saving their records into an empty store.\<close>

definition docOK :: "varDoc \<Rightarrow> bool" where
  "docOK d = (dOwner d \<noteq> 0 \<and> validVarName (trimSpace (dName d)))"

definition installRecords ::
  "(string, varRecord) gomap \<times> (string, nodeID list) gomap \<Rightarrow> 'p varState \<Rightarrow> 'p varState" where
  "installRecords st h = h\<lparr>vrecords := fst st, vcache := snd st\<rparr>"

lemma docRecord_owner [simp]: "rOwner (docRecord d) = dOwner d"
  by (simp add: docRecord_def Let_def)

lemma install_loadDoc:
  "installRecords (loadDoc st d) h =
     (if docOK d then saveRecord (trimSpace (dName d)) (docRecord d) (installRecords st h) else installRecords st h)"
  by (cases st) (auto simp: installRecords_def loadDoc_def docOK_def saveRecord_def addOwnerCache_def validVarName_def Let_def)

lemma install_loadDocs:
  "installRecords (foldl loadDoc st docs) h =
     foldl (\<lambda>g d. if docOK d then saveRecord (trimSpace (dName d)) (docRecord d) g else g) (installRecords st h) docs"
  by (induction docs arbitrary: st) (simp_all add: install_loadDoc)

lemma loadPersistedRecords_eq:
  "loadPersistedRecords ops h =
     (case pLoadAll ops (vstore h) of None \<Rightarrow> (True, h)
      | Some docs \<Rightarrow> (False, installRecords (foldl loadDoc ([], []) docs) h))"
  by (simp add: loadPersistedRecords_def installRecords_def split: option.split prod.split)

lemma varinv_install_empty: "varinv (installRecords ([], []) h)"
  by (rule varinvI) (simp_all add: installRecords_def)

lemma loadDocs_varinv: "varinv (installRecords (foldl loadDoc ([], []) docs) h)"
proof -
  have "varinv g \<Longrightarrow> varinv (foldl (\<lambda>g d. if docOK d then saveRecord (trimSpace (dName d)) (docRecord d) g else g) g docs)"
    for g :: "'a varState"
    by (induction docs arbitrary: g) (simp_all add: saveRecord_varinv)
  from this[OF varinv_install_empty] show ?thesis by (simp add: install_loadDocs)
qed

lemma lookup_save:
  "lookupOwned owner name (saveRecord n rec h) =
     (if n \<noteq> [] \<and> rOwner rec \<noteq> 0 \<and> owner = rOwner rec \<and> name = n then Some rec else lookupOwned owner name h)"
  by (auto simp: lookupOwned_def saveRecord_def update_conv')

lemma lookup_delete:
  "lookupOwned owner name (deleteRecord ow n h) = (if owner = ow \<and> name = n then None else lookupOwned owner name h)"
  by (auto simp: lookupOwned_def deleteRecord_def delete_conv')

subsection \<open>The store as a map from owner and name to records\<close>

datatype varSection =
    VsSave string varRecord
  | VsDelete nodeID string
  | VsLoad "varDoc list"

definition varSectionStep :: "'p varState \<Rightarrow> varSection \<Rightarrow> 'p varState" where
  "varSectionStep h ev =
     (case ev of
        VsSave n r \<Rightarrow> saveRecord n r h
      | VsDelete owner n \<Rightarrow> deleteRecord owner n h
      | VsLoad docs \<Rightarrow> installRecords (foldl loadDoc ([], []) docs) h)"

definition varView :: "'p varState \<Rightarrow> nodeID \<times> string \<Rightarrow> varRecord option" where
  "varView h = (\<lambda>(owner, name). lookupOwned owner name h)"

fun viewSection :: "(nodeID \<times> string \<Rightarrow> varRecord option) \<Rightarrow> varSection \<Rightarrow> (nodeID \<times> string \<Rightarrow> varRecord option)" where
  "viewSection f (VsSave n r) = (if n \<noteq> [] \<and> rOwner r \<noteq> 0 then f((rOwner r, n) \<mapsto> r) else f)"
| "viewSection f (VsDelete owner n) = f((owner, n) := None)"
| "viewSection f (VsLoad docs) =
     foldl (\<lambda>g d. if docOK d then g((dOwner d, trimSpace (dName d)) \<mapsto> docRecord d) else g) (\<lambda>_. None) docs"

lemma varView_save: "varView (saveRecord n r h) = (if n \<noteq> [] \<and> rOwner r \<noteq> 0 then (varView h)((rOwner r, n) \<mapsto> r) else varView h)"
  by (auto simp: varView_def lookup_save fun_eq_iff)

lemma varView_load:
  "varView (installRecords (foldl loadDoc ([], []) docs) h) = viewSection f (VsLoad docs)"
proof -
  have "varView (foldl (\<lambda>g d. if docOK d then saveRecord (trimSpace (dName d)) (docRecord d) g else g) g docs) =
      foldl (\<lambda>g d. if docOK d then g((dOwner d, trimSpace (dName d)) \<mapsto> docRecord d) else g) (varView g) docs"
    for g :: "'a varState"
    by (induction docs arbitrary: g) (auto simp: varView_save docOK_def validVarName_def)
  moreover have "varView (installRecords ([], []) h) = (\<lambda>_. None)"
    by (auto simp: varView_def lookupOwned_def installRecords_def fun_eq_iff)
  ultimately show ?thesis by (simp add: install_loadDocs)
qed

interpretation varsec: refining_machine varSectionStep varinv "\<lambda>_. True" varView viewSection
proof
  fix h :: "'p varState" and ev
  assume "varinv h"
  then show "varinv (varSectionStep h ev)"
    by (cases ev) (simp_all add: varSectionStep_def saveRecord_varinv deleteRecord_varinv loadDocs_varinv)
  show "varView (varSectionStep h ev) = viewSection (varView h) ev"
  proof (cases ev)
    case (VsLoad docs)
    then show ?thesis by (simp only: varSectionStep_def varSection.case varView_load[of docs h "varView h"])
  qed (auto simp: varSectionStep_def varView_def lookup_save lookup_delete fun_eq_iff)
qed

subsection \<open>The contract of a persistence\<close>

definition docKey :: "varDoc \<Rightarrow> nodeID \<times> string" where
  "docKey d = (dOwner d, trimSpace (dName d))"

text \<open>
  A successful save replaces the document of its owner and name, a successful delete removes it, and no two
  documents share owner and name. Operations may fail; nothing is promised then.
\<close>

locale var_persistence =
  fixes ops :: "'p persistenceOps" and pinv :: "'p \<Rightarrow> bool"
  assumes loads: "pinv p \<Longrightarrow> \<exists>ds. pLoadAll ops p = Some ds \<and> distinct (map docKey ds)"
    and saves: "pinv p \<Longrightarrow> pSave ops d p = (False, p') \<Longrightarrow> pLoadAll ops p = Some ds \<Longrightarrow>
      pinv p' \<and> (\<exists>ds'. pLoadAll ops p' = Some ds' \<and>
        set ds' = insert (d\<lparr>dName := trimSpace (dName d)\<rparr>) {e \<in> set ds. docKey e \<noteq> docKey d})"
    and deletes: "pinv p \<Longrightarrow> pDelete ops owner name p = (False, p') \<Longrightarrow> pLoadAll ops p = Some ds \<Longrightarrow>
      pinv p' \<and> (\<exists>ds'. pLoadAll ops p' = Some ds' \<and> set ds' = {e \<in> set ds. docKey e \<noteq> (owner, trimSpace name)})"
begin

text \<open>The records that a restart would read.\<close>

definition restartView :: "'p \<Rightarrow> nodeID \<times> string \<Rightarrow> varRecord option" where
  "restartView p = (case pLoadAll ops p of None \<Rightarrow> \<lambda>_. None | Some ds \<Rightarrow> viewSection (\<lambda>_. None) (VsLoad ds))"

lemma load_iff:
  assumes "distinct (map docKey ds)"
  shows "viewSection f (VsLoad ds) k = Some r \<longleftrightarrow> (\<exists>d\<in>set ds. docOK d \<and> docKey d = k \<and> r = docRecord d)"
proof -
  let ?st = "\<lambda>g d. if docOK d then g(docKey d \<mapsto> docRecord d) else g"
  have "foldl ?st g ds k = Some r \<longleftrightarrow> (\<exists>d\<in>set ds. docOK d \<and> docKey d = k \<and> r = docRecord d) \<or>
      ((\<forall>d\<in>set ds. docOK d \<longrightarrow> docKey d \<noteq> k) \<and> g k = Some r)" for g
    using assms
  proof (induction ds arbitrary: g)
    case (Cons d ds)
    have "docKey d \<notin> docKey ` set ds" using Cons.prems by simp
    then show ?case using Cons by (auto simp: image_iff)
  qed simp
  from this[of "\<lambda>_. None"] show ?thesis unfolding docKey_def by simp
qed

lemma restart_iff:
  assumes "pinv p" and "pLoadAll ops p = Some ds"
  shows "restartView p k = Some r \<longleftrightarrow> (\<exists>d\<in>set ds. docOK d \<and> docKey d = k \<and> r = docRecord d)"
  using loads[OF assms(1)] assms(2) load_iff by (auto simp: restartView_def)

lemma restart_save:
  assumes "pinv p" and "pSave ops d p = (False, p')" and "docOK d"
  shows "pinv p' \<and> restartView p' = (restartView p)(docKey d \<mapsto> docRecord d)"
proof -
  obtain ds where ds: "pLoadAll ops p = Some ds" using loads[OF assms(1)] by blast
  obtain ds' where ds': "pinv p'" "pLoadAll ops p' = Some ds'"
    "set ds' = insert (d\<lparr>dName := trimSpace (dName d)\<rparr>) {e \<in> set ds. docKey e \<noteq> docKey d}"
    using saves[OF assms(1,2) ds] by blast
  have d': "docOK (d\<lparr>dName := trimSpace (dName d)\<rparr>)" "docKey (d\<lparr>dName := trimSpace (dName d)\<rparr>) = docKey d"
    "docRecord (d\<lparr>dName := trimSpace (dName d)\<rparr>) = docRecord d"
    using assms(3) by (auto simp: docOK_def docKey_def docRecord_def Let_def)
  have "restartView p' k = Some r \<longleftrightarrow> ((restartView p)(docKey d \<mapsto> docRecord d)) k = Some r" for k r
    unfolding restart_iff[OF ds'(1,2)] ds'(3) using restart_iff[OF assms(1) ds, of k r] d' by auto
  then have "restartView p' k = ((restartView p)(docKey d \<mapsto> docRecord d)) k" for k
    by (metis not_None_eq)
  with ds'(1) show ?thesis by blast
qed

lemma restart_delete:
  assumes "pinv p" and "pDelete ops owner name p = (False, p')"
  shows "pinv p' \<and> restartView p' = (restartView p)((owner, trimSpace name) := None)"
proof -
  obtain ds where ds: "pLoadAll ops p = Some ds" using loads[OF assms(1)] by blast
  obtain ds' where ds': "pinv p'" "pLoadAll ops p' = Some ds'"
    "set ds' = {e \<in> set ds. docKey e \<noteq> (owner, trimSpace name)}"
    using deletes[OF assms(1,2) ds] by blast
  have "restartView p' k = Some r \<longleftrightarrow> ((restartView p)((owner, trimSpace name) := None)) k = Some r" for k r
    unfolding restart_iff[OF ds'(1,2)] ds'(3) using restart_iff[OF assms(1) ds, of k r] by auto
  then have "restartView p' k = ((restartView p)((owner, trimSpace name) := None)) k" for k
    by (metis not_None_eq)
  with ds'(1) show ?thesis by blast
qed

text \<open>Restarting reads the view into the record map.\<close>

lemma restart_reads:
  assumes "pinv (vstore h)"
  shows "\<exists>h'. loadPersistedRecords ops h = (False, h') \<and> varView h' = restartView (vstore h) \<and> varinv h'"
proof -
  obtain ds where ds: "pLoadAll ops (vstore h) = Some ds" using loads[OF assms] by blast
  show ?thesis
    using varView_load[of ds h "\<lambda>_. None"] loadDocs_varinv[of ds h] ds
    by (simp add: loadPersistedRecords_eq restartView_def)
qed

end

subsection \<open>The memory persistence\<close>

lemma mset_insertDoc: "mset (insertDoc d ds) = add_mset d (mset ds)"
  by (induction ds) auto

lemma mset_sortDocs: "mset (sortDocs ds) = mset ds"
  unfolding sortDocs_def by (induction ds) (auto simp: mset_insertDoc)

lemma set_sortDocs [simp]: "set (sortDocs ds) = set ds"
  by (metis mset_sortDocs set_mset_mset)

lemma distinct_sortDocs: "distinct (map f (sortDocs ds)) = distinct (map f ds)"
  by (metis mset_eq_imp_distinct_iff mset_map mset_sortDocs)

definition meminv :: "memStore \<Rightarrow> bool" where
  "meminv p = (wf_gomap p \<and> (\<forall>(k, d)\<in>set p. k = varKey (dOwner d) (dName d) \<and> trimSpace (dName d) = dName d))"

lemma meminv_docKey: "meminv p \<Longrightarrow> (k, d) \<in> set p \<Longrightarrow> k = varKey (fst (docKey d)) (snd (docKey d))"
  by (auto simp: meminv_def docKey_def)

lemma gomap_update_set: "wf_gomap m \<Longrightarrow> set (gput k v m) = insert (k, v) {(j, w) \<in> set m. j \<noteq> k}"
proof (induction m)
  case (Cons p m)
  then show ?case by (cases p) (auto simp: image_iff)
qed simp

lemma gomap_delete_set: "set (gdel k m) = {(j, w) \<in> set m. j \<noteq> k}"
  by (auto simp: AList.delete_eq)

lemma mem_load_set:
  assumes "pLoadAll memoryPersistence p = Some ds"
  shows "set ds = set (map snd p)"
proof -
  have "ds = sortDocs (map snd p)" using assms by (simp add: memoryPersistence_def memLoadAll_def)
  then show ?thesis by (simp only: set_sortDocs)
qed

interpretation memstore: var_persistence memoryPersistence meminv
proof
  fix p assume "meminv p"
  then have wf: "wf_gomap p" and k: "\<And>k d. (k, d) \<in> set p \<Longrightarrow> k = varKey (fst (docKey d)) (snd (docKey d))"
    using meminv_docKey by (auto simp: meminv_def)
  have "map fst p = map (\<lambda>dk. varKey (fst dk) (snd dk)) (map (docKey \<circ> snd) p)" using k by (auto simp: o_def)
  then have "distinct (map (\<lambda>dk. varKey (fst dk) (snd dk)) (map (docKey \<circ> snd) p))" using wf by (simp only:)
  then have "distinct (map (docKey \<circ> snd) p)" unfolding distinct_map by blast
  then show "\<exists>ds. pLoadAll memoryPersistence p = Some ds \<and> distinct (map docKey ds)"
    by (simp add: memoryPersistence_def memLoadAll_def distinct_sortDocs)
next
  fix p d p' ds
  assume inv: "meminv p" and sv: "pSave memoryPersistence d p = (False, p')"
    and ds: "pLoadAll memoryPersistence p = Some ds"
  let ?d = "d\<lparr>dName := trimSpace (dName d)\<rparr>"
  have p': "p' = gput (varKey (dOwner d) (trimSpace (dName d))) ?d p"
    using sv by (auto simp: memoryPersistence_def memSave_def varStorageKey_def Let_def split: if_splits)
  have sp: "set p' = insert (varKey (dOwner d) (trimSpace (dName d)), ?d)
      {(j, w) \<in> set p. j \<noteq> varKey (dOwner d) (trimSpace (dName d))}"
    unfolding p' using inv by (intro gomap_update_set) (simp add: meminv_def)
  have "meminv p'" using inv unfolding meminv_def sp by (auto simp: p')
  moreover have "set (map snd p') = insert ?d {e \<in> set (map snd p). docKey e \<noteq> docKey d}"
    using sp meminv_docKey[OF inv] by (force simp: docKey_def)
  moreover have "set ds = set (map snd p)" using mem_load_set[OF ds] .
  ultimately show "meminv p' \<and> (\<exists>ds'. pLoadAll memoryPersistence p' = Some ds' \<and>
      set ds' = insert ?d {e \<in> set ds. docKey e \<noteq> docKey d})"
    by (simp add: memoryPersistence_def memLoadAll_def)
next
  fix p owner name p' ds
  assume inv: "meminv p" and del: "pDelete memoryPersistence owner name p = (False, p')"
    and ds: "pLoadAll memoryPersistence p = Some ds"
  have p': "p' = gdel (varKey owner (trimSpace name)) p"
    using del by (auto simp: memoryPersistence_def memDelete_def varStorageKey_def Let_def split: if_splits)
  have sp: "set p' = {(j, w) \<in> set p. j \<noteq> varKey owner (trimSpace name)}"
    unfolding p' by (rule gomap_delete_set)
  have "meminv p'" using inv unfolding meminv_def sp by (auto simp: p')
  moreover have "set (map snd p') = {e \<in> set (map snd p). docKey e \<noteq> (owner, trimSpace name)}"
    using sp meminv_docKey[OF inv] by (force simp: docKey_def)
  moreover have "set ds = set (map snd p)" using mem_load_set[OF ds] .
  ultimately show "meminv p' \<and> (\<exists>ds'. pLoadAll memoryPersistence p' = Some ds' \<and>
      set ds' = {e \<in> set ds. docKey e \<noteq> (owner, trimSpace name)})"
    by (simp add: memoryPersistence_def memLoadAll_def)
qed

subsection \<open>The tables of waiting requests\<close>

definition waiterHeader :: "pendingWaiter \<Rightarrow> header" where
  "waiterHeader w = zeroHeader\<lparr>hSourceID := wRequester w, hMsgID := wMsgID w, hTraceID := wTraceID w\<rparr>"

interpretation pendTable: waiter_table
  "\<lambda>(owner, name, kind) w. addPending owner name (wConn w) kind (Some (waiterHeader w))"
  "\<lambda>(owner, name, kind). popPending owner name kind" "\<lambda>_ _. True"
  by unfold_locales (auto simp: addPending_def popPending_def waiterHeader_def Let_def split: if_splits)

interpretation subTable: waiter_table
  "\<lambda>(owner, name) w. addPendingSubscribe owner name (wRequester w) (wConn w) (Some (waiterHeader w))"
  "\<lambda>(owner, name). popPendingSubscribe owner name"
  "\<lambda>(owner, name) w. owner \<noteq> 0 \<and> name \<noteq> [] \<and> wRequester w \<noteq> 0 \<and> wConn w \<noteq> []"
  by unfold_locales (auto simp: addPendingSubscribe_def popPendingSubscribe_def waiterHeader_def Let_def split: if_splits)

interpretation writeTable: waiter_table "addPendingWrite now" popPendingWrite "\<lambda>i w. i \<noteq> 0 \<and> wConn w \<noteq> []"
  for now
  by unfold_locales (auto simp: addPendingWrite_def popPendingWrite_def Let_def split: if_splits)

text \<open>The waiters of a key, without those of one connection.\<close>

lemma gget_dropWaiters:
  "wf_gomap m \<Longrightarrow> gget [] (map_entries (dropWaiters c) m) k = filter (\<lambda>w. wConn w \<noteq> c) (gget [] m k)"
  by (simp add: gget_def map_of_map_entries dropWaiters_def Let_def split: option.split)

text \<open>The maps of the waiting requests have no key twice; every operation keeps that.\<close>

definition vwf :: "'p varState \<Rightarrow> bool" where
  "vwf h = (wf_gomap (vpending h) \<and> wf_gomap (vwriting h) \<and> wf_gomap (pendingSubs h))"

lemma vwf_ops [invs]:
  "vwf h \<Longrightarrow> vwf (addPending owner name c kind oh h)"
  "vwf h \<Longrightarrow> vwf (snd (popPending owner name kind h))"
  "vwf h \<Longrightarrow> vwf (addPendingSubscribe owner name sub c oh h)"
  "vwf h \<Longrightarrow> vwf (snd (popPendingSubscribe owner name h))"
  "vwf h \<Longrightarrow> vwf (addPendingWrite now i w h)"
  "vwf h \<Longrightarrow> vwf (snd (popPendingWrite i h))"
  "vwf h \<Longrightarrow> vwf (maybeSweepWriting now h)"
  "vwf h \<Longrightarrow> vwf (removeConnPending c h)"
  by (auto simp: vwf_def addPending_def popPending_def addPendingSubscribe_def popPendingSubscribe_def
      addPendingWrite_def popPendingWrite_def maybeSweepWriting_def removeConnPending_def Let_def
      intro: distinct_map_filter)

lemma removeConnPending_pops:
  assumes "vwf h" and "c \<noteq> []"
  shows "fst (popPending owner name kind (removeConnPending c h)) =
           filter (\<lambda>w. wConn w \<noteq> c) (fst (popPending owner name kind h))"
    and "fst (popPendingSubscribe owner name (removeConnPending c h)) =
           filter (\<lambda>w. wConn w \<noteq> c) (fst (popPendingSubscribe owner name h))"
    and "fst (popPendingWrite i (removeConnPending c h)) = filter (\<lambda>w. wConn w \<noteq> c) (fst (popPendingWrite i h))"
proof -
  show "fst (popPending owner name kind (removeConnPending c h)) =
      filter (\<lambda>w. wConn w \<noteq> c) (fst (popPending owner name kind h))"
    and "fst (popPendingSubscribe owner name (removeConnPending c h)) =
      filter (\<lambda>w. wConn w \<noteq> c) (fst (popPendingSubscribe owner name h))"
    using assms by (simp_all add: vwf_def popPending_def popPendingSubscribe_def removeConnPending_def gget_dropWaiters Let_def)
  show "fst (popPendingWrite i (removeConnPending c h)) = filter (\<lambda>w. wConn w \<noteq> c) (fst (popPendingWrite i h))"
    using assms
    by (simp add: vwf_def popPendingWrite_def removeConnPending_def gget_def map_of_map_entries dropWaiters_def Let_def
        split: option.split)
qed

subsection \<open>How long a forwarded write is remembered\<close>

text \<open>
  The table of forwarded writes under a clock that never goes back: an event happens \<open>dt\<close> nanoseconds after the
  previous one. Every received frame first gives the sweep a chance.
\<close>

datatype writeEvent =
    WeFrame
  | WeAdd "32 word" pendingWaiter
  | WePop "32 word"
  | WeConnClosed string

definition writeStep :: "int \<times> 'p varState \<Rightarrow> int \<times> writeEvent \<Rightarrow> int \<times> 'p varState" where
  "writeStep st ev =
     (let (t, h) = st; (dt, e) = ev; now = t + dt in
      (now,
       case e of
         WeFrame \<Rightarrow> maybeSweepWriting now h
       | WeAdd i w \<Rightarrow> addPendingWrite now i w h
       | WePop i \<Rightarrow> snd (popPendingWrite i h)
       | WeConnClosed c \<Rightarrow> removeConnPending c h))"

definition writeAgeInv :: "int \<times> 'p varState \<Rightarrow> bool" where
  "writeAgeInv st =
     (let (t, h) = st in
      0 < t \<and> sweepAt h \<le> t \<and> vwf h \<and>
      (\<forall>i p. map_of (vwriting h) i = Some p \<longrightarrow>
         sweepAt h - pendingWriteTTL \<le> createdAt p \<and> createdAt p \<le> t \<and> createdAt p \<noteq> 0))"

lemma map_of_filter_val:
  "wf_gomap m \<Longrightarrow> map_of (filter (\<lambda>(_, v). P v) m) k = (case map_of m k of Some v \<Rightarrow> if P v then Some v else None | None \<Rightarrow> None)"
proof (induction m)
  case (Cons p m)
  obtain j v where p: "p = (j, v)" by (cases p)
  have "k \<notin> fst ` set m \<Longrightarrow> map_of (filter (\<lambda>(_, v). P v) m) k = None"
    by (auto simp: map_of_eq_None_iff)
  with Cons show ?case by (auto simp: p split: option.split)
qed simp

lemma writeAgeI:
  assumes "0 < t" and "sweepAt h \<le> t" and "vwf h"
    and "\<And>i p. map_of (vwriting h) i = Some p \<Longrightarrow>
      sweepAt h - pendingWriteTTL \<le> createdAt p \<and> createdAt p \<le> t \<and> createdAt p \<noteq> 0"
  shows "writeAgeInv (t, h)"
  unfolding writeAgeInv_def Let_def prod.case using assms by blast

lemma writeAgeD:
  assumes "writeAgeInv (t, h)"
  shows "0 < t" "sweepAt h \<le> t" "vwf h"
    and "map_of (vwriting h) i = Some p \<Longrightarrow>
      sweepAt h - pendingWriteTTL \<le> createdAt p \<and> createdAt p \<le> t \<and> createdAt p \<noteq> 0"
  using assms unfolding writeAgeInv_def Let_def prod.case by blast+

lemma writeAge_sweep:
  assumes "writeAgeInv (t, h)" and "t \<le> now"
  shows "writeAgeInv (now, maybeSweepWriting now h)"
proof (cases "now - sweepAt h < pendingWriteSweepInterval")
  case True
  then show ?thesis
    using assms(2) writeAgeD[OF assms(1)] by (intro writeAgeI) (force simp: maybeSweepWriting_def)+
next
  case False
  have wf: "wf_gomap (vwriting h)" using writeAgeD(3)[OF assms(1)] by (simp add: vwf_def)
  have m: "sweepAt (maybeSweepWriting now h) = now"
    "vwriting (maybeSweepWriting now h) = filter (\<lambda>(_, p). \<not> (createdAt p = 0 \<or> createdAt p < now - pendingWriteTTL)) (vwriting h)"
    using False by (simp_all add: maybeSweepWriting_def Let_def)
  show ?thesis
  proof (rule writeAgeI)
    show "0 < now" using assms(2) writeAgeD(1)[OF assms(1)] by simp
    show "vwf (maybeSweepWriting now h)" by (rule vwf_ops(7)[OF writeAgeD(3)[OF assms(1)]])
    show "sweepAt (maybeSweepWriting now h) \<le> now" by (simp add: m)
    fix i p assume "map_of (vwriting (maybeSweepWriting now h)) i = Some p"
    then have "map_of (vwriting h) i = Some p" "\<not> (createdAt p = 0 \<or> createdAt p < now - pendingWriteTTL)"
      unfolding m(2) map_of_filter_val[OF wf] by (auto split: option.splits if_splits)
    with writeAgeD(4)[OF assms(1), of i p] assms(2) show
      "sweepAt (maybeSweepWriting now h) - pendingWriteTTL \<le> createdAt p \<and> createdAt p \<le> now \<and> createdAt p \<noteq> 0"
      by (simp add: m(1))
  qed
qed

lemma TTL_pos: "0 \<le> pendingWriteTTL"
  by (simp add: pendingWriteTTL_def)

lemma writeAge_add:
  assumes "writeAgeInv (t, h)" and "t \<le> now"
  shows "writeAgeInv (now, addPendingWrite now i w h)"
proof (rule writeAgeI)
  note d = writeAgeD[OF assms(1)]
  show "0 < now" using assms(2) d(1) by simp
  have sw: "sweepAt (addPendingWrite now i w h) = sweepAt h" by (simp add: addPendingWrite_def Let_def)
  show "sweepAt (addPendingWrite now i w h) \<le> now" using assms(2) d(2) by (simp add: sw)
  show "vwf (addPendingWrite now i w h)" by (rule vwf_ops(5)[OF d(3)])
  fix j p assume p: "map_of (vwriting (addPendingWrite now i w h)) j = Some p"
  have "map_of (vwriting h) j = Some p \<or> createdAt p = now \<or>
      (\<exists>q. map_of (vwriting h) j = Some q \<and> createdAt p = createdAt q)"
    using p by (auto simp: addPendingWrite_def Let_def gget_def update_conv' split: if_splits option.splits)
  then show "sweepAt (addPendingWrite now i w h) - pendingWriteTTL \<le> createdAt p \<and> createdAt p \<le> now \<and> createdAt p \<noteq> 0"
    unfolding sw using d(1,2) d(4)[of j] assms(2) TTL_pos by auto
qed

interpretation writeAge: invariant_machine writeStep writeAgeInv "\<lambda>(dt, _). 0 \<le> dt"
proof
  fix st :: "int \<times> 'p varState" and ev :: "int \<times> writeEvent"
  assume inv: "writeAgeInv st" and ok: "case ev of (dt, _) \<Rightarrow> 0 \<le> dt"
  obtain t h dt e where eq: "st = (t, h)" "ev = (dt, e)" by (cases st, cases ev)
  have le: "t \<le> t + dt" using ok eq by simp
  note d = writeAgeD[OF inv[unfolded eq(1)]]
  show "writeAgeInv (writeStep st ev)"
  proof (cases e)
    case (WePop i)
    have "writeAgeInv (t + dt, snd (popPendingWrite i h))"
    proof (rule writeAgeI)
      show "vwf (snd (popPendingWrite i h))" by (rule vwf_ops(6)[OF d(3)])
      fix j p assume "map_of (vwriting (snd (popPendingWrite i h))) j = Some p"
      then have "map_of (vwriting h) j = Some p"
        by (auto simp: popPendingWrite_def delete_conv' split: if_splits)
      from d(4)[OF this] le show "sweepAt (snd (popPendingWrite i h)) - pendingWriteTTL \<le> createdAt p \<and>
          createdAt p \<le> t + dt \<and> createdAt p \<noteq> 0" by (auto simp: popPendingWrite_def)
    qed (use d(1,2) le in \<open>auto simp: popPendingWrite_def\<close>)
    then show ?thesis by (simp add: writeStep_def eq WePop)
  next
    case (WeConnClosed c)
    have "writeAgeInv (t + dt, removeConnPending c h)"
    proof (rule writeAgeI)
      show "vwf (removeConnPending c h)" by (rule vwf_ops(8)[OF d(3)])
      have wf: "wf_gomap (vwriting h)" using d(3) by (simp add: vwf_def)
      fix j p assume "map_of (vwriting (removeConnPending c h)) j = Some p"
      then obtain q where "map_of (vwriting h) j = Some q" "createdAt p = createdAt q"
        by (auto simp: removeConnPending_def map_of_map_entries[OF wf] bind_eq_Some_conv split: if_splits)
      with d(4)[of j q] le show "sweepAt (removeConnPending c h) - pendingWriteTTL \<le> createdAt p \<and>
          createdAt p \<le> t + dt \<and> createdAt p \<noteq> 0" by (auto simp: removeConnPending_def)
    qed (use d(1,2) le in \<open>auto simp: removeConnPending_def\<close>)
    then show ?thesis by (simp add: writeStep_def eq WeConnClosed)
  qed (use writeAge_sweep[OF inv[unfolded eq(1)] le] writeAge_add[OF inv[unfolded eq(1)] le] in
      \<open>simp_all add: writeStep_def eq Let_def\<close>)
qed

subsection \<open>Subscriptions as relations\<close>

text \<open>Who subscribed to which key over which connection, and the index by connection.\<close>

definition vsubs :: "'p varState \<Rightarrow> (string \<times> nodeID \<times> string) set" where
  "vsubs h = {(k, n, c). c \<in> set (gget [] (gget [] (subscriptions h) k) n)}"

definition vidx :: "'p varState \<Rightarrow> (string \<times> string) set" where
  "vidx h = {(c, k). k \<in> set (gget [] (vconnSubs h) c)}"

definition innerwf :: "(string, (nodeID, string list) gomap) gomap \<Rightarrow> bool" where
  "innerwf m = (\<forall>k. wf_gomap (gget [] m k))"

lemma dropConnKey_get: "gget [] (dropConnKey key c m) d = (if d = c then sdel key (gget [] m d) else gget [] m d)"
  by (auto simp: dropConnKey_def gget_def Let_def delete_conv' update_conv' sdel_def split: option.split)

lemma dropConnKeys_get:
  "set (gget [] (fold (dropConnKey key) cs m) d) = set (gget [] m d) - (if d \<in> set cs then {key} else {})"
  by (induction cs arbitrary: m) (auto simp: dropConnKey_get)

lemma map_of_filter_key: "map_of (filter (\<lambda>(k, _). P k) m) k = (if P k then map_of m k else None)"
  by (induction m) auto

lemma gget_filter_key: "gget [] (filter (\<lambda>(k, _). P k) m) k = (if P k then gget [] m k else [])"
  by (simp add: gget_def map_of_filter_key)

lemma gget_member:
  "wf_gomap m \<Longrightarrow> c \<in> set (gget [] m n) \<longleftrightarrow> (\<exists>v. (n, v) \<in> set m \<and> c \<in> set v)"
  by (auto simp: gget_def split: option.split dest: map_of_SomeD weak_map_of_SomeI)

lemma addSubscription_rel:
  assumes "owner \<noteq> 0" and "name \<noteq> []" and "sub \<noteq> 0" and "c \<noteq> []"
  shows "vsubs (addSubscription owner name sub c h) = insert (varKey owner name, sub, c) (vsubs h)"
    and "vidx (addSubscription owner name sub c h) = insert (c, varKey owner name) (vidx h)"
  using assms by (auto simp: addSubscription_def vsubs_def vidx_def Let_def split: if_splits)

lemma removeSubscription_rel:
  assumes "owner \<noteq> 0" and "name \<noteq> []" and "sub \<noteq> 0" and "c \<noteq> []"
  shows "vsubs (snd (removeSubscription owner name sub c h)) = vsubs h - {(varKey owner name, sub, c)}"
    and "vidx (snd (removeSubscription owner name sub c h)) = vidx h - {(c, varKey owner name)}"
proof -
  let ?k = "varKey owner name" and ?h = "snd (removeSubscription owner name sub c h)"
  have cs: "vconnSubs ?h = dropConnKey ?k c (vconnSubs h)"
    using assms by (auto simp: removeSubscription_def removeSubscriptionByKey_def Let_def split: option.split)
  show "vidx ?h = vidx h - {(c, ?k)}" by (auto simp: vidx_def cs dropConnKey_get split: if_splits)
  have "gget [] (gget [] (subscriptions ?h) k) n =
      (if k = ?k \<and> n = sub then sdel c (gget [] (gget [] (subscriptions h) k) n) else gget [] (gget [] (subscriptions h) k) n)" for k n
  proof (cases "map_of (subscriptions h) ?k")
    case None
    then show ?thesis using assms
      by (auto simp: removeSubscription_def removeSubscriptionByKey_def gget_def[of "[]" "subscriptions h"] sdel_def Let_def)
  next
    case (Some subs)
    define subs' where "subs' = (case map_of subs sub of None \<Rightarrow> subs
        | Some conns \<Rightarrow> if sdel c conns = [] then gdel sub subs else gput sub (sdel c conns) subs)"
    have s': "gget [] subs' n = (if n = sub then sdel c (gget [] subs n) else gget [] subs n)" for n
      by (auto simp: subs'_def gget_def delete_conv' update_conv' sdel_def split: option.split)
    have "gget [] (subscriptions ?h) k = (if k = ?k then subs' else gget [] (subscriptions h) k)" for k
      using assms Some
      by (auto simp: removeSubscription_def removeSubscriptionByKey_def subs'_def Let_def split: option.split)
    moreover have "gget [] (subscriptions h) ?k = subs" using Some by (simp add: gget_def)
    ultimately show ?thesis by (auto simp: s')
  qed
  then show "vsubs ?h = vsubs h - {(?k, sub, c)}" by (auto simp: vsubs_def split: if_splits)
qed

lemma clear_rel:
  assumes "innerwf (subscriptions h)"
  shows "vsubs (snd (clearSubscriptionsExcept k keep h)) = vsubs h - {(k, n, c) |n c. n \<noteq> keep}"
    and "vidx (snd (clearSubscriptionsExcept k keep h)) = vidx h - {(c, k) |c. \<exists>n. n \<noteq> keep \<and> (k, n, c) \<in> vsubs h}"
proof -
  let ?h = "snd (clearSubscriptionsExcept k keep h)" and ?subs = "gget [] (subscriptions h) k"
  let ?kept = "filter (\<lambda>(n, _). n = keep) ?subs" and ?gone = "filter (\<lambda>(n, _). n \<noteq> keep) ?subs"
  have wf: "wf_gomap ?subs" using assms by (simp add: innerwf_def)
  have "gget [] (gget [] (subscriptions ?h) j) n = (if j = k \<and> n \<noteq> keep then [] else gget [] (gget [] (subscriptions h) j) n)" for j n
  proof (cases "?subs = []")
    case True
    then show ?thesis by (simp add: clearSubscriptionsExcept_def Let_def)
  next
    case False
    have kept: "gget [] ?kept n = (if n = keep then gget [] ?subs n else [])" for n by (rule gget_filter_key)
    have none: "gget [] ?subs keep = []" if "?kept = []" using kept[of keep] unfolding that by simp
    have "gget [] (gget [] (subscriptions ?h) k) n = gget [] ?kept n" for n
      using False none by (auto simp: clearSubscriptionsExcept_def Let_def kept)
    moreover have "gget [] (subscriptions ?h) j = gget [] (subscriptions h) j" if "j \<noteq> k"
      using that by (simp add: clearSubscriptionsExcept_def Let_def)
    ultimately show ?thesis by (cases "j = k") (simp_all add: kept)
  qed
  then show "vsubs ?h = vsubs h - {(k, n, c) |n c. n \<noteq> keep}" by (auto simp: vsubs_def split: if_splits)
  have mem: "c \<in> set (concat (map snd ?gone)) \<longleftrightarrow> (\<exists>n. n \<noteq> keep \<and> (k, n, c) \<in> vsubs h)" for c
    unfolding vsubs_def using gget_member[OF wf] by fastforce
  have "set (gget [] (vconnSubs ?h) c) = set (gget [] (vconnSubs h) c) - (if c \<in> set (concat (map snd ?gone)) then {k} else {})" for c
    using dropConnKeys_get[of k "concat (map snd ?gone)" "vconnSubs h" c]
    by (cases "?subs = []") (simp_all add: clearSubscriptionsExcept_def Let_def)
  then show "vidx ?h = vidx h - {(c, k) |c. \<exists>n. n \<noteq> keep \<and> (k, n, c) \<in> vsubs h}"
    unfolding vidx_def mem by (auto split: if_splits)
qed

lemma dropConnFromKey_get:
  assumes "innerwf m"
  shows "gget [] (gget [] (dropConnFromKey c m key) k) n =
      (if k = key then sdel c (gget [] (gget [] m k) n) else gget [] (gget [] m k) n)"
    and "innerwf (dropConnFromKey c m key)"
proof -
  let ?f = "\<lambda>conns. let x = sdel c conns in if x = [] then None else Some x"
  let ?subs = "gget [] m key"
  have wf: "wf_gomap ?subs" using assms by (simp add: innerwf_def)
  have me: "gget [] (map_entries ?f ?subs) n = sdel c (gget [] ?subs n)" for n
    by (auto simp: gget_def map_of_map_entries[OF wf[unfolded gget_def]] Let_def sdel_def split: option.split)
  have d: "gget [] (dropConnFromKey c m key) k = (if k = key then map_entries ?f ?subs else gget [] m k)" for k
    by (auto simp: dropConnFromKey_def gget_def[of "[]" m] Let_def split: option.split)
  show "gget [] (gget [] (dropConnFromKey c m key) k) n =
      (if k = key then sdel c (gget [] (gget [] m k) n) else gget [] (gget [] m k) n)"
    by (simp add: d me)
  show "innerwf (dropConnFromKey c m key)"
    unfolding innerwf_def d using assms by (auto simp: innerwf_def)
qed

lemma dropConnLoop:
  "innerwf m \<Longrightarrow> innerwf (foldl (dropConnFromKey c) m keys) \<and>
     set (gget [] (gget [] (foldl (dropConnFromKey c) m keys) k) n) =
       set (gget [] (gget [] m k) n) - (if k \<in> set keys then {c} else {})"
proof (induction keys arbitrary: m)
  case (Cons key keys)
  from Cons.IH[OF dropConnFromKey_get(2)[OF Cons.prems, of c key]] show ?case
    by (auto simp: dropConnFromKey_get(1)[OF Cons.prems])
qed simp

lemma removeConnSubscriptions_rel:
  assumes "innerwf (subscriptions h)" and "c \<noteq> []"
  shows "vsubs (snd (removeConnSubscriptions c h)) = vsubs h - {(k, n, c) |k n. (c, k) \<in> vidx h}"
    and "vidx (snd (removeConnSubscriptions c h)) = vidx h - {c} \<times> UNIV"
    and "set (fst (removeConnSubscriptions c h)) = {k. (c, k) \<in> vidx h}"
    and "innerwf (subscriptions (snd (removeConnSubscriptions c h)))"
proof -
  let ?ks = "gget [] (vconnSubs h) c"
  have s: "subscriptions (snd (removeConnSubscriptions c h)) = foldl (dropConnFromKey c) (subscriptions h) ?ks"
    and v: "vconnSubs (snd (removeConnSubscriptions c h)) = (if map_of (vconnSubs h) c = None then vconnSubs h else gdel c (vconnSubs h))"
    and k: "fst (removeConnSubscriptions c h) = ?ks"
    using assms(2) by (auto simp: removeConnSubscriptions_def gget_def split: option.split)
  note loop = dropConnLoop[OF assms(1), of c ?ks]
  show "vsubs (snd (removeConnSubscriptions c h)) = vsubs h - {(k, n, c) |k n. (c, k) \<in> vidx h}"
    unfolding vsubs_def vidx_def s using loop by (auto split: if_splits)
  show "innerwf (subscriptions (snd (removeConnSubscriptions c h)))" unfolding s using loop by blast
  show "vidx (snd (removeConnSubscriptions c h)) = vidx h - {c} \<times> UNIV"
    by (auto simp: vidx_def v gget_def delete_conv' split: if_splits option.splits)
  show "set (fst (removeConnSubscriptions c h)) = {k. (c, k) \<in> vidx h}" by (simp add: k vidx_def)
qed

lemma innerwf_ops:
  assumes "innerwf (subscriptions h)"
  shows "innerwf (subscriptions (addSubscription owner name sub c h))"
    and "innerwf (subscriptions (snd (removeSubscription owner name sub c h)))"
    and "innerwf (subscriptions (snd (clearSubscriptionsExcept k keep h)))"
proof -
  have wf: "wf_gomap (gget [] (subscriptions h) j)" for j using assms by (simp add: innerwf_def)
  show "innerwf (subscriptions (addSubscription owner name sub c h))"
    using wf by (auto simp: addSubscription_def innerwf_def Let_def)
  have "wf_gomap subs" if "map_of (subscriptions h) j = Some subs" for j subs
    using wf[of j] that by (simp add: gget_def)
  then show "innerwf (subscriptions (snd (removeSubscription owner name sub c h)))"
    using wf by (auto simp: removeSubscription_def removeSubscriptionByKey_def innerwf_def Let_def split: option.split)
  show "innerwf (subscriptions (snd (clearSubscriptionsExcept k keep h)))"
    using wf by (auto simp: clearSubscriptionsExcept_def innerwf_def Let_def intro: distinct_map_filter)
qed

text \<open>The critical sections on subscriptions, and their meaning on the two relations.\<close>

datatype subSection =
    SsAdd nodeID string nodeID string
  | SsRemove nodeID string nodeID string
  | SsClear nodeID string nodeID
  | SsClose string

fun subSectionOK :: "subSection \<Rightarrow> bool" where
  "subSectionOK (SsAdd owner name sub c) = (owner \<noteq> 0 \<and> name \<noteq> [] \<and> sub \<noteq> 0 \<and> c \<noteq> [])"
| "subSectionOK (SsRemove owner name sub c) = (owner \<noteq> 0 \<and> name \<noteq> [] \<and> sub \<noteq> 0 \<and> c \<noteq> [])"
| "subSectionOK (SsClear owner name keep) = True"
| "subSectionOK (SsClose c) = (c \<noteq> [])"

definition subSectionStep :: "'p varState \<Rightarrow> subSection \<Rightarrow> 'p varState" where
  "subSectionStep h ev =
     (case ev of
        SsAdd owner name sub c \<Rightarrow> addSubscription owner name sub c h
      | SsRemove owner name sub c \<Rightarrow> snd (removeSubscription owner name sub c h)
      | SsClear owner name keep \<Rightarrow> snd (clearSubscriptionsExcept (varKey owner name) keep h)
      | SsClose c \<Rightarrow> snd (removeConnSubscriptions c h))"

type_synonym subRel = "(string \<times> nodeID \<times> string) set \<times> (string \<times> string) set"

fun subRelStep :: "subRel \<Rightarrow> subSection \<Rightarrow> subRel" where
  "subRelStep (R, I) (SsAdd owner name sub c) =
     (insert (varKey owner name, sub, c) R, insert (c, varKey owner name) I)"
| "subRelStep (R, I) (SsRemove owner name sub c) =
     (R - {(varKey owner name, sub, c)}, I - {(c, varKey owner name)})"
| "subRelStep (R, I) (SsClear owner name keep) =
     (R - {(varKey owner name, n, c) |n c. n \<noteq> keep},
      I - {(c, varKey owner name) |c. \<exists>n. n \<noteq> keep \<and> (varKey owner name, n, c) \<in> R})"
| "subRelStep (R, I) (SsClose c) = (R - {(k, n, c) |k n. (c, k) \<in> I}, I - {c} \<times> UNIV)"

definition subinv :: "'p varState \<Rightarrow> bool" where
  "subinv h = (innerwf (subscriptions h) \<and> (\<forall>(c, k)\<in>vidx h. \<exists>n. (k, n, c) \<in> vsubs h))"

interpretation subsec: refining_machine subSectionStep subinv subSectionOK "\<lambda>h. (vsubs h, vidx h)" subRelStep
proof
  fix h :: "'p varState" and ev
  assume inv: "subinv h" and ok: "subSectionOK ev"
  have wf: "innerwf (subscriptions h)" using inv by (simp add: subinv_def)
  show step: "(vsubs (subSectionStep h ev), vidx (subSectionStep h ev)) = subRelStep (vsubs h, vidx h) ev"
  proof (cases ev)
    case (SsClear owner name keep)
    then show ?thesis using clear_rel[OF wf, of "varKey owner name" keep] by (simp add: subSectionStep_def)
  next
    case (SsClose c)
    then show ?thesis using removeConnSubscriptions_rel[OF wf] ok by (simp add: subSectionStep_def)
  qed (use ok in \<open>simp_all add: subSectionStep_def addSubscription_rel removeSubscription_rel\<close>)
  have "innerwf (subscriptions (subSectionStep h ev))"
    using ok innerwf_ops[OF wf] removeConnSubscriptions_rel(4)[OF wf] by (cases ev) (simp_all add: subSectionStep_def)
  moreover have "\<forall>(c, k)\<in>snd (subRelStep (R, I) ev). \<exists>n. (k, n, c) \<in> fst (subRelStep (R, I) ev)"
    if "\<forall>(c, k)\<in>I. \<exists>n. (k, n, c) \<in> R" for R I
    using that ok by (cases ev) (simp_all, fastforce+)
  from this[of "vidx h" "vsubs h"]
  have "\<forall>(c, k)\<in>vidx (subSectionStep h ev). \<exists>n. (k, n, c) \<in> vsubs (subSectionStep h ev)"
    unfolding step[symmetric] fst_conv snd_conv using inv by (simp add: subinv_def)
  ultimately show "subinv (subSectionStep h ev)" by (simp add: subinv_def)
qed

subsection \<open>Properties\<close>

lemma varinv_new: "varinv (newVarStore seed p)" "varView (newVarStore seed p) = (\<lambda>_. None)"
  by (auto simp: newVarStore_def varinv_def varView_def lookupOwned_def fun_eq_iff)

lemma cache_exact: "varinv h \<Longrightarrow> set (gget [] (vcache h) n) = {owner. lookupOwned owner n h \<noteq> None}"
  using varinvD(1)[of h _ n] varinv_key[of h _ n] by (auto simp: lookupOwned_def)

text \<open>
  C20: Under every sequence of saves, deletions and reloads, in whatever order the goroutines perform them, the
  record store is a map from owner and name to the record last saved and not deleted (the textual keys never confuse two variables), and the
  cache lists for every name exactly the owners that have such a record.
\<close>
theorem varstore_records_exact:
  "varView (foldl varSectionStep (newVarStore seed p) evs) = foldl viewSection (\<lambda>_. None) evs \<and>
   (\<forall>name. set (gget [] (vcache (foldl varSectionStep (newVarStore seed p) evs)) name) =
      {owner. lookupOwned owner name (foldl varSectionStep (newVarStore seed p) evs) \<noteq> None})"
proof -
  have all: "list_all (\<lambda>_. True) evs" by (simp add: list.pred_True)
  have "varinv (foldl varSectionStep (newVarStore seed p) evs)" by (rule varsec.run_inv[OF varinv_new(1) all])
  then show ?thesis
    using varsec.run_refines[OF varinv_new(1) all, of seed p] varinv_new(2)[of seed p] cache_exact by auto
qed

text \<open>A record whose flag agrees with its visibility, as the persisted document will be read.\<close>

definition recConsistent :: "varRecord \<Rightarrow> bool" where
  "recConsistent r = (trimSpace (rVisibility r) = rVisibility r \<and> rVisibility r \<noteq> [] \<and>
     rIsPublic r = equalFold (rVisibility r) visibilityPublic)"

lemma docRecord_docOf: "recConsistent r \<Longrightarrow> docRecord (docOf n r) = r"
  by (auto simp: recConsistent_def docRecord_def docOf_def Let_def)

lemma docKey_docOf: "validVarName n \<Longrightarrow> docKey (docOf n r) = (rOwner r, n)"
  by (simp add: docKey_def docOf_def validVarName_trim Let_def)

lemma docOK_docOf: "validVarName n \<Longrightarrow> rOwner r \<noteq> 0 \<Longrightarrow> docOK (docOf n r)"
  by (simp add: docOK_def docOf_def validVarName_trim Let_def)

lemma memory_persist:
  assumes "meminv (vstore h)" and "validVarName name" and "rOwner rec \<noteq> 0"
    and "persistRecord memoryPersistence name rec h = (err, h1)"
  shows "\<not> err \<and> meminv (vstore h1) \<and> memstore.restartView (vstore h1) =
      (memstore.restartView (vstore h))((rOwner rec, name) \<mapsto> docRecord (docOf name rec))"
proof -
  let ?d = "docOf name rec"
  have ok: "docOK ?d" by (rule docOK_docOf[OF assms(2,3)])
  then have "fst (pSave memoryPersistence ?d (vstore h)) = False"
    by (auto simp: memoryPersistence_def memSave_def docOK_def validVarName_def Let_def)
  then obtain p' where sv: "pSave memoryPersistence ?d (vstore h) = (False, p')" by (metis prod.collapse)
  with assms(4) have "\<not> err" "vstore h1 = p'" by (auto simp: persistRecord_def)
  with memstore.restart_save[OF assms(1) sv ok] show ?thesis by (simp add: docKey_docOf[OF assms(2)])
qed

text \<open>
  C34: With the memory persistence, persisting a valid record succeeds, and a handler that reloads its
  records afterwards finds exactly this record under its owner and name and, everywhere else, what it would
  have found before.
\<close>
theorem varstore_restart_roundtrip:
  assumes "meminv (vstore h)" and "validVarName name" and "rOwner rec \<noteq> 0" and "recConsistent rec"
    and "persistRecord memoryPersistence name rec h = (err, h1)"
    and "loadPersistedRecords memoryPersistence h1 = (lerr, h2)"
    and "loadPersistedRecords memoryPersistence h = (berr, h0)"
  shows "\<not> err \<and> \<not> lerr \<and> varView h2 = (varView h0)((rOwner rec, name) \<mapsto> rec)"
proof -
  note m = memory_persist[OF assms(1-3,5)]
  have "\<not> lerr \<and> varView h2 = memstore.restartView (vstore h1)"
    using memstore.restart_reads[of h1] m assms(6) by auto
  moreover have "varView h0 = memstore.restartView (vstore h)"
    using memstore.restart_reads[OF assms(1)] assms(7) by auto
  ultimately show ?thesis using m docRecord_docOf[OF assms(4)] by simp
qed

definition demoRec :: varRecord where
  "demoRec = \<lparr>rValue = ''42'', rOwner = 7, rIsPublic = True, rVisibility = ''public'', rType = ''string''\<rparr>"

lemma meminv_empty: "meminv []"
  by (simp add: meminv_def)

theorem varstore_restart_roundtrip_witness:
  "\<not> fst (persistRecord memoryPersistence ''temp'' demoRec (newVarStore 0 [])) \<and>
   varView (snd (loadPersistedRecords memoryPersistence
     (snd (persistRecord memoryPersistence ''temp'' demoRec (newVarStore 0 []))))) (7, ''temp'') = Some demoRec"
proof -
  let ?h = "newVarStore 0 [] :: memStore varState"
  have "meminv (vstore ?h)" by (simp add: newVarStore_def meminv_empty)
  moreover have "validVarName ''temp''" by code_simp
  moreover have "recConsistent demoRec"
  proof -
    have "trimSpace ''public'' = ''public''" by code_simp
    then show ?thesis by (simp add: recConsistent_def demoRec_def visibilityPublic_def equalFold_def)
  qed
  ultimately show ?thesis
    using varstore_restart_roundtrip[of ?h "''temp''" demoRec, OF _ _ _ _ prod.collapse[symmetric] prod.collapse[symmetric] prod.collapse[symmetric]]
    by (simp add: demoRec_def)
qed

text \<open>
  C33: Subscriptions and their index by connection follow the two relations of the specification
  under every interleaving of the critical sections; whatever the index lists is a subscription.
\<close>
theorem varstore_subscriptions_refine:
  assumes "list_all subSectionOK evs" and "foldl subSectionStep (newVarStore seed p) evs = h"
  shows "(vsubs h, vidx h) = foldl subRelStep ({}, {}) evs \<and> (\<forall>(c, k)\<in>vidx h. \<exists>n. (k, n, c) \<in> vsubs h)"
proof -
  have inv: "subinv (newVarStore seed p)" and rel: "vsubs (newVarStore seed p) = {}" "vidx (newVarStore seed p) = {}"
    by (simp_all add: newVarStore_def subinv_def innerwf_def vsubs_def vidx_def)
  show ?thesis
    using subsec.run_refines[OF inv assms(1)] subsec.run_inv[OF inv assms(1)] assms(2) by (simp add: rel subinv_def)
qed

theorem varstore_subscriptions_refine_witness:
  "vsubs (foldl subSectionStep (newVarStore 0 ([] :: memStore)) [SsAdd 7 ''t'' 3 ''c'']) = {(varKey 7 ''t'', 3, ''c'')}"
  using varstore_subscriptions_refine[of "[SsAdd 7 ''t'' 3 ''c'']" 0 "[] :: memStore", OF _ refl] by simp

text \<open>
  When two nodes behind the same connection subscribed to a variable and one of them
  unsubscribes, the connection's index entry is dropped although the other subscription remains; closing
  the connection then leaves that subscription behind for ever (and with it the subscription at the parent).
\<close>
theorem varstore_shared_conn_leak:
  assumes "owner \<noteq> 0" and "name \<noteq> []" and "s1 \<noteq> 0" and "s2 \<noteq> 0" and "s1 \<noteq> s2" and "c \<noteq> []"
    and "h = foldl subSectionStep (newVarStore seed p)
      [SsAdd owner name s1 c, SsAdd owner name s2 c, SsRemove owner name s1 c, SsClose c]"
  shows "(varKey owner name, s2, c) \<in> vsubs h"
proof -
  have inv: "subinv (newVarStore seed p)"
    by (simp add: newVarStore_def subinv_def innerwf_def vidx_def)
  show ?thesis
    using subsec.run_refines[OF inv, of "[SsAdd owner name s1 c, SsAdd owner name s2 c, SsRemove owner name s1 c, SsClose c]"]
      assms by (simp add: newVarStore_def vidx_def)
qed

theorem varstore_shared_conn_leak_witness:
  "(varKey 7 ''t'', 4, ''c'') \<in> vsubs (foldl subSectionStep (newVarStore 0 ([] :: memStore))
      [SsAdd 7 ''t'' 3 ''c'', SsAdd 7 ''t'' 4 ''c'', SsRemove 7 ''t'' 3 ''c'', SsClose ''c''])"
  using varstore_shared_conn_leak[OF _ _ _ _ _ _ refl, of 7 "''t''" 3 4 "''c''" 0 "[] :: memStore"] by simp

text \<open>
  The identifiers under which writes are passed to the parent are never 0 and do not repeat
  within any 4294967295 consecutive ones, wherever the random start value lies.
\<close>
theorem varstore_write_ids_distinct:
  assumes "n \<le> 2 ^ 32 - 1"
  shows "distinct (writeIDs n h) \<and> 0 \<notin> set (writeIDs n h)"
proof
  show "distinct (writeIDs n h)"
    unfolding distinct_conv_nth
  proof (intro allI impI notI)
    fix i j assume "i < length (writeIDs n h)" "j < length (writeIDs n h)" "i \<noteq> j" "writeIDs n h ! i = writeIDs n h ! j"
    then have "(unat (writeMsgSeq h) + i) mod (2 ^ 32 - 1) = (unat (writeMsgSeq h) + j) mod (2 ^ 32 - 1)"
      using writeIDs_nth[of i n h] writeIDs_nth[of j n h] by simp
    then show False
      using mod_add_inj[of "unat (writeMsgSeq h)" i "2 ^ 32 - 1" j] \<open>i < _\<close> \<open>j < _\<close> \<open>i \<noteq> j\<close> assms by simp
  qed
  show "0 \<notin> set (writeIDs n h)"
  proof
    assume "0 \<in> set (writeIDs n h)"
    then obtain i where "i < n" "writeIDs n h ! i = 0" by (auto simp: in_set_conv_nth)
    with writeIDs_nth[of i n h] show False by simp
  qed
qed

theorem varstore_write_ids_distinct_witness:
  "distinct (writeIDs 3 (newVarStore (2 ^ 32 - 2) ([] :: memStore)))"
  using varstore_write_ids_distinct[of 3 "newVarStore (2 ^ 32 - 2) ([] :: memStore)"] by simp

text \<open>
  A write passed to the parent is remembered for less than 105 seconds (the lifetime plus the sweep
  interval): whatever happened before, after any received frame every entry of the table is younger than that.
\<close>
theorem varstore_write_lifetime:
  assumes "0 < t0" and "list_all (\<lambda>(dt, _). 0 \<le> dt) evs" and "0 \<le> dt"
    and "foldl writeStep (t0, newVarStore seed p) (evs @ [(dt, WeFrame)]) = (now, h)"
    and "map_of (vwriting h) i = Some w"
  shows "now - 105 * 1000000000 < createdAt w \<and> createdAt w \<le> now"
proof -
  obtain t h0 where 0: "foldl writeStep (t0, newVarStore seed p) evs = (t, h0)" by fastforce
  have init: "writeAgeInv (t0, newVarStore seed p)"
    using assms(1) by (simp add: writeAgeInv_def newVarStore_def vwf_def)
  have inv0: "writeAgeInv (t, h0)" using writeAge.run_inv[OF init assms(2)] 0 by simp
  have now: "now = t + dt" "h = maybeSweepWriting now h0" using assms(4) 0 by (auto simp: writeStep_def Let_def)
  have inv: "writeAgeInv (now, h)" using writeAge_sweep[OF inv0, of now] now assms(3) by simp
  have "now - sweepAt h < pendingWriteSweepInterval"
    unfolding now(2) by (auto simp: maybeSweepWriting_def pendingWriteSweepInterval_def Let_def)
  with writeAgeD(4)[OF inv assms(5)] show ?thesis
    by (simp add: pendingWriteTTL_def pendingWriteSweepInterval_def)
qed

definition demoWaiter :: pendingWaiter where
  "demoWaiter = \<lparr>wConn = ''c'', wRequester = 3, wMsgID = 5, wTraceID = 0\<rparr>"

theorem varstore_write_lifetime_witness:
  "let (now, h) = foldl writeStep (1, newVarStore 0 ([] :: memStore)) [(100, WeAdd 9 demoWaiter), (20000000000, WeFrame)] in
   map_of (vwriting h) 9 = Some \<lparr>createdAt = 101, writeWaiters = [demoWaiter]\<rparr> \<and> now - 105 * 1000000000 < 101"
proof -
  let ?h = "newVarStore 0 ([] :: memStore)"
  obtain now h where run: "foldl writeStep (1, ?h) ([(100, WeAdd 9 demoWaiter)] @ [(20000000000, WeFrame)]) = (now, h)"
    by fastforce
  have "map_of (vwriting (snd (foldl writeStep (1, ?h) ([(100, WeAdd 9 demoWaiter)] @ [(20000000000, WeFrame)])))) 9 =
      Some \<lparr>createdAt = 101, writeWaiters = [demoWaiter]\<rparr>"
    by (simp add: writeStep_def newVarStore_def addPendingWrite_def maybeSweepWriting_def demoWaiter_def
        pendingWriteTTL_def pendingWriteSweepInterval_def Let_def)
  then have w: "map_of (vwriting h) 9 = Some \<lparr>createdAt = 101, writeWaiters = [demoWaiter]\<rparr>" using run by simp
  from varstore_write_lifetime[OF _ _ _ run w] w run show ?thesis by simp
qed

text \<open>
  Closing a connection forgets all its waiting requests, in each of the three tables, and keeps the
  requests of every other connection, in their order.
\<close>
theorem varstore_close_forgets_waiters:
  assumes "vwf h" and "c \<noteq> []" and "h' = removeConnPending c h"
  shows "fst (popPending owner name kind h') = filter (\<lambda>w. wConn w \<noteq> c) (fst (popPending owner name kind h)) \<and>
    fst (popPendingSubscribe owner name h') = filter (\<lambda>w. wConn w \<noteq> c) (fst (popPendingSubscribe owner name h)) \<and>
    fst (popPendingWrite i h') = filter (\<lambda>w. wConn w \<noteq> c) (fst (popPendingWrite i h))"
  unfolding assms(3) using removeConnPending_pops[OF assms(1,2)] by blast

theorem varstore_close_forgets_waiters_witness:
  "fst (popPending 7 ''t'' PkGet (removeConnPending ''c''
     (addPending 7 ''t'' ''d'' PkGet None (addPending 7 ''t'' ''c'' PkGet None (newVarStore 0 ([] :: memStore)))))) =
   [\<lparr>wConn = ''d'', wRequester = 0, wMsgID = 0, wTraceID = 0\<rparr>]"
proof -
  let ?h = "addPending 7 ''t'' ''d'' PkGet None (addPending 7 ''t'' ''c'' PkGet None (newVarStore 0 ([] :: memStore)))"
  have "vwf (newVarStore 0 ([] :: memStore))" by (simp add: vwf_def newVarStore_def)
  then have "vwf ?h" by (intro vwf_ops(1))
  from varstore_close_forgets_waiters[OF this _ refl, of "''c''" 7 "''t''" PkGet] show ?thesis
    by (simp add: popPending_def addPending_def newVarStore_def gget_def Let_def)
qed

end
