(* ===== verification/Var_Store.thy ===== *)
theory Var_Store
  imports Var_State
begin

text \<open>
  The message handlers of \<open>varstore\<close> (\<open>varstore/varstore.go\<close>, \<open>actions.go\<close>, \<open>helpers.go\<close>): reading, writing, listing, revoking and
  subscribing to variables, the responses from the parent, the notifications in both
  directions, the forwarding of frames by their header, and the capabilities.

  JSON is abstracted: \<open>varBody\<close> holds, for every type the code decodes a message body into, whether
  \<open>json.Unmarshal\<close> succeeds and what it leaves in the struct. A handler returns the new state and its
  effects in order. Node, connections and permissions come from the framework (\<open>varEnv\<close>): \<open>permission.SourceNodeID\<close>,
  \<open>permCfg.Has\<close>, \<open>header.CloneToTCPForForward\<close> and the action names of \<open>protocol\<close> are parameters. The framework
  calls handlers with a connection and a header; only where the code passes a nil header itself the model has an option.
\<close>

datatype varAction =
    VaSet | VaAssistSet | VaSetResp | VaAssistSetResp | VaUpSet | VaNotifySet
  | VaGet | VaAssistGet | VaGetResp | VaAssistGetResp
  | VaList | VaAssistList | VaListResp | VaAssistListResp
  | VaRevoke | VaAssistRevoke | VaRevokeResp | VaAssistRevokeResp | VaUpRevoke | VaNotifyRevoke
  | VaSubscribe | VaAssistSubscribe | VaSubscribeResp | VaAssistSubscribeResp
  | VaUnsubscribe | VaAssistUnsubscribe | VaVarChanged | VaVarDeleted
  | VaOther string

record getReq =
  gName :: string
  gOwner :: nodeID

record subscribeReq =
  sName :: string
  sOwner :: nodeID
  sSubscriber :: nodeID

record varResp =
  vrCode :: int
  vrMsg :: string
  vrName :: string
  vrValue :: string
  vrOwner :: nodeID
  vrVisibility :: string
  vrType :: string
  vrNames :: "string list"

definition zeroResp :: varResp where
  "zeroResp = \<lparr>vrCode = 0, vrMsg = [], vrName = [], vrValue = [], vrOwner = 0, vrVisibility = [], vrType = [], vrNames = []\<rparr>"

datatype varData =
    VdResp varResp
  | VdSet varDoc
  | VdGet getReq
  | VdList nodeID
  | VdSub subscribeReq

text \<open>The body of a message: for each target type, success of decoding and the struct afterwards.\<close>

record varBody =
  bSet :: "bool \<times> varDoc"
  bGet :: "bool \<times> getReq"
  bList :: "bool \<times> nodeID"
  bSub :: "bool \<times> subscribeReq"
  bResp :: "bool \<times> varResp"

datatype varPerm = VarPrivateSet | VarRevoke | VarSubscribe

datatype varOut =
    VSend string header varAction varData
  | VDirect conn header varAction varData
  | VRelay string header
  | VEvent string nodeID string "string option" "string option"
  | VIndex nodeID string

record varEnv =
  vServer :: "server option"
  vSourceNode :: "header option \<Rightarrow> conn \<Rightarrow> nodeID"
  vPermCfg :: "(nodeID \<Rightarrow> varPerm \<Rightarrow> bool) option"
  vCloneFwd :: "header \<Rightarrow> header option"
  vActName :: "varAction \<Rightarrow> string"
  vNow :: int

subsection \<open>Helpers\<close>

definition chooseSetResp :: "bool \<Rightarrow> varAction" where
  "chooseSetResp assisted = (if assisted then VaAssistSetResp else VaSetResp)"

definition chooseGetResp :: "bool \<Rightarrow> varAction" where
  "chooseGetResp assisted = (if assisted then VaAssistGetResp else VaGetResp)"

definition chooseListResp :: "bool \<Rightarrow> varAction" where
  "chooseListResp assisted = (if assisted then VaAssistListResp else VaListResp)"

definition chooseRevokeResp :: "bool \<Rightarrow> varAction" where
  "chooseRevokeResp assisted = (if assisted then VaAssistRevokeResp else VaRevokeResp)"

definition chooseSubscribeResp :: "bool \<Rightarrow> varAction" where
  "chooseSubscribeResp assisted = (if assisted then VaAssistSubscribeResp else VaSubscribeResp)"

definition hdrSourceID :: "header option \<Rightarrow> nodeID" where
  "hdrSourceID oh = (case oh of None \<Rightarrow> 0 | Some x \<Rightarrow> hSourceID x)"

definition hasPermission :: "varEnv \<Rightarrow> nodeID \<Rightarrow> varPerm \<Rightarrow> bool" where
  "hasPermission env node perm = (case vPermCfg env of None \<Rightarrow> False | Some has \<Rightarrow> has node perm)"

definition ownerInSubtree :: "varEnv \<Rightarrow> nodeID \<Rightarrow> bool" where
  "ownerInSubtree env owner =
     (owner \<noteq> 0 \<and>
      (case vServer env of
         None \<Rightarrow> False
       | Some srv \<Rightarrow> sNodeID srv = owner \<or> sByNode srv owner \<noteq> None))"

definition ownerConnID :: "server \<Rightarrow> nodeID \<Rightarrow> string" where
  "ownerConnID srv owner =
     (if owner = 0 then [] else case sByNode srv owner of Some c \<Rightarrow> cID c | None \<Rightarrow> [])"

definition lookupConn :: "varEnv \<Rightarrow> string \<Rightarrow> conn option" where
  "lookupConn env i = (case vServer env of None \<Rightarrow> None | Some srv \<Rightarrow> sGet srv i)"

text \<open>The node metadata as the header functions read it: only an \<open>uint32\<close> counts.\<close>

definition metaNode32 :: "conn \<Rightarrow> nodeID option" where
  "metaNode32 c = (case cNode c of Some (MUint32 v) \<Rightarrow> Some v | _ \<Rightarrow> None)"

definition isPublicText :: "string \<Rightarrow> bool" where
  "isPublicText v = (toLower v = visibilityPublic)"

definition varBuildRespHeader :: "conn option \<Rightarrow> header option \<Rightarrow> header" where
  "varBuildRespHeader oc reqHdr =
     (let src = hdrSourceID reqHdr;
          target = (case oc of None \<Rightarrow> 0 | Some c \<Rightarrow> (case metaNode32 c of Some v \<Rightarrow> v | None \<Rightarrow> 0));
          hdr = zeroHeader\<lparr>hMajor := MajorCmd, hSubProto := 3, hSourceID := src, hTargetID := target\<rparr>
      in case reqHdr of
           None \<Rightarrow> hdr
         | Some r \<Rightarrow> hdr\<lparr>hMsgID := hMsgID r, hTraceID := hTraceID r\<rparr>)"

text \<open>A successful list response carries only code, message, owner and names.\<close>

definition marshalRespData :: "varAction \<Rightarrow> varResp \<Rightarrow> varResp" where
  "marshalRespData act d =
     (if (act = VaListResp \<or> act = VaAssistListResp) \<and> vrCode d = 1
      then zeroResp\<lparr>vrCode := vrCode d, vrMsg := vrMsg d, vrOwner := vrOwner d, vrNames := vrNames d\<rparr>
      else d)"

definition sendResp :: "varEnv \<Rightarrow> conn option \<Rightarrow> header option \<Rightarrow> varAction \<Rightarrow> varResp \<Rightarrow> varOut list" where
  "sendResp env oc reqHdr act d =
     (let dat = VdResp (marshalRespData act d); hdr = varBuildRespHeader oc reqHdr
      in case oc of
           None \<Rightarrow> []
         | Some c \<Rightarrow> (case vServer env of
             Some srv \<Rightarrow> [VSend (cID c) hdr act dat]
           | None \<Rightarrow> [VDirect c hdr act dat]))"

text \<open>\<open>forward\<close> is \<open>forwardWithMsg\<close> with both identifiers 0.\<close>

definition varForwardWithMsg ::
  "varEnv \<Rightarrow> conn \<Rightarrow> varAction \<Rightarrow> varData \<Rightarrow> nodeID \<Rightarrow> 32 word \<Rightarrow> 32 word \<Rightarrow> varOut list" where
  "varForwardWithMsg env target act dat srcID msgID traceID =
     (let src = (if srcID = 0 then (case vServer env of Some srv \<Rightarrow> sNodeID srv | None \<Rightarrow> 0) else srcID);
          hdr = zeroHeader\<lparr>hMajor := MajorCmd, hSubProto := 3, hSourceID := src, hMsgID := msgID, hTraceID := traceID,
                  hTargetID := (case metaNode32 target of Some v \<Rightarrow> v | None \<Rightarrow> 0)\<rparr>
      in case vServer env of
           Some srv \<Rightarrow> [VSend (cID target) hdr act dat]
         | None \<Rightarrow> [VDirect target hdr act dat])"

definition varForward :: "varEnv \<Rightarrow> conn \<Rightarrow> varAction \<Rightarrow> varData \<Rightarrow> nodeID \<Rightarrow> varOut list" where
  "varForward env target act dat srcID =
     (let src = (if srcID = 0 then (case vServer env of Some srv \<Rightarrow> sNodeID srv | None \<Rightarrow> 0) else srcID);
          hdr = zeroHeader\<lparr>hMajor := MajorCmd, hSubProto := 3, hSourceID := src,
                  hTargetID := (case metaNode32 target of Some v \<Rightarrow> v | None \<Rightarrow> 0)\<rparr>
      in case vServer env of
           Some srv \<Rightarrow> [VSend (cID target) hdr act dat]
         | None \<Rightarrow> [VDirect target hdr act dat])"

text \<open>\<open>if parent := h.findParent(ctx); parent != nil { h.forward(...) }\<close>\<close>

definition forwardParent :: "varEnv \<Rightarrow> varAction \<Rightarrow> varData \<Rightarrow> nodeID \<Rightarrow> varOut list" where
  "forwardParent env act dat srcID =
     (case findParent (vServer env) of None \<Rightarrow> [] | Some p \<Rightarrow> varForward env p act dat srcID)"

definition nonEmpty :: "string \<Rightarrow> string option" where
  "nonEmpty s = (if trimSpace s \<noteq> [] then Some (trimSpace s) else None)"

definition varTriggerEvent ::
  "varEnv \<Rightarrow> string \<Rightarrow> nodeID \<Rightarrow> string \<Rightarrow> varRecord option \<Rightarrow> varOut list" where
  "varTriggerEvent env eventName owner name0 orec =
     (let name = trimSpace name0 in
      if owner = 0 \<or> name = [] \<or> trimSpace eventName = [] then []
      else case vServer env of
             None \<Rightarrow> []
           | Some srv \<Rightarrow>
               if sHasEventBus srv then
                 [case orec of
                    None \<Rightarrow> VEvent eventName owner name None None
                  | Some rec \<Rightarrow> VEvent eventName owner name (nonEmpty (rType rec)) (nonEmpty (rVisibility rec))]
               else [])"

subsection \<open>Notifying subscribers\<close>

definition notifyHeader :: "server \<Rightarrow> nodeID \<Rightarrow> header" where
  "notifyHeader srv node =
     zeroHeader\<lparr>hMajor := MajorCmd, hSubProto := 3, hSourceID := sNodeID srv, hTargetID := node\<rparr>"

definition changeResp :: "nodeID \<Rightarrow> string \<Rightarrow> varRecord \<Rightarrow> varResp" where
  "changeResp owner name rec =
     zeroResp\<lparr>vrCode := 1, vrName := name, vrOwner := owner, vrValue := rValue rec,
       vrVisibility := rVisibility rec, vrType := rType rec\<rparr>"

definition propagateChange ::
  "varEnv \<Rightarrow> nodeID \<Rightarrow> string \<Rightarrow> varRecord \<Rightarrow> nodeID list \<Rightarrow> 'p varState \<Rightarrow> varOut list" where
  "propagateChange env owner name rec excludes h =
     (case vServer env of
        None \<Rightarrow> []
      | Some srv \<Rightarrow>
          let skip = filter (\<lambda>i. i \<noteq> 0) excludes;
              subs = subscribersFor (varKey owner name) 0 h
          in varTriggerEvent env ''varstore.changed'' owner name (Some rec) @
             concat (map (\<lambda>(node, conns).
               if node \<in> set skip \<or> node = owner then []
               else map (\<lambda>cid. VSend cid (notifyHeader srv node) VaVarChanged (VdResp (changeResp owner name rec))) conns) subs))"

definition varUnsubscribeUpstreamOne ::
  "varEnv \<Rightarrow> server \<Rightarrow> 'p varState \<times> varOut list \<Rightarrow> string \<Rightarrow> 'p varState \<times> varOut list" where
  "varUnsubscribeUpstreamOne env srv st key =
     (let (h, outs) = st in
      if \<not> upstreamSubscribed key h \<or> subscriberCount key h > 0 then (h, outs)
      else
        let h' = markUpstreamSubscribed key False h; (owner, name) = splitKey key
        in case findParent (vServer env) of
             None \<Rightarrow> (h', outs)
           | Some parent \<Rightarrow>
               if owner = 0 \<or> name = [] then (h', outs)
               else (h', outs @ varForward env parent VaAssistUnsubscribe
                       (VdSub \<lparr>sName = name, sOwner = owner, sSubscriber = sNodeID srv\<rparr>) (sNodeID srv)))"

definition varMaybeUnsubscribeUpstream :: "varEnv \<Rightarrow> string list \<Rightarrow> 'p varState \<Rightarrow> 'p varState \<times> varOut list" where
  "varMaybeUnsubscribeUpstream env keys h =
     (if keys = [] then (h, [])
      else case vServer env of
             None \<Rightarrow> (h, [])
           | Some srv \<Rightarrow> foldl (varUnsubscribeUpstreamOne env srv) (h, []) keys)"

definition propagateDelete ::
  "varEnv \<Rightarrow> nodeID \<Rightarrow> string \<Rightarrow> nodeID \<Rightarrow> nodeID list \<Rightarrow> 'p varState \<Rightarrow> 'p varState \<times> varOut list" where
  "propagateDelete env owner name keepNode excludes h =
     (case vServer env of
        None \<Rightarrow> (h, [])
      | Some srv \<Rightarrow>
          let key = varKey owner name;
              skip = filter (\<lambda>i. i \<noteq> 0) excludes @ (if keepNode \<noteq> 0 then [keepNode] else []);
              outs1 = varTriggerEvent env ''varstore.deleted'' owner name None;
              outs2 = concat (map (\<lambda>(node, conns).
                        if node \<in> set skip then []
                        else map (\<lambda>cid. VSend cid (notifyHeader srv node) VaVarDeleted
                                  (VdResp (zeroResp\<lparr>vrCode := 1, vrName := name, vrOwner := owner\<rparr>))) conns)
                        (subscribersFor key 0 h));
              h1 = snd (clearSubscriptionsExcept key keepNode h);
              (h2, outs3) = varMaybeUnsubscribeUpstream env [key] h1
          in (h2, outs1 @ outs2 @ outs3))"

definition handleVisibilityDowngrade ::
  "varEnv \<Rightarrow> nodeID \<Rightarrow> string \<Rightarrow> nodeID \<Rightarrow> header option \<Rightarrow> 'p varState \<Rightarrow> 'p varState \<times> varOut list" where
  "handleVisibilityDowngrade env owner name actor oh h =
     propagateDelete env owner name owner [actor, hdrSourceID oh] h"

definition handleDeletion ::
  "varEnv \<Rightarrow> nodeID \<Rightarrow> string \<Rightarrow> nodeID list \<Rightarrow> 'p varState \<Rightarrow> 'p varState \<times> varOut list" where
  "handleDeletion env owner name excludes h = propagateDelete env owner name 0 excludes h"

definition sendNotifySet :: "varEnv \<Rightarrow> nodeID \<Rightarrow> nodeID \<Rightarrow> string \<Rightarrow> varRecord \<Rightarrow> varOut list" where
  "sendNotifySet env actor owner name rec =
     (if actor = 0 \<or> owner = 0 \<or> name = [] then []
      else case vServer env of
             None \<Rightarrow> []
           | Some srv \<Rightarrow> [VSend (ownerConnID srv owner) ((notifyHeader srv owner)\<lparr>hSourceID := actor\<rparr>)
                           VaNotifySet (VdResp (changeResp owner name rec))])"

definition sendNotifyRevoke :: "varEnv \<Rightarrow> nodeID \<Rightarrow> nodeID \<Rightarrow> string \<Rightarrow> varOut list" where
  "sendNotifyRevoke env actor owner name =
     (if actor = 0 \<or> owner = 0 \<or> name = [] then []
      else case vServer env of
             None \<Rightarrow> []
           | Some srv \<Rightarrow> [VSend (ownerConnID srv owner) ((notifyHeader srv owner)\<lparr>hSourceID := actor\<rparr>)
                           VaNotifyRevoke (VdResp (zeroResp\<lparr>vrCode := 1, vrName := name, vrOwner := owner\<rparr>))])"

subsection \<open>Writing\<close>

text \<open>A write for an owner elsewhere: remember who asked and pass it to the parent under a new identifier.\<close>

definition forwardWrite ::
  "varEnv \<Rightarrow> conn \<Rightarrow> varAction \<Rightarrow> varData \<Rightarrow> nodeID \<Rightarrow> conn \<Rightarrow> header \<Rightarrow> 'p varState \<Rightarrow> 'p varState \<times> varOut list" where
  "forwardWrite env parent act dat actor c hdr h =
     (let (upMsgID, h1) = nextWriteMsgID h;
          h2 = addPendingWrite (vNow env) upMsgID
                 \<lparr>wConn = cID c, wRequester = actor, wMsgID = hMsgID hdr, wTraceID = hTraceID hdr\<rparr> h1
      in (h2, varForwardWithMsg env parent act dat actor upMsgID (hTraceID hdr)))"

text \<open>The owner of a write: as requested, else the only known owner of the name, else the source.\<close>

definition setOwner :: "varDoc \<Rightarrow> header \<Rightarrow> 'p varState \<Rightarrow> nodeID" where
  "setOwner req hdr h =
     firstNonZero
       (if dOwner req = 0
        then (case map_of (vcache h) (dName req) of Some [owner] \<Rightarrow> owner | _ \<Rightarrow> 0)
        else dOwner req)
       (hSourceID hdr)"

definition nextVisibility :: "varDoc \<Rightarrow> varRecord option \<Rightarrow> string" where
  "nextVisibility req found =
     (if trimSpace (dVisibility req) = []
      then (case found of Some ex \<Rightarrow> rVisibility ex | None \<Rightarrow> [])
      else trimSpace (dVisibility req))"

definition nextRecord :: "varDoc \<Rightarrow> nodeID \<Rightarrow> varRecord \<Rightarrow> varRecord" where
  "nextRecord req owner existing =
     (let r1 = existing\<lparr>rOwner := owner, rValue := dValue req\<rparr>;
          r2 = (if trimSpace (dType req) \<noteq> [] then r1\<lparr>rType := dType req\<rparr>
                else if rType r1 = [] then r1\<lparr>rType := ''string''\<rparr> else r1)
      in if trimSpace (dVisibility req) \<noteq> []
         then r2\<lparr>rVisibility := trimSpace (dVisibility req), rIsPublic := isPublicText (dVisibility req)\<rparr>
         else if rVisibility r2 = [] then r2\<lparr>rVisibility := visibilityPrivate, rIsPublic := False\<rparr>
         else r2)"

text \<open>The part of \<open>handleSet\<close> behind the permission checks.\<close>

definition commitSet ::
  "'p persistenceOps \<Rightarrow> varEnv \<Rightarrow> conn \<Rightarrow> header \<Rightarrow> varDoc \<Rightarrow> nodeID \<Rightarrow> nodeID \<Rightarrow> varRecord \<Rightarrow> bool \<Rightarrow>
   'p varState \<Rightarrow> 'p varState \<times> varOut list" where
  "commitSet ops env c hdr req actor owner existing assisted h =
     (let rec = nextRecord req owner existing;
          respond = sendResp env (Some c) (Some hdr) (chooseSetResp assisted);
          (err, h1) = persistRecord ops (dName req) rec h
      in if err then (h1, respond (zeroResp\<lparr>vrCode := 5, vrMsg := ''persist failed'', vrName := dName req, vrOwner := owner\<rparr>))
         else
           let h2 = saveRecord (dName req) rec h1;
               (h3, outs1) = (if rIsPublic existing \<and> \<not> rIsPublic rec
                              then handleVisibilityDowngrade env owner (dName req) actor (Some hdr) h2
                              else (h2, propagateChange env owner (dName req) rec [actor, owner, hSourceID hdr] h2));
               outs2 = forwardParent env VaUpSet (VdSet (req\<lparr>dOwner := owner\<rparr>)) actor;
               outs3 = respond (zeroResp\<lparr>vrCode := 1, vrMsg := ''ok'', vrName := dName req, vrValue := rValue rec,
                         vrOwner := owner, vrVisibility := rVisibility rec, vrType := rType rec\<rparr>);
               outs4 = (if actor \<noteq> owner then sendNotifySet env actor owner (dName req) rec else [])
           in (h3, outs1 @ outs2 @ outs3 @ outs4))"

definition varHandleSet ::
  "'p persistenceOps \<Rightarrow> varEnv \<Rightarrow> conn \<Rightarrow> header \<Rightarrow> varBody \<Rightarrow> bool \<Rightarrow> 'p varState \<Rightarrow> 'p varState \<times> varOut list" where
  "varHandleSet ops env c hdr body assisted h =
     (let (ok, req) = bSet body;
          respond = (\<lambda>d. (h, sendResp env (Some c) (Some hdr) (chooseSetResp assisted) d))
      in if \<not> ok \<or> \<not> validVarName (dName req) \<or> trimSpace (dValue req) = []
         then respond (zeroResp\<lparr>vrCode := 2, vrMsg := ''invalid set'', vrName := dName req, vrOwner := dOwner req\<rparr>)
         else
           let actor = vSourceNode env (Some hdr) c; owner = setOwner req hdr h in
           if owner = 0 then respond (zeroResp\<lparr>vrCode := 2, vrMsg := ''owner required'', vrName := dName req\<rparr>)
           else case vServer env of
             None \<Rightarrow> (h, [])
           | Some srv \<Rightarrow>
               if \<not> ownerInSubtree env owner then
                 (case findParent (vServer env) of
                    Some parent \<Rightarrow> forwardWrite env parent VaAssistSet (VdSet (req\<lparr>dOwner := owner\<rparr>)) actor c hdr h
                  | None \<Rightarrow> respond (zeroResp\<lparr>vrCode := 4, vrMsg := ''not found'', vrName := dName req, vrOwner := owner\<rparr>))
               else
                 let found = lookupOwned owner (dName req) h;
                     existing = (case found of Some r \<Rightarrow> r | None \<Rightarrow> zeroRecord)
                 in if found = None \<and> actor \<noteq> owner
                    then respond (zeroResp\<lparr>vrCode := 3, vrMsg := ''owner required'', vrName := dName req, vrOwner := owner\<rparr>)
                    else if \<not> isPublicText (nextVisibility req found) \<and> actor \<noteq> owner \<and>
                            \<not> hasPermission env actor VarPrivateSet
                    then respond (zeroResp\<lparr>vrCode := 3, vrMsg := ''permission denied'', vrName := dName req, vrOwner := owner\<rparr>)
                    else commitSet ops env c hdr req actor owner existing assisted h)"

subsection \<open>Reading and listing\<close>

definition varHandleGet ::
  "varEnv \<Rightarrow> conn \<Rightarrow> header \<Rightarrow> varBody \<Rightarrow> bool \<Rightarrow> 'p varState \<Rightarrow> 'p varState \<times> varOut list" where
  "varHandleGet env c hdr body assisted h =
     (let (ok, req) = bGet body;
          respond = (\<lambda>d. (h, sendResp env (Some c) (Some hdr) (chooseGetResp assisted) d))
      in if \<not> ok \<or> \<not> validVarName (gName req) then respond (zeroResp\<lparr>vrCode := 2, vrMsg := ''invalid get''\<rparr>)
         else
           let owner = firstNonZero (gOwner req) (hSourceID hdr) in
           if owner = 0 then respond (zeroResp\<lparr>vrCode := 2, vrMsg := ''owner required''\<rparr>)
           else case vServer env of
             None \<Rightarrow> (h, [])
           | Some srv \<Rightarrow>
               (case (if ownerInSubtree env owner then lookupOwned owner (gName req) h else None) of
                  Some rec \<Rightarrow>
                    if rIsPublic rec \<or> owner = hSourceID hdr \<or>
                       hasPermission env (vSourceNode env (Some hdr) c) VarPrivateSet
                    then respond (zeroResp\<lparr>vrCode := 1, vrMsg := ''ok'', vrName := gName req, vrValue := rValue rec,
                           vrOwner := owner, vrVisibility := rVisibility rec, vrType := rType rec\<rparr>)
                    else respond (zeroResp\<lparr>vrCode := 3, vrMsg := ''forbidden''\<rparr>)
                | None \<Rightarrow>
                    (case findParent (vServer env) of
                       Some parent \<Rightarrow>
                         (addPending owner (gName req) (cID c) PkGet (Some hdr) h,
                          varForward env parent VaAssistGet (VdGet (req\<lparr>gOwner := owner\<rparr>)) (vSourceNode env (Some hdr) c))
                     | None \<Rightarrow> respond (zeroResp\<lparr>vrCode := 4, vrMsg := ''not found'', vrName := gName req, vrOwner := owner\<rparr>))))"

definition varHandleList ::
  "varEnv \<Rightarrow> conn \<Rightarrow> header \<Rightarrow> varBody \<Rightarrow> bool \<Rightarrow> 'p varState \<Rightarrow> 'p varState \<times> varOut list" where
  "varHandleList env c hdr body assisted h =
     (let (ok, reqOwner) = bList body;
          respond = (\<lambda>d. (h, sendResp env (Some c) (Some hdr) (chooseListResp assisted) d))
      in if \<not> ok then respond (zeroResp\<lparr>vrCode := 2, vrMsg := ''invalid list''\<rparr>)
         else
           let owner = firstNonZero reqOwner (hSourceID hdr) in
           if owner = 0 then respond (zeroResp\<lparr>vrCode := 2, vrMsg := ''owner required''\<rparr>)
           else case vServer env of
             None \<Rightarrow> (h, [])
           | Some srv \<Rightarrow>
               let actor = vSourceNode env (Some hdr) c;
                   includePrivate = (actor = owner \<or> hasPermission env actor VarPrivateSet);
                   names = listNames owner includePrivate h
               in if ownerInSubtree env owner \<and>
                     (names \<noteq> [] \<or> sNodeID srv = owner \<or> findParent (vServer env) = None)
                  then respond (zeroResp\<lparr>vrCode := 1, vrMsg := ''ok'', vrOwner := owner, vrNames := names\<rparr>)
                  else case findParent (vServer env) of
                    Some parent \<Rightarrow>
                      (addPending owner [] (cID c) PkList (Some hdr) h,
                       varForward env parent VaAssistList (VdList owner) actor)
                  | None \<Rightarrow> respond (zeroResp\<lparr>vrCode := 1, vrMsg := ''ok'', vrOwner := owner\<rparr>))"

subsection \<open>Revoking\<close>

definition commitRevoke ::
  "'p persistenceOps \<Rightarrow> varEnv \<Rightarrow> conn \<Rightarrow> header \<Rightarrow> getReq \<Rightarrow> nodeID \<Rightarrow> nodeID \<Rightarrow> bool \<Rightarrow>
   'p varState \<Rightarrow> 'p varState \<times> varOut list" where
  "commitRevoke ops env c hdr req actor owner assisted h =
     (let respond = sendResp env (Some c) (Some hdr) (chooseRevokeResp assisted);
          (err, h1) = persistDelete ops owner (gName req) h
      in if err then (h1, respond (zeroResp\<lparr>vrCode := 5, vrMsg := ''persist failed'', vrName := gName req, vrOwner := owner\<rparr>))
         else
           let h2 = deleteRecord owner (gName req) h1;
               (h3, outs1) = handleDeletion env owner (gName req) [actor, hSourceID hdr, owner] h2;
               outs2 = forwardParent env VaUpRevoke (VdGet (req\<lparr>gOwner := owner\<rparr>)) actor;
               outs3 = respond (zeroResp\<lparr>vrCode := 1, vrMsg := ''ok'', vrName := gName req, vrOwner := owner\<rparr>);
               outs4 = (if actor \<noteq> owner then sendNotifyRevoke env actor owner (gName req) else [])
           in (h3, outs1 @ outs2 @ outs3 @ outs4))"

definition varHandleRevoke ::
  "'p persistenceOps \<Rightarrow> varEnv \<Rightarrow> conn \<Rightarrow> header \<Rightarrow> varBody \<Rightarrow> bool \<Rightarrow> 'p varState \<Rightarrow> 'p varState \<times> varOut list" where
  "varHandleRevoke ops env c hdr body assisted h =
     (let (ok, req) = bGet body;
          respond = (\<lambda>d. (h, sendResp env (Some c) (Some hdr) (chooseRevokeResp assisted) d))
      in if \<not> ok \<or> \<not> validVarName (gName req) then respond (zeroResp\<lparr>vrCode := 2, vrMsg := ''invalid revoke''\<rparr>)
         else
           let owner = firstNonZero (gOwner req) (hSourceID hdr) in
           if owner = 0 then respond (zeroResp\<lparr>vrCode := 2, vrMsg := ''owner required''\<rparr>)
           else case vServer env of
             None \<Rightarrow> (h, [])
           | Some srv \<Rightarrow>
               let actor = vSourceNode env (Some hdr) c;
                   upstream = (case findParent (vServer env) of
                     Some parent \<Rightarrow> forwardWrite env parent VaAssistRevoke (VdGet (req\<lparr>gOwner := owner\<rparr>)) actor c hdr h
                   | None \<Rightarrow> respond (zeroResp\<lparr>vrCode := 4, vrMsg := ''not found'', vrName := gName req, vrOwner := owner\<rparr>))
               in if \<not> ownerInSubtree env owner then upstream
                  else if actor \<noteq> owner \<and> \<not> hasPermission env actor VarRevoke
                  then respond (zeroResp\<lparr>vrCode := 3, vrMsg := ''forbidden'', vrName := gName req, vrOwner := owner\<rparr>)
                  else if lookupOwned owner (gName req) h = None then upstream
                  else commitRevoke ops env c hdr req actor owner assisted h)"

subsection \<open>Responses from the parent\<close>

definition recordOfResp :: "varResp \<Rightarrow> varRecord" where
  "recordOfResp resp =
     \<lparr>rValue = vrValue resp, rOwner = vrOwner resp, rIsPublic = isPublicText (vrVisibility resp),
      rVisibility = vrVisibility resp, rType = vrType resp\<rparr>"

text \<open>\<open>broadcastPendingResp\<close> and \<open>broadcastPendingWriteResp\<close>.\<close>

definition broadcastPendingResp :: "varEnv \<Rightarrow> pendingWaiter list \<Rightarrow> varAction \<Rightarrow> varResp \<Rightarrow> varOut list" where
  "broadcastPendingResp env waiters act resp =
     concat (map (\<lambda>w. sendResp env (lookupConn env (wConn w)) (Some (waiterHeader w)) act resp) waiters)"

definition popWriteOf :: "header \<Rightarrow> 'p varState \<Rightarrow> pendingWaiter list \<times> 'p varState" where
  "popWriteOf hdr h = (if hMsgID hdr \<noteq> 0 then popPendingWrite (hMsgID hdr) h else ([], h))"

definition varHandleSetResp :: "varEnv \<Rightarrow> header \<Rightarrow> varBody \<Rightarrow> 'p varState \<Rightarrow> 'p varState \<times> varOut list" where
  "varHandleSetResp env hdr body h =
     (let (ok, resp) = bResp body in
      if \<not> ok then (h, [])
      else
        let (ww, h1) = popWriteOf hdr h;
            h2 = (if vrCode resp = 1 then saveRecord (vrName resp) (recordOfResp resp) h1 else h1)
        in if ww \<noteq> [] then (h2, broadcastPendingResp env ww VaSetResp resp)
           else let (ws, h3) = popPending (vrOwner resp) (vrName resp) PkSet h2
                in (h3, broadcastPendingResp env ws VaSetResp resp))"

definition varHandleGetResp :: "varEnv \<Rightarrow> varBody \<Rightarrow> 'p varState \<Rightarrow> 'p varState \<times> varOut list" where
  "varHandleGetResp env body h =
     (let (ok, resp) = bResp body in
      if \<not> ok then (h, [])
      else
        let (ws, h1) = popPending (vrOwner resp) (vrName resp) PkGet h;
            h2 = (if vrCode resp = 1 then saveRecord (vrName resp) (recordOfResp resp) h1 else h1)
        in (h2, broadcastPendingResp env ws VaGetResp resp))"

definition varHandleListResp :: "varEnv \<Rightarrow> varBody \<Rightarrow> 'p varState \<Rightarrow> 'p varState \<times> varOut list" where
  "varHandleListResp env body h =
     (let (ok, resp) = bResp body in
      if \<not> ok then (h, [])
      else let (ws, h1) = popPending (vrOwner resp) [] PkList h
           in (h1, broadcastPendingResp env ws VaListResp resp))"

definition varHandleRevokeResp :: "varEnv \<Rightarrow> header \<Rightarrow> varBody \<Rightarrow> 'p varState \<Rightarrow> 'p varState \<times> varOut list" where
  "varHandleRevokeResp env hdr body h =
     (let (ok, resp) = bResp body in
      if \<not> ok then (h, [])
      else
        let (ww, h1) = popWriteOf hdr h;
            (h2, outs) = (if vrCode resp = 1
                          then handleDeletion env (vrOwner resp) (vrName resp) [] (deleteRecord (vrOwner resp) (vrName resp) h1)
                          else (h1, []))
        in if ww \<noteq> [] then (h2, outs @ broadcastPendingResp env ww VaRevokeResp resp)
           else let (ws, h3) = popPending (vrOwner resp) (vrName resp) PkRevoke h2
                in (h3, outs @ broadcastPendingResp env ws VaRevokeResp resp))"

subsection \<open>Subscribing\<close>

definition varHandleSubscribe ::
  "varEnv \<Rightarrow> conn \<Rightarrow> header \<Rightarrow> varBody \<Rightarrow> bool \<Rightarrow> 'p varState \<Rightarrow> 'p varState \<times> varOut list" where
  "varHandleSubscribe env c hdr body assisted h =
     (let (ok, req) = bSub body;
          fail = (\<lambda>code msg. (h, sendResp env (Some c) (Some hdr) (chooseSubscribeResp assisted)
                   (zeroResp\<lparr>vrCode := code, vrMsg := msg, vrName := sName req, vrOwner := sOwner req\<rparr>)));
          subscriber = vSourceNode env (Some hdr) c
      in if \<not> ok \<or> \<not> validVarName (sName req) \<or> sOwner req = 0 then fail 2 ''invalid subscribe''
         else if subscriber = 0 then fail 2 ''subscriber required''
         else if sSubscriber req \<noteq> 0 \<and> sSubscriber req \<noteq> subscriber then fail 2 ''invalid subscriber''
         else case vServer env of
           None \<Rightarrow> (h, [])
         | Some srv \<Rightarrow>
             (case (if ownerInSubtree env (sOwner req) then lookupOwned (sOwner req) (sName req) h else None) of
                Some rec \<Rightarrow>
                  if \<not> rIsPublic rec \<and> subscriber \<noteq> sOwner req \<and> \<not> hasPermission env subscriber VarSubscribe
                  then fail 3 ''forbidden''
                  else (addSubscription (sOwner req) (sName req) subscriber (cID c) h,
                        sendResp env (Some c) (Some hdr) (chooseSubscribeResp assisted)
                          (zeroResp\<lparr>vrCode := 1, vrMsg := ''ok'', vrName := sName req, vrOwner := sOwner req,
                             vrVisibility := rVisibility rec, vrType := rType rec\<rparr>))
              | None \<Rightarrow>
                  (case findParent (vServer env) of
                     Some parent \<Rightarrow>
                       (addPendingSubscribe (sOwner req) (sName req) subscriber (cID c) (Some hdr) h,
                        if hasPendingSubscribe (sOwner req) (sName req) h then []
                        else varForward env parent VaAssistSubscribe (VdSub (req\<lparr>sSubscriber := subscriber\<rparr>)) subscriber)
                   | None \<Rightarrow> fail 4 ''not found'')))"

text \<open>One waiting subscriber of a successful \<open>subscribe_resp\<close>.\<close>

definition admitSubscriber ::
  "varEnv \<Rightarrow> varResp \<Rightarrow> 'p varState \<times> varOut list \<Rightarrow> pendingWaiter \<Rightarrow> 'p varState \<times> varOut list" where
  "admitSubscriber env resp st w =
     (let (h, outs) = st;
          respond = sendResp env (lookupConn env (wConn w)) (Some (waiterHeader w)) (chooseSubscribeResp False)
      in if \<not> rIsPublic (recordOfResp resp) \<and> wRequester w \<noteq> vrOwner resp \<and>
            \<not> hasPermission env (wRequester w) VarSubscribe
         then (h, outs @ respond (zeroResp\<lparr>vrCode := 3, vrMsg := ''forbidden'', vrName := vrName resp, vrOwner := vrOwner resp\<rparr>))
         else (addSubscription (vrOwner resp) (vrName resp) (wRequester w) (wConn w) h,
               outs @ respond (zeroResp\<lparr>vrCode := 1, vrMsg := ''ok'', vrName := vrName resp, vrOwner := vrOwner resp,
                        vrVisibility := vrVisibility resp, vrType := vrType resp\<rparr>)))"

definition varHandleSubscribeResp :: "varEnv \<Rightarrow> header \<Rightarrow> varBody \<Rightarrow> 'p varState \<Rightarrow> 'p varState \<times> varOut list" where
  "varHandleSubscribeResp env hdr body h =
     (let (ok, resp) = bResp body in
      if \<not> ok then (h, [])
      else
        let (ws, h1) = popPendingSubscribe (vrOwner resp) (vrName resp) h;
            key = varKey (vrOwner resp) (vrName resp)
        in if vrCode resp \<noteq> 1
           then (if vrCode resp = 4 then markUpstreamSubscribed key False h1 else h1,
                 concat (map (\<lambda>w. sendResp env (lookupConn env (wConn w)) (Some (waiterHeader w)) (chooseSubscribeResp False)
                   (zeroResp\<lparr>vrCode := vrCode resp, vrMsg := vrMsg resp, vrName := vrName resp, vrOwner := vrOwner resp\<rparr>)) ws))
           else
             let h2 = saveRecord (vrName resp) (recordOfResp resp) h1;
                 h3 = (if findParent (vServer env) \<noteq> None then markUpstreamSubscribed key True h2 else h2)
             in foldl (admitSubscriber env resp) (h3, []) ws)"

definition varHandleUnsubscribe ::
  "varEnv \<Rightarrow> conn \<Rightarrow> header \<Rightarrow> varBody \<Rightarrow> bool \<Rightarrow> 'p varState \<Rightarrow> 'p varState \<times> varOut list" where
  "varHandleUnsubscribe env c hdr body assisted h =
     (let (ok, req) = bSub body;
          respond = (\<lambda>code msg. if assisted then [] else sendResp env (Some c) (Some hdr) (chooseSubscribeResp False)
                   (zeroResp\<lparr>vrCode := code, vrMsg := msg, vrName := sName req, vrOwner := sOwner req\<rparr>));
          subscriber = vSourceNode env (Some hdr) c
      in if \<not> ok \<or> \<not> validVarName (sName req) \<or> sOwner req = 0 then (h, respond 2 ''invalid unsubscribe'')
         else if subscriber = 0 then (h, respond 2 ''subscriber required'')
         else if sSubscriber req \<noteq> 0 \<and> sSubscriber req \<noteq> subscriber then (h, respond 2 ''invalid subscriber'')
         else case vServer env of
           None \<Rightarrow> (h, [])
         | Some srv \<Rightarrow>
             let key = varKey (sOwner req) (sName req);
                 h1 = snd (removeSubscription (sOwner req) (sName req) subscriber (cID c) h);
                 (h2, outs) =
                   (if subscriberCount key h1 = 0 \<and> upstreamSubscribed key h1
                    then (markUpstreamSubscribed key False h1,
                          forwardParent env VaAssistUnsubscribe (VdSub (req\<lparr>sSubscriber := subscriber\<rparr>)) subscriber)
                    else (h1, []))
             in (h2, outs @ respond 1 ''ok''))"

subsection \<open>Notifications\<close>

definition varHandleVarChanged :: "varEnv \<Rightarrow> header \<Rightarrow> varBody \<Rightarrow> 'p varState \<Rightarrow> 'p varState \<times> varOut list" where
  "varHandleVarChanged env hdr body h =
     (let (ok, resp) = bResp body in
      if \<not> ok \<or> vrOwner resp = 0 \<or> vrName resp = [] then (h, [])
      else let rec = recordOfResp resp; h1 = saveRecord (vrName resp) rec h
           in (h1, propagateChange env (vrOwner resp) (vrName resp) rec [vrOwner resp, hSourceID hdr] h1))"

definition varHandleVarDeleted :: "varEnv \<Rightarrow> header \<Rightarrow> varBody \<Rightarrow> 'p varState \<Rightarrow> 'p varState \<times> varOut list" where
  "varHandleVarDeleted env hdr body h =
     (let (ok, resp) = bResp body in
      if \<not> ok \<or> vrOwner resp = 0 \<or> vrName resp = [] then (h, [])
      else handleDeletion env (vrOwner resp) (vrName resp) [hSourceID hdr, vrOwner resp]
             (deleteRecord (vrOwner resp) (vrName resp) h))"

definition indexOwnerRoute :: "varEnv \<Rightarrow> nodeID \<Rightarrow> conn \<Rightarrow> varOut list" where
  "indexOwnerRoute env owner c =
     (case vServer env of
        None \<Rightarrow> []
      | Some srv \<Rightarrow>
          if owner = 0 \<or> isParentConn srv c then []
          else if sByNode srv owner \<noteq> None then []
          else [VIndex owner (cID c)])"

text \<open>The end of \<open>handleUpSet\<close> and \<open>handleNotifySet\<close>: store, then tell the subscribers.\<close>

definition storeAndTell ::
  "varEnv \<Rightarrow> nodeID \<Rightarrow> string \<Rightarrow> varRecord \<Rightarrow> bool \<Rightarrow> header \<Rightarrow> nodeID \<Rightarrow> 'p varState \<Rightarrow> 'p varState \<times> varOut list" where
  "storeAndTell env owner name rec wasPublic hdr senderID h =
     (let h1 = saveRecord name rec h in
      if wasPublic \<and> \<not> rIsPublic rec
      then handleVisibilityDowngrade env owner name (hSourceID hdr) (Some hdr) h1
      else (h1, propagateChange env owner name rec [owner, senderID] h1))"

definition varHandleUpSet :: "varEnv \<Rightarrow> conn \<Rightarrow> header \<Rightarrow> varBody \<Rightarrow> 'p varState \<Rightarrow> 'p varState \<times> varOut list" where
  "varHandleUpSet env c hdr body h =
     (let (ok, req) = bSet body in
      if \<not> ok \<or> dOwner req = 0 \<or> dName req = [] then (h, [])
      else
        let existing = (case lookupOwned (dOwner req) (dName req) h of Some r \<Rightarrow> r | None \<Rightarrow> zeroRecord);
            rec = existing\<lparr>rOwner := dOwner req, rValue := dValue req, rVisibility := trimSpace (dVisibility req),
                           rType := dType req, rIsPublic := isPublicText (dVisibility req)\<rparr>;
            (h1, outs) = storeAndTell env (dOwner req) (dName req) rec (rIsPublic existing) hdr (vSourceNode env None c) h
        in (h1, indexOwnerRoute env (dOwner req) c @ outs @ forwardParent env VaUpSet (VdSet req) (hSourceID hdr)))"

definition varHandleUpRevoke :: "varEnv \<Rightarrow> conn \<Rightarrow> header \<Rightarrow> varBody \<Rightarrow> 'p varState \<Rightarrow> 'p varState \<times> varOut list" where
  "varHandleUpRevoke env c hdr body h =
     (let (ok, req) = bGet body in
      if \<not> ok \<or> gOwner req = 0 \<or> gName req = [] then (h, [])
      else
        let (h1, outs) = handleDeletion env (gOwner req) (gName req) [vSourceNode env None c]
                           (deleteRecord (gOwner req) (gName req) h)
        in (h1, outs @ forwardParent env VaUpRevoke (VdGet req) (hSourceID hdr)))"

definition varHandleNotifySet :: "varEnv \<Rightarrow> conn \<Rightarrow> header \<Rightarrow> varBody \<Rightarrow> 'p varState \<Rightarrow> 'p varState \<times> varOut list" where
  "varHandleNotifySet env c hdr body h =
     (let (ok, resp) = bResp body in
      if \<not> ok \<or> vrName resp = [] \<or> vrOwner resp = 0 then (h, [])
      else
        let existing = (case lookupOwned (vrOwner resp) (vrName resp) h of Some r \<Rightarrow> r | None \<Rightarrow> zeroRecord);
            rec = existing\<lparr>rValue := vrValue resp, rOwner := vrOwner resp, rVisibility := vrVisibility resp,
                           rType := vrType resp, rIsPublic := isPublicText (vrVisibility resp)\<rparr>
        in storeAndTell env (vrOwner resp) (vrName resp) rec (rIsPublic existing) hdr (vSourceNode env None c) h)"

definition varHandleNotifyRevoke :: "varEnv \<Rightarrow> conn \<Rightarrow> header \<Rightarrow> varBody \<Rightarrow> 'p varState \<Rightarrow> 'p varState \<times> varOut list" where
  "varHandleNotifyRevoke env c hdr body h =
     (let (ok, resp) = bResp body in
      if \<not> ok \<or> vrOwner resp = 0 \<or> vrName resp = [] then (h, [])
      else handleDeletion env (vrOwner resp) (vrName resp) [vSourceNode env None c]
             (deleteRecord (vrOwner resp) (vrName resp) h))"

subsection \<open>Forwarding by header, and dispatch\<close>

definition shouldForwardByHeaderTarget :: "varEnv \<Rightarrow> header \<Rightarrow> varAction \<Rightarrow> bool" where
  "shouldForwardByHeaderTarget env hdr act =
     (if hMajor hdr \<noteq> MajorCmd \<or> hTargetID hdr = 0 then False
      else case vServer env of
             None \<Rightarrow> False
           | Some srv \<Rightarrow>
               if hTargetID hdr = sNodeID srv then False
               else \<not> hasSuffix (toLower (trimSpace (vActName env act))) ''_resp'')"

text \<open>Whether the frame was passed on, the error code and message, and the frame sent.\<close>

definition forwardCmdByHeaderTarget :: "varEnv \<Rightarrow> conn \<Rightarrow> header \<Rightarrow> (bool \<times> int \<times> string) \<times> varOut list" where
  "forwardCmdByHeaderTarget env c hdr =
     (case vServer env of
        None \<Rightarrow> ((False, 2, ''no server context''), [])
      | Some srv \<Rightarrow>
          let target = hTargetID hdr in
          if target = 0 \<or> target = sNodeID srv then ((False, 0, []), [])
          else
            let nxt = (case sByNode srv target of Some n \<Rightarrow> Some n | None \<Rightarrow> findParent (vServer env)) in
            case nxt of
              None \<Rightarrow> ((False, 4, ''not found''), [])
            | Some n \<Rightarrow>
                if cID n = cID c then ((False, 4, ''not found''), [])
                else if isParentConn srv c \<and> isParentConn srv n then ((False, 4, ''not found''), [])
                else case vCloneFwd env hdr of
                  None \<Rightarrow> ((False, 2, ''hop limit exceeded''), [])
                | Some fwd \<Rightarrow>
                    ((\<not> sSendErr srv (cID n), if sSendErr srv (cID n) then 2 else 0,
                      if sSendErr srv (cID n) then ''forward failed'' else []),
                     [VRelay (cID n) (fwd\<lparr>hTargetID := target\<rparr>)]))"

definition buildForwardError :: "varAction \<Rightarrow> varBody \<Rightarrow> int \<Rightarrow> string \<Rightarrow> (varAction \<times> varResp) option" where
  "buildForwardError act body code msg =
     (let mk = (\<lambda>name owner. zeroResp\<lparr>vrCode := code, vrMsg := msg, vrName := name, vrOwner := owner\<rparr>);
          st = snd (bSet body); g = snd (bGet body); sb = snd (bSub body)
      in case act of
           VaSet \<Rightarrow> Some (chooseSetResp False, mk (dName st) (dOwner st))
         | VaAssistSet \<Rightarrow> Some (chooseSetResp True, mk (dName st) (dOwner st))
         | VaGet \<Rightarrow> Some (chooseGetResp False, mk (gName g) (gOwner g))
         | VaAssistGet \<Rightarrow> Some (chooseGetResp True, mk (gName g) (gOwner g))
         | VaList \<Rightarrow> Some (chooseListResp False, mk [] (snd (bList body)))
         | VaAssistList \<Rightarrow> Some (chooseListResp True, mk [] (snd (bList body)))
         | VaRevoke \<Rightarrow> Some (chooseRevokeResp False, mk (gName g) (gOwner g))
         | VaAssistRevoke \<Rightarrow> Some (chooseRevokeResp True, mk (gName g) (gOwner g))
         | VaSubscribe \<Rightarrow> Some (chooseSubscribeResp False, mk (sName sb) (sOwner sb))
         | VaAssistSubscribe \<Rightarrow> Some (chooseSubscribeResp True, mk (sName sb) (sOwner sb))
         | VaUnsubscribe \<Rightarrow> Some (chooseSubscribeResp False, mk (sName sb) (sOwner sb))
         | VaAssistUnsubscribe \<Rightarrow> Some (chooseSubscribeResp True, mk (sName sb) (sOwner sb))
         | _ \<Rightarrow> None)"

definition sendForwardError ::
  "varEnv \<Rightarrow> conn \<Rightarrow> header \<Rightarrow> varAction \<Rightarrow> varBody \<Rightarrow> int \<Rightarrow> string \<Rightarrow> varOut list" where
  "sendForwardError env c hdr act body code msg =
     (case buildForwardError act body code msg of
        None \<Rightarrow> []
      | Some (ract, d) \<Rightarrow> sendResp env (Some c) (Some hdr) ract d)"

definition varDispatch ::
  "'p persistenceOps \<Rightarrow> varEnv \<Rightarrow> conn \<Rightarrow> header \<Rightarrow> varAction \<Rightarrow> varBody \<Rightarrow> 'p varState \<Rightarrow> 'p varState \<times> varOut list" where
  "varDispatch ops env c hdr act body h =
     (case act of
        VaSet \<Rightarrow> varHandleSet ops env c hdr body False h
      | VaAssistSet \<Rightarrow> varHandleSet ops env c hdr body True h
      | VaSetResp \<Rightarrow> varHandleSetResp env hdr body h
      | VaAssistSetResp \<Rightarrow> varHandleSetResp env hdr body h
      | VaUpSet \<Rightarrow> varHandleUpSet env c hdr body h
      | VaNotifySet \<Rightarrow> varHandleNotifySet env c hdr body h
      | VaGet \<Rightarrow> varHandleGet env c hdr body False h
      | VaAssistGet \<Rightarrow> varHandleGet env c hdr body True h
      | VaGetResp \<Rightarrow> varHandleGetResp env body h
      | VaAssistGetResp \<Rightarrow> varHandleGetResp env body h
      | VaList \<Rightarrow> varHandleList env c hdr body False h
      | VaAssistList \<Rightarrow> varHandleList env c hdr body True h
      | VaListResp \<Rightarrow> varHandleListResp env body h
      | VaAssistListResp \<Rightarrow> varHandleListResp env body h
      | VaRevoke \<Rightarrow> varHandleRevoke ops env c hdr body False h
      | VaAssistRevoke \<Rightarrow> varHandleRevoke ops env c hdr body True h
      | VaRevokeResp \<Rightarrow> varHandleRevokeResp env hdr body h
      | VaAssistRevokeResp \<Rightarrow> varHandleRevokeResp env hdr body h
      | VaUpRevoke \<Rightarrow> varHandleUpRevoke env c hdr body h
      | VaNotifyRevoke \<Rightarrow> varHandleNotifyRevoke env c hdr body h
      | VaSubscribe \<Rightarrow> varHandleSubscribe env c hdr body False h
      | VaAssistSubscribe \<Rightarrow> varHandleSubscribe env c hdr body True h
      | VaSubscribeResp \<Rightarrow> varHandleSubscribeResp env hdr body h
      | VaAssistSubscribeResp \<Rightarrow> varHandleSubscribeResp env hdr body h
      | VaUnsubscribe \<Rightarrow> varHandleUnsubscribe env c hdr body False h
      | VaAssistUnsubscribe \<Rightarrow> varHandleUnsubscribe env c hdr body True h
      | VaVarChanged \<Rightarrow> varHandleVarChanged env hdr body h
      | VaVarDeleted \<Rightarrow> varHandleVarDeleted env hdr body h
      | VaOther _ \<Rightarrow> (h, []))"

text \<open>\<open>OnReceive\<close>; \<open>None\<close> is a payload that is not a message.\<close>

definition varOnReceive ::
  "'p persistenceOps \<Rightarrow> varEnv \<Rightarrow> conn \<Rightarrow> header \<Rightarrow> (varAction \<times> varBody) option \<Rightarrow> 'p varState \<Rightarrow> 'p varState \<times> varOut list" where
  "varOnReceive ops env c hdr msg h0 =
     (let h = maybeSweepWriting (vNow env) h0 in
      case msg of
        None \<Rightarrow> (h, [])
      | Some (act, body) \<Rightarrow>
          let needsLocal = (act \<in> {VaNotifySet, VaNotifyRevoke, VaVarChanged, VaVarDeleted}) in
          if shouldForwardByHeaderTarget env hdr act then
            let ((forwarded, code, msgText), outs) = forwardCmdByHeaderTarget env c hdr in
            if forwarded \<and> \<not> needsLocal then (h, outs)
            else
              let outs1 = (if code \<noteq> 0 then sendForwardError env c hdr act body code msgText else []) in
              if code \<noteq> 0 \<and> \<not> needsLocal then (h, outs @ outs1)
              else let (h', outs2) = varDispatch ops env c hdr act body h in (h', outs @ outs1 @ outs2)
          else varDispatch ops env c hdr act body h)"

definition varOnConnClosed :: "varEnv \<Rightarrow> string \<Rightarrow> 'p varState \<Rightarrow> 'p varState \<times> varOut list" where
  "varOnConnClosed env connID h =
     (if connID = [] then (h, [])
      else let (keys, h1) = removeConnSubscriptions connID (removeConnPending connID h)
           in varMaybeUnsubscribeUpstream env keys h1)"

text \<open>\<open>Init\<close>: false when the persisted records cannot be loaded.\<close>

definition varInit :: "'p persistenceOps \<Rightarrow> 'p varState \<Rightarrow> bool \<times> 'p varState" where
  "varInit ops h = (let (err, h') = loadPersistedRecords ops h in (\<not> err, h'))"

subsection \<open>Capabilities\<close>

definition capabilityActorID :: "varEnv \<Rightarrow> nodeID \<Rightarrow> nodeID" where
  "capabilityActorID env fallback =
     (case vServer env of Some srv \<Rightarrow> if sNodeID srv \<noteq> 0 then sNodeID srv else fallback | None \<Rightarrow> fallback)"

text \<open>The record that \<open>varstore::set\<close> stores, with the request already trimmed.\<close>

definition capRecord :: "varDoc \<Rightarrow> string \<Rightarrow> varRecord \<Rightarrow> varRecord" where
  "capRecord req vis existing =
     (let r1 = existing\<lparr>rOwner := dOwner req, rValue := dValue req\<rparr>;
          t = trimSpace (dType req);
          r2 = (if t \<noteq> [] then r1\<lparr>rType := t\<rparr> else if rType r1 = [] then r1\<lparr>rType := ''string''\<rparr> else r1)
      in if vis \<noteq> [] then r2\<lparr>rVisibility := vis, rIsPublic := (vis = visibilityPublic)\<rparr>
         else if trimSpace (rVisibility r2) = [] then r2\<lparr>rVisibility := visibilityPrivate, rIsPublic := False\<rparr>
         else r2)"

text \<open>The error of a capability: a message of its own, or the error of the persistence.\<close>

datatype varCapError = CapMsg string | CapPersist

definition invokeCapabilitySet ::
  "'p persistenceOps \<Rightarrow> varEnv \<Rightarrow> varDoc option \<Rightarrow> 'p varState \<Rightarrow> (varCapError + varRecord) \<times> 'p varState \<times> varOut list" where
  "invokeCapabilitySet ops env dec h =
     (case dec of
        None \<Rightarrow> (Inl (CapMsg ''invalid varstore::set args''), h, [])
      | Some req0 \<Rightarrow>
          let name = trimSpace (dName req0); vis = toLower (trimSpace (dVisibility req0));
              req = req0\<lparr>dName := name, dVisibility := vis\<rparr> in
          if dOwner req = 0 \<or> \<not> validVarName name \<or> trimSpace (dValue req) = []
          then (Inl (CapMsg ''owner/name/value required''), h, [])
          else if vis \<noteq> [] \<and> vis \<noteq> visibilityPrivate \<and> vis \<noteq> visibilityPublic
          then (Inl (CapMsg ''invalid visibility''), h, [])
          else
            let existing = (case lookupOwned (dOwner req) name h of Some r \<Rightarrow> r | None \<Rightarrow> zeroRecord);
                rec = capRecord req vis existing;
                (err, h1) = persistRecord ops name rec h
            in if err then (Inl CapPersist, h1, [])
               else
                 let h2 = saveRecord name rec h1;
                     actor = capabilityActorID env (dOwner req);
                     (h3, outs1) = (if rIsPublic existing \<and> \<not> rIsPublic rec
                                    then handleVisibilityDowngrade env (dOwner req) name actor None h2
                                    else (h2, propagateChange env (dOwner req) name rec [actor] h2));
                     outs2 = forwardParent env VaUpSet (VdSet (req\<lparr>dVisibility := rVisibility rec, dType := rType rec\<rparr>)) actor;
                     outs3 = (if actor \<noteq> dOwner req then sendNotifySet env actor (dOwner req) name rec else [])
                 in (Inr rec, h3, outs1 @ outs2 @ outs3))"

definition invokeCapabilityGet :: "getReq option \<Rightarrow> 'p varState \<Rightarrow> varCapError + varRecord" where
  "invokeCapabilityGet dec h =
     (case dec of
        None \<Rightarrow> Inl (CapMsg ''invalid varstore::get args'')
      | Some req \<Rightarrow>
          let name = trimSpace (gName req) in
          if gOwner req = 0 \<or> \<not> validVarName name then Inl (CapMsg ''owner/name required'')
          else case lookupOwned (gOwner req) name h of
                 None \<Rightarrow> Inl (CapMsg ''var not found'')
               | Some rec \<Rightarrow> Inr rec)"

definition invokeCapabilityRevoke ::
  "'p persistenceOps \<Rightarrow> varEnv \<Rightarrow> getReq option \<Rightarrow> 'p varState \<Rightarrow> (varCapError + nodeID \<times> string) \<times> 'p varState \<times> varOut list" where
  "invokeCapabilityRevoke ops env dec h =
     (case dec of
        None \<Rightarrow> (Inl (CapMsg ''invalid varstore::revoke args''), h, [])
      | Some req \<Rightarrow>
          let name = trimSpace (gName req); owner = gOwner req in
          if owner = 0 \<or> \<not> validVarName name then (Inl (CapMsg ''owner/name required''), h, [])
          else if lookupOwned owner name h = None then (Inl (CapMsg ''var not found''), h, [])
          else
            let (err, h1) = persistDelete ops owner name h
            in if err then (Inl CapPersist, h1, [])
               else
                 let h2 = deleteRecord owner name h1;
                     actor = capabilityActorID env owner;
                     (h3, outs1) = handleDeletion env owner name [actor, owner] h2;
                     outs2 = forwardParent env VaUpRevoke (VdGet \<lparr>gName = name, gOwner = owner\<rparr>) actor;
                     outs3 = (if actor \<noteq> owner then sendNotifyRevoke env actor owner name else [])
                 in (Inr (owner, name), h3, outs1 @ outs2 @ outs3))"

subsection \<open>What the helpers leave alone\<close>

lemma markUpstream_simps [simp]:
  "vrecords (markUpstreamSubscribed k v h) = vrecords h" "vstore (markUpstreamSubscribed k v h) = vstore h"
  "vsubs (markUpstreamSubscribed k v h) = vsubs h" "subscriptions (markUpstreamSubscribed k v h) = subscriptions h"
  "vcache (markUpstreamSubscribed k v h) = vcache h"
  by (simp_all add: markUpstreamSubscribed_def vsubs_def)

lemma unsubscribeUpstream_frame:
  "vrecords (fst (varMaybeUnsubscribeUpstream env ks h)) = vrecords h \<and>
   vstore (fst (varMaybeUnsubscribeUpstream env ks h)) = vstore h \<and>
   subscriptions (fst (varMaybeUnsubscribeUpstream env ks h)) = subscriptions h \<and>
   vcache (fst (varMaybeUnsubscribeUpstream env ks h)) = vcache h"
proof -
  let ?same = "\<lambda>g. vrecords g = vrecords h \<and> vstore g = vstore h \<and> subscriptions g = subscriptions h \<and> vcache g = vcache h"
  have one: "?same (fst st) \<Longrightarrow> ?same (fst (varUnsubscribeUpstreamOne env srv st k))" for srv st k
    by (cases st) (simp add: varUnsubscribeUpstreamOne_def Let_def split: option.split prod.split)
  have "?same (fst (foldl (varUnsubscribeUpstreamOne env srv) st ks))" if "?same (fst st)" for srv st
    using that by (induction ks arbitrary: st) (simp_all add: one)
  then show ?thesis by (simp add: varMaybeUnsubscribeUpstream_def split: option.split)
qed

lemma clear_frame [simp]:
  "vrecords (snd (clearSubscriptionsExcept k keep h)) = vrecords h"
  "vstore (snd (clearSubscriptionsExcept k keep h)) = vstore h"
  "vcache (snd (clearSubscriptionsExcept k keep h)) = vcache h"
  by (simp_all add: clearSubscriptionsExcept_def Let_def)

lemma propagateDelete_fst:
  "fst (propagateDelete env owner name keep ex h) =
     (if vServer env = None then h
      else fst (varMaybeUnsubscribeUpstream env [varKey owner name] (snd (clearSubscriptionsExcept (varKey owner name) keep h))))"
  by (simp add: propagateDelete_def Let_def case_prod_unfold split: option.split)

lemma propagateDelete_frame:
  "vrecords (fst (propagateDelete env owner name keep ex h)) = vrecords h"
  "vstore (fst (propagateDelete env owner name keep ex h)) = vstore h"
  "vcache (fst (propagateDelete env owner name keep ex h)) = vcache h"
  using unsubscribeUpstream_frame[of env "[varKey owner name]" "snd (clearSubscriptionsExcept (varKey owner name) keep h)"]
  by (simp_all add: propagateDelete_fst)

lemma lookup_cong: "vrecords g = vrecords h \<Longrightarrow> lookupOwned owner name g = lookupOwned owner name h"
  by (simp add: lookupOwned_def)

lemma persist_frame:
  "persistRecord ops n r h = (err, h1) \<Longrightarrow> vrecords h1 = vrecords h \<and> subscriptions h1 = subscriptions h \<and> vcache h1 = vcache h"
  "persistDelete ops owner n h = (err, h1) \<Longrightarrow> vrecords h1 = vrecords h \<and> subscriptions h1 = subscriptions h \<and> vcache h1 = vcache h"
  by (auto simp: persistRecord_def persistDelete_def split: prod.splits)

lemma forwardWrite_frame:
  "vrecords (fst (forwardWrite env p act dat actor c hdr h)) = vrecords h"
  by (auto simp: forwardWrite_def nextWriteMsgID_def addPendingWrite_def Let_def)

lemma nextRecord_owner [simp]: "rOwner (nextRecord req owner ex) = owner"
  by (simp add: nextRecord_def Let_def)

lemma commitSet_records:
  assumes "validVarName (dName req)" and "owner \<noteq> 0"
  shows "\<forall>o' n'. lookupOwned o' n' (fst (commitSet ops env c hdr req actor owner ex assisted h)) =
      (if o' = owner \<and> n' = dName req \<and> \<not> fst (persistRecord ops (dName req) (nextRecord req owner ex) h)
       then Some (nextRecord req owner ex) else lookupOwned o' n' h)"
proof -
  obtain err h1 where p: "persistRecord ops (dName req) (nextRecord req owner ex) h = (err, h1)" by fastforce
  have n: "dName req \<noteq> []" using assms(1) by (simp add: validVarName_def)
  have rec: "vrecords (fst (commitSet ops env c hdr req actor owner ex assisted h)) =
      vrecords (if err then h1 else saveRecord (dName req) (nextRecord req owner ex) h1)"
    by (simp add: commitSet_def handleVisibilityDowngrade_def p propagateDelete_frame(1) case_prod_unfold Let_def)
  have h1: "lookupOwned o' n' h1 = lookupOwned o' n' h" for o' n'
    using persist_frame(1)[OF p] lookup_cong by blast
  show ?thesis
    unfolding lookup_cong[OF rec] using n assms(2) by (auto simp: p lookup_save h1)
qed

lemma sendResp_data:
  "out \<in> set (sendResp env (Some c) oh act d) \<Longrightarrow>
     out = VSend (cID c) (varBuildRespHeader (Some c) oh) act (VdResp (marshalRespData act d)) \<or>
     out = VDirect c (varBuildRespHeader (Some c) oh) act (VdResp (marshalRespData act d))"
  by (auto simp: sendResp_def Let_def split: option.splits)

lemma marshal_other [simp]:
  "marshalRespData (chooseGetResp a) d = d" "marshalRespData (chooseSetResp a) d = d"
  "marshalRespData (chooseRevokeResp a) d = d" "marshalRespData (chooseSubscribeResp a) d = d"
  "marshalRespData VaGetResp d = d"
  by (simp_all add: marshalRespData_def chooseGetResp_def chooseSetResp_def chooseRevokeResp_def chooseSubscribeResp_def)

lemma popPending_save [simp]: "fst (popPending owner name kind (saveRecord n r g)) = fst (popPending owner name kind g)"
  by (simp add: popPending_def saveRecord_def Let_def)

text \<open>Who is told: connection and node of every notification with the given action.\<close>

fun toldBy :: "varAction \<Rightarrow> varOut \<Rightarrow> (string \<times> nodeID) option" where
  "toldBy act (VSend i x a d) = (if a = act then Some (i, hTargetID x) else None)"
| "toldBy act _ = None"

definition told :: "varAction \<Rightarrow> varOut list \<Rightarrow> (string \<times> nodeID) list" where
  "told act outs = List.map_filter (toldBy act) outs"

lemma told_append [simp]: "told act (xs @ ys) = told act xs @ told act ys"
  by (simp add: told_def List.map_filter_def)

lemma told_Nil [simp]: "told act [] = []"
  by (simp add: told_def List.map_filter_def)

lemma told_quiet: "\<forall>out\<in>set outs. toldBy act out = None \<Longrightarrow> told act outs = []"
  unfolding told_def by (induction outs) (simp_all add: List.map_filter_simps)

lemma told_event [simp]: "told act (varTriggerEvent env ev owner name r) = []"
  by (rule told_quiet) (auto simp: varTriggerEvent_def Let_def split: option.splits)

lemma told_forward: "act \<noteq> a \<Longrightarrow> told act (varForward env p a d src) = []"
  by (rule told_quiet) (auto simp: varForward_def Let_def split: option.splits)

lemma told_resp: "act \<noteq> a \<Longrightarrow> told act (sendResp env oc oh a d) = []"
  by (rule told_quiet) (auto simp: sendResp_def Let_def split: option.splits)

lemma told_notifyRevoke: "act \<noteq> VaNotifyRevoke \<Longrightarrow> told act (sendNotifyRevoke env actor owner n) = []"
  by (rule told_quiet) (auto simp: sendNotifyRevoke_def split: option.splits)

lemma told_sends_set:
  "set (concat (map (\<lambda>(node, conns). if P node then [] else map (\<lambda>cid. (cid, node)) conns) subs)) =
     {(cid, node). \<not> P node \<and> (\<exists>conns. (node, conns) \<in> set subs \<and> cid \<in> set conns)}"
proof -
  let ?f = "\<lambda>(node, conns). if P node then [] else map (\<lambda>cid. (cid, node)) conns"
  have f: "(cid, node) \<in> set (?f nc) \<longleftrightarrow> \<not> P node \<and> fst nc = node \<and> cid \<in> set (snd nc)" for cid node nc
    by (cases nc) auto
  have "(cid, node) \<in> set (concat (map ?f subs)) \<longleftrightarrow> (\<exists>nc\<in>set subs. (cid, node) \<in> set (?f nc))" for cid node
    unfolding set_concat set_map by blast
  then show ?thesis unfolding f by (auto simp: Bex_def)
qed

lemma told_sends:
  "told act (concat (map (\<lambda>(node, conns). if P node then []
       else map (\<lambda>cid. VSend cid (notifyHeader srv node) act d) conns) subs)) =
   concat (map (\<lambda>(node, conns). if P node then [] else map (\<lambda>cid. (cid, node)) conns) subs)"
proof (induction subs)
  case (Cons nc subs)
  have "told act (map (\<lambda>cid. VSend cid (notifyHeader srv n) act d) conns) = map (\<lambda>cid. (cid, n)) conns" for n conns
    by (induction conns) (simp_all add: told_def List.map_filter_simps notifyHeader_def)
  with Cons show ?case by (auto split: prod.split)
qed simp

lemma subscribers_mem:
  assumes "innerwf (subscriptions h)"
  shows "(\<exists>conns. (node, conns) \<in> set (subscribersFor k 0 h) \<and> cid \<in> set conns) \<longleftrightarrow> node \<noteq> 0 \<and> (k, node, cid) \<in> vsubs h"
proof -
  have wf: "wf_gomap (gget [] (subscriptions h) k)" using assms by (simp add: innerwf_def)
  show ?thesis unfolding vsubs_def subscribersFor_def using gget_member[OF wf, of cid node] by auto
qed

lemma told_change:
  assumes "innerwf (subscriptions h)" and "vServer env = Some srv"
  shows "set (told VaVarChanged (propagateChange env owner name rec ex h)) =
    {(cid, node). node \<noteq> 0 \<and> (varKey owner name, node, cid) \<in> vsubs h \<and> node \<notin> set ex \<and> node \<noteq> owner}"
proof -
  let ?subs = "subscribersFor (varKey owner name) 0 h"
  let ?P = "\<lambda>node. node \<in> set (filter (\<lambda>i. i \<noteq> 0) ex) \<or> node = owner"
  have t: "told VaVarChanged (propagateChange env owner name rec ex h) =
      concat (map (\<lambda>(node, conns). if ?P node then [] else map (\<lambda>cid. (cid, node)) conns) ?subs)"
    using told_sends[where P = ?P] by (simp add: propagateChange_def assms(2) Let_def)
  show ?thesis
    unfolding t told_sends_set subscribers_mem[OF assms(1)] by auto
qed

lemma told_unsub [simp]:
  fixes h :: "'p varState"
  assumes a: "act \<noteq> VaAssistUnsubscribe"
  shows "told act (snd (varMaybeUnsubscribeUpstream env ks h)) = []"
proof -
  have one: "told act (snd st) = [] \<Longrightarrow> told act (snd (varUnsubscribeUpstreamOne env srv st k)) = []" for srv k and st :: "'p varState \<times> varOut list"
    using a by (cases st) (simp add: varUnsubscribeUpstreamOne_def told_forward Let_def split: option.split prod.split)
  have "told act (snd st) = [] \<Longrightarrow> told act (snd (foldl (varUnsubscribeUpstreamOne env srv) st ks)) = []" for srv and st :: "'p varState \<times> varOut list"
    by (induction ks arbitrary: st) (simp_all add: one)
  then show ?thesis by (simp add: varMaybeUnsubscribeUpstream_def split: option.split)
qed

lemma told_delete:
  assumes "innerwf (subscriptions h)" and "vServer env = Some srv"
  shows "set (told VaVarDeleted (snd (propagateDelete env owner name keep ex h))) =
    {(cid, node). node \<noteq> 0 \<and> (varKey owner name, node, cid) \<in> vsubs h \<and> node \<notin> set ex \<and> node \<noteq> keep}"
proof -
  let ?subs = "subscribersFor (varKey owner name) 0 h"
  let ?P = "\<lambda>node. node \<in> set (filter (\<lambda>i. i \<noteq> 0) ex @ (if keep \<noteq> 0 then [keep] else []))"
  have t: "told VaVarDeleted (snd (propagateDelete env owner name keep ex h)) =
      concat (map (\<lambda>(node, conns). if ?P node then [] else map (\<lambda>cid. (cid, node)) conns) ?subs)"
    using told_sends[where P = ?P] by (simp add: propagateDelete_def assms(2) Let_def case_prod_unfold)
  show ?thesis
    unfolding t told_sends_set subscribers_mem[OF assms(1)] by auto
qed

lemma propagateDelete_subs:
  assumes "innerwf (subscriptions h)" and "vServer env = Some srv"
  shows "vsubs (fst (propagateDelete env owner name keep ex h)) = vsubs h - {(varKey owner name, n, c) |n c. n \<noteq> keep}"
proof -
  let ?g = "snd (clearSubscriptionsExcept (varKey owner name) keep h)"
  have "subscriptions (fst (varMaybeUnsubscribeUpstream env [varKey owner name] ?g)) = subscriptions ?g"
    using unsubscribeUpstream_frame by blast
  then have "vsubs (fst (propagateDelete env owner name keep ex h)) = vsubs ?g"
    by (simp add: propagateDelete_fst assms(2) vsubs_def)
  with clear_rel(1)[OF assms(1)] show ?thesis by simp
qed

subsection \<open>A concrete node for the examples\<close>

definition demoVSrv :: server where
  "demoVSrv = \<lparr>sNodeID = 2, sConns = [\<lparr>cID = ''up'', cRole = Some (MString ''parent''), cNode = Some (MUint32 1)\<rparr>],
     sGet = (\<lambda>i. Some \<lparr>cID = i, cRole = None, cNode = None\<rparr>),
     sByNode = (\<lambda>n. if n = 7 then Some \<lparr>cID = ''c7'', cRole = None, cNode = Some (MUint32 7)\<rparr> else None),
     sSendErr = (\<lambda>_. False), sHasEventBus = False, sRoleParent = ''parent''\<rparr>"

definition demoVEnv :: varEnv where
  "demoVEnv = \<lparr>vServer = Some demoVSrv, vSourceNode = (\<lambda>oh c. hdrSourceID oh), vPermCfg = None, vCloneFwd = Some,
     vActName = (\<lambda>_. ''x''), vNow = 1\<rparr>"

definition demoVConn :: conn where
  "demoVConn = \<lparr>cID = ''c7'', cRole = None, cNode = Some (MUint32 7)\<rparr>"

definition demoSet :: "nodeID \<Rightarrow> string \<Rightarrow> string \<Rightarrow> varBody" where
  "demoSet owner value vis =
     \<lparr>bSet = (True, \<lparr>dName = ''temp'', dValue = value, dVisibility = vis, dType = [], dOwner = owner\<rparr>),
      bGet = (True, \<lparr>gName = ''temp'', gOwner = owner\<rparr>), bList = (True, owner),
      bSub = (True, \<lparr>sName = ''temp'', sOwner = owner, sSubscriber = 0\<rparr>), bResp = (False, zeroResp)\<rparr>"

definition demoVState :: "memStore varState" where
  "demoVState = saveRecord ''temp''
     \<lparr>rValue = ''old'', rOwner = 7, rIsPublic = False, rVisibility = ''private'', rType = ''string''\<rparr> (newVarStore 0 [])"

definition demoHdr :: "nodeID \<Rightarrow> header" where
  "demoHdr src = zeroHeader\<lparr>hSourceID := src, hMajor := MajorCmd, hMsgID := 5\<rparr>"

subsection \<open>Properties\<close>

text \<open>
  C1: A variable changes through \<open>set\<close> only when its owner is reachable here and the caller is the
  owner, or the variable exists and the caller asks for public visibility (or keeps
  it), or holds the permission to set private variables; nobody but its owner creates a
  variable, and no other variable changes.
\<close>
theorem varstore_set_authorized:
  assumes "varHandleSet ops env c hdr body assisted h = (h', outs)"
    and "lookupOwned owner name h' \<noteq> lookupOwned owner name h"
  shows "\<exists>req. bSet body = (True, req) \<and> validVarName name \<and> name = dName req \<and> owner = setOwner req hdr h \<and>
    ownerInSubtree env owner \<and>
    lookupOwned owner name h' = Some (nextRecord req owner (case lookupOwned owner name h of Some r \<Rightarrow> r | None \<Rightarrow> zeroRecord)) \<and>
    (vSourceNode env (Some hdr) c = owner \<or>
     (\<exists>ex. lookupOwned owner name h = Some ex \<and>
        (isPublicText (nextVisibility req (Some ex)) \<or> hasPermission env (vSourceNode env (Some hdr) c) VarPrivateSet)))"
proof -
  obtain ok req where b: "bSet body = (ok, req)" by fastforce
  let ?o = "setOwner req hdr h" and ?actor = "vSourceNode env (Some hdr) c"
  let ?found = "lookupOwned ?o (dName req) h"
  let ?ex = "case ?found of Some r \<Rightarrow> r | None \<Rightarrow> zeroRecord"
  have ch: "lookupOwned owner name (fst (varHandleSet ops env c hdr body assisted h)) \<noteq> lookupOwned owner name h"
    using assms by simp
  note fw = lookup_cong[OF forwardWrite_frame]
  have ok: "ok" "validVarName (dName req)" "trimSpace (dValue req) \<noteq> []"
    using ch by (auto simp: varHandleSet_def b Let_def split: if_splits)
  have o: "?o \<noteq> 0" using ch ok by (auto simp: varHandleSet_def b Let_def split: if_splits)
  have sub: "vServer env \<noteq> None" "ownerInSubtree env ?o"
    using ch ok o by (auto simp: varHandleSet_def b fw Let_def split: if_splits option.splits)
  have perm: "\<not> (?found = None \<and> ?actor \<noteq> ?o)"
      "\<not> (\<not> isPublicText (nextVisibility req ?found) \<and> ?actor \<noteq> ?o \<and> \<not> hasPermission env ?actor VarPrivateSet)"
    using ch ok o sub by (auto simp: varHandleSet_def b Let_def split: if_splits option.splits)
  have hs: "fst (varHandleSet ops env c hdr body assisted h) =
      fst (commitSet ops env c hdr req ?actor ?o ?ex assisted h)"
    using ok o sub perm by (auto simp: varHandleSet_def b Let_def)
  have at: "owner = ?o" "name = dName req"
    "lookupOwned owner name h' = Some (nextRecord req ?o ?ex)"
    using ch commitSet_records[OF ok(2) o, of ops env c hdr ?actor ?ex assisted h] assms(1) unfolding hs
    by (auto simp: hs[symmetric] split: if_splits)
  show ?thesis using b ok sub perm at by (cases ?found) auto
qed

theorem varstore_set_authorized_witness:
  "lookupOwned 7 ''temp'' (fst (varHandleSet memoryPersistence demoVEnv demoVConn (demoHdr 7) (demoSet 7 ''new'' []) False demoVState)) =
     Some \<lparr>rValue = ''new'', rOwner = 7, rIsPublic = False, rVisibility = ''private'', rType = ''string''\<rparr> \<and>
   ownerInSubtree demoVEnv 7"
proof -
  let ?run = "varHandleSet memoryPersistence demoVEnv demoVConn (demoHdr 7) (demoSet 7 ''new'' []) False demoVState"
  have new: "lookupOwned 7 ''temp'' (fst ?run) =
      Some \<lparr>rValue = ''new'', rOwner = 7, rIsPublic = False, rVisibility = ''private'', rType = ''string''\<rparr>" by code_simp
  have old: "lookupOwned 7 ''temp'' demoVState =
      Some \<lparr>rValue = ''old'', rOwner = 7, rIsPublic = False, rVisibility = ''private'', rType = ''string''\<rparr>" by code_simp
  have "ownerInSubtree demoVEnv 7"
    using varstore_set_authorized[OF prod.collapse[symmetric], of 7 "''temp''" memoryPersistence demoVEnv demoVConn "demoHdr 7"
        "demoSet 7 ''new'' []" False demoVState] new old by auto
  with new show ?thesis by blast
qed



text \<open>
  A caller that is neither the owner nor permitted to set private variables can nevertheless overwrite a
  private variable, by asking for public visibility: the permission check looks at the requested visibility, not
  at the current one. The variable then has the caller's value and is public.
\<close>
theorem varstore_private_overwrite:
  assumes "vServer env = Some srv" and "ownerInSubtree env owner" and "owner \<noteq> 0"
    and "lookupOwned owner name h = Some old" and "\<not> rIsPublic old"
    and "vSourceNode env (Some hdr) c \<noteq> owner" and "\<not> hasPermission env (vSourceNode env (Some hdr) c) VarPrivateSet"
    and "bSet body = (True, req)" and "dOwner req = owner" and "dName req = name" and "validVarName name"
    and "trimSpace (dValue req) \<noteq> []" and "dVisibility req = ''public''" and "meminv (vstore h)"
    and "varHandleSet memoryPersistence env c hdr body assisted h = (h', outs)"
  shows "\<exists>new. lookupOwned owner name h' = Some new \<and> rValue new = dValue req \<and> rIsPublic new"
proof -
  have t: "trimSpace ''public'' = ''public''" "toLower ''public'' = ''public''" by code_simp+
  have o: "setOwner req hdr h = owner" using assms(3,9) by (simp add: setOwner_def firstNonZero_def)
  have vis: "isPublicText (nextVisibility req (Some old))"
    using assms(13) t by (simp add: nextVisibility_def isPublicText_def visibilityPublic_def)
  let ?actor = "vSourceNode env (Some hdr) c"
  have hs: "fst (varHandleSet memoryPersistence env c hdr body assisted h) =
      fst (commitSet memoryPersistence env c hdr req ?actor owner old assisted h)"
    using assms(1-4,8,10-12) o vis by (simp add: varHandleSet_def Let_def)
  have "\<not> fst (persistRecord memoryPersistence (dName req) (nextRecord req owner old) h)"
    using memory_persist[OF assms(14), of name "nextRecord req owner old"] assms(3,10,11) by (metis nextRecord_owner prod.collapse)
  then have "lookupOwned owner name h' = Some (nextRecord req owner old)"
    using commitSet_records[of req owner memoryPersistence env c hdr ?actor old assisted h] hs assms(3,10,11,15) by simp
  moreover have "rValue (nextRecord req owner old) = dValue req \<and> rIsPublic (nextRecord req owner old)"
    using assms(13) t by (simp add: nextRecord_def isPublicText_def visibilityPublic_def Let_def)
  ultimately show ?thesis by blast
qed

lemma demoVState_store: "meminv (vstore demoVState)"
  by (simp add: demoVState_def saveRecord_def newVarStore_def meminv_empty)

theorem varstore_private_overwrite_witness:
  "\<exists>new. lookupOwned 7 ''temp'' (fst (varHandleSet memoryPersistence demoVEnv demoVConn (demoHdr 9) (demoSet 7 ''evil'' ''public'') False
      demoVState)) = Some new \<and> rValue new = ''evil'' \<and> rIsPublic new"
proof -
  have l: "lookupOwned 7 ''temp'' demoVState =
      Some \<lparr>rValue = ''old'', rOwner = 7, rIsPublic = False, rVisibility = ''private'', rType = ''string''\<rparr>" by code_simp
  have e: "ownerInSubtree demoVEnv 7" "validVarName ''temp''" "trimSpace ''evil'' \<noteq> []"
    "\<not> hasPermission demoVEnv (vSourceNode demoVEnv (Some (demoHdr 9)) demoVConn) VarPrivateSet"
    "vSourceNode demoVEnv (Some (demoHdr 9)) demoVConn \<noteq> 7"
    by (code_simp, code_simp, code_simp, code_simp, simp add: demoVEnv_def demoHdr_def hdrSourceID_def)
  show ?thesis
    using varstore_private_overwrite[OF _ e(1) _ l _ e(5,4) _ _ _ e(2) _ _ demoVState_store prod.collapse[symmetric],
        of demoVSrv "demoSet 7 ''evil'' ''public''" "snd (bSet (demoSet 7 ''evil'' ''public''))" False] e(3)
    by (simp add: demoVEnv_def demoSet_def)
qed

text \<open>
  C35: A \<open>revoke\<close> by the owner or by a caller with the permission, of a variable that is known here, removes its record,
  its persisted document and every subscription to it, and tells exactly the
  subscribers other than caller, source and owner. Without permission nothing changes and the answer is code 3.
\<close>
theorem varstore_revoke_complete:
  assumes "vServer env = Some srv" and "bGet body = (True, req)" and "validVarName (gName req)"
    and "owner = firstNonZero (gOwner req) (hSourceID hdr)" and "ownerInSubtree env owner"
    and "lookupOwned owner (gName req) h \<noteq> None" and "meminv (vstore h)"
    and "innerwf (subscriptions h) \<and> (\<forall>(k, n, cid)\<in>vsubs h. n \<noteq> 0)" and "actor = vSourceNode env (Some hdr) c"
    and "varHandleRevoke memoryPersistence env c hdr body assisted h = (h', outs)"
  shows "if actor = owner \<or> hasPermission env actor VarRevoke
    then lookupOwned owner (gName req) h' = None \<and>
      memstore.restartView (vstore h') (owner, gName req) = None \<and>
      vsubs h' = {(k, n, cid) \<in> vsubs h. k \<noteq> varKey owner (gName req)} \<and>
      set (told VaVarDeleted outs) =
        {(cid, node). (varKey owner (gName req), node, cid) \<in> vsubs h \<and> node \<notin> {actor, hSourceID hdr, owner}}
    else h' = h \<and> outs = sendResp env (Some c) (Some hdr) (chooseRevokeResp assisted)
      (zeroResp\<lparr>vrCode := 3, vrMsg := ''forbidden'', vrName := gName req, vrOwner := owner\<rparr>)"
proof -
  let ?n = "gName req"
  have o: "owner \<noteq> 0" using assms(5) by (simp add: ownerInSubtree_def)
  have run: "varHandleRevoke memoryPersistence env c hdr body assisted h =
      (if actor \<noteq> owner \<and> \<not> hasPermission env actor VarRevoke
       then (h, sendResp env (Some c) (Some hdr) (chooseRevokeResp assisted)
          (zeroResp\<lparr>vrCode := 3, vrMsg := ''forbidden'', vrName := ?n, vrOwner := owner\<rparr>))
       else commitRevoke memoryPersistence env c hdr req actor owner assisted h)"
    using assms(1-6,9) o by (auto simp: varHandleRevoke_def Let_def)
  show ?thesis
  proof (cases "actor = owner \<or> hasPermission env actor VarRevoke")
    case False
    with run assms(10) show ?thesis by simp
  next
    case True
    note trim = validVarName_trim[OF assms(3)]
    have ne: "?n \<noteq> []" using assms(3) by (simp add: validVarName_def)
    obtain p' where del: "pDelete memoryPersistence owner ?n (vstore h) = (False, p')"
      using o ne trim by (simp add: memoryPersistence_def memDelete_def Let_def)
    let ?h2 = "deleteRecord owner ?n (h\<lparr>vstore := p'\<rparr>)"
    let ?pd = "propagateDelete env owner ?n 0 [actor, hSourceID hdr, owner] ?h2"
    have wf2: "innerwf (subscriptions ?h2)" and vs2: "vsubs ?h2 = vsubs h" and st2: "vstore ?h2 = p'"
      using assms(8) by (simp_all add: deleteRecord_def vsubs_def)
    have eq: "(h', outs) = commitRevoke memoryPersistence env c hdr req actor owner assisted h"
      using run True assms(10) by auto
    have cr: "(h', outs) = (fst ?pd, snd ?pd @ forwardParent env VaUpRevoke (VdGet (req\<lparr>gOwner := owner\<rparr>)) actor @
        sendResp env (Some c) (Some hdr) (chooseRevokeResp assisted)
          (zeroResp\<lparr>vrCode := 1, vrMsg := ''ok'', vrName := ?n, vrOwner := owner\<rparr>) @
        (if actor \<noteq> owner then sendNotifyRevoke env actor owner ?n else []))"
      unfolding eq
      by (simp add: commitRevoke_def persistDelete_def del trim handleDeletion_def case_prod_unfold Let_def)
    have quiet: "told VaVarDeleted (forwardParent env VaUpRevoke d actor) = []"
      "told VaVarDeleted (sendNotifyRevoke env actor owner ?n) = []"
      "told VaVarDeleted (sendResp env (Some c) (Some hdr) (chooseRevokeResp assisted) r) = []" for d r
      by (auto simp: forwardParent_def told_forward told_notifyRevoke told_resp chooseRevokeResp_def split: option.split)
    have "lookupOwned owner ?n h' = None"
      using cr by (simp add: lookup_cong[OF propagateDelete_frame(1)] lookup_delete)
    moreover have "memstore.restartView (vstore h') (owner, ?n) = None"
      using cr propagateDelete_frame(2)[of env owner ?n 0 _ ?h2] st2 memstore.restart_delete[OF assms(7) del] trim by simp
    moreover have "vsubs h' = {(k, n, cid) \<in> vsubs h. k \<noteq> varKey owner ?n}"
      using cr propagateDelete_subs[OF wf2 assms(1)] vs2 assms(8) by auto
    moreover have "set (told VaVarDeleted outs) =
        {(cid, node). (varKey owner ?n, node, cid) \<in> vsubs h \<and> node \<notin> {actor, hSourceID hdr, owner}}"
      using cr told_delete[OF wf2 assms(1), of owner ?n 0 "[actor, hSourceID hdr, owner]"] vs2 quiet assms(8) by auto
    ultimately show ?thesis using True by simp
  qed
qed

theorem varstore_revoke_complete_witness:
  "set (told VaVarDeleted (snd (varHandleRevoke memoryPersistence demoVEnv demoVConn (demoHdr 7) (demoSet 7 [] []) False
     (addSubscription 7 ''temp'' 5 ''c5'' demoVState)))) = {(''c5'', 5)}"
proof -
  let ?h = "addSubscription 7 ''temp'' 5 ''c5'' demoVState"
  let ?req = "\<lparr>gName = ''temp'', gOwner = 7\<rparr>"
  have base: "vsubs demoVState = {}" "innerwf (subscriptions demoVState)" "vstore ?h = []"
    by (simp_all add: demoVState_def saveRecord_def newVarStore_def vsubs_def innerwf_def addSubscription_def Let_def)
  have vs: "vsubs ?h = {(varKey 7 ''temp'', 5, ''c5'')}" using addSubscription_rel(1)[of 7 "''temp''" 5 "''c5''" demoVState] base by simp
  have wf: "innerwf (subscriptions ?h) \<and> (\<forall>(k, n, cid)\<in>vsubs ?h. n \<noteq> 0)"
    using innerwf_ops(1)[OF base(2)] vs by simp
  have e: "validVarName (gName ?req)" "ownerInSubtree demoVEnv 7" "lookupOwned 7 (gName ?req) ?h \<noteq> None"
    by (code_simp, code_simp, code_simp)
  have g: "bGet (demoSet 7 [] []) = (True, ?req)" "7 = firstNonZero (gOwner ?req) (hSourceID (demoHdr 7))"
    "vServer demoVEnv = Some demoVSrv" "meminv (vstore ?h)" "7 = vSourceNode demoVEnv (Some (demoHdr 7)) demoVConn"
    by (simp_all add: demoSet_def firstNonZero_def demoVEnv_def base meminv_empty hdrSourceID_def demoHdr_def)
  show ?thesis
    using varstore_revoke_complete[OF g(3,1) e(1) g(2) e(2,3) g(4) wf g(5) prod.collapse[symmetric], of False] vs
    by (auto simp: demoHdr_def)
qed



text \<open>
  Every downstream \<open>get\<close> that waits for the parent is answered exactly once, in the order of arrival and
  under its own message identifier, by the next response for its variable; a repeated response is answered to nobody.
\<close>
theorem varstore_get_answered_once:
  assumes "fst (popPending owner name PkGet h) = []"
    and "h1 = fold (\<lambda>w. addPending owner name (wConn w) PkGet (Some (waiterHeader w))) ws h"
    and "bResp body = (True, resp)" and "vrOwner resp = owner" and "vrName resp = name"
    and "varHandleGetResp env body h1 = (h2, outs)"
  shows "outs = concat (map (\<lambda>w. sendResp env (lookupConn env (wConn w)) (Some (waiterHeader w)) VaGetResp resp) ws) \<and>
    snd (varHandleGetResp env body h2) = []"
proof -
  have once: "fst (popPending owner name PkGet h1) = ws"
      "fst (popPending owner name PkGet (snd (popPending owner name PkGet h1))) = []"
    using pendTable.pop_once[of ws "(owner, name, PkGet)" h] assms(1,2) by simp_all
  have outs: "outs = broadcastPendingResp env ws VaGetResp resp"
    and h2: "fst (popPending owner name PkGet h2) = []"
    using assms(3-6) once by (auto simp: varHandleGetResp_def case_prod_unfold Let_def)
  have "snd (varHandleGetResp env body h2) = broadcastPendingResp env (fst (popPending owner name PkGet h2)) VaGetResp resp"
    using assms(3-5) by (simp add: varHandleGetResp_def case_prod_unfold Let_def)
  then show ?thesis using outs h2 by (simp add: broadcastPendingResp_def)
qed

definition demoWait :: pendingWaiter where
  "demoWait = \<lparr>wConn = ''c9'', wRequester = 9, wMsgID = 11, wTraceID = 0\<rparr>"

definition demoRespBody :: varBody where
  "demoRespBody = (demoSet 7 [] [])\<lparr>bResp := (True, zeroResp\<lparr>vrCode := 1, vrName := ''temp'', vrOwner := 7, vrValue := ''secret''\<rparr>)\<rparr>"

theorem varstore_get_answered_once_witness:
  "snd (varHandleGetResp demoVEnv demoRespBody
     (fst (varHandleGetResp demoVEnv demoRespBody
        (fold (\<lambda>w. addPending 7 ''temp'' (wConn w) PkGet (Some (waiterHeader w))) [demoWait] demoVState)))) = []"
proof -
  have p: "fst (popPending 7 ''temp'' PkGet demoVState) = []"
    by (simp add: popPending_def demoVState_def saveRecord_def newVarStore_def Let_def)
  have b: "bResp demoRespBody = (True, zeroResp\<lparr>vrCode := 1, vrName := ''temp'', vrOwner := 7, vrValue := ''secret''\<rparr>)"
    by (simp add: demoRespBody_def)
  show ?thesis using varstore_get_answered_once[OF p refl b _ _ prod.collapse[symmetric], of demoVEnv "[demoWait]"] by simp
qed

text \<open>
  The refusal that \<open>get\<close> sends for a private variable names neither owner nor variable, so the child
  that passed the request on finds no waiting request for it and keeps it waiting; when later somebody
  else is allowed to read the same variable through that child, the value is also sent to the requester that was refused.
\<close>
theorem varstore_refused_get_leaks:
  assumes "vServer penv = Some psrv" and "bGet pbody = (True, preq)" and "validVarName (gName preq)"
    and "gOwner preq = owner" and "ownerInSubtree penv owner" and "lookupOwned owner (gName preq) ph = Some prec"
    and "\<not> rIsPublic prec" and "owner \<noteq> hSourceID phdr"
    and "\<not> hasPermission penv (vSourceNode penv (Some phdr) pc) VarPrivateSet"
    and "varHandleGet penv pc phdr pbody assisted ph = (ph', [VSend i x act (VdResp refusal)])"
    and "bResp refusalBody = (True, refusal)"
    and "h1 = addPending owner (gName preq) (wConn w) PkGet (Some (waiterHeader w)) h"
    and "h2 = fst (varHandleGetResp env refusalBody h1)"
    and "bResp okBody = (True, resp)" and "vrOwner resp = owner" and "vrName resp = gName preq"
  shows "vrCode refusal = 3 \<and> snd (varHandleGetResp env refusalBody h1) = concat (map (\<lambda>w.
      sendResp env (lookupConn env (wConn w)) (Some (waiterHeader w)) VaGetResp refusal) (fst (popPending 0 [] PkGet h))) \<and>
    set (sendResp env (lookupConn env (wConn w)) (Some (waiterHeader w)) VaGetResp resp)
      \<subseteq> set (snd (varHandleGetResp env okBody h2))"
proof -
  have o: "owner \<noteq> 0" using assms(5) by (simp add: ownerInSubtree_def)
  have ne: "gName preq \<noteq> []" using assms(3) by (simp add: validVarName_def)
  have "varHandleGet penv pc phdr pbody assisted ph =
      (ph, sendResp penv (Some pc) (Some phdr) (chooseGetResp assisted) (zeroResp\<lparr>vrCode := 3, vrMsg := ''forbidden''\<rparr>))"
    using assms(1-9) o by (simp add: varHandleGet_def firstNonZero_def Let_def)
  then have ref: "refusal = zeroResp\<lparr>vrCode := 3, vrMsg := ''forbidden''\<rparr>"
    using assms(1,10) by (auto simp: sendResp_def Let_def)
  have r0: "vrOwner refusal = 0" "vrName refusal = []" "vrCode refusal = 3" by (simp_all add: ref zeroResp_def)
  have h2: "h2 = snd (popPending 0 [] PkGet h1)"
    and out1: "snd (varHandleGetResp env refusalBody h1) = broadcastPendingResp env (fst (popPending 0 [] PkGet h1)) VaGetResp refusal"
    using assms(11,13) r0 by (simp_all add: varHandleGetResp_def case_prod_unfold Let_def)
  have p: "fst (popPending 0 [] PkGet h1) = fst (popPending 0 [] PkGet h)"
    "fst (popPending owner (gName preq) PkGet h2) = fst (popPending owner (gName preq) PkGet h) @ [w]"
    using pendTable.pop_add_other[where j = "(owner, gName preq, PkGet)" and w = w and k = "(0, [], PkGet)" and t = h] ne
      pendTable.pop_popped_other[where j = "(0, [], PkGet)" and k = "(owner, gName preq, PkGet)" and t = h1]
      pendTable.pop_add[where k = "(owner, gName preq, PkGet)" and w = w and t = h] assms(12) h2 by simp_all
  have "snd (varHandleGetResp env okBody h2) = broadcastPendingResp env (fst (popPending owner (gName preq) PkGet h2)) VaGetResp resp"
    using assms(14-16) by (simp add: varHandleGetResp_def case_prod_unfold Let_def)
  with p out1 r0(3) show ?thesis by (simp add: broadcastPendingResp_def)
qed

theorem varstore_refused_get_leaks_witness:
  "let body = demoSet 7 [] []; refusal = zeroResp\<lparr>vrCode := 3, vrMsg := ''forbidden''\<rparr>;
       h1 = addPending 7 ''temp'' ''c9'' PkGet (Some (waiterHeader demoWait)) (newVarStore 0 ([] :: memStore));
       h2 = fst (varHandleGetResp demoVEnv (body\<lparr>bResp := (True, refusal)\<rparr>) h1)
   in set (sendResp demoVEnv (lookupConn demoVEnv ''c9'') (Some (waiterHeader demoWait)) VaGetResp (snd (bResp demoRespBody)))
      \<subseteq> set (snd (varHandleGetResp demoVEnv demoRespBody h2))"
proof -
  let ?refusal = "zeroResp\<lparr>vrCode := 3, vrMsg := ''forbidden''\<rparr>"
  let ?body = "demoSet 7 [] []"
  have run: "varHandleGet demoVEnv demoVConn (demoHdr 9) ?body True demoVState =
      (demoVState, [VSend ''c7'' (varBuildRespHeader (Some demoVConn) (Some (demoHdr 9))) VaAssistGetResp (VdResp ?refusal)])"
    by code_simp
  have e: "validVarName ''temp''" "ownerInSubtree demoVEnv 7"
    "lookupOwned 7 ''temp'' demoVState = Some \<lparr>rValue = ''old'', rOwner = 7, rIsPublic = False, rVisibility = ''private'', rType = ''string''\<rparr>"
    by code_simp+
  have b: "bGet ?body = (True, \<lparr>gName = ''temp'', gOwner = 7\<rparr>)" "vServer demoVEnv = Some demoVSrv"
    "7 \<noteq> hSourceID (demoHdr 9)" "\<not> hasPermission demoVEnv (vSourceNode demoVEnv (Some (demoHdr 9)) demoVConn) VarPrivateSet"
    "bResp (?body\<lparr>bResp := (True, ?refusal)\<rparr>) = (True, ?refusal)"
    "bResp demoRespBody = (True, zeroResp\<lparr>vrCode := 1, vrName := ''temp'', vrOwner := 7, vrValue := ''secret''\<rparr>)"
    by (simp_all add: demoSet_def demoVEnv_def demoHdr_def hasPermission_def demoRespBody_def)
  show ?thesis
    using varstore_refused_get_leaks[where prec = "\<lparr>rValue = ''old'', rOwner = 7, rIsPublic = False, rVisibility = ''private'', rType = ''string''\<rparr>"
          and h = "newVarStore 0 ([] :: memStore)" and w = demoWait and env = demoVEnv,
        OF b(2,1) _ _ e(2) _ _ b(3,4) run b(5) refl refl b(6)] e b(6)
    by (simp add: demoWait_def)
qed

text \<open>
  A command frame whose header targets another node is never executed here, unless it is a
  notification (which is executed in addition); it is passed on at most once, never back to the connection it came
  from and never from parent to parent, with its target kept.
\<close>
theorem varstore_relays_foreign_frames:
  assumes "shouldForwardByHeaderTarget env hdr act" and "vServer env = Some srv"
    and "varOnReceive ops env c hdr (Some (act, body)) h = (h', outs)"
  shows "(act \<notin> {VaNotifySet, VaNotifyRevoke, VaVarChanged, VaVarDeleted} \<longrightarrow> h' = maybeSweepWriting (vNow env) h) \<and>
    (\<exists>rest. outs = snd (forwardCmdByHeaderTarget env c hdr) @ rest) \<and>
    length (snd (forwardCmdByHeaderTarget env c hdr)) \<le> 1 \<and>
    (\<forall>i x. VRelay i x \<in> set (snd (forwardCmdByHeaderTarget env c hdr)) \<longrightarrow>
       i \<noteq> cID c \<and> hTargetID x = hTargetID hdr \<and>
       (\<exists>n. i = cID n \<and> \<not> (isParentConn srv c \<and> isParentConn srv n) \<and>
         (sByNode srv (hTargetID hdr) = Some n \<or> sByNode srv (hTargetID hdr) = None \<and> findParent (Some srv) = Some n)))"
proof -
  have t: "hTargetID hdr \<noteq> 0" "hTargetID hdr \<noteq> sNodeID srv"
    using assms(1,2) by (auto simp: shouldForwardByHeaderTarget_def split: if_splits)
  obtain f code m o1 where fwd: "forwardCmdByHeaderTarget env c hdr = ((f, code, m), o1)" by (metis prod.exhaust)
  have fc: "f \<or> code \<noteq> 0"
    using fwd t assms(2) by (auto simp: forwardCmdByHeaderTarget_def Let_def split: option.splits if_splits)
  have "length o1 \<le> 1 \<and> (\<forall>i x. VRelay i x \<in> set o1 \<longrightarrow> i \<noteq> cID c \<and> hTargetID x = hTargetID hdr \<and>
       (\<exists>n. i = cID n \<and> \<not> (isParentConn srv c \<and> isParentConn srv n) \<and>
         (sByNode srv (hTargetID hdr) = Some n \<or> sByNode srv (hTargetID hdr) = None \<and> findParent (Some srv) = Some n)))"
    using fwd t assms(2) by (auto simp: forwardCmdByHeaderTarget_def Let_def split: option.splits if_splits)
  moreover have "act \<notin> {VaNotifySet, VaNotifyRevoke, VaVarChanged, VaVarDeleted} \<longrightarrow> h' = maybeSweepWriting (vNow env) h"
    and "\<exists>rest. outs = o1 @ rest"
    using assms(1,3) fc by (auto simp: varOnReceive_def fwd Let_def case_prod_unfold split: if_splits)
  ultimately show ?thesis using fwd by simp
qed

theorem varstore_relays_foreign_frames_witness:
  "fst (varOnReceive memoryPersistence demoVEnv demoVConn ((demoHdr 7)\<lparr>hTargetID := 33\<rparr>) (Some (VaSet, demoSet 7 ''x'' [])) demoVState) =
     maybeSweepWriting 1 demoVState"
proof -
  have f: "shouldForwardByHeaderTarget demoVEnv ((demoHdr 7)\<lparr>hTargetID := 33\<rparr>) VaSet" by code_simp
  have e: "vServer demoVEnv = Some demoVSrv" "vNow demoVEnv = 1" by (simp_all add: demoVEnv_def)
  from varstore_relays_foreign_frames[OF f e(1) prod.collapse[symmetric],
      where ops = memoryPersistence and c = demoVConn and body = "demoSet 7 ''x'' []" and h = demoVState] e(2)
  show ?thesis by simp
qed

text \<open>
  A visibility with surrounding white space is stored trimmed, but its flag is computed from the
  untrimmed text: a variable that its owner sets with visibility \<open>" public "\<close> is private until the node restarts, and public afterwards.
\<close>
theorem varstore_restart_flips_visibility:
  "lookupOwned 7 ''temp'' (fst (varHandleSet memoryPersistence demoVEnv demoVConn (demoHdr 7) (demoSet 7 ''v'' '' public '') False demoVState)) =
     Some \<lparr>rValue = ''v'', rOwner = 7, rIsPublic = False, rVisibility = ''public'', rType = ''string''\<rparr> \<and>
   lookupOwned 7 ''temp'' (snd (loadPersistedRecords memoryPersistence
     (fst (varHandleSet memoryPersistence demoVEnv demoVConn (demoHdr 7) (demoSet 7 ''v'' '' public '') False demoVState)))) =
     Some \<lparr>rValue = ''v'', rOwner = 7, rIsPublic = True, rVisibility = ''public'', rType = ''string''\<rparr>"
  by (intro conjI) code_simp+

end
