(* ===== verification/Flow_Json.thy ===== *)
theory Flow_Json
  imports Go_Strings
begin

text \<open>
  JSON values as the orchestrator handles them (\<open>flow/runtime_bindings.go\<close>): a value of
  Go type \<open>any\<close> as \<open>encoding/json\<close> produces it, JSON pointers, reading and writing at a pointer.

  A number is a \<open>float64\<close> (\<open>JNum\<close>, of an arbitrary type \<open>'f\<close>, since no operation here
  computes with it) or, for an index or a length that the orchestrator adds itself, an \<open>int\<close> (\<open>JInt\<close>).
  An object is a Go map. Growing an array allocates memory: \<open>lim\<close> is the number of
  slots that \<open>make\<close> can provide, beyond which it panics.
\<close>

datatype 'f jsonv =
    JNull | JBool bool | JNum 'f | JInt int | JStr string
  | JArr "'f jsonv list" | JObj "(string \<times> 'f jsonv) list"

datatype jsonErr = BadPointer | BadEscape | BadIndex string | ScalarTarget string

section \<open>Pointers\<close>

fun unescapeToken :: "string \<Rightarrow> jsonErr + string" where
  "unescapeToken [] = Inr []"
| "unescapeToken (c # cs) =
     (if c \<noteq> CHR ''~'' then map_sum id (Cons c) (unescapeToken cs)
      else case cs of
             [] \<Rightarrow> Inl BadEscape
           | d # ds \<Rightarrow>
               if d = CHR ''0'' then map_sum id (Cons (CHR ''~'')) (unescapeToken ds)
               else if d = CHR ''1'' then map_sum id (Cons (CHR ''/'')) (unescapeToken ds)
               else Inl BadEscape)"

definition decodeJSONPointerToken :: "string \<Rightarrow> jsonErr + string" where
  "decodeJSONPointerToken token = (if CHR ''~'' \<notin> set token then Inr token else unescapeToken token)"

fun decodeTokens :: "string list \<Rightarrow> jsonErr + string list" where
  "decodeTokens [] = Inr []"
| "decodeTokens (p # ps) =
     (case decodeJSONPointerToken p of
        Inl e \<Rightarrow> Inl e
      | Inr t \<Rightarrow> map_sum id (Cons t) (decodeTokens ps))"

definition parseJSONPointer :: "string \<Rightarrow> jsonErr + string list" where
  "parseJSONPointer pointer0 =
     (let pointer = trimSpace pointer0 in
      if pointer = [] then Inr []
      else if \<not> hasPrefix pointer ''/'' then Inl BadPointer
      else decodeTokens (splitOn (CHR ''/'') (drop 1 pointer)))"

definition isArrayIndexToken :: "string \<Rightarrow> bool" where
  "isArrayIndexToken token = (token \<noteq> [] \<and> list_all isDigit token)"

definition parseJSONPointerIndex :: "string \<Rightarrow> jsonErr + nat" where
  "parseJSONPointerIndex token =
     (if \<not> isArrayIndexToken token then Inl (BadIndex token)
      else case parseUint 63 token of
             None \<Rightarrow> Inl (BadIndex token)
           | Some i \<Rightarrow> Inr i)"

section \<open>Reading and writing\<close>

fun getJSONTokens :: "'f jsonv \<Rightarrow> string list \<Rightarrow> jsonErr + 'f jsonv option" where
  "getJSONTokens current [] = Inr (Some current)"
| "getJSONTokens current (token # tokens) =
     (case current of
        JObj kvs \<Rightarrow>
          (case map_of kvs token of
             None \<Rightarrow> Inr None
           | Some next \<Rightarrow> getJSONTokens next tokens)
      | JArr vs \<Rightarrow>
          (case parseJSONPointerIndex token of
             Inl e \<Rightarrow> Inl e
           | Inr i \<Rightarrow> if length vs \<le> i then Inr None else getJSONTokens (vs ! i) tokens)
      | _ \<Rightarrow> Inr None)"

definition getJSONPointerValue :: "'f jsonv \<Rightarrow> string \<Rightarrow> jsonErr + 'f jsonv option" where
  "getJSONPointerValue doc pointer =
     (case parseJSONPointer pointer of
        Inl e \<Rightarrow> Inl e
      | Inr tokens \<Rightarrow> getJSONTokens doc tokens)"

text \<open>\<open>make([]any, n)\<close> and \<open>copy\<close>: the array with at least \<open>i + 1\<close> slots.\<close>

definition growTo :: "nat \<Rightarrow> nat \<Rightarrow> 'f jsonv list \<Rightarrow> 'f jsonv list outcome" where
  "growTo lim i vs =
     (if i < length vs then Ret vs
      else if lim < i + 1 then Panic
      else Ret (vs @ replicate (i + 1 - length vs) JNull))"

fun setJSONPointerTokens ::
  "nat \<Rightarrow> 'f jsonv \<Rightarrow> string list \<Rightarrow> 'f jsonv \<Rightarrow> (jsonErr + 'f jsonv) outcome" where
  "setJSONPointerTokens lim current [] v = Ret (Inr v)"
| "setJSONPointerTokens lim current (token # tokens) v =
     (case (if current = JNull then (if isArrayIndexToken token then JArr [] else JObj []) else current) of
        JObj kvs \<Rightarrow>
          andThen (setJSONPointerTokens lim (gget JNull kvs token) tokens v) (\<lambda>r.
            case r of
              Inl e \<Rightarrow> Ret (Inl e)
            | Inr resolved \<Rightarrow> Ret (Inr (JObj (gput token resolved kvs))))
      | JArr vs \<Rightarrow>
          (case parseJSONPointerIndex token of
             Inl e \<Rightarrow> Ret (Inl e)
           | Inr i \<Rightarrow>
               andThen (growTo lim i vs) (\<lambda>grown.
               andThen (setJSONPointerTokens lim (grown ! i) tokens v) (\<lambda>r.
                 case r of
                   Inl e \<Rightarrow> Ret (Inl e)
                 | Inr resolved \<Rightarrow> Ret (Inr (JArr (grown[i := resolved]))))))
      | _ \<Rightarrow> Ret (Inl (ScalarTarget token)))"

definition setJSONPointerValue ::
  "nat \<Rightarrow> 'f jsonv \<Rightarrow> string \<Rightarrow> 'f jsonv \<Rightarrow> (jsonErr + 'f jsonv) outcome" where
  "setJSONPointerValue lim doc pointer v =
     (case parseJSONPointer pointer of
        Inl e \<Rightarrow> Ret (Inl e)
      | Inr tokens \<Rightarrow> setJSONPointerTokens lim doc tokens v)"

section \<open>Laws\<close>

text \<open>Escaping, the inverse that RFC 6901 prescribes; the program itself only decodes.\<close>

fun escapeToken :: "string \<Rightarrow> string" where
  "escapeToken [] = []"
| "escapeToken (c # cs) =
     (if c = CHR ''~'' then ''~0'' else if c = CHR ''/'' then ''~1'' else [c]) @ escapeToken cs"

definition printJSONPointer :: "string list \<Rightarrow> string" where
  "printJSONPointer tokens = concat (map (\<lambda>t. CHR ''/'' # escapeToken t) tokens)"

lemma unescape_escape: "unescapeToken (escapeToken t) = Inr t"
  by (induction t) auto

lemma unescape_plain: "CHR ''~'' \<notin> set t \<Longrightarrow> unescapeToken t = Inr t"
  by (induction t) auto

lemma decode_escape: "decodeJSONPointerToken (escapeToken t) = Inr t"
  using unescape_escape[of t] unescape_plain[of "escapeToken t"] by (auto simp: decodeJSONPointerToken_def)

lemma escape_no_slash: "CHR ''/'' \<notin> set (escapeToken t)"
  by (induction t) auto

lemma decodeTokens_escape: "decodeTokens (map escapeToken ts) = Inr ts"
  by (induction ts) (auto simp: decode_escape)

lemma printJSONPointer_join:
  "ts \<noteq> [] \<Longrightarrow> printJSONPointer ts = CHR ''/'' # joinWith (CHR ''/'') (map escapeToken ts)"
proof (induction ts)
  case (Cons t ts)
  then show ?case by (cases ts) (auto simp: printJSONPointer_def)
qed simp

lemma parse_print_pointer:
  assumes "trimSpace (printJSONPointer ts) = printJSONPointer ts"
  shows "parseJSONPointer (printJSONPointer ts) = Inr ts"
proof (cases "ts = []")
  case True
  then show ?thesis by (simp add: parseJSONPointer_def printJSONPointer_def)
next
  case False
  have "splitOn (CHR ''/'') (joinWith (CHR ''/'') (map escapeToken ts)) = map escapeToken ts"
    using False by (intro splitOn_join) (auto simp: escape_no_slash)
  then show ?thesis
    using assms False
    by (simp add: parseJSONPointer_def printJSONPointer_join hasPrefix_def decodeTokens_escape)
qed

lemma growTo_Ret: "growTo lim i vs = Ret g \<Longrightarrow> i < length g \<and> length vs \<le> length g \<and> take (length vs) g = vs"
  by (auto simp: growTo_def split: if_splits)

lemma growTo_nth: "growTo lim i vs = Ret g \<Longrightarrow> j < length vs \<Longrightarrow> g ! j = vs ! j"
  using growTo_Ret by (metis nth_take)

text \<open>The value that a path reads back after it was written, and what the write leaves alone.\<close>

lemma ret_case_iff:
  "(case r of Inl e \<Rightarrow> Ret (Inl e) | Inr x \<Rightarrow> Ret (Inr (f x))) = Ret (Inr y) \<longleftrightarrow> (\<exists>x. r = Inr x \<and> y = f x)"
  by (cases r) auto

lemma set_object:
  assumes "doc = JObj kvs \<or> doc = JNull \<and> kvs = [] \<and> \<not> isArrayIndexToken t"
  shows "setJSONPointerTokens lim doc (t # ts) v = Ret (Inr doc') \<longleftrightarrow>
    (\<exists>r. setJSONPointerTokens lim (gget JNull kvs t) ts v = Ret (Inr r) \<and> doc' = JObj (gput t r kvs))"
  using assms by (auto simp: ret_case_iff)

lemma set_array:
  assumes "doc = JArr vs \<or> doc = JNull \<and> vs = [] \<and> isArrayIndexToken t"
  shows "setJSONPointerTokens lim doc (t # ts) v = Ret (Inr doc') \<longleftrightarrow>
    (\<exists>i g r. parseJSONPointerIndex t = Inr i \<and> growTo lim i vs = Ret g \<and>
       setJSONPointerTokens lim (g ! i) ts v = Ret (Inr r) \<and> doc' = JArr (g[i := r]))"
  using assms by (cases "parseJSONPointerIndex t") (auto simp: ret_case_iff)

lemma set_cases:
  assumes "setJSONPointerTokens lim doc (t # ts) v = Ret (Inr doc')"
  obtains (obj) kvs r where "doc = JObj kvs \<or> doc = JNull \<and> kvs = []" "doc' = JObj (gput t r kvs)"
      "setJSONPointerTokens lim (gget JNull kvs t) ts v = Ret (Inr r)"
  | (arr) vs i g r where "doc = JArr vs \<or> doc = JNull \<and> vs = []" "parseJSONPointerIndex t = Inr i" "growTo lim i vs = Ret g"
      "doc' = JArr (g[i := r])" "setJSONPointerTokens lim (g ! i) ts v = Ret (Inr r)"
proof -
  consider (o) kvs where "doc = JObj kvs \<or> doc = JNull \<and> kvs = [] \<and> \<not> isArrayIndexToken t"
    | (a) vs where "doc = JArr vs \<or> doc = JNull \<and> vs = [] \<and> isArrayIndexToken t"
    using assms by (cases doc) auto
  then show thesis
  proof cases
    case o
    then show thesis using assms obj unfolding set_object[OF o] by blast
  next
    case a
    then show thesis using assms arr unfolding set_array[OF a] by blast
  qed
qed

lemma get_after_set:
  "setJSONPointerTokens lim doc ts v = Ret (Inr doc') \<Longrightarrow> getJSONTokens doc' ts = Inr (Some v)"
proof (induction ts arbitrary: doc doc')
  case (Cons t ts)
  from Cons.prems show ?case
  proof (cases rule: set_cases)
    case (obj kvs r)
    then show ?thesis using Cons.IH[OF obj(3)] by (simp add: update_conv')
  next
    case (arr vs i g r)
    then show ?thesis using Cons.IH[OF arr(5)] growTo_Ret[OF arr(3)] by simp
  qed
qed simp

text \<open>
  Two paths diverge when they part at some step into different slots; two decimal tokens of the same
  value, such as \<open>1\<close> and \<open>01\<close>, name the same slot of an array.
\<close>

definition sameSlot :: "string \<Rightarrow> string \<Rightarrow> bool" where
  "sameSlot t u = (t = u \<or> (\<exists>i. parseJSONPointerIndex t = Inr i \<and> parseJSONPointerIndex u = Inr i))"

fun diverge :: "string list \<Rightarrow> string list \<Rightarrow> bool" where
  "diverge (t # ts) (u # us) = (if sameSlot t u then diverge ts us else True)"
| "diverge _ _ = False"

lemma get_null: "us \<noteq> [] \<Longrightarrow> getJSONTokens JNull us = Inr None"
  by (cases us) auto

lemma diverge_Cons: "diverge ts us \<Longrightarrow> us \<noteq> []"
  by (cases ts; cases us) auto

lemma get_set_other:
  "setJSONPointerTokens lim doc ts v = Ret (Inr doc') \<Longrightarrow> diverge ts us \<Longrightarrow>
     getJSONTokens doc us = Inr (Some w) \<Longrightarrow> getJSONTokens doc' us = Inr (Some w)"
proof (induction ts arbitrary: doc doc' us)
  case (Cons t ts)
  obtain u us' where us: "us = u # us'" using Cons.prems(2) by (cases us) auto
  from Cons.prems(1) show ?case
  proof (cases rule: set_cases)
    case (obj kvs r)
    then have doc: "doc = JObj kvs" using Cons.prems(3) us by auto
    show ?thesis
    proof (cases "u = t")
      case True
      then have div: "diverge ts us'" using Cons.prems(2) us by (simp add: sameSlot_def)
      obtain x where x: "map_of kvs t = Some x" "getJSONTokens x us' = Inr (Some w)"
        using Cons.prems(3) us doc True by (auto split: option.splits)
      show ?thesis using Cons.IH[OF obj(3) div] x obj(2) us True by (simp add: update_conv' gget_def)
    next
      case False
      then show ?thesis using Cons.prems(3) us doc obj(2) by (simp add: update_conv')
    qed
  next
    case (arr vs i g r)
    then have doc: "doc = JArr vs" using Cons.prems(3) us by auto
    obtain j where j: "parseJSONPointerIndex u = Inr j" "j < length vs" "getJSONTokens (vs ! j) us' = Inr (Some w)"
      using Cons.prems(3) us doc by (auto split: sum.splits if_splits)
    have g: "g ! j = vs ! j" "j < length g" using growTo_nth[OF arr(3) j(2)] growTo_Ret[OF arr(3)] j(2) by auto
    show ?thesis
    proof (cases "i = j")
      case True
      then have div: "diverge ts us'" using Cons.prems(2) us j(1) arr(2) by (auto simp: sameSlot_def split: if_splits)
      have "getJSONTokens (g ! i) us' = Inr (Some w)" using True g(1) j(3) by simp
      from Cons.IH[OF arr(5) div this] show ?thesis using us j(1) g(2) arr(4) True by simp
    next
      case False
      then show ?thesis using us j g arr(4) by simp
    qed
  qed
qed simp

text \<open>Writing what a path already reads changes nothing.\<close>

lemma set_get_same:
  "getJSONTokens doc ts = Inr (Some v) \<Longrightarrow> setJSONPointerTokens lim doc ts v = Ret (Inr doc)"
proof (induction ts arbitrary: doc)
  case (Cons t ts)
  show ?case
  proof (cases doc)
    case (JArr vs)
    with Cons.prems obtain i where i: "parseJSONPointerIndex t = Inr i" "i < length vs" "getJSONTokens (vs ! i) ts = Inr (Some v)"
      by (auto split: sum.splits if_splits)
    then show ?thesis using Cons.IH[OF i(3)] JArr by (simp add: growTo_def)
  next
    case (JObj kvs)
    with Cons.prems obtain x where x: "map_of kvs t = Some x" "getJSONTokens x ts = Inr (Some v)"
      by (auto split: option.splits)
    then have "gput t x kvs = kvs" by (induction kvs) (auto split: if_splits)
    then show ?thesis using Cons.IH[OF x(2)] JObj x(1) by (simp add: gget_def)
  qed (use Cons.prems in auto)
qed simp

end
