(* ===== verification/Flow_Graph.thy ===== *)
theory Flow_Graph
  imports Flow_Json Node_Env "HOL-Library.List_Lexorder" "HOL-Library.Char_ord"
begin

text \<open>
  Flow graphs and their order (\<open>topoOrder\<close> in \<open>flow/handler.go\<close>; \<open>graphIndex\<close> with its methods in
  \<open>flow/runtime_bindings.go\<close>). The message types come from \<open>myflowhub-proto\<close>; a record here has the fields
  that the sources use. The \<open>Spec\<close> of a node is raw JSON that \<open>decodeJSONStrict\<close> turns into the type that the kind of
  the node asks for: \<open>nodeSpec\<close> is the result of that decoding, \<open>SpecBad\<close> when it fails.
  Raw JSON inside a specification is blank, invalid or a value.

  The order is Kahn's algorithm with the queue sorted after every round. It succeeds exactly on the acyclic graphs, and its
  result is the least enumeration, in the order of strings, that puts every node behind its parents.
\<close>

section \<open>Data\<close>

datatype 'f rawJson = RawBlank | RawBad | RawDoc "'f jsonv"

record bindingSource =
  bsKind :: string
  bsNodeID :: string
  bsPath :: string
  bsField :: string
  bsName :: string

record inputBinding =
  ibTo :: string
  ibSource :: bindingSource
  ibRequired :: bool

record 'f callSpec =
  csTarget :: nodeID
  csMethod :: string
  csArgs :: "'f rawJson"
  csInputs :: "inputBinding list"

record 'f composeSpec =
  cpTemplate :: "'f rawJson"
  cpInputs :: "inputBinding list"

record 'f setVarSpec =
  svName :: string
  svTemplate :: "'f rawJson"
  svInputs :: "inputBinding list"

record 'f branchMatch =
  bmSource :: bindingSource
  bmOp :: string
  bmValue :: "'f rawJson"

record 'f branchCase =
  bcName :: string
  bcMatch :: "'f branchMatch"

record 'f branchSpec =
  brCases :: "'f branchCase list"
  brDefault :: string

record foreachHead =
  feSource :: bindingSource
  feResultNodeID :: string
  feRequired :: "bool option"

record 'f subflowSpec =
  sfFlowID :: string
  sfInputTemplate :: "'f rawJson"
  sfInputs :: "inputBinding list"
  sfResultNodeID :: string

datatype 'f transformExpr =
  TExpr (teLiteral: "'f rawJson") (teSource: "bindingSource option") (teOp: string)
    (teArgs: "'f transformExpr list option") (teObject: "(string \<times> 'f transformExpr) list option")
    (teArray: "'f transformExpr list option") (teRequired: "bool option")

record edge =
  eFrom :: string
  eTo :: string
  eCase :: string

datatype 'f node =
  Node (nID: string) (nKind: string) (nAllowFail: bool) (nRetry: "int option") (nTimeoutMs: "int option")
    (nRetryBackoffMs: "int option") (nSpec: "'f nodeSpec")
and 'f nodeSpec =
    SpecBad bool
  | SpecCall "'f callSpec" | SpecCompose "'f composeSpec" | SpecTransform "'f transformExpr" | SpecSetVar "'f setVarSpec"
  | SpecBranch "'f branchSpec" | SpecForeach foreachHead "'f node list" "edge list" | SpecSubflow "'f subflowSpec"

type_synonym 'f graph = "'f node list \<times> edge list"

abbreviation gNodes :: "'f graph \<Rightarrow> 'f node list" where "gNodes \<equiv> fst"
abbreviation gEdges :: "'f graph \<Rightarrow> edge list" where "gEdges \<equiv> snd"

datatype flowErr =
    InvalidEdge | UnknownNode | GraphHasCycle | GraphIndexRequired | EmptyGraph | NodeIDRequired | DuplicateNode string
  | NodeErr string flowErr | ForeachBody string flowErr
  | InvalidSpec | CallArgsUnsupported | MethodRequired | TemplateRequired | InvalidTemplate | InvalidVarName
  | RetryBackoffNegative | UnknownKind
  | CaseOnlyForBranch | CaseRequired string | CaseNotDeclared string
  | CasesRequired | CaseNameRequired | DuplicateCase string | MatchOpUnsupported string | MatchValueRequired string | InvalidMatchValue string
  | ResultNodeRequired | ForeachBodyRequired | ResultNodeNotFound string
  | FlowIDInvalid | SubflowSelf
  | InvalidToPointer nat | RefRequired | RefUnknown string | RefNotAncestor | InvalidPath | InvalidMetaField
  | NameRequired | NoAncestorWriter string | AmbiguousWriters string "string list" | LoopOnlyInForeach | LoopIndexPath | InvalidSourceKind
  | RequiredOnlyWithSource | ExactlyOneVariant | InvalidLiteral | OpRequired | OpUnsupported | OpArity

section \<open>Order\<close>

definition setID :: "string \<Rightarrow> 'f node \<Rightarrow> 'f node" where
  "setID i n = Node i (nKind n) (nAllowFail n) (nRetry n) (nTimeoutMs n) (nRetryBackoffMs n) (nSpec n)"

definition nodeKey :: "'f node \<Rightarrow> string" where
  "nodeKey n = trimSpace (nID n)"

text \<open>The maps \<open>nodes\<close> (the ids are trimmed in place) and \<open>inDeg\<close>, and the loop over the edges.\<close>

definition nodeMap :: "'f node list \<Rightarrow> (string, 'f node) gomap" where
  "nodeMap ns = foldl (\<lambda>m n. gput (nodeKey n) (setID (nodeKey n) n) m) [] ns"

definition zeroDegrees :: "'f node list \<Rightarrow> (string, int) gomap" where
  "zeroDegrees ns = foldl (\<lambda>m n. gput (nodeKey n) 0 m) [] ns"

fun readEdges ::
  "(string, 'f node) gomap \<Rightarrow> edge list \<Rightarrow> (string, string list) gomap \<Rightarrow> (string, int) gomap \<Rightarrow>
   flowErr + (string, string list) gomap \<times> (string, int) gomap" where
  "readEdges nodes [] next inDeg = Inr (next, inDeg)"
| "readEdges nodes (e # es) next inDeg =
     (let from = trimSpace (eFrom e); to = trimSpace (eTo e) in
      if from = [] \<or> to = [] then Inl InvalidEdge
      else if map_of nodes from = None \<or> map_of nodes to = None then Inl UnknownNode
      else readEdges nodes es (gput from (gget [] next from @ [to]) next) (gput to (gget 0 inDeg to + 1) inDeg))"

text \<open>The inner loop over the successors of a node, and the outer loop over the queue.\<close>

fun relax :: "string list \<Rightarrow> (string, int) gomap \<Rightarrow> string list \<Rightarrow> (string, int) gomap \<times> string list" where
  "relax [] inDeg q = (inDeg, q)"
| "relax (to # tos) inDeg q =
     (let inDeg' = gput to (gget 0 inDeg to - 1) inDeg in
      relax tos inDeg' (if gget 0 inDeg' to = 0 then q @ [to] else q))"

text \<open>The weight that bounds the loop: what is queued and the positive degrees that are left.\<close>

definition degreesLeft :: "(string, int) gomap \<Rightarrow> nat" where
  "degreesLeft inDeg = (\<Sum>k\<in>fst ` set inDeg. nat (gget 0 inDeg k))"

lemma gget_absent: "k \<notin> fst ` set m \<Longrightarrow> gget z m k = z"
  by (simp add: gget_def map_of_eq_None_iff[THEN iffD2])

lemma degreesLeft_upd:
  "degreesLeft (gput k v m) + nat (gget 0 m k) = degreesLeft m + nat v"
proof -
  let ?K = "insert k (fst ` set m)"
  have keys: "fst ` set (gput k v m) = ?K" by (auto simp: dom_update)
  have "degreesLeft (gput k v m) = nat v + (\<Sum>j\<in>?K - {k}. nat (gget 0 m j))"
    unfolding degreesLeft_def keys by (subst sum.remove[of _ k]) (auto intro!: sum.cong)
  moreover have "degreesLeft m = (\<Sum>j\<in>?K. nat (gget 0 m j))"
    unfolding degreesLeft_def by (rule sum.mono_neutral_left) (auto simp: gget_absent)
  moreover have "(\<Sum>j\<in>?K. nat (gget 0 m j)) = nat (gget 0 m k) + (\<Sum>j\<in>?K - {k}. nat (gget 0 m j))"
    by (rule sum.remove) auto
  ultimately show ?thesis by simp
qed

lemma relax_weight: "length (snd (relax tos d q)) + degreesLeft (fst (relax tos d q)) \<le> length q + degreesLeft d"
proof (induction tos arbitrary: d q)
  case (Cons t tos)
  let ?d = "gput t (gget 0 d t - 1) d"
  let ?q = "if gget 0 ?d t = 0 then q @ [t] else q"
  have "length ?q + degreesLeft ?d \<le> length q + degreesLeft d"
    using degreesLeft_upd[of t "gget 0 d t - 1" d] by auto
  with Cons[of ?d ?q] show ?case by (simp add: Let_def)
qed simp

function kahn :: "(string, string list) gomap \<Rightarrow> string list \<Rightarrow> (string, int) gomap \<Rightarrow> string list \<Rightarrow> string list" where
  "kahn next q inDeg out =
     (case q of
        [] \<Rightarrow> out
      | i # rest \<Rightarrow>
          kahn next (sort (snd (relax (gget [] next i) inDeg rest))) (fst (relax (gget [] next i) inDeg rest)) (out @ [i]))"
  by pat_completeness auto
termination
  by (relation "measure (\<lambda>(next, q, inDeg, out). length q + degreesLeft inDeg)")
     (auto simp: le_imp_less_Suc[OF relax_weight])

declare kahn.simps [simp del]

lemma kahn_code [code]:
  "kahn next [] inDeg out = out"
  "kahn next (i # rest) inDeg out = (let (d, q) = relax (gget [] next i) inDeg rest in kahn next (sort q) d (out @ [i]))"
  by (simp_all add: kahn.simps[of "next" "[]"] kahn.simps[of "next" "i # rest"] split: prod.split)

definition kahnIDs :: "'f graph \<Rightarrow> flowErr + string list" where
  "kahnIDs g =
     (case readEdges (nodeMap (gNodes g)) (gEdges g) [] (zeroDegrees (gNodes g)) of
        Inl e \<Rightarrow> Inl e
      | Inr (next, inDeg) \<Rightarrow>
          let out = kahn next (sort (map fst (filter (\<lambda>(i, d). d = 0) inDeg))) inDeg [] in
          if length out \<noteq> length (nodeMap (gNodes g)) then Inl GraphHasCycle else Inr out)"

definition topoOrder :: "'f graph \<Rightarrow> flowErr + 'f node option list" where
  "topoOrder g = map_sum id (map (map_of (nodeMap (gNodes g)))) (kahnIDs g)"

section \<open>Correctness of the order\<close>

definition edgePairs :: "edge list \<Rightarrow> (string \<times> string) list" where
  "edgePairs es = map (\<lambda>e. (trimSpace (eFrom e), trimSpace (eTo e))) es"

definition succs :: "(string \<times> string) list \<Rightarrow> string \<Rightarrow> string list" where
  "succs ps u = map snd (filter (\<lambda>p. fst p = u) ps)"

definition indeg :: "(string \<times> string) list \<Rightarrow> string set \<Rightarrow> string \<Rightarrow> nat" where
  "indeg ps D v = length (filter (\<lambda>p. snd p = v \<and> fst p \<notin> D) ps)"

text \<open>Every element stands behind all its predecessors.\<close>

definition parentsFirst :: "(string \<times> string) list \<Rightarrow> string list \<Rightarrow> bool" where
  "parentsFirst ps out = (\<forall>i<length out. \<forall>u. (u, out ! i) \<in> set ps \<longrightarrow> u \<in> set (take i out))"

definition isTopoOrder :: "string set \<Rightarrow> (string \<times> string) list \<Rightarrow> string list \<Rightarrow> bool" where
  "isTopoOrder V ps out = (distinct out \<and> set out = V \<and> parentsFirst ps out)"

lemma parentsFirst_snoc:
  "parentsFirst ps (out @ [x]) \<longleftrightarrow> parentsFirst ps out \<and> (\<forall>u. (u, x) \<in> set ps \<longrightarrow> u \<in> set out)"
  by (fastforce simp: parentsFirst_def less_Suc_eq nth_append)

lemma parentsFirst_prefix: "parentsFirst ps (out @ r) \<Longrightarrow> parentsFirst ps out"
  by (induction r rule: rev_induct) (auto simp: parentsFirst_snoc simp flip: append_assoc)

lemma parentsFirst_closure:
  assumes "parentsFirst ps out" and "(u, v) \<in> (set ps)\<^sup>+" and "i < length out" and "v = out ! i"
  shows "u \<in> set (take i out)"
  using assms(2-4)
proof (induction arbitrary: i rule: trancl_induct)
  case (base y)
  then show ?case using assms(1) by (auto simp: parentsFirst_def)
next
  case (step y z)
  have "y \<in> set (take i out)" using assms(1) step by (auto simp: parentsFirst_def)
  then obtain j where j: "j < i" "j < length out" "y = out ! j" by (auto simp: in_set_conv_nth)
  from step.IH[OF j(2,3)] show ?case using set_take_subset_set_take[of j i out] j(1) by auto
qed

lemma topoOrder_acyclic:
  assumes "isTopoOrder V ps out" and "set ps \<subseteq> V \<times> V"
  shows "acyclic (set ps)"
proof (rule acyclicI, rule allI, rule notI)
  fix x assume x: "(x, x) \<in> (set ps)\<^sup>+"
  then have "x \<in> V" using assms(2) by (metis (no_types, lifting) SigmaD1 subsetD tranclD)
  then obtain i where i: "i < length out" "x = out ! i" using assms(1) by (metis in_set_conv_nth isTopoOrder_def)
  then have "x \<in> set (take i out)" using parentsFirst_closure[OF _ x i] assms(1) by (simp add: isTopoOrder_def)
  then show False using i assms(1) by (auto simp: isTopoOrder_def in_set_conv_nth nth_eq_iff_index_eq)
qed

lemma indeg_insert:
  "i \<notin> D \<Longrightarrow> indeg ps (insert i D) v + count_list (succs ps i) v = indeg ps D v"
  by (induction ps) (auto simp: indeg_def succs_def)

lemma indeg_zero_iff: "indeg ps D v = 0 \<longleftrightarrow> (\<forall>u. (u, v) \<in> set ps \<longrightarrow> u \<in> D)"
  by (auto simp: indeg_def filter_empty_conv)

lemma set_succs: "v \<in> set (succs ps u) \<longleftrightarrow> (u, v) \<in> set ps"
  by (force simp: succs_def)

lemma relax_degrees: "gget 0 (fst (relax tos d q)) v = gget 0 d v - int (count_list tos v)"
  by (induction tos arbitrary: d q) (auto simp: Let_def)

lemma relax_queue:
  "\<exists>r. snd (relax tos d q) = q @ r \<and> distinct r \<and>
     set r = {v \<in> set tos. 1 \<le> gget 0 d v \<and> gget 0 d v \<le> int (count_list tos v)}"
proof (induction tos arbitrary: d q)
  case (Cons t tos)
  let ?d = "gput t (gget 0 d t - 1) d"
  let ?q = "if gget 0 ?d t = 0 then q @ [t] else q"
  obtain r where r: "snd (relax tos ?d ?q) = ?q @ r" "distinct r"
    "set r = {v \<in> set tos. 1 \<le> gget 0 ?d v \<and> gget 0 ?d v \<le> int (count_list tos v)}"
    using Cons by blast
  have cnt: "t \<notin> set tos \<Longrightarrow> count_list tos t = 0" by (simp add: count_list_0_iff)
  show ?case
  proof (cases "gget 0 d t = 1")
    case True
    have "set (t # r) = {v \<in> set (t # tos). 1 \<le> gget 0 d v \<and> gget 0 d v \<le> int (count_list (t # tos) v)}"
      unfolding list.set(2) r(3) using True by auto
    moreover have "distinct (t # r)" using r(2,3) True by auto
    ultimately show ?thesis using r(1) True by (intro exI[of _ "t # r"]) (simp add: Let_def)
  next
    case False
    have "set r = {v \<in> set (t # tos). 1 \<le> gget 0 d v \<and> gget 0 d v \<le> int (count_list (t # tos) v)}"
      unfolding r(3) using False cnt by (cases "t \<in> set tos") auto
    then show ?thesis using r(1,2) False by (intro exI[of _ r]) (simp add: Let_def)
  qed
qed simp

text \<open>The invariant of the outer loop: the queue holds the nodes whose parents have all been put out.\<close>

definition kahnInv :: "string set \<Rightarrow> (string \<times> string) list \<Rightarrow> string list \<Rightarrow> (string, int) gomap \<Rightarrow> string list \<Rightarrow> bool" where
  "kahnInv V ps q d out \<longleftrightarrow>
     distinct out \<and> set out \<subseteq> V \<and> distinct q \<and> parentsFirst ps out \<and>
     set q = {v \<in> V. v \<notin> set out \<and> indeg ps (set out) v = 0} \<and>
     (\<forall>v\<in>V. v \<notin> set out \<longrightarrow> gget 0 d v = int (indeg ps (set out) v))"

lemma kahnInv_step:
  assumes inv: "kahnInv V ps (i # rest) d out" and edges: "set ps \<subseteq> V \<times> V"
  shows "kahnInv V ps (sort (snd (relax (succs ps i) d rest))) (fst (relax (succs ps i) d rest)) (out @ [i])"
proof -
  have i: "i \<in> V" "i \<notin> set out" "\<forall>u. (u, i) \<in> set ps \<longrightarrow> u \<in> set out" "i \<notin> set rest"
    and rest: "distinct rest" "set rest = {v \<in> V. v \<notin> set out \<and> v \<noteq> i \<and> indeg ps (set out) v = 0}"
    and out: "distinct out" "set out \<subseteq> V" "parentsFirst ps out"
    and d: "\<And>v. v \<in> V \<Longrightarrow> v \<notin> set out \<Longrightarrow> gget 0 d v = int (indeg ps (set out) v)"
    using inv unfolding kahnInv_def by (auto simp: indeg_zero_iff)
  have deg: "indeg ps (insert i (set out)) v + count_list (succs ps i) v = indeg ps (set out) v" for v
    using i(2) by (rule indeg_insert)
  have succ: "v \<in> V \<and> v \<notin> set out \<and> v \<noteq> i" if "v \<in> set (succs ps i)" for v
  proof -
    have e: "(i, v) \<in> set ps" using that by (simp add: set_succs)
    then have "v \<notin> set out" using out(3) i(2) by (metis in_set_conv_nth in_set_takeD parentsFirst_def)
    then show ?thesis using e edges i(2,3) by auto
  qed
  obtain r where r: "snd (relax (succs ps i) d rest) = rest @ r" "distinct r"
    "set r = {v \<in> set (succs ps i). 1 \<le> gget 0 d v \<and> gget 0 d v \<le> int (count_list (succs ps i) v)}"
    using relax_queue by blast
  have r_set: "set r = {v \<in> V. v \<notin> set out \<and> v \<noteq> i \<and> indeg ps (set out) v \<noteq> 0 \<and> indeg ps (insert i (set out)) v = 0}"
  proof (intro set_eqI iffI)
    fix v assume "v \<in> set r"
    then have v: "v \<in> set (succs ps i)" "1 \<le> gget 0 d v" "gget 0 d v \<le> int (count_list (succs ps i) v)" using r(3) by auto
    then show "v \<in> {v \<in> V. v \<notin> set out \<and> v \<noteq> i \<and> indeg ps (set out) v \<noteq> 0 \<and> indeg ps (insert i (set out)) v = 0}"
      using succ[OF v(1)] d[of v] deg[of v] by auto
  next
    fix v assume v: "v \<in> {v \<in> V. v \<notin> set out \<and> v \<noteq> i \<and> indeg ps (set out) v \<noteq> 0 \<and> indeg ps (insert i (set out)) v = 0}"
    then have "count_list (succs ps i) v \<noteq> 0" using deg[of v] by auto
    then have "v \<in> set (succs ps i)" using count_list_0_iff by metis
    then show "v \<in> set r" using v d[of v] deg[of v] r(3) by auto
  qed
  have zero: "indeg ps (set out) v = 0 \<Longrightarrow> indeg ps (insert i (set out)) v = 0" for v using deg[of v] by simp
  have "set (rest @ r) = {v \<in> V. v \<notin> set (out @ [i]) \<and> indeg ps (set (out @ [i])) v = 0}"
    unfolding set_append rest(2) r_set using zero i(2) by auto
  moreover have "set rest \<inter> set r = {}" unfolding rest(2) r_set by blast
  then have "distinct (rest @ r)" using rest(1) r(2) by simp
  moreover have "gget 0 (fst (relax (succs ps i) d rest)) v = int (indeg ps (set (out @ [i])) v)"
    if "v \<in> V" "v \<notin> set (out @ [i])" for v
  proof -
    have "int (indeg ps (insert i (set out)) v) + int (count_list (succs ps i) v) = gget 0 d v"
      using d[of v] deg[of v] that by (simp flip: of_nat_add)
    then show ?thesis by (simp add: relax_degrees)
  qed
  moreover have "parentsFirst ps (out @ [i])" using out(3) i(3) by (simp add: parentsFirst_snoc)
  ultimately show ?thesis unfolding kahnInv_def using r(1) out i by auto
qed

lemma append_le_append: "xs @ ys \<le> xs @ zs \<longleftrightarrow> ys \<le> (zs :: 'a::linorder list)"
  by (induction xs) auto

lemma kahn_spec:
  assumes succs: "\<And>u. gget [] next u = succs ps u" and edges: "set ps \<subseteq> V \<times> V"
  shows "kahnInv V ps q d out \<Longrightarrow> sorted q \<Longrightarrow>
    \<exists>s d'. kahn next q d out = out @ s \<and> kahnInv V ps [] d' (out @ s) \<and> (\<forall>t. isTopoOrder V ps (out @ t) \<longrightarrow> s \<le> t)"
proof (induction "length q + degreesLeft d" arbitrary: q d out rule: less_induct)
  case less
  show ?case
  proof (cases q)
    case Nil
    then show ?thesis using less.prems by (intro exI[of _ "[]"] exI[of _ d]) (simp add: kahn.simps[of "next" "[]"])
  next
    case (Cons i rest)
    let ?q = "sort (snd (relax (succs ps i) d rest))" and ?d = "fst (relax (succs ps i) d rest)"
    have inv: "kahnInv V ps ?q ?d (out @ [i])" using kahnInv_step less.prems(1) edges Cons by blast
    have "length ?q + degreesLeft ?d < length q + degreesLeft d"
      using relax_weight[of "succs ps i" d rest] Cons by simp
    from less.hyps[OF this inv] obtain s d' where s: "kahn next ?q ?d (out @ [i]) = (out @ [i]) @ s"
      "kahnInv V ps [] d' ((out @ [i]) @ s)" "\<And>t. isTopoOrder V ps ((out @ [i]) @ t) \<Longrightarrow> s \<le> t"
      by auto
    have "i # s \<le> t" if t: "isTopoOrder V ps (out @ t)" for t
    proof (cases t)
      case Nil
      then show ?thesis using t less.prems(1) Cons by (auto simp: isTopoOrder_def kahnInv_def)
    next
      case (Cons x t')
      have x: "x \<in> V" "x \<notin> set out" "parentsFirst ps (out @ [x])"
        using t Cons parentsFirst_prefix[of ps "out @ [x]" t'] by (auto simp: isTopoOrder_def)
      then have "x \<in> set q" using less.prems(1) by (simp add: kahnInv_def indeg_zero_iff parentsFirst_snoc)
      then have "i \<le> x" using less.prems(2) \<open>q = i # rest\<close> by auto
      moreover have "s \<le> t'" if "x = i" using s(3) t Cons that by simp
      ultimately show ?thesis using Cons by (cases "x = i") auto
    qed
    moreover have "kahn next q d out = out @ (i # s)"
      using s(1) by (subst kahn.simps) (simp add: Cons succs)
    ultimately show ?thesis using s(2) by (intro exI[of _ "i # s"] exI[of _ d']) simp
  qed
qed

lemma kahnInv_end:
  assumes "kahnInv V ps [] d out" and "finite V" and "set ps \<subseteq> V \<times> V"
  shows "set out = V \<longleftrightarrow> acyclic (set ps)"
proof
  assume "set out = V"
  then have "isTopoOrder V ps out" using assms(1) by (simp add: isTopoOrder_def kahnInv_def)
  then show "acyclic (set ps)" using topoOrder_acyclic assms(3) by blast
next
  assume "acyclic (set ps)"
  then have wf: "wf (set ps)" by (rule finite_acyclic_wf[OF finite_set])
  show "set out = V"
  proof (rule ccontr)
    assume "set out \<noteq> V"
    then obtain v where "v \<in> V - set out" using assms(1) by (auto simp: kahnInv_def)
    then obtain v where v: "v \<in> V - set out" "\<And>u. (u, v) \<in> set ps \<Longrightarrow> u \<notin> V - set out" using wfE_min[OF wf] by metis
    then have "indeg ps (set out) v = 0" using assms(3) by (auto simp: indeg_zero_iff)
    then show False using v(1) assms(1) by (auto simp: kahnInv_def)
  qed
qed

section \<open>From the graph to the order\<close>

abbreviation nodeKeys :: "'f graph \<Rightarrow> string set" where
  "nodeKeys g \<equiv> nodeKey ` set (gNodes g)"

abbreviation edgeRel :: "'f graph \<Rightarrow> (string \<times> string) set" where
  "edgeRel g \<equiv> set (edgePairs (gEdges g))"

lemma nID_setID [simp]: "nID (setID i n) = i" by (simp add: setID_def)

lemma nodeMap_snoc: "nodeMap (ns @ [n]) = gput (nodeKey n) (setID (nodeKey n) n) (nodeMap ns)"
  by (simp add: nodeMap_def)

lemma zeroDegrees_snoc: "zeroDegrees (ns @ [n]) = gput (nodeKey n) 0 (zeroDegrees ns)"
  by (simp add: zeroDegrees_def)

lemma nodeMap_keys: "wf_gomap (nodeMap ns) \<and> fst ` set (nodeMap ns) = nodeKey ` set ns"
proof (induction ns rule: rev_induct)
  case (snoc n ns)
  then show ?case by (simp add: nodeMap_snoc dom_update)
qed (simp add: nodeMap_def)

lemma zeroDegrees_keys:
  "wf_gomap (zeroDegrees ns) \<and> fst ` set (zeroDegrees ns) = nodeKey ` set ns \<and> gget 0 (zeroDegrees ns) k = 0"
proof (induction ns rule: rev_induct)
  case (snoc n ns)
  then show ?case by (simp add: zeroDegrees_snoc dom_update)
qed (simp add: zeroDegrees_def)

lemma nodeMap_lookup: "map_of (nodeMap ns) k = Some n \<Longrightarrow> \<exists>n0\<in>set ns. nodeKey n0 = k \<and> n = setID k n0"
proof (induction ns rule: rev_induct)
  case (snoc m ns)
  then show ?case by (auto simp: nodeMap_snoc update_conv' split: if_splits)
qed (simp add: nodeMap_def)

lemma nodeMap_None: "map_of (nodeMap ns) k = None \<longleftrightarrow> k \<notin> nodeKey ` set ns"
  using nodeMap_keys[of ns] by (simp add: map_of_eq_None_iff)

text \<open>What the loop over the edges accepts, and what it computes.\<close>

definition goodEdge :: "string set \<Rightarrow> edge \<Rightarrow> bool" where
  "goodEdge V e \<longleftrightarrow> trimSpace (eFrom e) \<noteq> [] \<and> trimSpace (eTo e) \<noteq> [] \<and> trimSpace (eFrom e) \<in> V \<and> trimSpace (eTo e) \<in> V"

lemma readEdges_Inr:
  assumes "readEdges (nodeMap ns) es next d = Inr (next', d')" and "wf_gomap d"
  shows "list_all (goodEdge (nodeKey ` set ns)) es \<and> wf_gomap d' \<and>
    fst ` set d' = fst ` set d \<union> snd ` set (edgePairs es) \<and>
    gget [] next' u = gget [] next u @ succs (edgePairs es) u \<and>
    gget 0 d' v = gget 0 d v + int (indeg (edgePairs es) {} v)"
  using assms
proof (induction es arbitrary: "next" d)
  case (Cons e es)
  let ?f = "trimSpace (eFrom e)" and ?t = "trimSpace (eTo e)"
  have ok: "goodEdge (nodeKey ` set ns) e"
    and rd: "readEdges (nodeMap ns) es (gput ?f (gget [] next ?f @ [?t]) next) (gput ?t (gget 0 d ?t + 1) d) = Inr (next', d')"
    using Cons.prems(1) by (auto simp: goodEdge_def nodeMap_None Let_def split: if_splits)
  have ih: "list_all (goodEdge (nodeKey ` set ns)) es" "wf_gomap d'"
    "fst ` set d' = insert ?t (fst ` set d) \<union> snd ` set (edgePairs es)"
    "gget [] next' u = gget [] (gput ?f (gget [] next ?f @ [?t]) next) u @ succs (edgePairs es) u"
    "gget 0 d' v = gget 0 (gput ?t (gget 0 d ?t + 1) d) v + int (indeg (edgePairs es) {} v)"
    using Cons.IH[OF rd wf_gput[OF Cons.prems(2)]] by (auto simp: dom_update)
  have pairs: "edgePairs (e # es) = (?f, ?t) # edgePairs es" by (simp add: edgePairs_def)
  have "succs (edgePairs (e # es)) u = (if ?f = u then [?t] else []) @ succs (edgePairs es) u"
    "indeg (edgePairs (e # es)) {} v = (if ?t = v then 1 else 0) + indeg (edgePairs es) {} v"
    by (simp_all add: pairs succs_def indeg_def)
  then show ?case using ih ok by (auto simp: pairs)
qed (simp add: edgePairs_def succs_def indeg_def)

lemma readEdges_Inl:
  "readEdges (nodeMap ns) es next d = Inl err \<Longrightarrow>
     \<exists>e\<in>set es. \<not> goodEdge (nodeKey ` set ns) e \<and>
       (err = InvalidEdge \<and> (trimSpace (eFrom e) = [] \<or> trimSpace (eTo e) = []) \<or>
        err = UnknownNode \<and> \<not> (trimSpace (eFrom e) \<in> nodeKey ` set ns \<and> trimSpace (eTo e) \<in> nodeKey ` set ns))"
  by (induction es arbitrary: "next" d) (auto simp: goodEdge_def nodeMap_None Let_def split: if_splits)

lemma goodEdges_rel: "list_all (goodEdge V) es \<Longrightarrow> set (edgePairs es) \<subseteq> V \<times> V"
  by (auto simp: list_all_iff goodEdge_def edgePairs_def)

lemma zero_entries:
  assumes "wf_gomap d"
  shows "fst ` set (filter (\<lambda>(i, n). n = 0) d) = {v \<in> fst ` set d. gget 0 d v = (0::int)}"
proof -
  have "gget 0 d k = n" if "(k, n) \<in> set d" for k n
    using map_of_is_SomeI[OF assms that] by (simp add: gget_def)
  then show ?thesis by force
qed

lemma kahn_run:
  assumes "readEdges (nodeMap (gNodes g)) (gEdges g) [] (zeroDegrees (gNodes g)) = Inr (next, d)"
  shows "\<exists>d'. kahnInv (nodeKeys g) (edgePairs (gEdges g)) [] d' (kahn next (sort (map fst (filter (\<lambda>(i, n). n = 0) d))) d []) \<and>
    (\<forall>t. isTopoOrder (nodeKeys g) (edgePairs (gEdges g)) t \<longrightarrow> kahn next (sort (map fst (filter (\<lambda>(i, n). n = 0) d))) d [] \<le> t)"
proof -
  let ?V = "nodeKeys g" and ?ps = "edgePairs (gEdges g)" and ?q = "sort (map fst (filter (\<lambda>(i, n). n = 0) d))"
  have rd: "list_all (goodEdge ?V) (gEdges g)" "wf_gomap d" "fst ` set d = ?V \<union> snd ` set ?ps"
    "\<And>u. gget [] next u = succs ?ps u" "\<And>v. gget 0 d v = int (indeg ?ps {} v)"
    using readEdges_Inr[OF assms] zeroDegrees_keys[of "gNodes g"] by simp_all
  have ps: "set ?ps \<subseteq> ?V \<times> ?V" using goodEdges_rel rd(1) by blast
  have keys: "fst ` set d = ?V" using rd(3) ps by auto
  have "set ?q = {v \<in> fst ` set d. gget 0 d v = 0}" using zero_entries[OF rd(2)] by simp
  then have "set ?q = {v \<in> ?V. indeg ?ps {} v = 0}" using rd(5) keys by simp
  moreover have "distinct ?q" using rd(2) by (simp add: distinct_map_filter)
  ultimately have "kahnInv ?V ?ps ?q d []" using rd(5) by (simp add: kahnInv_def parentsFirst_def)
  from kahn_spec[OF rd(4) ps this] show ?thesis by force
qed

lemma kahnIDs_Inr:
  assumes "kahnIDs g = Inr ids"
  shows "isTopoOrder (nodeKeys g) (edgePairs (gEdges g)) ids \<and> list_all (goodEdge (nodeKeys g)) (gEdges g) \<and>
    (\<forall>t. isTopoOrder (nodeKeys g) (edgePairs (gEdges g)) t \<longrightarrow> ids \<le> t)"
proof -
  obtain "next" d where rd: "readEdges (nodeMap (gNodes g)) (gEdges g) [] (zeroDegrees (gNodes g)) = Inr (next, d)"
    and ids: "ids = kahn next (sort (map fst (filter (\<lambda>(i, n). n = 0) d))) d []" "length ids = length (nodeMap (gNodes g))"
    using assms by (auto simp: kahnIDs_def Let_def split: sum.splits if_splits)
  obtain d' where inv: "kahnInv (nodeKeys g) (edgePairs (gEdges g)) [] d' ids"
    and least: "\<forall>t. isTopoOrder (nodeKeys g) (edgePairs (gEdges g)) t \<longrightarrow> ids \<le> t"
    using kahn_run[OF rd] ids(1) by blast
  have "card (nodeKeys g) = length (nodeMap (gNodes g))"
    using nodeMap_keys[of "gNodes g"] by (metis distinct_card length_map list.set_map)
  then have "set ids = nodeKeys g"
    using inv ids(2) by (intro card_subset_eq) (auto simp: kahnInv_def distinct_card)
  then show ?thesis
    using inv least readEdges_Inr[OF rd] zeroDegrees_keys[of "gNodes g"] by (auto simp: isTopoOrder_def kahnInv_def)
qed

lemma kahnIDs_Inl:
  assumes "kahnIDs g = Inl err"
  shows "err = GraphHasCycle \<and> \<not> acyclic (edgeRel g) \<and> list_all (goodEdge (nodeKeys g)) (gEdges g) \<or>
    err \<in> {InvalidEdge, UnknownNode} \<and> \<not> list_all (goodEdge (nodeKeys g)) (gEdges g)"
proof (cases "readEdges (nodeMap (gNodes g)) (gEdges g) [] (zeroDegrees (gNodes g))")
  case (Inl e)
  then show ?thesis using assms readEdges_Inl[OF Inl] by (auto simp: kahnIDs_def list_all_iff)
next
  case (Inr r)
  obtain "next" d where r: "r = (next, d)" by (cases r)
  let ?out = "kahn next (sort (map fst (filter (\<lambda>(i, n). n = 0) d))) d []"
  have err: "err = GraphHasCycle" "length ?out \<noteq> length (nodeMap (gNodes g))"
    using assms Inr r by (auto simp: kahnIDs_def Let_def split: if_splits)
  have good: "list_all (goodEdge (nodeKeys g)) (gEdges g)"
    using readEdges_Inr[OF Inr[unfolded r]] zeroDegrees_keys[of "gNodes g"] by simp
  obtain d' where inv: "kahnInv (nodeKeys g) (edgePairs (gEdges g)) [] d' ?out"
    using kahn_run[OF Inr[unfolded r]] by blast
  have "card (nodeKeys g) = length (nodeMap (gNodes g))"
    using nodeMap_keys[of "gNodes g"] by (metis distinct_card length_map list.set_map)
  then have "set ?out \<noteq> nodeKeys g" using err(2) inv by (auto simp: kahnInv_def dest: distinct_card)
  then show ?thesis using kahnInv_end[OF inv _ goodEdges_rel[OF good]] err(1) good by auto
qed

section \<open>The index of a graph\<close>

record 'f graphIndex =
  giNodes :: "(string, 'f node) gomap"
  giAncestors :: "(string, string list) gomap"
  giSetVarWriters :: "(string, string list) gomap"
  giIncoming :: "(string, edge list) gomap"
  giOutgoing :: "(string, edge list) gomap"

text \<open>\<open>m[k] = append(m[k], x)\<close>, and the loop that fills the set of ancestors of one node in place.\<close>

definition gappend :: "'k \<Rightarrow> 'v \<Rightarrow> ('k, 'v list) gomap \<Rightarrow> ('k, 'v list) gomap" where
  "gappend k x m = gput k (gget [] m k @ [x]) m"

definition addAncestors ::
  "(string, string list) gomap \<Rightarrow> (string, string list) gomap \<Rightarrow> string \<Rightarrow> (string, string list) gomap" where
  "addAncestors parents anc i =
     foldl (\<lambda>anc p. gput i (foldl (\<lambda>s a. sadd a s) (sadd p (gget [] anc i)) (gget [] anc p)) anc) anc (gget [] parents i)"

definition buildGraphIndex :: "'f graph \<Rightarrow> flowErr + 'f graphIndex" where
  "buildGraphIndex g =
     (case topoOrder g of
        Inl e \<Rightarrow> Inl e
      | Inr order \<Rightarrow>
          let parents = foldl (\<lambda>m e. gappend (trimSpace (eTo e)) (trimSpace (eFrom e)) m) [] (gEdges g);
              anc0 = foldl (\<lambda>m n. gput (nodeKey n) [] m) [] (gNodes g)
          in Inr \<lparr>giNodes = nodeMap (gNodes g),
                   giAncestors = foldl (\<lambda>anc n. case n of None \<Rightarrow> anc | Some n \<Rightarrow> addAncestors parents anc (nodeKey n)) anc0 order,
                   giSetVarWriters = [],
                   giIncoming = foldl (\<lambda>m e. gappend (trimSpace (eTo e)) e m) [] (gEdges g),
                   giOutgoing = foldl (\<lambda>m e. gappend (trimSpace (eFrom e)) e m) [] (gEdges g)\<rparr>)"

definition hasNode :: "'f graphIndex \<Rightarrow> string \<Rightarrow> bool" where
  "hasNode idx nodeID = (map_of (giNodes idx) (trimSpace nodeID) \<noteq> None)"

definition idxNode :: "'f graphIndex \<Rightarrow> string \<Rightarrow> 'f node option" where
  "idxNode idx nodeID = map_of (giNodes idx) (trimSpace nodeID)"

definition incomingEdges :: "'f graphIndex \<Rightarrow> string \<Rightarrow> edge list" where
  "incomingEdges idx nodeID = gget [] (giIncoming idx) (trimSpace nodeID)"

definition outgoingEdges :: "'f graphIndex \<Rightarrow> string \<Rightarrow> edge list" where
  "outgoingEdges idx nodeID = gget [] (giOutgoing idx) (trimSpace nodeID)"

definition isAncestor :: "'f graphIndex \<Rightarrow> string \<Rightarrow> string \<Rightarrow> bool" where
  "isAncestor idx ancestorNodeID nodeID =
     (let a = trimSpace ancestorNodeID; n = trimSpace nodeID in
      if a = [] \<or> n = [] \<or> a = n then False else a \<in> set (gget [] (giAncestors idx) n))"

definition addSetVarWriter :: "string \<Rightarrow> string \<Rightarrow> 'f graphIndex \<Rightarrow> 'f graphIndex" where
  "addSetVarWriter name0 nodeID0 idx =
     (let name = trimSpace name0; nodeID = trimSpace nodeID0 in
      if name = [] \<or> nodeID = [] then idx
      else idx\<lparr>giSetVarWriters := gappend name nodeID (giSetVarWriters idx)\<rparr>)"

text \<open>The search for the last writer among the ancestors: \<open>None\<close> when two candidates are not related.\<close>

fun lastWriter :: "'f graphIndex \<Rightarrow> string \<Rightarrow> string list \<Rightarrow> string option" where
  "lastWriter idx best [] = Some best"
| "lastWriter idx best (c # cs) =
     (if isAncestor idx best c then lastWriter idx c cs
      else if isAncestor idx c best then lastWriter idx best cs
      else None)"

definition uniqueSetVarWriter :: "'f graphIndex \<Rightarrow> string \<Rightarrow> string \<Rightarrow> flowErr + string" where
  "uniqueSetVarWriter idx nodeID0 name0 =
     (let nodeID = trimSpace nodeID0; name = trimSpace name0 in
      if nodeID = [] \<or> name = [] then Inl NameRequired
      else case filter (\<lambda>w. isAncestor idx w nodeID) (gget [] (giSetVarWriters idx) name) of
             [] \<Rightarrow> Inl (NoAncestorWriter name)
           | c # cs \<Rightarrow>
               (case lastWriter idx c cs of
                  None \<Rightarrow> Inl (AmbiguousWriters name (sort (c # cs)))
                | Some best \<Rightarrow> Inr best))"

section \<open>Correctness of the index\<close>

lemma gget_gappend [simp]: "gget [] (gappend k x m) j = gget [] m j @ (if j = k then [x] else [])"
  by (simp add: gappend_def)

lemma gappend_fold: "gget [] (foldl (\<lambda>m x. gappend (k x) (f x) m) m0 xs) j = gget [] m0 j @ map f (filter (\<lambda>x. k x = j) xs)"
  by (induction xs arbitrary: m0) auto

lemma set_foldl_sadd [simp]: "set (foldl (\<lambda>s a. sadd a s) s as) = set s \<union> set as"
  by (induction as arbitrary: s) auto

lemma gget_anc0: "gget [] (foldl (\<lambda>m n. gput (k n) [] m) m0 ns) j = (if j \<in> k ` set ns then [] else gget [] m0 j)"
  by (induction ns arbitrary: m0) auto

lemma addAncestors_other: "j \<noteq> i \<Longrightarrow> gget [] (addAncestors parents anc i) j = gget [] anc j"
proof -
  have "gget [] (foldl (\<lambda>anc p. gput i (f anc p) anc) anc ps) j = gget [] anc j" if "j \<noteq> i" for f ps
    using that by (induction ps arbitrary: anc) auto
  then show "j \<noteq> i \<Longrightarrow> ?thesis" by (simp add: addAncestors_def)
qed

lemma addAncestors_self:
  assumes "i \<notin> set (gget [] parents i)"
  shows "set (gget [] (addAncestors parents anc i) i) =
    set (gget [] anc i) \<union> (\<Union>p\<in>set (gget [] parents i). insert p (set (gget [] anc p)))"
proof -
  have "set (gget [] (foldl (\<lambda>anc p. gput i (foldl (\<lambda>s a. sadd a s) (sadd p (gget [] anc i)) (gget [] anc p)) anc) anc ps) i) =
      set (gget [] anc i) \<union> (\<Union>p\<in>set ps. insert p (set (gget [] anc p)))" if "i \<notin> set ps" for ps
    using that
  proof (induction ps arbitrary: anc)
    case (Cons p ps)
    have "(\<Union>x\<in>set ps. insert x (set (gget [] (gput i v anc) x))) = (\<Union>x\<in>set ps. insert x (set (gget [] anc x)))" for v
      using Cons.prems by (intro SUP_cong) auto
    then show ?case using Cons by (simp del: gget_put) (simp add: Un_ac)
  qed simp
  then show ?thesis using assms by (simp add: addAncestors_def)
qed

lemma trancl_last: "(u, v) \<in> R\<^sup>+ \<longleftrightarrow> (\<exists>p. (p, v) \<in> R \<and> (u = p \<or> (u, p) \<in> R\<^sup>+))"
  by (metis r_into_trancl trancl.cases trancl_into_trancl)

text \<open>Going through an order in which parents come first, every set of ancestors is complete when it has been filled.\<close>

lemma ancestors_fold:
  assumes parents: "\<And>v. set (gget [] parents v) = {u. (u, v) \<in> set ps}"
    and empty: "\<And>v. gget [] anc0 v = []"
    and order: "distinct ids" "parentsFirst ps ids" "acyclic (set ps)"
  shows "\<forall>v. set (gget [] (foldl (addAncestors parents) anc0 ids) v) = (if v \<in> set ids then {u. (u, v) \<in> (set ps)\<^sup>+} else {})"
  using order(1,2)
proof (induction ids rule: rev_induct)
  case (snoc i ids)
  let ?anc = "foldl (addAncestors parents) anc0 ids"
  have ih: "set (gget [] ?anc v) = (if v \<in> set ids then {u. (u, v) \<in> (set ps)\<^sup>+} else {})" for v
    using snoc by (simp add: parentsFirst_snoc)
  have ps: "p \<in> set ids" if "(p, i) \<in> set ps" for p using snoc.prems(2) that by (simp add: parentsFirst_snoc)
  have "i \<notin> set (gget [] parents i)" using order(3) by (auto simp: parents acyclic_def)
  then have "set (gget [] (addAncestors parents ?anc i) i) = (\<Union>p\<in>{p. (p, i) \<in> set ps}. insert p {u. (u, p) \<in> (set ps)\<^sup>+})"
    using snoc.prems(1) ps by (simp add: addAncestors_self ih parents)
  also have "\<dots> = {u. (u, i) \<in> (set ps)\<^sup>+}" by (subst trancl_last) blast
  finally have self: "set (gget [] (addAncestors parents ?anc i) i) = {u. (u, i) \<in> (set ps)\<^sup>+}" .
  show ?case
  proof
    fix v
    show "set (gget [] (foldl (addAncestors parents) anc0 (ids @ [i])) v) = (if v \<in> set (ids @ [i]) then {u. (u, v) \<in> (set ps)\<^sup>+} else {})"
      using self ih[of v] by (cases "v = i") (simp_all add: addAncestors_other)
  qed
qed (simp add: empty)

lemma topoOrder_Inr:
  assumes "topoOrder g = Inr order"
  obtains ids where "kahnIDs g = Inr ids" "order = map (map_of (nodeMap (gNodes g))) ids"
  using assms by (cases "kahnIDs g") (auto simp: topoOrder_def)

lemma order_node:
  assumes "kahnIDs g = Inr ids" and "i \<in> set ids"
  obtains n n0 where "map_of (nodeMap (gNodes g)) i = Some n" "nID n = i" "nodeKey n = i" "n0 \<in> set (gNodes g)" "n = setID i n0" "nodeKey n0 = i"
proof -
  have "i \<in> nodeKeys g" using kahnIDs_Inr[OF assms(1)] assms(2) by (simp add: isTopoOrder_def)
  then obtain n where n: "map_of (nodeMap (gNodes g)) i = Some n" using nodeMap_None[of "gNodes g" i] by fastforce
  from nodeMap_lookup[OF n] obtain n0 where n0: "n0 \<in> set (gNodes g)" "nodeKey n0 = i" "n = setID i n0" by blast
  have "nodeKey n = i" using n0(2,3) by (auto simp: nodeKey_def setID_def)
  with that n n0 show thesis by simp
qed

lemma edgePairs_mem: "(u, v) \<in> set (edgePairs es) \<longleftrightarrow> (\<exists>e\<in>set es. trimSpace (eFrom e) = u \<and> trimSpace (eTo e) = v)"
  by (auto simp: edgePairs_def)

lemma buildGraphIndex_Inr:
  assumes "buildGraphIndex g = Inr idx"
  shows "set (gget [] (giAncestors idx) v) = {u. (u, v) \<in> (edgeRel g)\<^sup>+}"
    and "giNodes idx = nodeMap (gNodes g)"
    and "gget [] (giIncoming idx) v = filter (\<lambda>e. trimSpace (eTo e) = v) (gEdges g)"
    and "gget [] (giOutgoing idx) v = filter (\<lambda>e. trimSpace (eFrom e) = v) (gEdges g)"
    and "giSetVarWriters idx = []"
    and "\<exists>ids. kahnIDs g = Inr ids"
proof -
  let ?ps = "edgePairs (gEdges g)"
  let ?parents = "foldl (\<lambda>m e. gappend (trimSpace (eTo e)) (trimSpace (eFrom e)) m) [] (gEdges g)"
  let ?anc0 = "foldl (\<lambda>m n. gput (nodeKey n) [] m) [] (gNodes g)"
  obtain order where o: "topoOrder g = Inr order" using assms by (auto simp: buildGraphIndex_def split: sum.splits)
  then obtain ids where ids: "kahnIDs g = Inr ids" "order = map (map_of (nodeMap (gNodes g))) ids" by (rule topoOrder_Inr)
  then show "\<exists>ids. kahnIDs g = Inr ids" by blast
  have idx: "idx = \<lparr>giNodes = nodeMap (gNodes g),
      giAncestors = foldl (\<lambda>anc n. case n of None \<Rightarrow> anc | Some n \<Rightarrow> addAncestors ?parents anc (nodeKey n)) ?anc0 order,
      giSetVarWriters = [], giIncoming = foldl (\<lambda>m e. gappend (trimSpace (eTo e)) e m) [] (gEdges g),
      giOutgoing = foldl (\<lambda>m e. gappend (trimSpace (eFrom e)) e m) [] (gEdges g)\<rparr>"
    using assms o by (simp add: buildGraphIndex_def Let_def)
  show "giNodes idx = nodeMap (gNodes g)" "giSetVarWriters idx = []" by (simp_all add: idx)
  show "gget [] (giIncoming idx) v = filter (\<lambda>e. trimSpace (eTo e) = v) (gEdges g)"
    "gget [] (giOutgoing idx) v = filter (\<lambda>e. trimSpace (eFrom e) = v) (gEdges g)"
    by (simp_all add: idx gappend_fold)
  have topo: "isTopoOrder (nodeKeys g) ?ps ids" "set ?ps \<subseteq> nodeKeys g \<times> nodeKeys g"
    using kahnIDs_Inr[OF ids(1)] goodEdges_rel by blast+
  have acyc: "acyclic (set ?ps)" by (rule topoOrder_acyclic[OF topo])
  have run: "foldl (\<lambda>anc n. case n of None \<Rightarrow> anc | Some n \<Rightarrow> addAncestors ?parents anc (nodeKey n)) a (map (map_of (nodeMap (gNodes g))) js)
      = foldl (addAncestors ?parents) a js" if "set js \<subseteq> set ids" for a js
    using that
  proof (induction js arbitrary: a)
    case (Cons j js)
    then obtain n where "map_of (nodeMap (gNodes g)) j = Some n" "nodeKey n = j" by (auto intro: order_node[OF ids(1)])
    then show ?case using Cons by simp
  qed simp
  have parents: "set (gget [] ?parents v) = {u. (u, v) \<in> set ?ps}" for v
    by (auto simp: gappend_fold edgePairs_mem)
  have empty: "gget [] ?anc0 v = []" for v by (simp add: gget_anc0)
  have "set (gget [] (giAncestors idx) v) = (if v \<in> set ids then {u. (u, v) \<in> (set ?ps)\<^sup>+} else {})"
    using ancestors_fold[OF parents empty _ _ acyc] topo(1) by (simp add: idx ids(2) run isTopoOrder_def)
  moreover have "{u. (u, v) \<in> (set ?ps)\<^sup>+} = {}" if "v \<notin> set ids"
    using that topo trancl_subset_Sigma[OF topo(2)] by (auto simp: isTopoOrder_def)
  ultimately show "set (gget [] (giAncestors idx) v) = {u. (u, v) \<in> (edgeRel g)\<^sup>+}" by simp
qed

lemma goodEdge_closure:
  assumes "list_all (goodEdge V) es" and "(u, v) \<in> (set (edgePairs es))\<^sup>+"
  shows "u \<in> V \<and> v \<in> V \<and> u \<noteq> [] \<and> v \<noteq> []"
proof -
  have "set (edgePairs es) \<subseteq> (V - {[]}) \<times> (V - {[]})"
    using assms(1) by (auto simp: edgePairs_def list_all_iff goodEdge_def)
  from trancl_subset_Sigma[OF this] show ?thesis using assms(2) by auto
qed

lemma isAncestor_iff:
  assumes "buildGraphIndex g = Inr idx0" and "giAncestors idx = giAncestors idx0"
  shows "isAncestor idx a n \<longleftrightarrow> (trimSpace a, trimSpace n) \<in> (edgeRel g)\<^sup>+"
proof -
  obtain ids where ids: "kahnIDs g = Inr ids" using buildGraphIndex_Inr(6)[OF assms(1)] by blast
  have acyc: "acyclic (edgeRel g)"
    using topoOrder_acyclic kahnIDs_Inr[OF ids] goodEdges_rel by blast
  have ends: "(u, v) \<in> (edgeRel g)\<^sup>+ \<Longrightarrow> u \<noteq> [] \<and> v \<noteq> []" for u v
    using goodEdge_closure kahnIDs_Inr[OF ids] by blast
  show ?thesis
    using acyc ends[of "trimSpace a" "trimSpace n"] buildGraphIndex_Inr(1)[OF assms(1), of "trimSpace n"]
    by (auto simp: isAncestor_def assms(2) acyclic_def Let_def)
qed

lemma buildGraphIndex_ok:
  assumes "list_all (goodEdge (nodeKeys g)) (gEdges g)" and "acyclic (edgeRel g)"
  obtains idx where "buildGraphIndex g = Inr idx"
  using kahnIDs_Inl[of g] assms that by (cases "kahnIDs g") (auto simp: buildGraphIndex_def topoOrder_def Let_def)

lemma lastWriter_Some:
  assumes trans: "\<And>x y z. isAncestor idx x y \<Longrightarrow> isAncestor idx y z \<Longrightarrow> isAncestor idx x z"
  shows "lastWriter idx b cs = Some w \<Longrightarrow> w \<in> set (b # cs) \<and> (\<forall>x\<in>set (b # cs). x = w \<or> isAncestor idx x w)"
proof (induction cs arbitrary: b)
  case (Cons c cs)
  consider (up) "isAncestor idx b c" "lastWriter idx c cs = Some w"
    | (keep) "isAncestor idx c b" "lastWriter idx b cs = Some w"
    using Cons.prems by (auto split: if_splits)
  then show ?case
  proof cases
    case up
    then show ?thesis using Cons.IH[OF up(2)] trans[OF up(1)] by auto
  next
    case keep
    then show ?thesis using Cons.IH[OF keep(2)] trans[OF keep(1)] by auto
  qed
qed simp


definition demoNode :: "string \<Rightarrow> nat node" where
  "demoNode i = Node i ''compose'' False None None None (SpecBad False)"

definition demoEdge :: "string \<Rightarrow> string \<Rightarrow> edge" where
  "demoEdge u v = \<lparr>eFrom = u, eTo = v, eCase = []\<rparr>"


text \<open>
  C13: The ancestor sets that \<open>buildGraphIndex\<close> accumulates along the order are the transitive closure of the edges: \<open>isAncestor\<close> holds
  exactly when a path of at least one edge leads from the first node to the second.
\<close>
theorem flow_ancestors_exact:
  assumes "buildGraphIndex g = Inr idx"
  shows "isAncestor idx a n \<longleftrightarrow> (trimSpace a, trimSpace n) \<in> (edgeRel g)\<^sup>+"
  by (rule isAncestor_iff[OF assms refl])

definition demoGraph :: "nat graph" where
  "demoGraph = ([demoNode ''c'', demoNode ''b'', demoNode ''a''], [demoEdge ''c'' ''a'', demoEdge ''a'' ''b''])"

theorem flow_ancestors_exact_witness:
  "\<exists>idx. buildGraphIndex demoGraph = Inr idx \<and> isAncestor idx ''c'' '' b''"
proof -
  have t: "trimSpace ''a'' = ''a''" "trimSpace ''b'' = ''b''" "trimSpace ''c'' = ''c''" "trimSpace '' b'' = ''b''" by code_simp+
  note demo = demoGraph_def demoEdge_def demoNode_def nodeKey_def edgePairs_def t
  have "isTopoOrder (nodeKeys demoGraph) (edgePairs (gEdges demoGraph)) [''c'', ''a'', ''b'']"
    by (auto simp: demo isTopoOrder_def parentsFirst_def less_Suc_eq)
  then have acyc: "acyclic (edgeRel demoGraph)" by (rule topoOrder_acyclic) (simp add: demo)
  have "list_all (goodEdge (nodeKeys demoGraph)) (gEdges demoGraph)" by (simp add: demo goodEdge_def)
  from buildGraphIndex_ok[OF this acyc] obtain idx where idx: "buildGraphIndex demoGraph = Inr idx" .
  have "(''c'', ''a'') \<in> edgeRel demoGraph" "(''a'', ''b'') \<in> edgeRel demoGraph"
    by (simp_all add: demo)
  then have "(''c'', ''b'') \<in> (edgeRel demoGraph)\<^sup>+" by (meson r_into_trancl trancl_into_trancl)
  then have "isAncestor idx ''c'' '' b''" unfolding flow_ancestors_exact[OF idx] t .
  with idx show ?thesis by blast
qed

text \<open>
  The writer that \<open>uniqueSetVarWriter\<close> names writes the variable, lies above the reader, and every other writer above the reader
  lies above it: it is the last one to write before the reader on every path.
\<close>

lemma writer_closest:
  assumes "buildGraphIndex g = Inr idx0" and "giAncestors idx = giAncestors idx0"
    and "uniqueSetVarWriter idx n name = Inr w"
  shows "w \<in> set (gget [] (giSetVarWriters idx) (trimSpace name)) \<and> (trimSpace w, trimSpace n) \<in> (edgeRel g)\<^sup>+ \<and>
    (\<forall>v\<in>set (gget [] (giSetVarWriters idx) (trimSpace name)).
       (trimSpace v, trimSpace n) \<in> (edgeRel g)\<^sup>+ \<longrightarrow> v = w \<or> (trimSpace v, trimSpace w) \<in> (edgeRel g)\<^sup>+)"
proof -
  note anc = isAncestor_iff[OF assms(1,2)]
  have trans: "isAncestor idx x y \<Longrightarrow> isAncestor idx y z \<Longrightarrow> isAncestor idx x z" for x y z
    unfolding anc by (rule trancl_trans)
  obtain c cs where c: "filter (\<lambda>w. isAncestor idx w n) (gget [] (giSetVarWriters idx) (trimSpace name)) = c # cs"
    "lastWriter idx c cs = Some w"
    using assms(3) by (auto simp: uniqueSetVarWriter_def Let_def anc split: if_splits list.splits option.splits)
  have "w \<in> set (c # cs) \<and> (\<forall>x\<in>set (c # cs). x = w \<or> isAncestor idx x w)"
    by (rule lastWriter_Some[OF _ c(2)]) (rule trans)
  then show ?thesis unfolding c(1)[symmetric] by (auto simp: anc)
qed

end
