(* ===== verification/Flow_Validate.thy ===== *)
theory Flow_Validate
  imports Flow_Graph Wire_Codecs
begin

text \<open>
  Validation of flow graphs when a flow is stored (\<open>validateGraphScoped\<close> in \<open>flow/handler.go\<close>, the decoding and the checks of
  specifications in \<open>flow/runtime_bindings.go\<close>). The words for kinds, sources and match operators have the spelling
  that the error texts and tests of the repository use. A validator returns the first error, or \<open>None\<close>.
\<close>

definition normWord :: "string \<Rightarrow> string" where
  "normWord s = toLower (trimSpace s)"

text \<open>\<open>normalizeNodeKind\<close> and \<open>normalizeBindingSourceKind\<close> both fold the word and leave unknown words as they are.\<close>

abbreviation normalizeNodeKind :: "string \<Rightarrow> string" where "normalizeNodeKind \<equiv> normWord"
abbreviation normalizeBindingSourceKind :: "string \<Rightarrow> string" where "normalizeBindingSourceKind \<equiv> normWord"

definition normalizeBranchMatchOp :: "string \<Rightarrow> string" where
  "normalizeBranchMatchOp op =
     (if normWord op \<in> set [''eq'', ''ne'', ''gt'', ''gte'', ''lt'', ''lte'', ''exists''] then normWord op else [])"

fun firstErr :: "'e option list \<Rightarrow> 'e option" where
  "firstErr [] = None"
| "firstErr (Some e # rs) = Some e"
| "firstErr (None # rs) = firstErr rs"

section \<open>Names and templates\<close>

definition isNameStart :: "char \<Rightarrow> bool" where
  "isNameStart c = (isUpper c \<or> isLower c \<or> c = CHR ''_'')"

definition isValidSetVarName :: "string \<Rightarrow> bool" where
  "isValidSetVarName name0 =
     (case trimSpace name0 of
        [] \<Rightarrow> False
      | c # cs \<Rightarrow> isNameStart c \<and> list_all (\<lambda>c. isNameStart c \<or> isDigit c) cs)"

definition normalizeTemplateJSON :: "'f rawJson \<Rightarrow> 'f jsonv option" where
  "normalizeTemplateJSON raw = (case raw of RawBlank \<Rightarrow> Some (JObj []) | RawBad \<Rightarrow> None | RawDoc v \<Rightarrow> Some v)"

definition normalizeSetVarTemplateJSON :: "'f rawJson \<Rightarrow> 'f jsonv option" where
  "normalizeSetVarTemplateJSON raw = (case raw of RawBlank \<Rightarrow> Some JNull | RawBad \<Rightarrow> None | RawDoc v \<Rightarrow> Some v)"

definition normalizeJSONValue :: "'f rawJson \<Rightarrow> 'f jsonv option" where
  "normalizeJSONValue raw = (case raw of RawDoc v \<Rightarrow> Some v | _ \<Rightarrow> None)"

section \<open>Transform expressions\<close>

definition validateTransformOpArity :: "string \<Rightarrow> nat \<Rightarrow> flowErr option" where
  "validateTransformOpArity op argc =
     (if op \<in> set [''add'', ''mul'', ''min'', ''max'', ''concat'', ''and'', ''or'', ''coalesce''] then
        (if argc < 1 then Some OpArity else None)
      else if op \<in> set [''sub'', ''div'', ''mod''] then (if argc < 2 then Some OpArity else None)
      else if op \<in> set [''eq'', ''ne'', ''gt'', ''gte'', ''lt'', ''lte''] then (if argc \<noteq> 2 then Some OpArity else None)
      else if op \<in> set [''neg'', ''abs'', ''not'', ''lower'', ''upper'', ''trim'', ''len''] then (if argc \<noteq> 1 then Some OpArity else None)
      else if op = ''if'' then (if argc \<noteq> 3 then Some OpArity else None)
      else Some OpUnsupported)"

definition transformOps :: "string list" where
  "transformOps = [''add'', ''sub'', ''mul'', ''div'', ''mod'', ''neg'', ''abs'', ''min'', ''max'', ''eq'', ''ne'', ''gt'', ''gte'', ''lt'', ''lte'',
     ''and'', ''or'', ''not'', ''coalesce'', ''if'', ''concat'', ''lower'', ''upper'', ''trim'', ''len'']"

definition normalizeTransformOp :: "string \<Rightarrow> string" where
  "normalizeTransformOp op = (if normWord op \<in> set transformOps then normWord op else [])"

definition opSet :: "'f transformExpr \<Rightarrow> bool" where
  "opSet e = (trimSpace (teOp e) \<noteq> [] \<or> teArgs e \<noteq> None)"

definition transformExprVariantFlags :: "'f transformExpr \<Rightarrow> bool list" where
  "transformExprVariantFlags e = [teLiteral e \<noteq> RawBlank, teSource e \<noteq> None, opSet e, teObject e \<noteq> None, teArray e \<noteq> None]"

text \<open>The subexpressions in the order in which they are visited, the members of an object by key.\<close>

definition subExprs :: "'f transformExpr \<Rightarrow> 'f transformExpr list" where
  "subExprs e =
     (if opSet e then (case teArgs e of None \<Rightarrow> [] | Some es \<Rightarrow> es)
      else case teObject e of
             Some kvs \<Rightarrow> map snd (sort_key fst kvs)
           | None \<Rightarrow> (case teArray e of None \<Rightarrow> [] | Some es \<Rightarrow> es))"

lemma size_subExprs: "x \<in> set (subExprs e) \<Longrightarrow> size x < size e"
proof (cases e)
  case (TExpr lit src op args obj arr req)
  assume "x \<in> set (subExprs e)"
  then consider (args) es where "args = Some es" "x \<in> set es" | (obj) kvs k where "obj = Some kvs" "(k, x) \<in> set kvs"
    | (arr) es where "arr = Some es" "x \<in> set es"
    by (auto simp: TExpr subExprs_def split: if_splits option.splits)
  then show ?thesis
  proof cases
    case args
    then show ?thesis using size_list_estimation'[OF args(2), of "size x" size] TExpr by simp
  next
    case obj
    then show ?thesis using size_list_estimation'[OF obj(2), of "size x" "size_prod (\<lambda>x. 0) size"] TExpr by simp
  next
    case arr
    then show ?thesis using size_list_estimation'[OF arr(2), of "size x" size] TExpr by simp
  qed
qed

function validateTransformExprShape :: "'f transformExpr \<Rightarrow> flowErr option" where
  "validateTransformExprShape e =
     (if teRequired e \<noteq> None \<and> teSource e = None then Some RequiredOnlyWithSource
      else if length (filter (\<lambda>b. b) (transformExprVariantFlags e)) \<noteq> 1 then Some ExactlyOneVariant
      else if teLiteral e \<noteq> RawBlank then (if normalizeJSONValue (teLiteral e) = None then Some InvalidLiteral else None)
      else if teSource e \<noteq> None then None
      else
        firstErr ((if opSet e then
                     (if normalizeTransformOp (trimSpace (teOp e)) = [] then
                        Some (if trimSpace (teOp e) = [] then OpRequired else OpUnsupported)
                      else validateTransformOpArity (normalizeTransformOp (trimSpace (teOp e))) (case teArgs e of None \<Rightarrow> 0 | Some es \<Rightarrow> length es))
                   else None) # map validateTransformExprShape (subExprs e)))"
  by pat_completeness auto
termination by (relation "measure size") (auto dest: size_subExprs)

section \<open>Sources and bindings\<close>

definition validateBindingSource :: "string \<Rightarrow> 'f graphIndex \<Rightarrow> bool \<Rightarrow> bindingSource \<Rightarrow> flowErr option" where
  "validateBindingSource nodeID idx allowLoop src =
     (let kind = normalizeBindingSourceKind (bsKind src);
          pathErr = (case parseJSONPointer (bsPath src) of Inl _ \<Rightarrow> Some InvalidPath | Inr _ \<Rightarrow> None)
      in if kind = ''node_result'' then
           (let ref = trimSpace (bsNodeID src) in
            if ref = [] then Some RefRequired
            else if \<not> hasNode idx ref then Some (RefUnknown ref)
            else if \<not> isAncestor idx ref nodeID then Some RefNotAncestor
            else pathErr)
         else if kind = ''trigger'' then pathErr
         else if kind = ''flow_meta'' then (if trimSpace (bsField src) \<noteq> ''flow_id'' then Some InvalidMetaField else None)
         else if kind = ''run_meta'' then (if trimSpace (bsField src) \<noteq> ''run_id'' then Some InvalidMetaField else None)
         else if kind = ''flow_var'' then
           (if \<not> isValidSetVarName (trimSpace (bsName src)) then Some InvalidVarName
            else case uniqueSetVarWriter idx nodeID (trimSpace (bsName src)) of
                   Inl e \<Rightarrow> Some e
                 | Inr _ \<Rightarrow> pathErr)
         else if kind = ''loop_item'' then (if \<not> allowLoop then Some LoopOnlyInForeach else pathErr)
         else if kind = ''loop_index'' then
           (if \<not> allowLoop then Some LoopOnlyInForeach else if trimSpace (bsPath src) \<noteq> [] then Some LoopIndexPath else None)
         else Some InvalidSourceKind)"

fun validateBindingsFrom :: "nat \<Rightarrow> string \<Rightarrow> 'f graphIndex \<Rightarrow> bool \<Rightarrow> inputBinding list \<Rightarrow> flowErr option" where
  "validateBindingsFrom i nodeID idx allowLoop [] = None"
| "validateBindingsFrom i nodeID idx allowLoop (b # bs) =
     (case parseJSONPointer (ibTo b) of
        Inl _ \<Rightarrow> Some (InvalidToPointer i)
      | Inr _ \<Rightarrow>
          (case validateBindingSource nodeID idx allowLoop (ibSource b) of
             Some e \<Rightarrow> Some e
           | None \<Rightarrow> validateBindingsFrom (Suc i) nodeID idx allowLoop bs))"

abbreviation validateBindings :: "string \<Rightarrow> inputBinding list \<Rightarrow> 'f graphIndex \<Rightarrow> bool \<Rightarrow> flowErr option" where
  "validateBindings nodeID bs idx allowLoop \<equiv> validateBindingsFrom 0 nodeID idx allowLoop bs"

function validateTransformExprSourcesForSet :: "string \<Rightarrow> 'f graphIndex \<Rightarrow> bool \<Rightarrow> 'f transformExpr \<Rightarrow> flowErr option" where
  "validateTransformExprSourcesForSet nodeID idx allowLoop e =
     (case teSource e of
        Some src \<Rightarrow> validateBindingSource nodeID idx allowLoop src
      | None \<Rightarrow> firstErr (map (validateTransformExprSourcesForSet nodeID idx allowLoop) (subExprs e)))"
  by pat_completeness auto
termination by (relation "measure (\<lambda>(i, x, l, e). size e)") (auto dest: size_subExprs)

declare validateTransformExprShape.simps [simp del] validateTransformExprSourcesForSet.simps [simp del]

section \<open>Decoding specifications\<close>

definition decodeNodeCallSpec :: "'f node \<Rightarrow> flowErr + 'f callSpec" where
  "decodeNodeCallSpec n =
     (if normalizeNodeKind (nKind n) \<noteq> ''call'' then Inl UnknownKind
      else case nSpec n of
             SpecCall spec \<Rightarrow>
               if trimSpace (csMethod spec) = [] then Inl MethodRequired
               else Inr (spec\<lparr>csMethod := trimSpace (csMethod spec)\<rparr>)
           | SpecBad args \<Rightarrow> Inl (if args then CallArgsUnsupported else InvalidSpec)
           | _ \<Rightarrow> Inl InvalidSpec)"

definition decodeNodeComposeSpec :: "'f node \<Rightarrow> flowErr + 'f composeSpec" where
  "decodeNodeComposeSpec n =
     (case nSpec n of
        SpecCompose spec \<Rightarrow>
          if cpTemplate spec = RawBlank then Inl TemplateRequired
          else if normalizeTemplateJSON (cpTemplate spec) = None then Inl InvalidTemplate
          else Inr spec
      | _ \<Rightarrow> Inl InvalidSpec)"

definition decodeNodeSetVarSpec :: "'f node \<Rightarrow> flowErr + 'f setVarSpec" where
  "decodeNodeSetVarSpec n =
     (case nSpec n of
        SpecSetVar spec \<Rightarrow>
          if \<not> isValidSetVarName (trimSpace (svName spec)) then Inl InvalidVarName
          else if normalizeSetVarTemplateJSON (svTemplate spec) = None then Inl InvalidTemplate
          else Inr (spec\<lparr>svName := trimSpace (svName spec)\<rparr>)
      | _ \<Rightarrow> Inl InvalidSpec)"

definition decodeNodeTransformSpec :: "'f node \<Rightarrow> flowErr + 'f transformExpr" where
  "decodeNodeTransformSpec n =
     (case nSpec n of
        SpecTransform e \<Rightarrow> (case validateTransformExprShape e of Some err \<Rightarrow> Inl err | None \<Rightarrow> Inr e)
      | _ \<Rightarrow> Inl InvalidSpec)"

fun decodeCases :: "string list \<Rightarrow> 'f branchCase list \<Rightarrow> flowErr + 'f branchCase list" where
  "decodeCases seen [] = Inr []"
| "decodeCases seen (c # cs) =
     (let name = trimSpace (bcName c); op = normalizeBranchMatchOp (bmOp (bcMatch c)) in
      if name = [] then Inl CaseNameRequired
      else if name \<in> set seen then Inl (DuplicateCase name)
      else if op = [] then Inl (MatchOpUnsupported name)
      else if op \<noteq> ''exists'' \<and> bmValue (bcMatch c) = RawBlank then Inl (MatchValueRequired name)
      else if op \<noteq> ''exists'' \<and> bmValue (bcMatch c) = RawBad then Inl (InvalidMatchValue name)
      else map_sum id (Cons (c\<lparr>bcName := name, bcMatch := (bcMatch c)\<lparr>bmOp := op\<rparr>\<rparr>)) (decodeCases (name # seen) cs))"

definition decodeNodeBranchSpec :: "'f node \<Rightarrow> flowErr + 'f branchSpec" where
  "decodeNodeBranchSpec n =
     (case nSpec n of
        SpecBranch spec \<Rightarrow>
          if brCases spec = [] then Inl CasesRequired
          else (case decodeCases [] (brCases spec) of
                  Inl e \<Rightarrow> Inl e
                | Inr cs \<Rightarrow> Inr (spec\<lparr>brCases := cs, brDefault := trimSpace (brDefault spec)\<rparr>))
      | _ \<Rightarrow> Inl InvalidSpec)"

definition decodeNodeForeachSpec :: "'f node \<Rightarrow> flowErr + foreachHead \<times> 'f graph" where
  "decodeNodeForeachSpec n =
     (case nSpec n of
        SpecForeach fh ns es \<Rightarrow>
          if trimSpace (feResultNodeID fh) = [] then Inl ResultNodeRequired
          else if ns = [] then Inl ForeachBodyRequired
          else Inr (fh\<lparr>feResultNodeID := trimSpace (feResultNodeID fh)\<rparr>, (ns, es))
      | _ \<Rightarrow> Inl InvalidSpec)"

definition decodeNodeSubflowSpec :: "'f node \<Rightarrow> flowErr + 'f subflowSpec" where
  "decodeNodeSubflowSpec n =
     (case nSpec n of
        SpecSubflow spec \<Rightarrow>
          (case validateFlowID (sfFlowID spec) of
             Inl _ \<Rightarrow> Inl FlowIDInvalid
           | Inr fid \<Rightarrow>
               if normalizeTemplateJSON (sfInputTemplate spec) = None then Inl InvalidTemplate
               else Inr (spec\<lparr>sfFlowID := fid, sfResultNodeID := trimSpace (sfResultNodeID spec)\<rparr>))
      | _ \<Rightarrow> Inl InvalidSpec)"

section \<open>Checks of decoded specifications\<close>

definition validateCallSpecForSet :: "string \<Rightarrow> 'f callSpec \<Rightarrow> 'f graphIndex \<Rightarrow> bool \<Rightarrow> flowErr option" where
  "validateCallSpecForSet nodeID spec idx loop =
     (if trimSpace (csMethod spec) = [] then Some MethodRequired
      else if normalizeTemplateJSON (csArgs spec) = None then Some InvalidTemplate
      else validateBindings nodeID (csInputs spec) idx loop)"

definition validateComposeSpecForSet :: "string \<Rightarrow> 'f composeSpec \<Rightarrow> 'f graphIndex \<Rightarrow> bool \<Rightarrow> flowErr option" where
  "validateComposeSpecForSet nodeID spec idx loop =
     (if cpTemplate spec = RawBlank then Some TemplateRequired
      else if normalizeTemplateJSON (cpTemplate spec) = None then Some InvalidTemplate
      else validateBindings nodeID (cpInputs spec) idx loop)"

definition validateSetVarSpecForSet :: "string \<Rightarrow> 'f setVarSpec \<Rightarrow> 'f graphIndex \<Rightarrow> bool \<Rightarrow> flowErr option" where
  "validateSetVarSpecForSet nodeID spec idx loop =
     (if \<not> isValidSetVarName (trimSpace (svName spec)) then Some InvalidVarName
      else if normalizeSetVarTemplateJSON (svTemplate spec) = None then Some InvalidTemplate
      else validateBindings nodeID (svInputs spec) idx loop)"

definition validateTransformSpecForSet :: "string \<Rightarrow> 'f transformExpr \<Rightarrow> 'f graphIndex \<Rightarrow> bool \<Rightarrow> flowErr option" where
  "validateTransformSpecForSet nodeID e idx loop =
     firstErr [validateTransformExprShape e, validateTransformExprSourcesForSet nodeID idx loop e]"

fun validateCases :: "string list \<Rightarrow> string \<Rightarrow> 'f branchCase list \<Rightarrow> 'f graphIndex \<Rightarrow> bool \<Rightarrow> flowErr option" where
  "validateCases seen nodeID [] idx loop = None"
| "validateCases seen nodeID (c # cs) idx loop =
     (let name = trimSpace (bcName c); op = normalizeBranchMatchOp (bmOp (bcMatch c)) in
      if name = [] then Some CaseNameRequired
      else if name \<in> set seen then Some (DuplicateCase name)
      else case validateBindingSource nodeID idx loop (bmSource (bcMatch c)) of
             Some e \<Rightarrow> Some e
           | None \<Rightarrow>
               if op = [] then Some (MatchOpUnsupported name)
               else if op \<noteq> ''exists'' \<and> bmValue (bcMatch c) = RawBlank then Some (MatchValueRequired name)
               else if op \<noteq> ''exists'' \<and> normalizeJSONValue (bmValue (bcMatch c)) = None then Some (InvalidMatchValue name)
               else validateCases (name # seen) nodeID cs idx loop)"

definition validateBranchSpecForSet :: "string \<Rightarrow> 'f branchSpec \<Rightarrow> 'f graphIndex \<Rightarrow> bool \<Rightarrow> flowErr option" where
  "validateBranchSpecForSet nodeID spec idx loop = validateCases [] nodeID (brCases spec) idx loop"

text \<open>\<open>bodyErr\<close> is the result of validating the body as a graph of its own.\<close>

definition validateForeachSpecForSet ::
  "string \<Rightarrow> foreachHead \<Rightarrow> 'f graph \<Rightarrow> flowErr option \<Rightarrow> 'f graphIndex \<Rightarrow> bool \<Rightarrow> flowErr option" where
  "validateForeachSpecForSet nodeID fh body bodyErr idx loop =
     (case validateBindingSource nodeID idx loop (feSource fh) of
        Some e \<Rightarrow> Some e
      | None \<Rightarrow>
          if trimSpace (feResultNodeID fh) = [] then Some ResultNodeRequired
          else case bodyErr of
                 Some e \<Rightarrow> Some (ForeachBody nodeID e)
               | None \<Rightarrow>
                   (case buildGraphIndex body of
                      Inl e \<Rightarrow> Some (ForeachBody nodeID e)
                    | Inr bodyIdx \<Rightarrow>
                        if \<not> hasNode bodyIdx (feResultNodeID fh) then Some (ResultNodeNotFound (feResultNodeID fh)) else None))"

definition validateSubflowSpecForSet :: "string \<Rightarrow> string \<Rightarrow> 'f subflowSpec \<Rightarrow> 'f graphIndex \<Rightarrow> bool \<Rightarrow> flowErr option" where
  "validateSubflowSpecForSet flowID nodeID spec idx loop =
     (if flowID \<noteq> [] \<and> equalFold flowID (sfFlowID spec) then Some SubflowSelf
      else if normalizeTemplateJSON (sfInputTemplate spec) = None then Some InvalidTemplate
      else validateBindings nodeID (sfInputs spec) idx loop)"

definition decoded :: "string \<Rightarrow> flowErr + 'a \<Rightarrow> ('a \<Rightarrow> flowErr option) \<Rightarrow> flowErr option" where
  "decoded nodeID r f = (case r of Inl e \<Rightarrow> Some (NodeErr nodeID e) | Inr spec \<Rightarrow> f spec)"

definition validateSetNodeKindAndSpec ::
  "string \<Rightarrow> string \<Rightarrow> 'f node \<Rightarrow> 'f graphIndex \<Rightarrow> bool \<Rightarrow> flowErr option \<Rightarrow> flowErr option" where
  "validateSetNodeKindAndSpec flowID nodeID n idx loop bodyErr =
     (let kind = normalizeNodeKind (nKind n) in
      if (case nRetryBackoffMs n of None \<Rightarrow> False | Some ms \<Rightarrow> ms < 0) then Some RetryBackoffNegative
      else if kind = ''call'' then decoded nodeID (decodeNodeCallSpec n) (\<lambda>spec. validateCallSpecForSet nodeID spec idx loop)
      else if kind = ''compose'' then decoded nodeID (decodeNodeComposeSpec n) (\<lambda>spec. validateComposeSpecForSet nodeID spec idx loop)
      else if kind = ''set_var'' then decoded nodeID (decodeNodeSetVarSpec n) (\<lambda>spec. validateSetVarSpecForSet nodeID spec idx loop)
      else if kind = ''transform'' then decoded nodeID (decodeNodeTransformSpec n) (\<lambda>e. validateTransformSpecForSet nodeID e idx loop)
      else if kind = ''branch'' then decoded nodeID (decodeNodeBranchSpec n) (\<lambda>spec. validateBranchSpecForSet nodeID spec idx loop)
      else if kind = ''foreach'' then
        decoded nodeID (decodeNodeForeachSpec n) (\<lambda>(fh, body). validateForeachSpecForSet nodeID fh body bodyErr idx loop)
      else if kind = ''subflow'' then
        decoded nodeID (decodeNodeSubflowSpec n) (\<lambda>spec. validateSubflowSpecForSet flowID nodeID spec idx loop)
      else Some UnknownKind)"

section \<open>Graphs\<close>

fun checkNodeIDs :: "string list \<Rightarrow> 'f node list \<Rightarrow> flowErr option" where
  "checkNodeIDs seen [] = None"
| "checkNodeIDs seen (n # ns) =
     (if nodeKey n = [] then Some NodeIDRequired
      else if nodeKey n \<in> set seen then Some (DuplicateNode (nodeKey n))
      else checkNodeIDs (nodeKey n # seen) ns)"

fun collectSetVarWriters :: "'f node list \<Rightarrow> 'f graphIndex \<Rightarrow> flowErr + 'f graphIndex" where
  "collectSetVarWriters [] idx = Inr idx"
| "collectSetVarWriters (n # ns) idx =
     (if normalizeNodeKind (nKind n) \<noteq> ''set_var'' then collectSetVarWriters ns idx
      else case decodeNodeSetVarSpec n of
             Inl e \<Rightarrow> Inl (NodeErr (nodeKey n) e)
           | Inr spec \<Rightarrow> collectSetVarWriters ns (addSetVarWriter (svName spec) (nodeKey n) idx))"

definition allowedCases :: "'f branchSpec \<Rightarrow> string list" where
  "allowedCases spec = map (\<lambda>c. trimSpace (bcName c)) (brCases spec) @ (if brDefault spec = [] then [] else [trimSpace (brDefault spec)])"

definition validateNodeEdges :: "'f graphIndex \<Rightarrow> 'f node \<Rightarrow> flowErr option" where
  "validateNodeEdges idx n =
     (let outgoing = outgoingEdges idx (nodeKey n) in
      if normalizeNodeKind (nKind n) \<noteq> ''branch'' then
        firstErr (map (\<lambda>e. if trimSpace (eCase e) \<noteq> [] then Some (NodeErr (nodeKey n) CaseOnlyForBranch) else None) outgoing)
      else decoded (nodeKey n) (decodeNodeBranchSpec n) (\<lambda>spec.
        firstErr (map (\<lambda>e.
          if trimSpace (eCase e) = [] then Some (NodeErr (nodeKey n) (CaseRequired (trimSpace (eTo e))))
          else if trimSpace (eCase e) \<notin> set (allowedCases spec) then Some (NodeErr (nodeKey n) (CaseNotDeclared (trimSpace (eCase e))))
          else None) outgoing)))"

definition validateEdgeCases :: "'f graph \<Rightarrow> 'f graphIndex \<Rightarrow> flowErr option" where
  "validateEdgeCases g idx = firstErr (map (validateNodeEdges idx) (gNodes g))"

definition foreachBody :: "'f node \<Rightarrow> 'f graph option" where
  "foreachBody n = (case nSpec n of SpecForeach fh ns es \<Rightarrow> Some (ns, es) | _ \<Rightarrow> None)"

lemma size_foreachBody:
  assumes "n \<in> set ns" and "foreachBody n = Some body"
  shows "size_list size (gNodes body) < size_list size ns"
proof -
  have "size_list size (gNodes body) < size n"
    using assms(2) by (cases n; cases "nSpec n") (auto simp: foreachBody_def)
  also have "size n \<le> size_list size ns" by (rule size_list_estimation'[OF assms(1) order_refl])
  finally show ?thesis .
qed

function validateGraphScoped :: "string \<Rightarrow> bool \<Rightarrow> 'f graph \<Rightarrow> flowErr option" where
  "validateGraphScoped flowID loop g =
     (if gNodes g = [] then Some EmptyGraph
      else case checkNodeIDs [] (gNodes g) of
        Some e \<Rightarrow> Some e
      | None \<Rightarrow>
          (case buildGraphIndex g of
             Inl e \<Rightarrow> Some e
           | Inr idx0 \<Rightarrow>
               (case collectSetVarWriters (gNodes g) idx0 of
                  Inl e \<Rightarrow> Some e
                | Inr idx \<Rightarrow>
                    (case firstErr (map (\<lambda>n. validateSetNodeKindAndSpec flowID (nodeKey n) n idx loop
                        (case foreachBody n of None \<Rightarrow> None | Some body \<Rightarrow> validateGraphScoped flowID True body)) (gNodes g)) of
                       Some e \<Rightarrow> Some e
                     | None \<Rightarrow> validateEdgeCases g idx))))"
  by pat_completeness auto
termination
  by (relation "measure (\<lambda>(f, l, g). size_list size (gNodes g))") (auto intro: size_foreachBody)

declare validateGraphScoped.simps [simp del]

definition validateGraphForFlow :: "string \<Rightarrow> 'f graph \<Rightarrow> flowErr option" where
  "validateGraphForFlow flowID g = validateGraphScoped (trimSpace flowID) False g"

end
