(* ===== verification/Flow_Bindings.thy ===== *)
theory Flow_Bindings
  imports Flow_Validate
begin

text \<open>
  The data that a run keeps and how nodes read it (\<open>flow/runtime_bindings.go\<close>): the run context, binding sources, the building of
  JSON documents from templates and bindings, transform expressions and branch matches.

  Arithmetic on \<open>float64\<close>, the Unicode tables of \<open>strings.ToLower\<close> and \<open>ToUpper\<close> and the texts that \<open>encoding/json\<close> prints are the operations
  of a \<open>valueOps\<close> record, over an arbitrary type of numbers. \<open>json.Marshal\<close> followed by \<open>json.Unmarshal\<close> is
  \<open>reencode\<close>: an \<open>int\<close> comes back as a \<open>float64\<close>. A number that has no JSON text (an infinity) makes \<open>Marshal\<close> fail.
\<close>

record 'f valueOps =
  voOfInt :: "int \<Rightarrow> 'f"
  voAdd :: "'f \<Rightarrow> 'f \<Rightarrow> 'f"
  voSub :: "'f \<Rightarrow> 'f \<Rightarrow> 'f"
  voMul :: "'f \<Rightarrow> 'f \<Rightarrow> 'f"
  voDiv :: "'f \<Rightarrow> 'f \<Rightarrow> 'f"
  voMod :: "'f \<Rightarrow> 'f \<Rightarrow> 'f"
  voNeg :: "'f \<Rightarrow> 'f"
  voAbs :: "'f \<Rightarrow> 'f"
  voLess :: "'f \<Rightarrow> 'f \<Rightarrow> bool"
  voLessEq :: "'f \<Rightarrow> 'f \<Rightarrow> bool"
  voIsZero :: "'f \<Rightarrow> bool"
  voFinite :: "'f \<Rightarrow> bool"
  voLower :: "string \<Rightarrow> string"
  voUpper :: "string \<Rightarrow> string"
  voText :: "'f jsonv \<Rightarrow> string"

section \<open>The run context\<close>

text \<open>Errors: of a specification, of a pointer, of the structure of the run, and messages about data or from callees.\<close>

datatype runErr = RFlow flowErr | RJson jsonErr | RStruct string | RMsg string

record 'f nodeRuntimeData =
  ndStatus :: string
  ndCode :: int
  ndMsg :: "runErr option"
  ndResult :: "'f rawJson"

record 'f varRuntimeData =
  vdValue :: "'f rawJson"
  vdWriter :: string

record 'f runContext =
  rcFlowID :: string
  rcRunID :: string
  rcExecutor :: nodeID
  rcTrigger :: "'f rawJson"
  rcLoop :: "('f rawJson \<times> int) option"
  rcNodes :: "(string, 'f nodeRuntimeData) gomap"
  rcVars :: "(string, 'f varRuntimeData) gomap"

record 'f runState =
  stFlowID :: string
  stRunID :: string
  stStatus :: string
  stEnded :: bool
  stCancelReason :: string
  stCancelCalled :: bool
  stRuntime :: "'f runContext"

definition normalizeTriggerContext :: "'f rawJson \<Rightarrow> 'f rawJson" where
  "normalizeTriggerContext raw = (if raw = RawBlank then RawDoc (JObj []) else raw)"

definition newRunContext :: "string \<Rightarrow> string \<Rightarrow> nodeID \<Rightarrow> 'f rawJson \<Rightarrow> 'f runContext" where
  "newRunContext flowID runID executor trig =
     \<lparr>rcFlowID = trimSpace flowID, rcRunID = trimSpace runID, rcExecutor = executor,
      rcTrigger = normalizeTriggerContext trig, rcLoop = None, rcNodes = [], rcVars = []\<rparr>"

definition setNodeRuntime :: "string \<Rightarrow> 'f nodeRuntimeData \<Rightarrow> 'f runState \<Rightarrow> 'f runState" where
  "setNodeRuntime nodeID d st =
     (if trimSpace nodeID = [] then st
      else st\<lparr>stRuntime := (stRuntime st)\<lparr>rcNodes := gput (trimSpace nodeID) d (rcNodes (stRuntime st))\<rparr>\<rparr>)"

definition setVarRuntime :: "string \<Rightarrow> 'f varRuntimeData \<Rightarrow> 'f runState \<Rightarrow> 'f runState" where
  "setVarRuntime name d st =
     (if trimSpace name = [] then st
      else st\<lparr>stRuntime := (stRuntime st)\<lparr>rcVars :=
             gput (trimSpace name) (d\<lparr>vdWriter := trimSpace (vdWriter d)\<rparr>) (rcVars (stRuntime st))\<rparr>\<rparr>)"

section \<open>Reading\<close>

definition readJSONSourceValue :: "'f rawJson \<Rightarrow> string \<Rightarrow> runErr + 'f jsonv option" where
  "readJSONSourceValue raw path =
     (case raw of
        RawBlank \<Rightarrow> Inr None
      | RawBad \<Rightarrow> Inl (RMsg ''invalid json'')
      | RawDoc doc \<Rightarrow> map_sum RJson id (getJSONPointerValue doc path))"

definition resolveBindingSource :: "'f runState \<Rightarrow> bindingSource \<Rightarrow> runErr + 'f jsonv option" where
  "resolveBindingSource st src =
     (let kind = normalizeBindingSourceKind (bsKind src); rt = stRuntime st in
      if kind = ''node_result'' then
        (if trimSpace (bsNodeID src) = [] then Inl (RMsg ''node_result node_id required'')
         else case map_of (rcNodes rt) (trimSpace (bsNodeID src)) of
                None \<Rightarrow> Inr None
              | Some d \<Rightarrow> readJSONSourceValue (ndResult d) (bsPath src))
      else if kind = ''trigger'' then readJSONSourceValue (rcTrigger rt) (bsPath src)
      else if kind = ''flow_meta'' then
        (if trimSpace (bsField src) \<noteq> ''flow_id'' then Inl (RMsg ''unsupported flow_meta field'') else Inr (Some (JStr (rcFlowID rt))))
      else if kind = ''run_meta'' then
        (if trimSpace (bsField src) \<noteq> ''run_id'' then Inl (RMsg ''unsupported run_meta field'') else Inr (Some (JStr (rcRunID rt))))
      else if kind = ''flow_var'' then
        (if trimSpace (bsName src) = [] then Inl (RMsg ''flow_var name required'')
         else case map_of (rcVars rt) (trimSpace (bsName src)) of
                None \<Rightarrow> Inr None
              | Some d \<Rightarrow> readJSONSourceValue (vdValue d) (bsPath src))
      else if kind = ''loop_item'' then
        (case rcLoop rt of None \<Rightarrow> Inr None | Some (item, i) \<Rightarrow> readJSONSourceValue item (bsPath src))
      else if kind = ''loop_index'' then
        (case rcLoop rt of None \<Rightarrow> Inr None | Some (item, i) \<Rightarrow> Inr (Some (JInt i)))
      else Inl (RMsg ''unsupported binding source kind''))"

section \<open>Documents from templates\<close>

fun reencode :: "'f valueOps \<Rightarrow> 'f jsonv \<Rightarrow> 'f jsonv" where
  "reencode ops (JInt i) = JNum (voOfInt ops i)"
| "reencode ops (JArr vs) = JArr (map (reencode ops) vs)"
| "reencode ops (JObj kvs) = JObj (map (\<lambda>(k, v). (k, reencode ops v)) kvs)"
| "reencode ops v = v"

fun applyBindings :: "nat \<Rightarrow> 'f runState \<Rightarrow> inputBinding list \<Rightarrow> 'f jsonv \<Rightarrow> (runErr + 'f jsonv) outcome" where
  "applyBindings lim st [] doc = Ret (Inr doc)"
| "applyBindings lim st (b # bs) doc =
     (case resolveBindingSource st (ibSource b) of
        Inl e \<Rightarrow> Ret (Inl e)
      | Inr None \<Rightarrow> if ibRequired b then Ret (Inl (RMsg ''required source missing'')) else applyBindings lim st bs doc
      | Inr (Some v) \<Rightarrow>
          andThen (setJSONPointerValue lim doc (ibTo b) v) (\<lambda>r.
            case r of
              Inl e \<Rightarrow> Ret (Inl (RJson e))
            | Inr doc' \<Rightarrow> applyBindings lim st bs doc'))"

definition materializeBoundJSON ::
  "'f valueOps \<Rightarrow> nat \<Rightarrow> 'f jsonv option \<Rightarrow> inputBinding list \<Rightarrow> 'f runState \<Rightarrow> (runErr + 'f rawJson) outcome" where
  "materializeBoundJSON ops lim base bindings st =
     (case base of
        None \<Rightarrow> Ret (Inl (RFlow InvalidTemplate))
      | Some doc \<Rightarrow>
          if bindings = [] then Ret (Inr (RawDoc doc))
          else andThen (applyBindings lim st bindings doc) (\<lambda>r. Ret (map_sum id (RawDoc \<circ> reencode ops) r)))"

definition materializeCallArgs :: "'f valueOps \<Rightarrow> nat \<Rightarrow> 'f callSpec \<Rightarrow> 'f runState \<Rightarrow> (runErr + 'f rawJson) outcome" where
  "materializeCallArgs ops lim spec st = materializeBoundJSON ops lim (normalizeTemplateJSON (csArgs spec)) (csInputs spec) st"

definition materializeComposeResult :: "'f valueOps \<Rightarrow> nat \<Rightarrow> 'f composeSpec \<Rightarrow> 'f runState \<Rightarrow> (runErr + 'f rawJson) outcome" where
  "materializeComposeResult ops lim spec st = materializeBoundJSON ops lim (normalizeTemplateJSON (cpTemplate spec)) (cpInputs spec) st"

definition materializeSetVarValue :: "'f valueOps \<Rightarrow> nat \<Rightarrow> 'f setVarSpec \<Rightarrow> 'f runState \<Rightarrow> (runErr + 'f rawJson) outcome" where
  "materializeSetVarValue ops lim spec st = materializeBoundJSON ops lim (normalizeSetVarTemplateJSON (svTemplate spec)) (svInputs spec) st"

definition materializeSubflowInput :: "'f valueOps \<Rightarrow> nat \<Rightarrow> 'f subflowSpec \<Rightarrow> 'f runState \<Rightarrow> (runErr + 'f rawJson) outcome" where
  "materializeSubflowInput ops lim spec st = materializeBoundJSON ops lim (normalizeTemplateJSON (sfInputTemplate spec)) (sfInputs spec) st"

section \<open>Comparing values\<close>

definition jsonNumberValue :: "'f valueOps \<Rightarrow> 'f jsonv \<Rightarrow> 'f option" where
  "jsonNumberValue ops v = (case v of JNum x \<Rightarrow> Some x | JInt i \<Rightarrow> Some (voOfInt ops i) | _ \<Rightarrow> None)"

text \<open>
  Two values are equal when their normalised texts are: numbers as numbers, the members of objects by key.
  A value with a number that has no text cannot be compared.
\<close>

fun marshalable :: "'f valueOps \<Rightarrow> 'f jsonv \<Rightarrow> bool" where
  "marshalable ops (JNum x) = voFinite ops x"
| "marshalable ops (JArr vs) = list_all (marshalable ops) vs"
| "marshalable ops (JObj kvs) = list_all (\<lambda>(k, v). marshalable ops v) kvs"
| "marshalable ops v = True"

fun normalJSON :: "'f valueOps \<Rightarrow> 'f jsonv \<Rightarrow> 'f jsonv" where
  "normalJSON ops (JInt i) = JNum (voOfInt ops i)"
| "normalJSON ops (JArr vs) = JArr (map (normalJSON ops) vs)"
| "normalJSON ops (JObj kvs) = JObj (sort_key fst (map (\<lambda>(k, v). (k, normalJSON ops v)) kvs))"
| "normalJSON ops v = v"

definition jsonValuesEqualAny :: "'f valueOps \<Rightarrow> 'f jsonv \<Rightarrow> 'f jsonv \<Rightarrow> runErr + bool" where
  "jsonValuesEqualAny ops l r =
     (if marshalable ops l \<and> marshalable ops r then Inr (normalJSON ops l = normalJSON ops r)
      else Inl (RMsg ''unsupported value''))"

definition jsonValuesEqual :: "'f valueOps \<Rightarrow> 'f jsonv \<Rightarrow> 'f rawJson \<Rightarrow> runErr + bool" where
  "jsonValuesEqual ops actual expected =
     (if \<not> marshalable ops actual then Inl (RMsg ''unsupported value'')
      else case normalizeJSONValue expected of
             None \<Rightarrow> Inl (RMsg ''invalid json'')
           | Some e \<Rightarrow> Inr (normalJSON ops actual = normalJSON ops e))"

section \<open>Branches\<close>

text \<open>\<open>json.Unmarshal\<close> of the match value into a \<open>float64\<close>: \<open>null\<close> leaves the zero value.\<close>

definition wantNumber :: "'f valueOps \<Rightarrow> 'f rawJson \<Rightarrow> 'f option" where
  "wantNumber ops raw = (case raw of RawDoc (JNum x) \<Rightarrow> Some x | RawDoc JNull \<Rightarrow> Some (voOfInt ops 0) | _ \<Rightarrow> None)"

definition compareNumbers :: "'f valueOps \<Rightarrow> string \<Rightarrow> 'f \<Rightarrow> 'f \<Rightarrow> bool" where
  "compareNumbers ops op l r =
     (if op = ''gt'' then voLess ops r l
      else if op = ''gte'' then voLessEq ops r l
      else if op = ''lt'' then voLess ops l r
      else voLessEq ops l r)"

definition evaluateBranchMatch :: "'f valueOps \<Rightarrow> 'f branchMatch \<Rightarrow> 'f runState \<Rightarrow> runErr + bool" where
  "evaluateBranchMatch ops m st =
     (let op = normalizeBranchMatchOp (bmOp m) in
      case resolveBindingSource st (bmSource m) of
        Inl e \<Rightarrow> Inl e
      | Inr found \<Rightarrow>
          if op = ''exists'' then Inr (found \<noteq> None)
          else (case found of
                  None \<Rightarrow> Inr False
                | Some v \<Rightarrow>
                    if op = ''eq'' then jsonValuesEqual ops v (bmValue m)
                    else if op = ''ne'' then map_sum id Not (jsonValuesEqual ops v (bmValue m))
                    else if op \<in> set [''gt'', ''gte'', ''lt'', ''lte''] then
                      (case jsonNumberValue ops v of
                         None \<Rightarrow> Inl (RMsg ''branch numeric comparison requires number'')
                       | Some actual \<Rightarrow>
                           (case wantNumber ops (bmValue m) of
                              None \<Rightarrow> Inl (RMsg ''branch numeric match value required'')
                            | Some want \<Rightarrow> Inr (compareNumbers ops op actual want)))
                    else Inl (RMsg ''branch match op unsupported'')))"

fun evaluateCases :: "'f valueOps \<Rightarrow> 'f branchCase list \<Rightarrow> 'f runState \<Rightarrow> runErr + string option" where
  "evaluateCases ops [] st = Inr None"
| "evaluateCases ops (c # cs) st =
     (case evaluateBranchMatch ops (bcMatch c) st of
        Inl e \<Rightarrow> Inl e
      | Inr ok \<Rightarrow> if ok then Inr (Some (bcName c)) else evaluateCases ops cs st)"

definition evaluateBranchCases :: "'f valueOps \<Rightarrow> 'f branchSpec \<Rightarrow> 'f runState \<Rightarrow> runErr + string" where
  "evaluateBranchCases ops spec st =
     (case evaluateCases ops (brCases spec) st of
        Inl e \<Rightarrow> Inl e
      | Inr (Some name) \<Rightarrow> Inr name
      | Inr None \<Rightarrow> if brDefault spec \<noteq> [] then Inr (brDefault spec) else Inl (RMsg ''branch no case matched''))"

definition readSelectedBranchCase :: "'f rawJson \<Rightarrow> runErr + string option" where
  "readSelectedBranchCase raw =
     (case readJSONSourceValue raw ''/case'' of
        Inl e \<Rightarrow> Inl e
      | Inr None \<Rightarrow> Inr None
      | Inr (Some v) \<Rightarrow>
          (case v of
             JStr name \<Rightarrow> if trimSpace name = [] then Inl (RMsg ''branch result case required'') else Inr (Some (trimSpace name))
           | _ \<Rightarrow> Inl (RMsg ''branch result case must be string'')))"

section \<open>Transform expressions\<close>

text \<open>A loop over arguments that stops at the first error.\<close>

fun foldErr :: "('a \<Rightarrow> 'b \<Rightarrow> 'e + 'a) \<Rightarrow> 'a \<Rightarrow> 'b list \<Rightarrow> 'e + 'a" where
  "foldErr f a [] = Inr a"
| "foldErr f a (x # xs) = (case f a x of Inl e \<Rightarrow> Inl e | Inr b \<Rightarrow> foldErr f b xs)"

definition collectErr :: "('e + 'a) list \<Rightarrow> 'e + 'a list" where
  "collectErr rs = foldErr (\<lambda>acc r. map_sum id (\<lambda>x. acc @ [x]) r) [] rs"

definition numArg :: "'f valueOps \<Rightarrow> 'f jsonv \<Rightarrow> runErr + 'f" where
  "numArg ops v = (case jsonNumberValue ops v of None \<Rightarrow> Inl (RMsg ''requires number'') | Some x \<Rightarrow> Inr x)"

definition boolArg :: "'f jsonv \<Rightarrow> runErr + bool" where
  "boolArg v = (case v of JBool b \<Rightarrow> Inr b | _ \<Rightarrow> Inl (RMsg ''requires bool''))"

definition strArg :: "'f jsonv \<Rightarrow> runErr + string" where
  "strArg v = (case v of JStr s \<Rightarrow> Inr s | _ \<Rightarrow> Inl (RMsg ''requires string''))"

definition numFold :: "'f valueOps \<Rightarrow> ('f \<Rightarrow> 'f \<Rightarrow> runErr + 'f) \<Rightarrow> 'f \<Rightarrow> 'f jsonv list \<Rightarrow> runErr + 'f jsonv" where
  "numFold ops f x args =
     map_sum id JNum (foldErr (\<lambda>a v. case numArg ops v of Inl e \<Rightarrow> Inl e | Inr y \<Rightarrow> f a y) x args)"

text \<open>The operations that start from their first argument.\<close>

definition numFold1 :: "'f valueOps \<Rightarrow> ('f \<Rightarrow> 'f \<Rightarrow> runErr + 'f) \<Rightarrow> 'f jsonv list \<Rightarrow> runErr + 'f jsonv" where
  "numFold1 ops f args =
     (case args of
        [] \<Rightarrow> Inl (RMsg ''op unsupported'')
      | v # vs \<Rightarrow> (case numArg ops v of Inl e \<Rightarrow> Inl e | Inr x \<Rightarrow> numFold ops f x vs))"

definition nonZero :: "'f valueOps \<Rightarrow> ('f \<Rightarrow> 'f \<Rightarrow> 'f) \<Rightarrow> 'f \<Rightarrow> 'f \<Rightarrow> runErr + 'f" where
  "nonZero ops f x y = (if voIsZero ops y then Inl (RMsg ''divide by zero'') else Inr (f x y))"

fun andArgs :: "'f jsonv list \<Rightarrow> runErr + bool" where
  "andArgs [] = Inr True"
| "andArgs (v # vs) = (case boolArg v of Inl e \<Rightarrow> Inl e | Inr b \<Rightarrow> if b then andArgs vs else Inr False)"

fun orArgs :: "'f jsonv list \<Rightarrow> runErr + bool" where
  "orArgs [] = Inr False"
| "orArgs (v # vs) = (case boolArg v of Inl e \<Rightarrow> Inl e | Inr b \<Rightarrow> if b then Inr True else orArgs vs)"

definition transformValueString :: "'f valueOps \<Rightarrow> 'f jsonv \<Rightarrow> runErr + string" where
  "transformValueString ops v =
     (case v of
        JNull \<Rightarrow> Inr ''null''
      | JStr s \<Rightarrow> Inr s
      | _ \<Rightarrow> if marshalable ops v then Inr (voText ops v) else Inl (RMsg ''unsupported value''))"

definition arg :: "'f jsonv list \<Rightarrow> nat \<Rightarrow> 'f jsonv" where
  "arg args i = (if i < length args then args ! i else JNull)"

definition evaluateTransformOp :: "'f valueOps \<Rightarrow> string \<Rightarrow> 'f jsonv list \<Rightarrow> runErr + 'f jsonv" where
  "evaluateTransformOp ops op args =
     (if op = ''add'' then numFold ops (\<lambda>x y. Inr (voAdd ops x y)) (voOfInt ops 0) args
      else if op = ''sub'' then numFold1 ops (\<lambda>x y. Inr (voSub ops x y)) args
      else if op = ''mul'' then numFold ops (\<lambda>x y. Inr (voMul ops x y)) (voOfInt ops 1) args
      else if op = ''div'' then numFold1 ops (nonZero ops (voDiv ops)) args
      else if op = ''mod'' then numFold1 ops (nonZero ops (voMod ops)) args
      else if op = ''neg'' then map_sum id (JNum \<circ> voNeg ops) (numArg ops (arg args 0))
      else if op = ''abs'' then map_sum id (JNum \<circ> voAbs ops) (numArg ops (arg args 0))
      else if op = ''min'' then numFold1 ops (\<lambda>x y. Inr (if voLess ops y x then y else x)) args
      else if op = ''max'' then numFold1 ops (\<lambda>x y. Inr (if voLess ops x y then y else x)) args
      else if op = ''eq'' then map_sum id JBool (jsonValuesEqualAny ops (arg args 0) (arg args 1))
      else if op = ''ne'' then map_sum id (JBool \<circ> Not) (jsonValuesEqualAny ops (arg args 0) (arg args 1))
      else if op \<in> set [''gt'', ''gte'', ''lt'', ''lte''] then
        (case numArg ops (arg args 0) of
           Inl e \<Rightarrow> Inl e
         | Inr l \<Rightarrow> map_sum id (\<lambda>r. JBool (compareNumbers ops op l r)) (numArg ops (arg args 1)))
      else if op = ''and'' then map_sum id JBool (andArgs args)
      else if op = ''or'' then map_sum id JBool (orArgs args)
      else if op = ''not'' then map_sum id (JBool \<circ> Not) (boolArg (arg args 0))
      else if op = ''coalesce'' then Inr (case find (\<lambda>v. v \<noteq> JNull) args of None \<Rightarrow> JNull | Some v \<Rightarrow> v)
      else if op = ''if'' then map_sum id (\<lambda>c. if c then arg args 1 else arg args 2) (boolArg (arg args 0))
      else if op = ''concat'' then map_sum id (JStr \<circ> concat) (collectErr (map (transformValueString ops) args))
      else if op = ''lower'' then map_sum id (JStr \<circ> voLower ops) (strArg (arg args 0))
      else if op = ''upper'' then map_sum id (JStr \<circ> voUpper ops) (strArg (arg args 0))
      else if op = ''trim'' then map_sum id (JStr \<circ> trimSpace) (strArg (arg args 0))
      else if op = ''len'' then
        (case arg args 0 of
           JStr s \<Rightarrow> Inr (JInt (int (length s)))
         | JArr vs \<Rightarrow> Inr (JInt (int (length vs)))
         | JObj kvs \<Rightarrow> Inr (JInt (int (length kvs)))
         | _ \<Rightarrow> Inl (RMsg ''requires string, array or object''))
      else Inl (RMsg ''op unsupported''))"

function evaluateTransformExpr :: "'f valueOps \<Rightarrow> 'f runState \<Rightarrow> 'f transformExpr \<Rightarrow> runErr + 'f jsonv" where
  "evaluateTransformExpr ops st e =
     (if teRequired e \<noteq> None \<and> teSource e = None then Inl (RFlow RequiredOnlyWithSource)
      else if length (filter (\<lambda>b. b) (transformExprVariantFlags e)) \<noteq> 1 then Inl (RFlow ExactlyOneVariant)
      else if teLiteral e \<noteq> RawBlank then
        (case normalizeJSONValue (teLiteral e) of None \<Rightarrow> Inl (RFlow InvalidLiteral) | Some v \<Rightarrow> Inr v)
      else case teSource e of
        Some src \<Rightarrow>
          (case resolveBindingSource st src of
             Inl err \<Rightarrow> Inl err
           | Inr (Some v) \<Rightarrow> Inr v
           | Inr None \<Rightarrow> if teRequired e = Some False then Inr JNull else Inl (RMsg ''required source missing''))
      | None \<Rightarrow>
          if opSet e then
            (let op = normalizeTransformOp (teOp e) in
             if op = [] then Inl (RFlow OpUnsupported)
             else case validateTransformOpArity op (case teArgs e of None \<Rightarrow> 0 | Some es \<Rightarrow> length es) of
                    Some err \<Rightarrow> Inl (RFlow err)
                  | None \<Rightarrow>
                      (case collectErr (map (evaluateTransformExpr ops st) (subExprs e)) of
                         Inl err \<Rightarrow> Inl err
                       | Inr args \<Rightarrow> evaluateTransformOp ops op args))
          else (case collectErr (map (evaluateTransformExpr ops st) (subExprs e)) of
                  Inl err \<Rightarrow> Inl err
                | Inr vs \<Rightarrow>
                    (case teObject e of
                       Some kvs \<Rightarrow> Inr (JObj (zip (map fst (sort_key fst kvs)) vs))
                     | None \<Rightarrow> Inr (JArr vs))))"
  by pat_completeness auto
termination by (relation "measure (\<lambda>(ops, st, e). size e)") (auto dest: size_subExprs)

declare evaluateTransformExpr.simps [simp del]

definition materializeTransformResult :: "'f valueOps \<Rightarrow> 'f transformExpr \<Rightarrow> 'f runState \<Rightarrow> runErr + 'f rawJson" where
  "materializeTransformResult ops e st =
     (case evaluateTransformExpr ops st e of
        Inl err \<Rightarrow> Inl err
      | Inr v \<Rightarrow> if marshalable ops v then Inr (RawDoc (reencode ops v)) else Inl (RMsg ''invalid transform result json''))"

end
