(* ===== verification/Flow_Run.thy ===== *)
theory Flow_Run
  imports Flow_Bindings
begin

text \<open>
  Execution of a flow graph (\<open>executeGraph\<close>, \<open>executeNode\<close>, \<open>shouldExecuteNode\<close>, cancellation in \<open>flow/handler.go\<close>).

  Time is a counter of steps. A Go context is a function from the counter to its error; \<open>reWithTimeout\<close>
  is \<open>context.WithTimeout\<close>. Another goroutine may cancel the run between two critical sections: \<open>intr\<close> says at which steps
  it does so. What a local method, a capability or a remote node answers is an argument and may differ from call to call.

  \<open>foreach\<close> and \<open>subflow\<close> nodes run a graph of their own; the depth of this nesting is the fuel of \<open>executeGraph\<close>, and
  \<open>Blocked\<close> means that the depth did not suffice. \<open>runDepth\<close> is a depth that always suffices. A panic is \<open>Panic\<close>.
\<close>

datatype ctxErr = CtxOK | CtxCanceled | CtxDeadline

type_synonym ctx = "nat \<Rightarrow> ctxErr"

datatype 'f remoteAnswer = RespClosed | Resp int string "'f rawJson" | RespTimeout

record 'f callReq =
  crReqID :: string
  crExecutor :: nodeID
  crTarget :: nodeID
  crMethod :: string
  crArgs :: "'f rawJson"
  crTimeoutMs :: int

record 'f runEnv =
  reOps :: "'f valueOps"
  reLim :: nat
  reFlows :: "(string, string \<times> 'f graph) gomap"
  reServer :: "server option"
  reLocal :: "string \<Rightarrow> (nat \<Rightarrow> 'f rawJson \<Rightarrow> string + 'f rawJson) option"
  reCap :: "string \<Rightarrow> (nat \<Rightarrow> 'f rawJson \<Rightarrow> string + 'f rawJson) option"
  reRemote :: "nat \<Rightarrow> 'f callReq \<Rightarrow> 'f remoteAnswer"
  reWithTimeout :: "ctx \<Rightarrow> int \<Rightarrow> nat \<Rightarrow> ctx"
  reBackoff :: "ctx \<Rightarrow> int \<Rightarrow> nat \<Rightarrow> bool"
  reUUID :: "nat \<Rightarrow> string"
  reExecProto :: "8 word"

section \<open>Run states\<close>

definition isTerminalRunStatus :: "string \<Rightarrow> bool" where
  "isTerminalRunStatus status = (status \<in> set [''succeeded'', ''failed'', ''cancelled''])"

definition cancelNode :: "string \<Rightarrow> 'f nodeRuntimeData \<Rightarrow> 'f nodeRuntimeData" where
  "cancelNode reason d =
     (if ndStatus d \<in> set [''queued'', ''running''] then
        d\<lparr>ndStatus := ''cancelled'', ndMsg := (if reason \<noteq> [] \<and> ndMsg d = None then Some (RMsg reason) else ndMsg d)\<rparr>
      else d)"

definition markActiveNodesCancelled :: "string \<Rightarrow> 'f runState \<Rightarrow> 'f runState" where
  "markActiveNodesCancelled reason st =
     st\<lparr>stRuntime := (stRuntime st)\<lparr>rcNodes := map (\<lambda>(k, d). (k, cancelNode reason d)) (rcNodes (stRuntime st))\<rparr>\<rparr>"

definition cancelRunState :: "string \<Rightarrow> 'f runState \<Rightarrow> 'f runState" where
  "cancelRunState reason st =
     (if isTerminalRunStatus (stStatus st) then st
      else
        let r = (if reason \<noteq> [] \<and> trimSpace (stCancelReason st) = [] then reason else stCancelReason st)
        in markActiveNodesCancelled r (st\<lparr>stStatus := ''cancelled'', stEnded := True, stCancelReason := r, stCancelCalled := True\<rparr>))"

abbreviation markRunCancelled :: "'f runState \<Rightarrow> 'f runState" where
  "markRunCancelled \<equiv> cancelRunState ''cancelled''"

text \<open>The executor finds the run cancelled: it completes the bookkeeping under the same lock.\<close>

definition settleCancelled :: "'f runState \<Rightarrow> 'f runState" where
  "settleCancelled st =
     (let r = (if stCancelReason st = [] then ''cancelled'' else stCancelReason st)
      in markActiveNodesCancelled r (st\<lparr>stEnded := True, stCancelReason := r\<rparr>))"

definition poll :: "(nat \<Rightarrow> string option) \<Rightarrow> nat \<Rightarrow> 'f runState \<Rightarrow> 'f runState" where
  "poll intr clk st = (case intr clk of None \<Rightarrow> st | Some reason \<Rightarrow> cancelRunState reason st)"

definition newNestedRunState :: "string \<Rightarrow> string \<Rightarrow> nodeID \<Rightarrow> 'f rawJson \<Rightarrow> 'f runState" where
  "newNestedRunState flowID runID executor trig =
     \<lparr>stFlowID = trimSpace flowID, stRunID = trimSpace runID, stStatus = ''queued'', stEnded = False, stCancelReason = [],
      stCancelCalled = False, stRuntime = newRunContext flowID runID executor trig\<rparr>"

definition newLoopRunState :: "'f valueOps \<Rightarrow> 'f runState \<Rightarrow> 'f jsonv \<Rightarrow> int \<Rightarrow> 'f runState" where
  "newLoopRunState ops parent item i =
     (let rt = stRuntime parent;
          child = newNestedRunState (rcFlowID rt) (rcRunID rt) (rcExecutor rt) (rcTrigger rt)
      in child\<lparr>stRuntime := (stRuntime child)\<lparr>rcLoop := Some (RawDoc (reencode ops item), i)\<rparr>\<rparr>)"

definition buildSubflowTriggerContext :: "'f runState \<Rightarrow> string \<Rightarrow> 'f rawJson \<Rightarrow> 'f rawJson" where
  "buildSubflowTriggerContext parent nodeID input =
     RawDoc (JObj ([(''type'', JStr ''subflow''), (''node_id'', JStr (trimSpace nodeID)),
        (''parent_flow_id'', JStr (rcFlowID (stRuntime parent))), (''parent_run_id'', JStr (rcRunID (stRuntime parent)))] @
        (case input of RawDoc v \<Rightarrow> [(''input'', v)] | _ \<Rightarrow> [])))"

definition newSubflowRunState :: "'f runState \<Rightarrow> string \<Rightarrow> string \<Rightarrow> 'f rawJson \<Rightarrow> 'f runState" where
  "newSubflowRunState parent runID flowID trig = newNestedRunState flowID runID (rcExecutor (stRuntime parent)) trig"

definition pushFlowExecutionContext :: "string \<Rightarrow> string list \<Rightarrow> string list" where
  "pushFlowExecutionContext flowID stack = (if trimSpace flowID = [] then stack else sadd (trimSpace flowID) stack)"

definition flowExecutionContains :: "string \<Rightarrow> string list \<Rightarrow> bool" where
  "flowExecutionContains flowID stack = (trimSpace flowID \<noteq> [] \<and> trimSpace flowID \<in> set stack)"

section \<open>Which nodes run\<close>

fun countActive :: "'f graphIndex \<Rightarrow> 'f runState \<Rightarrow> edge list \<Rightarrow> nat \<Rightarrow> runErr + nat" where
  "countActive idx st [] cnt = Inr cnt"
| "countActive idx st (e # es) cnt =
     (let parentID = trimSpace (eFrom e); want = trimSpace (eCase e) in
      case idxNode idx parentID of
        None \<Rightarrow> Inl (RStruct ''parent missing'')
      | Some parent \<Rightarrow>
          (case map_of (rcNodes (stRuntime st)) parentID of
             None \<Rightarrow> Inl (RStruct ''parent not executed'')
           | Some d \<Rightarrow>
               if ndStatus d = ''skipped'' then countActive idx st es cnt
               else if normalizeNodeKind (nKind parent) = ''branch'' then
                 (if want = [] then Inl (RStruct ''branch edge case required'')
                  else case readSelectedBranchCase (ndResult d) of
                         Inl err \<Rightarrow> Inl (RStruct ''branch parent invalid result'')
                       | Inr got \<Rightarrow> countActive idx st es (if got = Some want then cnt + 1 else cnt))
               else if want \<noteq> [] then Inl (RStruct ''non-branch edge.case unsupported'')
               else countActive idx st es (cnt + 1)))"

definition shouldExecuteNode :: "'f graphIndex \<Rightarrow> string \<Rightarrow> 'f runState \<Rightarrow> runErr + bool" where
  "shouldExecuteNode idx nodeID st =
     (if incomingEdges idx nodeID = [] then Inr True
      else map_sum id (\<lambda>cnt. 0 < cnt) (countActive idx st (incomingEdges idx nodeID) 0))"

section \<open>One node\<close>

type_synonym 'f nodeResult = "int \<times> 'f rawJson \<times> runErr option"

definition failWith :: "int \<Rightarrow> runErr \<Rightarrow> 'f nodeResult" where
  "failWith code e = (code, RawBlank, Some e)"

definition normalizeNodeResult :: "'f rawJson \<Rightarrow> runErr + 'f rawJson" where
  "normalizeNodeResult raw =
     (case raw of RawBlank \<Rightarrow> Inr (RawDoc JNull) | RawBad \<Rightarrow> Inl (RMsg ''invalid node result json'') | RawDoc v \<Rightarrow> Inr raw)"

definition finishCall :: "'f rawJson \<Rightarrow> 'f nodeResult" where
  "finishCall raw = (case normalizeNodeResult raw of Inl e \<Rightarrow> failWith 500 e | Inr r \<Rightarrow> (1, r, None))"

text \<open>\<open>sendExecCall\<close>: the connection and the header, downwards to a child that leads to the target, otherwise to the parent.\<close>

definition sendExecCall :: "server \<Rightarrow> 8 word \<Rightarrow> nodeID \<Rightarrow> string + (string \<times> header)" where
  "sendExecCall srv subProto target =
     (let hdr = zeroHeader\<lparr>hMajor := MajorCmd, hSubProto := subProto, hSourceID := sNodeID srv\<rparr>;
          send = (\<lambda>c t. if sSendErr srv (cID c) then Inl ''send failed'' else Inr (cID c, hdr\<lparr>hTargetID := t\<rparr>));
          upward = (case findParent (Some srv) of
                      None \<Rightarrow> Inl ''no parent''
                    | Some p \<Rightarrow> if uintNodeID p = 0 then Inl ''invalid parent node'' else send p (uintNodeID p))
      in case sByNode srv target of
           Some c \<Rightarrow> if isParentConn srv c then upward else send c target
         | None \<Rightarrow> upward)"

definition localCall ::
  "ctx \<Rightarrow> (nat \<Rightarrow> 'f rawJson \<Rightarrow> string + 'f rawJson) \<Rightarrow> 'f rawJson \<Rightarrow> nat \<Rightarrow> 'f nodeResult" where
  "localCall ctx fn args clk =
     (case fn clk args of
        Inl e \<Rightarrow> failWith (if ctx (clk + 1) = CtxDeadline then 408 else 500) (RMsg e)
      | Inr res \<Rightarrow> finishCall res)"

definition executeCall :: "'f runEnv \<Rightarrow> ctx \<Rightarrow> 'f runState \<Rightarrow> 'f node \<Rightarrow> nat \<Rightarrow> 'f nodeResult outcome" where
  "executeCall env ctx st n clk =
     (case reServer env of
        None \<Rightarrow> Ret (failWith 500 (RMsg ''no server''))
      | Some srv \<Rightarrow>
          (case decodeNodeCallSpec n of
             Inl e \<Rightarrow> Ret (failWith 400 (RFlow e))
           | Inr spec \<Rightarrow>
               andThen (materializeCallArgs (reOps env) (reLim env) spec st) (\<lambda>r.
               case r of
                 Inl e \<Rightarrow> Ret (failWith 400 e)
               | Inr args \<Rightarrow>
                   if csTarget spec = 0 \<or> csTarget spec = sNodeID srv then
                     (case reLocal env (csMethod spec) of
                        Some fn \<Rightarrow> Ret (localCall ctx fn args clk)
                      | None \<Rightarrow>
                          (case reCap env (csMethod spec) of
                             Some fn \<Rightarrow> Ret (localCall ctx fn args clk)
                           | None \<Rightarrow> Ret (failWith 404 (RMsg ''call method not found''))))
                   else
                     let timeout = (case nTimeoutMs n of Some ms \<Rightarrow> if 0 < ms then ms else 3000 | None \<Rightarrow> 3000);
                         call = \<lparr>crReqID = reUUID env clk, crExecutor = sNodeID srv, crTarget = csTarget spec,
                                 crMethod = csMethod spec, crArgs = args, crTimeoutMs = timeout\<rparr>
                     in (case sendExecCall srv (reExecProto env) (csTarget spec) of
                           Inl e \<Rightarrow> Ret (failWith 500 (RMsg e))
                         | Inr _ \<Rightarrow>
                             (case reRemote env clk call of
                                RespClosed \<Rightarrow> Ret (failWith 500 (RMsg ''exec response closed''))
                              | RespTimeout \<Rightarrow> Ret (failWith 408 (RMsg ''timeout''))
                              | Resp code msg res \<Rightarrow>
                                  if code \<noteq> 1 then
                                    Ret (failWith code (RMsg (if trimSpace msg = [] then ''call failed'' else trimSpace msg)))
                                  else Ret (finishCall res))))))"

text \<open>
  \<open>rec\<close> runs the graph of a \<open>foreach\<close> body or of a subflow: context, stack of flow ids, graph, state and step counter give the
  final state and the counter.
\<close>

type_synonym 'f graphRunner = "ctx \<Rightarrow> string list \<Rightarrow> 'f graph \<Rightarrow> 'f runState \<Rightarrow> nat \<Rightarrow> ('f runState \<times> nat) outcome"

fun foreachItems ::
  "'f valueOps \<Rightarrow> 'f graphRunner \<Rightarrow> ctx \<Rightarrow> string list \<Rightarrow> 'f graph \<Rightarrow> string \<Rightarrow> 'f runState \<Rightarrow> 'f jsonv list \<Rightarrow> int \<Rightarrow>
   'f jsonv list \<Rightarrow> nat \<Rightarrow> ('f nodeResult \<times> nat) outcome" where
  "foreachItems ops rec ctx stack body resultID st [] i results clk =
     Ret ((1, RawDoc (reencode ops (JArr results)), None), clk)"
| "foreachItems ops rec ctx stack body resultID st (item # items) i results clk =
     (if ctx clk \<noteq> CtxOK then Ret (failWith 408 (RMsg ''timeout''), clk + 1)
      else andThen (rec ctx stack body (newLoopRunState ops st item i) (clk + 1)) (\<lambda>(child, clk').
        if stStatus child \<noteq> ''succeeded'' then
          Ret (failWith 500 (RMsg (if stCancelReason child = [] then ''foreach body '' @ stStatus child else stCancelReason child)), clk')
        else case map_of (rcNodes (stRuntime child)) resultID of
               None \<Rightarrow> Ret (failWith 500 (RMsg ''foreach result_node_id not found''), clk')
             | Some d \<Rightarrow>
                 (case ndResult d of
                    RawBad \<Rightarrow> Ret (failWith 500 (RMsg ''invalid foreach result json''), clk')
                  | RawBlank \<Rightarrow> foreachItems ops rec ctx stack body resultID st items (i + 1) (results @ [JNull]) clk'
                  | RawDoc v \<Rightarrow> foreachItems ops rec ctx stack body resultID st items (i + 1) (results @ [v]) clk')))"

definition executeForeach ::
  "'f runEnv \<Rightarrow> 'f graphRunner \<Rightarrow> ctx \<Rightarrow> string list \<Rightarrow> 'f runState \<Rightarrow> 'f node \<Rightarrow> nat \<Rightarrow> ('f nodeResult \<times> nat) outcome" where
  "executeForeach env rec ctx stack st n clk =
     (case decodeNodeForeachSpec n of
        Inl e \<Rightarrow> Ret (failWith 400 (RFlow e), clk)
      | Inr (fh, body) \<Rightarrow>
          (case resolveBindingSource st (feSource fh) of
             Inl e \<Rightarrow> Ret (failWith 400 e, clk)
           | Inr None \<Rightarrow>
               if feRequired fh = Some False then Ret ((1, RawDoc (JArr []), None), clk)
               else Ret (failWith 400 (RMsg ''foreach source missing''), clk)
           | Inr (Some (JArr items)) \<Rightarrow> foreachItems (reOps env) rec ctx stack body (feResultNodeID fh) st items 0 [] clk
           | Inr (Some _) \<Rightarrow> Ret (failWith 400 (RMsg ''foreach source must be array''), clk)))"

definition subflowResult :: "'f subflowSpec \<Rightarrow> string \<Rightarrow> 'f runState \<Rightarrow> 'f nodeResult" where
  "subflowResult spec flowID child =
     (let found = (if sfResultNodeID spec = [] then Some RawBlank
                   else map_option ndResult (map_of (rcNodes (stRuntime child)) (sfResultNodeID spec)))
      in case found of
           None \<Rightarrow> failWith 500 (RMsg ''subflow result_node_id not found'')
         | Some res \<Rightarrow>
             if stStatus child \<noteq> ''succeeded'' then
               failWith 500 (RMsg (if stCancelReason child = [] then ''subflow '' @ stStatus child else stCancelReason child))
             else
               let base = [(''flow_id'', JStr flowID), (''run_id'', JStr (stRunID child)), (''status'', JStr (stStatus child))] in
               case res of
                 RawBad \<Rightarrow> failWith 500 (RMsg ''invalid subflow result json'')
               | RawBlank \<Rightarrow> (1, RawDoc (JObj base), None)
               | RawDoc v \<Rightarrow> (1, RawDoc (JObj (base @ [(''result'', v)])), None))"

definition executeSubflow ::
  "'f runEnv \<Rightarrow> 'f graphRunner \<Rightarrow> ctx \<Rightarrow> string list \<Rightarrow> 'f runState \<Rightarrow> 'f node \<Rightarrow> nat \<Rightarrow> ('f nodeResult \<times> nat) outcome" where
  "executeSubflow env rec ctx stack st n clk =
     (case decodeNodeSubflowSpec n of
        Inl e \<Rightarrow> Ret (failWith 400 (RFlow e), clk)
      | Inr spec \<Rightarrow>
          if flowExecutionContains (sfFlowID spec) stack then Ret (failWith 400 (RMsg ''subflow recursion detected''), clk)
          else andThen (materializeSubflowInput (reOps env) (reLim env) spec st) (\<lambda>r.
            case r of
              Inl e \<Rightarrow> Ret (failWith 400 e, clk)
            | Inr input \<Rightarrow>
                (case map_of (reFlows env) (sfFlowID spec) of
                   None \<Rightarrow> Ret (failWith 404 (RMsg ''subflow target not found''), clk)
                 | Some (flowID, g) \<Rightarrow>
                     andThen (rec ctx (pushFlowExecutionContext flowID stack) g
                         (newSubflowRunState st (reUUID env clk) flowID (buildSubflowTriggerContext st (nodeKey n) input)) (clk + 1))
                       (\<lambda>(child, clk'). Ret (subflowResult spec flowID child, clk')))))"

definition executeNode ::
  "'f runEnv \<Rightarrow> 'f graphRunner \<Rightarrow> ctx \<Rightarrow> string list \<Rightarrow> 'f runState \<Rightarrow> 'f node \<Rightarrow> nat \<Rightarrow>
   ('f nodeResult \<times> 'f runState \<times> nat) outcome" where
  "executeNode env rec ctx stack st n clk =
     (let kind = normalizeNodeKind (nKind n);
          keep = (\<lambda>(r, clk'). Ret (r, st, clk'))
      in if kind = ''branch'' then
           (case decodeNodeBranchSpec n of
              Inl e \<Rightarrow> keep (failWith 400 (RFlow e), clk)
            | Inr spec \<Rightarrow>
                (case evaluateBranchCases (reOps env) spec st of
                   Inl e \<Rightarrow> keep (failWith 400 e, clk)
                 | Inr name \<Rightarrow> keep ((1, RawDoc (JObj [(''case'', JStr name)]), None), clk)))
         else if kind = ''foreach'' then andThen (executeForeach env rec ctx stack st n clk) keep
         else if kind = ''subflow'' then andThen (executeSubflow env rec ctx stack st n clk) keep
         else if kind = ''compose'' then
           (case decodeNodeComposeSpec n of
              Inl e \<Rightarrow> keep (failWith 400 (RFlow e), clk)
            | Inr spec \<Rightarrow>
                andThen (materializeComposeResult (reOps env) (reLim env) spec st) (\<lambda>r.
                  case r of Inl e \<Rightarrow> keep (failWith 400 e, clk) | Inr out \<Rightarrow> keep ((1, out, None), clk)))
         else if kind = ''set_var'' then
           (case decodeNodeSetVarSpec n of
              Inl e \<Rightarrow> keep (failWith 400 (RFlow e), clk)
            | Inr spec \<Rightarrow>
                andThen (materializeSetVarValue (reOps env) (reLim env) spec st) (\<lambda>r.
                  case r of
                    Inl e \<Rightarrow> keep (failWith 400 e, clk)
                  | Inr out \<Rightarrow>
                      Ret ((1, out, None), setVarRuntime (svName spec) \<lparr>vdValue = out, vdWriter = nodeKey n\<rparr> st, clk)))
         else if kind = ''transform'' then
           (case decodeNodeTransformSpec n of
              Inl e \<Rightarrow> keep (failWith 400 (RFlow e), clk)
            | Inr ex \<Rightarrow>
                (case materializeTransformResult (reOps env) ex st of
                   Inl e \<Rightarrow> keep (failWith 400 e, clk)
                 | Inr out \<Rightarrow> keep ((1, out, None), clk)))
         else andThen (executeCall env ctx st n clk) (\<lambda>r. keep (r, clk + 2)))"

section \<open>The graph\<close>

text \<open>The attempts at one node: \<open>left\<close> is the number of retries that remain.\<close>

fun attemptNode ::
  "nat \<Rightarrow> 'f runEnv \<Rightarrow> 'f graphRunner \<Rightarrow> ctx \<Rightarrow> string list \<Rightarrow> 'f runState \<Rightarrow> 'f node \<Rightarrow> int \<Rightarrow> int \<Rightarrow> nat \<Rightarrow>
   ('f nodeResult \<times> 'f runState \<times> nat) outcome" where
  "attemptNode 0 env rec ctx stack st n timeoutMs backoffMs clk =
     executeNode env rec (reWithTimeout env ctx timeoutMs clk) stack st n (clk + 1)"
| "attemptNode (Suc left) env rec ctx stack st n timeoutMs backoffMs clk =
     andThen (executeNode env rec (reWithTimeout env ctx timeoutMs clk) stack st n (clk + 1)) (\<lambda>(r, st', clk').
       if (fst r = 1 \<and> snd (snd r) = None) \<or> ctx clk' \<noteq> CtxOK \<or> (0 < backoffMs \<and> \<not> reBackoff env ctx backoffMs (clk' + 1))
       then Ret (r, st', clk' + 2)
       else attemptNode left env rec ctx stack st' n timeoutMs backoffMs (clk' + 2))"

definition nodeRetries :: "'f node \<Rightarrow> nat" where
  "nodeRetries n = nat (case nRetry n of None \<Rightarrow> 1 | Some r \<Rightarrow> r)"

definition nodeTimeout :: "'f node \<Rightarrow> int" where
  "nodeTimeout n = (case nTimeoutMs n of None \<Rightarrow> 3000 | Some ms \<Rightarrow> if ms \<le> 0 then 3000 else ms)"

definition nodeBackoff :: "'f node \<Rightarrow> int" where
  "nodeBackoff n = (case nRetryBackoffMs n of None \<Rightarrow> 0 | Some ms \<Rightarrow> max 0 ms)"

definition nodeRecord :: "'f nodeResult \<Rightarrow> 'f nodeRuntimeData" where
  "nodeRecord r =
     (case r of (code, res, err) \<Rightarrow>
        if err = None \<and> code = 1 then \<lparr>ndStatus = ''succeeded'', ndCode = 1, ndMsg = None, ndResult = res\<rparr>
        else \<lparr>ndStatus = ''failed'', ndCode = (if code \<noteq> 0 then code else 500), ndMsg = err, ndResult = RawBlank\<rparr>)"

definition plainRecord :: "string \<Rightarrow> 'f nodeRuntimeData" where
  "plainRecord status = \<lparr>ndStatus = status, ndCode = 0, ndMsg = None, ndResult = RawBlank\<rparr>"

text \<open>The loop over the order. Each critical section is preceded by a point where another goroutine may cancel the run.\<close>

fun runNodes ::
  "'f runEnv \<Rightarrow> 'f graphRunner \<Rightarrow> (nat \<Rightarrow> string option) \<Rightarrow> ctx \<Rightarrow> string list \<Rightarrow> 'f graphIndex \<Rightarrow> 'f runState \<Rightarrow>
   'f node option list \<Rightarrow> nat \<Rightarrow> ('f runState \<times> nat) outcome" where
  "runNodes env rec intr ctx stack idx st [] clk =
     (let st1 = poll intr clk st in
      if ctx clk \<noteq> CtxOK then Ret (markRunCancelled st1, clk + 1)
      else
        let st2 = poll intr (clk + 1) st1 in
        if stStatus st2 = ''cancelled'' then Ret (settleCancelled st2, clk + 2)
        else Ret (st2\<lparr>stStatus := ''succeeded'', stEnded := True\<rparr>, clk + 2))"
| "runNodes env rec intr ctx stack idx st (None # ns) clk =
     (let st1 = poll intr clk st in
      if ctx clk \<noteq> CtxOK then Ret (markRunCancelled st1, clk + 1)
      else runNodes env rec intr ctx stack idx st1 ns (clk + 1))"
| "runNodes env rec intr ctx stack idx st (Some n # ns) clk =
     (let st1 = poll intr clk st; i = nodeKey n in
      if ctx clk \<noteq> CtxOK then Ret (markRunCancelled st1, clk + 1)
      else if i = [] then runNodes env rec intr ctx stack idx st1 ns (clk + 1)
      else case shouldExecuteNode idx i st1 of
        Inl e \<Rightarrow>
          Ret ((setNodeRuntime i \<lparr>ndStatus = ''failed'', ndCode = 400, ndMsg = Some e, ndResult = RawBlank\<rparr>
                 (poll intr (clk + 1) st1))\<lparr>stStatus := ''failed'', stEnded := True\<rparr>, clk + 2)
      | Inr False \<Rightarrow>
          runNodes env rec intr ctx stack idx (setNodeRuntime i (plainRecord ''skipped'') (poll intr (clk + 1) st1)) ns (clk + 2)
      | Inr True \<Rightarrow>
          andThen (attemptNode (nodeRetries n) env rec ctx stack
              (setNodeRuntime i (plainRecord ''running'') (poll intr (clk + 1) st1)) n (nodeTimeout n) (nodeBackoff n) (clk + 2))
            (\<lambda>(r, st2, clk2).
              let st3 = poll intr clk2 st2 in
              if ctx clk2 \<noteq> CtxOK then Ret (markRunCancelled st3, clk2 + 1)
              else
                let st4 = poll intr (clk2 + 1) st3; rt = nodeRecord r in
                if stStatus st4 = ''cancelled'' then Ret (settleCancelled st4, clk2 + 2)
                else
                  let st5 = setNodeRuntime i rt st4 in
                  if ndStatus rt \<noteq> ''succeeded'' \<and> \<not> nAllowFail n then
                    Ret ((poll intr (clk2 + 2) st5)\<lparr>stStatus := ''failed'', stEnded := True\<rparr>, clk2 + 3)
                  else runNodes env rec intr ctx stack idx st5 ns (clk2 + 2)))"

definition graphBody ::
  "'f runEnv \<Rightarrow> 'f graphRunner \<Rightarrow> (nat \<Rightarrow> string option) \<Rightarrow> ctx \<Rightarrow> string list \<Rightarrow> 'f graph \<Rightarrow> 'f runState \<Rightarrow> nat \<Rightarrow>
   ('f runState \<times> nat) outcome" where
  "graphBody env rec intr ctx stack g st0 clk =
     (let st = poll intr clk st0 in
      if ctx clk \<noteq> CtxOK then
        Ret (settleCancelled (st\<lparr>stStatus := ''cancelled''\<rparr>), clk + 1)
      else case topoOrder g of
             Inl _ \<Rightarrow> Ret (st\<lparr>stStatus := ''failed'', stEnded := True\<rparr>, clk + 1)
           | Inr order \<Rightarrow>
               (case buildGraphIndex g of
                  Inl _ \<Rightarrow> Ret (st\<lparr>stStatus := ''failed'', stEnded := True\<rparr>, clk + 1)
                | Inr idx \<Rightarrow> runNodes env rec intr ctx stack idx (st\<lparr>stStatus := ''running''\<rparr>) order (clk + 1)))"

text \<open>Only the run that was started has an entry in the table of runs; nobody else can cancel a nested one.\<close>

fun executeGraph ::
  "nat \<Rightarrow> 'f runEnv \<Rightarrow> (nat \<Rightarrow> string option) \<Rightarrow> ctx \<Rightarrow> string list \<Rightarrow> 'f graph \<Rightarrow> 'f runState \<Rightarrow> nat \<Rightarrow> ('f runState \<times> nat) outcome" where
  "executeGraph 0 env intr ctx stack g st clk = Blocked"
| "executeGraph (Suc d) env intr ctx stack g st clk =
     graphBody env (\<lambda>ctx stack g st clk. executeGraph d env (\<lambda>_. None) ctx stack g st clk) intr ctx stack g st clk"

definition executeFlow ::
  "nat \<Rightarrow> 'f runEnv \<Rightarrow> (nat \<Rightarrow> string option) \<Rightarrow> ctx \<Rightarrow> string \<Rightarrow> 'f graph \<Rightarrow> 'f runState \<Rightarrow> nat \<Rightarrow> ('f runState \<times> nat) outcome" where
  "executeFlow d env intr ctx flowID g st clk = executeGraph d env intr ctx (pushFlowExecutionContext flowID []) g st clk"

section \<open>The depth suffices\<close>

function foreachNest :: "'f graph \<Rightarrow> nat" where
  "foreachNest g = Max (insert 0 ((\<lambda>n. case foreachBody n of None \<Rightarrow> 0 | Some body \<Rightarrow> Suc (foreachNest body)) ` set (gNodes g)))"
  by pat_completeness auto
termination by (relation "measure (\<lambda>g. size_list size (gNodes g))") (auto intro: size_foreachBody)

declare foreachNest.simps [simp del]

text \<open>The nesting of the graph itself, and that of each stored flow that is not yet on the stack.\<close>

definition runDepth :: "(string, string \<times> 'f graph) gomap \<Rightarrow> string list \<Rightarrow> 'f graph \<Rightarrow> nat" where
  "runDepth flows stack g =
     foreachNest g + (\<Sum>k\<in>fst ` set flows - set stack. Suc (foreachNest (snd (gget ([], ([], [])) flows k))))"

lemma foreachNest_body:
  assumes "n \<in> set (gNodes g)" and "foreachBody n = Some body"
  shows "foreachNest body < foreachNest g"
proof -
  have "Suc (foreachNest body) \<le> foreachNest g"
    by (subst (2) foreachNest.simps, rule Max_ge) (use assms in \<open>auto intro!: rev_image_eqI\<close>)
  then show ?thesis by simp
qed

lemma runDepth_body:
  "n \<in> set (gNodes g) \<Longrightarrow> foreachBody n = Some body \<Longrightarrow> runDepth flows stack body < runDepth flows stack g"
  using foreachNest_body by (simp add: runDepth_def)

lemma runDepth_subflow:
  assumes "map_of flows k = Some (k, child)" and "k \<notin> set stack" and "trimSpace k = k" and "k \<noteq> []"
  shows "runDepth flows (pushFlowExecutionContext k stack) child < runDepth flows stack g"
proof -
  let ?w = "\<lambda>k. Suc (foreachNest (snd (gget ([], ([], [])) flows k)))"
  have k: "k \<in> fst ` set flows - set stack" using assms(1,2) by (force dest: map_of_SomeD)
  have "(\<Sum>j\<in>fst ` set flows - set stack. ?w j) = ?w k + (\<Sum>j\<in>fst ` set flows - set stack - {k}. ?w j)"
    by (rule sum.remove[OF _ k]) simp
  moreover have "?w k = Suc (foreachNest child)" using assms(1) by (simp add: gget_def)
  moreover have "fst ` set flows - set (pushFlowExecutionContext k stack) = fst ` set flows - set stack - {k}"
    using assms(3,4) by (auto simp: pushFlowExecutionContext_def)
  ultimately show ?thesis by (simp add: runDepth_def)
qed

named_theorems returns \<open>statements that return or panic, and never block\<close>

lemma andThen_Blocked: "andThen m f = Blocked \<longleftrightarrow> m = Blocked \<or> (\<exists>x. m = Ret x \<and> f x = Blocked)"
  by (cases m) auto

lemma growTo_returns [returns]: "growTo lim i vs \<noteq> Blocked"
  by (simp add: growTo_def)

lemma setTokens_returns [returns]: "setJSONPointerTokens lim doc ts v \<noteq> Blocked"
proof (induction ts arbitrary: doc)
  case (Cons t ts)
  let ?doc = "if doc = JNull then (if isArrayIndexToken t then JArr [] else JObj []) else doc"
  show ?case
    by (cases ?doc; cases "parseJSONPointerIndex t")
       (auto simp: andThen_Blocked Cons growTo_returns simp del: if_split split: sum.splits)
qed simp

lemma applyBindings_returns [returns]: "applyBindings lim st bs doc \<noteq> Blocked"
proof (induction bs arbitrary: doc)
  case (Cons b bs)
  show ?case
  proof (cases "resolveBindingSource st (ibSource b)")
    case (Inr r)
    then show ?thesis
      by (cases r; cases "parseJSONPointer (ibTo b)")
         (auto simp: Cons andThen_Blocked setJSONPointerValue_def setTokens_returns split: sum.splits)
  qed simp
qed simp

lemma materialize_returns [returns]: "materializeBoundJSON ops lim base bs st \<noteq> Blocked"
  by (cases base) (auto simp: materializeBoundJSON_def andThen_Blocked returns)

lemma executeCall_returns [returns]: "executeCall env ctx st n clk \<noteq> Blocked"
  unfolding executeCall_def materializeCallArgs_def
  by (auto simp: andThen_Blocked returns Let_def split: option.split sum.split remoteAnswer.split)

lemma decodeForeach_body: "decodeNodeForeachSpec n = Inr (fh, body) \<Longrightarrow> foreachBody n = Some body"
  by (auto simp: decodeNodeForeachSpec_def foreachBody_def split: nodeSpec.splits if_splits)

lemma decodeSubflow_id:
  assumes "decodeNodeSubflowSpec n = Inr spec"
  shows "trimSpace (sfFlowID spec) = sfFlowID spec \<and> sfFlowID spec \<noteq> []"
  using assms by (auto simp: decodeNodeSubflowSpec_def validateFlowID_def Let_def split: nodeSpec.splits if_splits sum.splits)

text \<open>
  A runner covers a node when it does not block on what the node can start: its \<open>foreach\<close> body, and the stored flows that are
  not yet on the stack.
\<close>

definition coversNode :: "'f runEnv \<Rightarrow> 'f graphRunner \<Rightarrow> string list \<Rightarrow> 'f node \<Rightarrow> bool" where
  "coversNode env rec stack n \<longleftrightarrow>
     (\<forall>body ctx st clk. foreachBody n = Some body \<longrightarrow> rec ctx stack body st clk \<noteq> Blocked) \<and>
     (\<forall>k fid child ctx st clk. map_of (reFlows env) k = Some (fid, child) \<longrightarrow> trimSpace k = k \<longrightarrow> k \<noteq> [] \<longrightarrow> k \<notin> set stack \<longrightarrow>
        rec ctx (pushFlowExecutionContext fid stack) child st clk \<noteq> Blocked)"

lemma foreachItems_returns:
  assumes "\<And>ctx st clk. rec ctx stack body st clk \<noteq> Blocked"
  shows "foreachItems ops rec ctx stack body resultID st items i results clk \<noteq> Blocked"
  by (induction items arbitrary: i results clk)
     (auto simp: andThen_Blocked assms Let_def split: if_split option.split rawJson.split)

lemma executeNode_returns:
  assumes "coversNode env rec stack n"
  shows "executeNode env rec ctx stack st n clk \<noteq> Blocked"
proof -
  have fe: "executeForeach env rec ctx stack st n clk \<noteq> Blocked"
  proof (cases "decodeNodeForeachSpec n")
    case (Inr r)
    obtain fh body where r: "r = (fh, body)" by (cases r)
    have "rec ctx stack body st clk \<noteq> Blocked" for ctx st clk
      using assms decodeForeach_body[OF Inr[unfolded r]] by (auto simp: coversNode_def)
    from foreachItems_returns[of rec stack body, OF this] show ?thesis
      by (simp add: executeForeach_def Inr r split: sum.split option.split jsonv.split)
  qed (simp add: executeForeach_def)
  have sf: "executeSubflow env rec ctx stack st n clk \<noteq> Blocked"
  proof (cases "decodeNodeSubflowSpec n")
    case (Inr spec)
    have "rec ctx (pushFlowExecutionContext fid stack) child st clk \<noteq> Blocked"
      if "map_of (reFlows env) (sfFlowID spec) = Some (fid, child)" "\<not> flowExecutionContains (sfFlowID spec) stack" for fid child ctx st clk
      using assms that decodeSubflow_id[OF Inr] unfolding coversNode_def flowExecutionContains_def by metis
    then show ?thesis
      by (auto simp: executeSubflow_def Inr andThen_Blocked materializeSubflowInput_def returns split: sum.split option.split)
  qed (simp add: executeSubflow_def)
  show ?thesis
    unfolding executeNode_def Let_def
    by (auto simp: andThen_Blocked fe sf returns materializeComposeResult_def materializeSetVarValue_def split: sum.split)
qed

lemma attemptNode_returns:
  assumes "coversNode env rec stack n"
  shows "attemptNode k env rec ctx stack st n t b clk \<noteq> Blocked"
  by (induction k arbitrary: st clk) (auto simp: andThen_Blocked executeNode_returns[OF assms] split: if_split)

lemma runNodes_returns:
  assumes "\<And>n. Some n \<in> set ns \<Longrightarrow> coversNode env rec stack n"
  shows "runNodes env rec intr ctx stack idx st ns clk \<noteq> Blocked"
  using assms
proof (induction ns arbitrary: st clk)
  case (Cons m ns)
  then show ?case
    by (cases m) (auto simp: andThen_Blocked attemptNode_returns Let_def split: sum.split bool.split if_split)
qed (simp add: Let_def)

lemma order_nodes:
  assumes "topoOrder g = Inr order" and "Some n \<in> set order"
  obtains n0 where "n0 \<in> set (gNodes g)" "n = setID (nodeKey n0) n0"
proof -
  obtain ids where ids: "kahnIDs g = Inr ids" "order = map (map_of (nodeMap (gNodes g))) ids" by (rule topoOrder_Inr[OF assms(1)])
  then obtain i where i: "i \<in> set ids" "map_of (nodeMap (gNodes g)) i = Some n" using assms(2) by auto
  from nodeMap_lookup[OF i(2)] that show thesis by blast
qed

lemma foreachBody_setID [simp]: "foreachBody (setID i n) = foreachBody n"
  by (simp add: foreachBody_def setID_def)

definition flowTableOK :: "(string, string \<times> 'f graph) gomap \<Rightarrow> bool" where
  "flowTableOK flows = list_all (\<lambda>(k, fid, g). fid = k) flows"

lemma flowTableOK_lookup: "flowTableOK flows \<Longrightarrow> map_of flows k = Some (fid, g) \<Longrightarrow> fid = k"
  by (auto simp: flowTableOK_def list_all_iff dest!: map_of_SomeD)

lemma executeGraph_returns:
  assumes "flowTableOK (reFlows env)" and "runDepth (reFlows env) stack g < d"
  shows "executeGraph d env intr ctx stack g st clk \<noteq> Blocked"
  using assms(2)
proof (induction d arbitrary: intr ctx stack g st clk)
  case (Suc d)
  let ?rec = "\<lambda>ctx stack g st clk. executeGraph d env (\<lambda>_. None) ctx stack g st clk"
  have "coversNode env ?rec stack n" if "topoOrder g = Inr order" "Some n \<in> set order" for order n
  proof -
    obtain n0 where n0: "n0 \<in> set (gNodes g)" "n = setID (nodeKey n0) n0" by (rule order_nodes[OF \<open>topoOrder g = Inr order\<close> \<open>Some n \<in> set order\<close>])
    have body: "runDepth (reFlows env) stack body < d" if "foreachBody n = Some body" for body
      using runDepth_body[OF n0(1), of body "reFlows env" stack] that n0(2) Suc.prems by simp
    have sub: "runDepth (reFlows env) (pushFlowExecutionContext fid stack) child < d"
      if "map_of (reFlows env) k = Some (fid, child)" "trimSpace k = k" "k \<noteq> []" "k \<notin> set stack" for k fid child
      using runDepth_subflow[of "reFlows env" k child stack g] flowTableOK_lookup[OF assms(1) that(1)] that Suc.prems by auto
    show ?thesis unfolding coversNode_def using Suc.IH[OF body] Suc.IH[OF sub] by blast
  qed
  then show ?case
    by (auto simp: graphBody_def Let_def runNodes_returns split: sum.split)
qed simp

end
