(* ===== verification/Flow_Cron.thy ===== *)
theory Flow_Cron
  imports Go_Strings
begin

text \<open>
  The schedules of flows (\<open>parseCronExpr\<close> to \<open>NextAfter\<close> in \<open>flow/handler.go\<close>). The loop that expands a token counts with an
  \<open>int\<close> of 64 bits, wrap-around included. The calendar of \<open>time.Local\<close> is a parameter: the five fields of a minute, where
  minutes are numbered as the program steps through them.
\<close>

section \<open>Parsing\<close>

text \<open>\<open>strings.Fields\<close>: the pieces between runs of white space.\<close>

function fieldsFrom :: "string \<Rightarrow> string \<Rightarrow> string list" where
  "fieldsFrom cur s =
     (let flush = (if cur = [] then [] else [cur]) in
      case s of
        [] \<Rightarrow> flush
      | c # cs \<Rightarrow>
          (case find (hasPrefix s) spaceRunes of
             Some w \<Rightarrow> flush @ fieldsFrom [] (drop (length w) s)
           | None \<Rightarrow> fieldsFrom (cur @ [c]) cs))"
  by pat_completeness auto
termination
  by (relation "measure (\<lambda>(cur, s). length s)")
     (auto simp: find_Some_iff dest!: spaceRunes_nonempty[OF nth_mem])

abbreviation stringFields :: "string \<Rightarrow> string list" where
  "stringFields s \<equiv> fieldsFrom [] s"

record cronField =
  cfAny :: bool
  cfAllowed :: "int list"

record cronSchedule =
  csMinute :: cronField
  csHour :: cronField
  csDayOfMonth :: cronField
  csMonth :: cronField
  csDayOfWeek :: cronField

definition parseCronValue :: "string \<Rightarrow> int \<Rightarrow> int \<Rightarrow> bool \<Rightarrow> string + int" where
  "parseCronValue raw lo hi sundayAlias =
     (case parseInt64 (trimSpace raw) of
        None \<Rightarrow> Inl ''invalid value''
      | Some v \<Rightarrow>
          if sundayAlias \<and> v = 7 then Inr 7
          else if v < lo \<or> v > hi then Inl ''value out of range''
          else Inr v)"

definition wrap64 :: "int \<Rightarrow> int" where
  "wrap64 x = (x + 2 ^ 63) mod 2 ^ 64 - 2 ^ 63"

text \<open>
  The counting loop. Its arguments are a positive \<open>int\<close> as step and an upper end below 60, as the callers have it;
  outside that range it is empty.
\<close>

definition stepOK :: "int \<Rightarrow> int \<Rightarrow> int \<Rightarrow> bool" where
  "stepOK v fin step \<longleftrightarrow> 0 < step \<and> step < 2 ^ 63 \<and> 0 \<le> fin \<and> fin < 60 \<and> - (2 ^ 63) \<le> v"

definition stepsLeft :: "int \<Rightarrow> int \<Rightarrow> int \<Rightarrow> nat" where
  "stepsLeft v fin step =
     (if step < 2 ^ 63 - fin then nat (fin + 1 - v)
      else if 0 \<le> v then nat (2 * v + 3)
      else if v + step < 0 then 2
      else if fin < v + step then 1
      else nat (2 * (v + step) + 4))"

lemma wrap64_id: "- (2 ^ 63) \<le> x \<Longrightarrow> x < 2 ^ 63 \<Longrightarrow> wrap64 x = x"
  by (simp add: wrap64_def)

lemma wrap64_over: "2 ^ 63 \<le> x \<Longrightarrow> x < 2 ^ 64 \<Longrightarrow> wrap64 x = x - 2 ^ 64"
  unfolding wrap64_def by (subst mod_pos_geq) (auto simp: mod_pos_pos_trivial)

lemma stepsLeft_less:
  assumes ok: "stepOK v fin step" and "v \<le> fin" and "wrap64 (v + step) \<le> fin"
  shows "stepsLeft (wrap64 (v + step)) fin step < stepsLeft v fin step"
proof (cases "v + step < 2 ^ 63")
  case True
  then have w: "wrap64 (v + step) = v + step" using ok by (intro wrap64_id) (auto simp: stepOK_def)
  show ?thesis using assms True unfolding w stepsLeft_def stepOK_def by auto
next
  case False
  then have w: "wrap64 (v + step) = v + step - 2 ^ 64" using ok assms(2) by (intro wrap64_over) (auto simp: stepOK_def)
  show ?thesis using assms False unfolding w stepsLeft_def stepOK_def by auto
qed

function cronSteps :: "int \<Rightarrow> int \<Rightarrow> int \<Rightarrow> int list" where
  "cronSteps v fin step =
     (if fin < v \<or> \<not> stepOK v fin step then []
      else v # (if fin < wrap64 (v + step) then [] else cronSteps (wrap64 (v + step)) fin step))"
  by pat_completeness auto
termination
  by (relation "measure (\<lambda>(v, fin, step). stepsLeft v fin step)") (auto intro!: stepsLeft_less)

declare cronSteps.simps [simp del]

definition expandCronToken :: "string \<Rightarrow> int \<Rightarrow> int \<Rightarrow> bool \<Rightarrow> string + int list" where
  "expandCronToken token0 lo hi sundayAlias =
     (let token = trimSpace token0;
          values = (\<lambda>start fin step. Inr (map (\<lambda>v. if sundayAlias \<and> v = 7 then 0 else v) (cronSteps start fin step)));
          ranged = (\<lambda>base step.
            if base = ''*'' then values lo hi step
            else case splitN2 CHR ''-'' base of
                   [l, r] \<Rightarrow>
                     (case parseCronValue l lo hi sundayAlias of
                        Inl e \<Rightarrow> Inl e
                      | Inr left \<Rightarrow>
                          (case parseCronValue r lo hi sundayAlias of
                             Inl e \<Rightarrow> Inl e
                           | Inr right \<Rightarrow> if left > right then Inl ''invalid range'' else values left right step))
                 | _ \<Rightarrow>
                     (case parseCronValue base lo hi sundayAlias of
                        Inl e \<Rightarrow> Inl e
                      | Inr v \<Rightarrow> values v v step))
      in if token = [] then Inl ''empty token''
         else case splitN2 CHR ''/'' token of
                [b, s] \<Rightarrow>
                  (case parseInt64 (trimSpace s) of
                     None \<Rightarrow> Inl ''invalid step''
                   | Some step \<Rightarrow> if step \<le> 0 then Inl ''invalid step'' else ranged (trimSpace b) step)
              | _ \<Rightarrow> ranged token 1)"

fun expandTokens :: "string list \<Rightarrow> int \<Rightarrow> int \<Rightarrow> bool \<Rightarrow> string + int list" where
  "expandTokens [] lo hi sundayAlias = Inr []"
| "expandTokens (t # ts) lo hi sundayAlias =
     (case expandCronToken t lo hi sundayAlias of
        Inl e \<Rightarrow> Inl e
      | Inr vs \<Rightarrow> map_sum id (\<lambda>ws. vs @ ws) (expandTokens ts lo hi sundayAlias))"

definition parseCronField :: "string \<Rightarrow> int \<Rightarrow> int \<Rightarrow> bool \<Rightarrow> string + cronField" where
  "parseCronField raw0 lo hi sundayAlias =
     (let raw = trimSpace raw0 in
      if raw = [] then Inl ''field required''
      else if raw = ''*'' then Inr \<lparr>cfAny = True, cfAllowed = []\<rparr>
      else case expandTokens (splitOn CHR '','' raw) lo hi sundayAlias of
             Inl e \<Rightarrow> Inl e
           | Inr allowed \<Rightarrow> if allowed = [] then Inl ''empty field'' else Inr \<lparr>cfAny = False, cfAllowed = allowed\<rparr>)"

definition parseCronExpr :: "string \<Rightarrow> string + cronSchedule" where
  "parseCronExpr expr =
     (case stringFields (trimSpace expr) of
        [a, b, c, d, e] \<Rightarrow>
          (case parseCronField a 0 59 False of
             Inl err \<Rightarrow> Inl (''minute: '' @ err)
           | Inr minute \<Rightarrow>
          (case parseCronField b 0 23 False of
             Inl err \<Rightarrow> Inl (''hour: '' @ err)
           | Inr hour \<Rightarrow>
          (case parseCronField c 1 31 False of
             Inl err \<Rightarrow> Inl (''day-of-month: '' @ err)
           | Inr mday \<Rightarrow>
          (case parseCronField d 1 12 False of
             Inl err \<Rightarrow> Inl (''month: '' @ err)
           | Inr month \<Rightarrow>
          (case parseCronField e 0 7 True of
             Inl err \<Rightarrow> Inl (''day-of-week: '' @ err)
           | Inr wday \<Rightarrow>
               Inr \<lparr>csMinute = minute, csHour = hour, csDayOfMonth = mday, csMonth = month, csDayOfWeek = wday\<rparr>)))))
      | _ \<Rightarrow> Inl ''cron must have 5 fields'')"

section \<open>Matching\<close>

record calendar =
  caMonth :: int
  caDay :: int
  caWeekday :: int
  caHour :: int
  caMinute :: int

definition fieldMatches :: "cronField \<Rightarrow> int \<Rightarrow> bool" where
  "fieldMatches f v = (cfAny f \<or> v \<in> set (cfAllowed f))"

definition cronMatches :: "cronSchedule \<Rightarrow> calendar \<Rightarrow> bool" where
  "cronMatches s t =
     (if \<not> fieldMatches (csMonth s) (caMonth t) \<or> \<not> fieldMatches (csHour s) (caHour t) \<or> \<not> fieldMatches (csMinute s) (caMinute t) then False
      else if cfAny (csDayOfMonth s) \<and> cfAny (csDayOfWeek s) then True
      else if cfAny (csDayOfMonth s) then fieldMatches (csDayOfWeek s) (caWeekday t)
      else if cfAny (csDayOfWeek s) then fieldMatches (csDayOfMonth s) (caDay t)
      else fieldMatches (csDayOfMonth s) (caDay t) \<or> fieldMatches (csDayOfWeek s) (caWeekday t))"

text \<open>The search minute by minute; \<open>None\<close> is the zero time that the search gives up with.\<close>

fun searchFrom :: "(int \<Rightarrow> calendar) \<Rightarrow> cronSchedule \<Rightarrow> nat \<Rightarrow> int \<Rightarrow> int option" where
  "searchFrom cal s 0 candidate = None"
| "searchFrom cal s (Suc n) candidate =
     (if cronMatches s (cal candidate) then Some candidate else searchFrom cal s n (candidate + 1))"

definition cronHorizon :: nat where
  "cronHorizon = 60 * 24 * 366 * 5"

text \<open>\<open>now\<close> in seconds; \<open>Truncate\<close> rounds down to a whole minute of absolute time.\<close>

definition nextAfter :: "(int \<Rightarrow> calendar) \<Rightarrow> cronSchedule \<Rightarrow> int \<Rightarrow> int option" where
  "nextAfter cal s now = searchFrom cal s cronHorizon (now div 60 + 1)"

section \<open>The values of a field\<close>

lemma cronSteps_values:
  assumes "0 < step" and "step < 2 ^ 62" and "fin < 60" and "0 \<le> v" and "v \<le> fin"
  shows "set (cronSteps v fin step) = {w. v \<le> w \<and> w \<le> fin \<and> step dvd (w - v)}"
  using assms
proof (induction v fin step rule: cronSteps.induct)
  case (1 v fin step)
  note prems = "1.prems"
  have w: "wrap64 (v + step) = v + step" using prems by (intro wrap64_id) auto
  have rest: "set (cronSteps (v + step) fin step) = {x. v + step \<le> x \<and> x \<le> fin \<and> step dvd (x - (v + step))}" if "v + step \<le> fin"
    using "1.IH" that prems unfolding w by (auto simp: stepOK_def)
  have dvd: "step dvd (x - v) \<longleftrightarrow> step dvd (x - (v + step))" for x
    by (metis diff_diff_eq dvd_minus_mod dvd_diff_commute dvd_refl dvd_add_right_iff diff_add_cancel)
  have gap: "x = v \<or> v + step \<le> x" if "v \<le> x" "step dvd (x - v)" for x
    using that prems(1) zdvd_imp_le[of step "x - v"] by (cases "x = v") auto
  have "set (cronSteps v fin step) = insert v (if fin < v + step then {} else {x. v + step \<le> x \<and> x \<le> fin \<and> step dvd (x - v)})"
    using prems rest unfolding dvd by (subst cronSteps.simps) (auto simp: w stepOK_def)
  moreover have "x \<in> {w. v \<le> w \<and> w \<le> fin \<and> step dvd (w - v)} \<longleftrightarrow> x = v \<or> v + step \<le> x \<and> x \<le> fin \<and> step dvd (x - v)" for x
    using gap[of x] prems(1,5) by auto
  ultimately show ?case by (auto split: if_splits)
qed

lemma cron_step_overflow: "57 \<in> set (cronSteps 59 59 (2 ^ 63 - 1))"
  by (subst cronSteps.simps, simp add: stepOK_def wrap64_def)+

section \<open>The next time\<close>

lemma searchFrom_spec:
  "case searchFrom cal s n c of
     Some m \<Rightarrow> c \<le> m \<and> m < c + int n \<and> cronMatches s (cal m) \<and> (\<forall>k. c \<le> k \<and> k < m \<longrightarrow> \<not> cronMatches s (cal k))
   | None \<Rightarrow> (\<forall>k. c \<le> k \<and> k < c + int n \<longrightarrow> \<not> cronMatches s (cal k))"
proof (induction n arbitrary: c)
  case (Suc n)
  have step: "c \<le> k \<longleftrightarrow> k = c \<or> c + 1 \<le> k" for k by auto
  show ?case using Suc[of "c + 1"] by (auto simp: step split: option.splits)
qed auto

text \<open>
  C29: \<open>NextAfter\<close> finds the first minute after \<open>now\<close> that the schedule matches: the result lies strictly after \<open>now\<close>, matches, and no minute in between
  does. When it gives up, no minute of the following five years (of 366 days) matches.
\<close>
theorem flow_cron_next:
  "case nextAfter cal s now of
     Some m \<Rightarrow> now < 60 * m \<and> cronMatches s (cal m) \<and> (\<forall>k. now < 60 * k \<and> k < m \<longrightarrow> \<not> cronMatches s (cal k))
   | None \<Rightarrow> (\<forall>k. now < 60 * k \<and> 60 * k \<le> now + 60 * 60 * 24 * 366 * 5 \<longrightarrow> \<not> cronMatches s (cal k))"
proof -
  have after: "now < 60 * k \<longleftrightarrow> now div 60 + 1 \<le> k" for k by presburger
  have far: "k < now div 60 + 1 + int cronHorizon" if "60 * k \<le> now + 60 * 60 * 24 * 366 * 5" for k
    using that by (simp add: cronHorizon_def)
  show ?thesis using searchFrom_spec[where cal = cal and s = s and n = cronHorizon and c = "now div 60 + 1"] far
    unfolding nextAfter_def after by (auto split: option.splits)
qed

definition demoCalendar :: "int \<Rightarrow> calendar" where
  "demoCalendar m = \<lparr>caMonth = 1, caDay = m div 1440 + 1, caWeekday = (m div 1440) mod 7, caHour = (m div 60) mod 24, caMinute = m mod 60\<rparr>"

text \<open>The text \<open>a-b/n\<close> of a token.\<close>

definition showRange :: "nat \<Rightarrow> nat \<Rightarrow> nat \<Rightarrow> string" where
  "showRange a b n = formatNat a @ CHR ''-'' # formatNat b @ CHR ''/'' # formatNat n"

lemma formatNat_free: "\<not> isDigit c \<Longrightarrow> c \<notin> set (formatNat n)"
  using formatNat_digits by blast

lemma formatNat_trim [simp]: "trimSpace (formatNat n) = formatNat n"
  by (rule trimSpace_graphic) (auto dest!: formatNat_digits simp: isDigit_def)

lemma parseInt64_formatNat: "n < 2 ^ 63 \<Longrightarrow> parseInt64 (formatNat n) = Some (int n)"
proof -
  assume n: "n < 2 ^ 63"
  obtain c cs where f: "formatNat n = c # cs" by (cases "formatNat n") auto
  have "isDigit c" using formatNat_digits[of c n] f by simp
  then have "c \<noteq> CHR ''-''" "c \<noteq> CHR ''+''" by (auto simp: isDigit_def)
  moreover have "parseUint 64 (c # cs) = Some n" using parseUint_formatNat[of n 64] n f by simp
  ultimately show ?thesis using n f by (simp add: parseInt64_def Let_def)
qed

text \<open>
  A range with a step parses to the field that matches exactly the values that the notation means: \<open>a-b/n\<close> allows \<open>a\<close>, \<open>a + n\<close>, ... up to \<open>b\<close>.
\<close>
theorem flow_cron_range_exact:
  assumes "lo \<le> a" and "a \<le> b" and "b \<le> hi" and "hi < 60" and "0 < n" and "n < 2 ^ 62"
  shows "\<exists>f. parseCronField (showRange a b n) (int lo) (int hi) False = Inr f \<and>
    (\<forall>w. fieldMatches f w \<longleftrightarrow> int a \<le> w \<and> w \<le> int b \<and> int n dvd (w - int a))"
proof -
  let ?t = "showRange a b n" and ?base = "formatNat a @ CHR ''-'' # formatNat b"
  have chars: "c \<in> set ?t \<Longrightarrow> isDigit c \<or> c = CHR ''-'' \<or> c = CHR ''/''" for c
    by (auto simp: showRange_def dest: formatNat_digits)
  have trims: "trimSpace ?t = ?t" "trimSpace ?base = ?base"
    by (rule trimSpace_graphic; use formatNat_digits in \<open>force simp: showRange_def isDigit_def\<close>)+
  have tok: "splitOn CHR '','' ?t = [?t]" using chars[of "CHR '',''"] by (intro splitOn_free) (auto simp: isDigit_def)
  have slash: "splitN2 CHR ''/'' ?t = [?base, formatNat n]"
    using splitN2_cons[of "CHR ''/''" ?base "formatNat n"] by (simp add: showRange_def formatNat_free isDigit_def)
  have dash: "splitN2 CHR ''-'' ?base = [formatNat a, formatNat b]" by (rule splitN2_cons) (simp add: formatNat_free isDigit_def)
  have ne: "?t \<noteq> []" "?t \<noteq> ''*''" "?base \<noteq> ''*''" by (auto simp: showRange_def append_eq_Cons_conv)
  have val: "parseCronValue (formatNat k) (int lo) (int hi) False = Inr (int k)" if "lo \<le> k" "k \<le> hi" for k
    using that assms(4) by (simp add: parseCronValue_def parseInt64_formatNat)
  have exp: "expandCronToken ?t (int lo) (int hi) False = Inr (cronSteps (int a) (int b) (int n))"
    using assms ne val[of a] val[of b] by (simp add: expandCronToken_def Let_def trims slash dash parseInt64_formatNat)
  have vals: "set (cronSteps (int a) (int b) (int n)) = {w. int a \<le> w \<and> w \<le> int b \<and> int n dvd (w - int a)}"
    using assms by (intro cronSteps_values) auto
  then have "int a \<in> set (cronSteps (int a) (int b) (int n))" using assms by simp
  then have "cronSteps (int a) (int b) (int n) \<noteq> []" by auto
  then have "parseCronField ?t (int lo) (int hi) False = Inr \<lparr>cfAny = False, cfAllowed = cronSteps (int a) (int b) (int n)\<rparr>"
    using ne by (simp add: parseCronField_def trims tok exp)
  then show ?thesis using vals by (simp add: fieldMatches_def)
qed

theorem flow_cron_next_witness:
  "nextAfter demoCalendar \<lparr>csMinute = \<lparr>cfAny = False, cfAllowed = [0, 30]\<rparr>, csHour = \<lparr>cfAny = True, cfAllowed = []\<rparr>,
      csDayOfMonth = \<lparr>cfAny = True, cfAllowed = []\<rparr>, csMonth = \<lparr>cfAny = True, cfAllowed = []\<rparr>, csDayOfWeek = \<lparr>cfAny = True, cfAllowed = []\<rparr>\<rparr> 1730 = Some 30"
  (is "nextAfter demoCalendar ?s 1730 = Some 30")
proof -
  have no: "\<not> cronMatches ?s (demoCalendar 29)" and yes: "cronMatches ?s (demoCalendar 30)"
    by (simp_all add: cronMatches_def fieldMatches_def demoCalendar_def)
  have next1: "m = 30" if "nextAfter demoCalendar ?s 1730 = Some m" for m
    using flow_cron_next[where cal = demoCalendar and s = ?s and now = 1730] that no yes by (cases "m = 29"; cases "m > 30") auto
  have "nextAfter demoCalendar ?s 1730 \<noteq> None"
    using flow_cron_next[where cal = demoCalendar and s = ?s and now = 1730] yes by (auto split: option.splits dest: spec[of _ 30])
  then show ?thesis using next1 by auto
qed

theorem flow_cron_range_exact_witness:
  "\<exists>f. parseCronField ''5-50/20'' 0 59 False = Inr f \<and> fieldMatches f 45 \<and> \<not> fieldMatches f 20"
proof -
  have t: "showRange 5 50 20 = ''5-50/20''" by code_simp
  show ?thesis using flow_cron_range_exact[of 0 5 50 59 20] unfolding t by auto
qed

end
