(* ===== verification/Flow_Table.thy ===== *)
theory Flow_Table
  imports Flow_Run Flow_Cron Wire_Codecs "HOL-Library.Product_Lexorder"
begin

text \<open>
  Stored flows and the table of runs (\<open>flow/handler.go\<close>, \<open>run_archive.go\<close>): triggers and their validation, starting a run with the limit on
  active runs and the suppression of repeated triggers, pruning, cancelling, and the archive of finished runs.

  Times are integers (nanoseconds, 0 for the zero \<open>time.Time\<close>); new run ids are an argument. A trigger context is the JSON value
  that \<open>mustJSON\<close> prints, \<open>None\<close> for \<open>nil\<close>; two contexts have the same text exactly when they are the same value.
\<close>

section \<open>Triggers\<close>

record trigger =
  trType :: string
  trEveryMs :: "64 word"
  trCron :: string
  trEventMode :: string
  trEventName :: string
  trEventTopic :: string
  trVarOwner :: nodeID
  trVarName :: string
  trDedupWindowMs :: "int option"

record 'f setReq =
  sqReqID :: string
  sqOrigin :: nodeID
  sqExecutor :: nodeID
  sqFlowID :: string
  sqName :: string
  sqMaxActiveRuns :: "int option"
  sqTrigger :: trigger
  sqGraph :: "'f graph"

definition triggerType :: "trigger \<Rightarrow> string" where
  "triggerType t = toLower (trimSpace (trType t))"

definition normalizeTrigger :: "trigger \<Rightarrow> trigger" where
  "normalizeTrigger t =
     (let ty = triggerType t; mode = toLower (trimSpace (trEventMode t)) in
      t\<lparr>trType := ty, trCron := trimSpace (trCron t),
        trEventMode := (if ty = ''event'' \<and> mode = [] then ''publish'' else mode),
        trEventName := trimSpace (trEventName t), trEventTopic := trimSpace (trEventTopic t), trVarName := trimSpace (trVarName t)\<rparr>)"

definition normalizeEventMode :: "string \<Rightarrow> string" where
  "normalizeEventMode mode0 =
     (let mode = toLower (trimSpace mode0) in
      if mode = [] \<or> mode = ''publish'' then ''publish''
      else if mode = ''received'' then ''received''
      else if mode = ''any'' then ''any''
      else [])"

definition validateTrigger :: "trigger \<Rightarrow> string option" where
  "validateTrigger t =
     (let window = (case trDedupWindowMs t of None \<Rightarrow> 0 | Some ms \<Rightarrow> ms); ty = triggerType t in
      if window < 0 then Some ''trigger dedup_window_ms must be >= 0''
      else if ty = ''interval'' then
        (if trEveryMs t = 0 then Some ''trigger interval every_ms required''
         else if window > 0 then Some ''trigger interval does not support dedup_window_ms'' else None)
      else if ty = ''cron'' then
        (if trimSpace (trCron t) = [] then Some ''trigger cron required''
         else case parseCronExpr (trCron t) of
                Inl e \<Rightarrow> Some (''trigger cron invalid: '' @ e)
              | Inr _ \<Rightarrow> if window > 0 then Some ''trigger cron does not support dedup_window_ms'' else None)
      else if ty = ''event'' then
        (if normalizeEventMode (trEventMode t) = [] then Some ''trigger event_mode unsupported''
         else if trimSpace (trEventName t) = [] \<and> trimSpace (trEventTopic t) = [] then Some ''trigger event requires event_name or event_topic''
         else None)
      else if ty = ''var_changed'' then None
      else Some ''trigger type unsupported'')"

definition validateFlowRunConfig :: "'f setReq \<Rightarrow> string option" where
  "validateFlowRunConfig req =
     (case sqMaxActiveRuns req of
        Some n \<Rightarrow> if n < 0 then Some ''max_active_runs must be >= 0'' else None
      | None \<Rightarrow> None)"

text \<open>The contexts of the triggers. The printed time is an argument.\<close>

definition buildIntervalTriggerContext :: "string \<Rightarrow> 'f jsonv" where
  "buildIntervalTriggerContext at = JObj [(''type'', JStr ''interval''), (''triggered_at'', JStr at)]"

definition buildCronTriggerContext :: "string \<Rightarrow> string \<Rightarrow> 'f jsonv" where
  "buildCronTriggerContext at expr = JObj [(''type'', JStr ''cron''), (''cron'', JStr (trimSpace expr)), (''triggered_at'', JStr at)]"

record 'f topicPublishEvent =
  evTopic :: string
  evName :: string
  evTS :: int
  evData :: "'f rawJson"

record varChangedEvent =
  vcOwner :: nodeID
  vcName :: string

definition buildTopicTriggerContext :: "'f valueOps \<Rightarrow> string \<Rightarrow> 'f topicPublishEvent \<Rightarrow> 'f jsonv" where
  "buildTopicTriggerContext ops mode ev =
     JObj ([(''type'', JStr ''event''), (''mode'', JStr (normalizeEventMode mode)), (''topic'', JStr (trimSpace (evTopic ev))),
        (''name'', JStr (trimSpace (evName ev)))] @
       (if evTS ev \<noteq> 0 then [(''ts'', JNum (voOfInt ops (evTS ev)))] else []) @
       (case evData ev of RawDoc v \<Rightarrow> [(''payload'', v)] | _ \<Rightarrow> []))"

definition buildVarChangedTriggerContext :: "'f valueOps \<Rightarrow> string \<Rightarrow> varChangedEvent \<Rightarrow> 'f jsonv" where
  "buildVarChangedTriggerContext ops op ev =
     JObj [(''type'', JStr ''var_changed''), (''owner'', JNum (voOfInt ops (uint (vcOwner ev)))), (''name'', JStr (trimSpace (vcName ev))),
       (''op'', JStr (trimSpace op))]"

text \<open>Which flows an event starts.\<close>

definition topicMatches :: "string \<Rightarrow> string \<Rightarrow> string \<Rightarrow> trigger \<Rightarrow> bool" where
  "topicMatches mode topic name tr =
     (let want = normalizeEventMode (trEventMode tr) in
      triggerType tr = ''event'' \<and> want \<noteq> [] \<and> (want = ''any'' \<or> want = mode) \<and>
      (trimSpace (trEventTopic tr) = [] \<or> trimSpace (trEventTopic tr) = topic) \<and>
      (trimSpace (trEventName tr) = [] \<or> trimSpace (trEventName tr) = name))"

definition varMatches :: "nodeID \<Rightarrow> string \<Rightarrow> trigger \<Rightarrow> bool" where
  "varMatches owner name tr =
     (triggerType tr = ''var_changed'' \<and> (trVarOwner tr = 0 \<or> trVarOwner tr = owner) \<and>
      (trimSpace (trVarName tr) = [] \<or> trimSpace (trVarName tr) = name))"

definition collectTriggeredFlows :: "(trigger \<Rightarrow> bool) \<Rightarrow> (string, 'f setReq) gomap \<Rightarrow> string list" where
  "collectTriggeredFlows match flows = map fst (filter (\<lambda>(k, req). match (sqTrigger req)) flows)"

section \<open>The table of runs\<close>

text \<open>A run with its times; \<open>ruState\<close> is what the executor works on.\<close>

record 'f run =
  ruState :: "'f runState"
  ruStart :: int
  ruEnd :: int
  ruArchivedAtNs :: int

record 'f runTable =
  rtRuns :: "(string, 'f run) gomap"
  rtOrder :: "(string, string list) gomap"
  rtDedup :: "(string, ('f jsonv, int) gomap) gomap"

abbreviation ruStatus :: "'f run \<Rightarrow> string" where
  "ruStatus r \<equiv> stStatus (ruState r)"

definition isActive :: "'f run \<Rightarrow> bool" where
  "isActive r = (ruStatus r = ''queued'' \<or> ruStatus r = ''running'')"

definition recordRun :: "'f run \<Rightarrow> 'f runTable \<Rightarrow> 'f runTable" where
  "recordRun r t =
     (let fid = stFlowID (ruState r); rid = stRunID (ruState r) in
      if trimSpace fid = [] \<or> trimSpace rid = [] then t
      else t\<lparr>rtRuns := gput rid r (rtRuns t), rtOrder := gput fid (gget [] (rtOrder t) fid @ [rid]) (rtOrder t)\<rparr>)"

definition latestRunState :: "'f runTable \<Rightarrow> string \<Rightarrow> 'f run option" where
  "latestRunState t flowID = (case List.map_filter (map_of (rtRuns t)) (rev (gget [] (rtOrder t) flowID)) of [] \<Rightarrow> None | r # _ \<Rightarrow> Some r)"

definition activeRunCount :: "'f runTable \<Rightarrow> string \<Rightarrow> nat" where
  "activeRunCount t flowID = length (filter isActive (List.map_filter (map_of (rtRuns t)) (rev (gget [] (rtOrder t) flowID))))"

definition defaultMaxRetainedRuns :: nat where
  "defaultMaxRetainedRuns = 32"

definition retainedRunLimit :: "int \<Rightarrow> nat" where
  "retainedRunLimit maxRetained = (if maxRetained \<le> 0 then defaultMaxRetainedRuns else nat maxRetained)"

text \<open>The loop of \<open>pruneRunsLocked\<close>, newest run first: kept ids (newest first), runs that are left, pruned ids.\<close>

fun pruneLoop :: "nat \<Rightarrow> string list \<Rightarrow> nat \<Rightarrow> string list \<Rightarrow> (string, 'f run) gomap \<Rightarrow> string list \<Rightarrow> string list \<times> (string, 'f run) gomap \<times> string list" where
  "pruneLoop limit [] terminalKept kept runs pruned = (kept, runs, pruned)"
| "pruneLoop limit (rid # ids) terminalKept kept runs pruned =
     (case map_of runs rid of
        None \<Rightarrow> pruneLoop limit ids terminalKept kept runs pruned
      | Some r \<Rightarrow>
          if \<not> isTerminalRunStatus (ruStatus r) then pruneLoop limit ids terminalKept (kept @ [rid]) runs pruned
          else if terminalKept < limit then pruneLoop limit ids (terminalKept + 1) (kept @ [rid]) runs pruned
          else pruneLoop limit ids terminalKept kept (gdel rid runs) (pruned @ [rid]))"

definition pruneRuns :: "int \<Rightarrow> string \<Rightarrow> 'f runTable \<Rightarrow> 'f runTable \<times> (string \<times> string) list" where
  "pruneRuns maxRetained flowID t =
     (let ids = gget [] (rtOrder t) flowID in
      if ids = [] then (t\<lparr>rtOrder := gdel flowID (rtOrder t)\<rparr>, [])
      else case pruneLoop (retainedRunLimit maxRetained) (rev ids) 0 [] (rtRuns t) [] of
             (kept, runs, pruned) \<Rightarrow>
               (t\<lparr>rtRuns := runs, rtOrder := (if kept = [] then gdel flowID (rtOrder t) else gput flowID (rev kept) (rtOrder t))\<rparr>,
                map (\<lambda>rid. (flowID, rid)) pruned))"

section \<open>Starting runs\<close>

datatype runSource = Manual | Trigger

definition effectiveMaxActiveRuns :: "'f setReq \<Rightarrow> runSource \<Rightarrow> int" where
  "effectiveMaxActiveRuns flow source =
     (case sqMaxActiveRuns flow of
        Some n \<Rightarrow> if n < 0 then 0 else n
      | None \<Rightarrow> if source = Trigger then 1 else 0)"

text \<open>A window in nanoseconds; the product is that of \<open>time.Duration\<close>, with wrap-around.\<close>

definition triggerDedupWindow :: "trigger \<Rightarrow> int" where
  "triggerDedupWindow t =
     (case trDedupWindowMs t of
        None \<Rightarrow> 0
      | Some ms \<Rightarrow> if ms \<le> 0 then 0 else wrap64 (ms * 1000000))"

definition triggerDedupKey :: "'f jsonv option \<Rightarrow> 'f jsonv option" where
  "triggerDedupKey ctx = (if ctx = Some JNull then None else ctx)"

definition checkAndRecordTriggerDedup :: "'f setReq \<Rightarrow> 'f jsonv option \<Rightarrow> int \<Rightarrow> 'f runTable \<Rightarrow> bool \<times> 'f runTable" where
  "checkAndRecordTriggerDedup flow ctx now t =
     (let window = triggerDedupWindow (sqTrigger flow) in
      if window \<le> 0 then (False, t)
      else case triggerDedupKey ctx of
             None \<Rightarrow> (False, t)
           | Some key \<Rightarrow>
               let bucket = filter (\<lambda>(k, seenAt). now - window < seenAt) (gget [] (rtDedup t) (sqFlowID flow));
                   put = (\<lambda>b. t\<lparr>rtDedup := gput (sqFlowID flow) b (rtDedup t)\<rparr>)
               in case map_of bucket key of
                    Some seenAt \<Rightarrow> if now - seenAt < window then (True, put bucket) else (False, put (gput key now bucket))
                  | None \<Rightarrow> (False, put (gput key now bucket)))"

definition newQueuedRunState :: "nodeID \<Rightarrow> string \<Rightarrow> 'f setReq \<Rightarrow> 'f jsonv option \<Rightarrow> int \<Rightarrow> 'f run" where
  "newQueuedRunState executor runID flow ctx start =
     \<lparr>ruState = \<lparr>stFlowID = sqFlowID flow, stRunID = runID, stStatus = ''queued'', stEnded = False, stCancelReason = [], stCancelCalled = False,
        stRuntime = newRunContext (sqFlowID flow) runID executor (case ctx of None \<Rightarrow> RawBlank | Some v \<Rightarrow> RawDoc v)\<rparr>,
      ruStart = start, ruEnd = 0, ruArchivedAtNs = 0\<rparr>"

definition prepareQueuedRun ::
  "nodeID \<Rightarrow> string \<Rightarrow> int \<Rightarrow> 'f setReq \<Rightarrow> 'f jsonv option \<Rightarrow> runSource \<Rightarrow> 'f runTable \<Rightarrow> 'f run option \<times> 'f runTable" where
  "prepareQueuedRun executor runID now flow ctx source t =
     (let limit = effectiveMaxActiveRuns flow source in
      if limit > 0 \<and> limit \<le> int (activeRunCount t (sqFlowID flow)) then (None, t)
      else
        let (dup, t') = (if source = Trigger then checkAndRecordTriggerDedup flow ctx now t else (False, t)) in
        if dup then (None, t')
        else let r = newQueuedRunState executor runID flow ctx now in (Some r, recordRun r t'))"

section \<open>Cancelling\<close>

text \<open>\<open>cancelRunState\<close> with the time of the end; the result is the status and whether the run was still active.\<close>

definition cancelRun :: "string \<Rightarrow> int \<Rightarrow> 'f run \<Rightarrow> (string \<times> bool) \<times> 'f run" where
  "cancelRun reason now r =
     (if isTerminalRunStatus (ruStatus r) then ((ruStatus r, False), r)
      else ((''cancelled'', True), r\<lparr>ruState := cancelRunState reason (ruState r), ruEnd := (if ruEnd r = 0 then now else ruEnd r)\<rparr>))"

definition cancelRuns :: "string \<Rightarrow> string \<Rightarrow> int \<Rightarrow> 'f runTable \<Rightarrow> 'f runTable" where
  "cancelRuns flowID reason now t =
     foldl (\<lambda>t rid. case map_of (rtRuns t) rid of
              None \<Rightarrow> t
            | Some r \<Rightarrow> t\<lparr>rtRuns := gput rid (snd (cancelRun reason now r)) (rtRuns t)\<rparr>) t (gget [] (rtOrder t) flowID)"

section \<open>The archive\<close>

record 'f archivedRunRecord =
  arFlowID :: string
  arRunID :: string
  arStatus :: string
  arStartedAtMs :: int
  arEndedAtMs :: int
  arArchivedAtNs :: int
  arCancelReason :: string
  arRuntime :: "'f runContext"

text \<open>The clone drops the loop data; a run of the table has none.\<close>

definition cloneRunContext :: "'f runContext \<Rightarrow> 'f runContext" where
  "cloneRunContext rt = rt\<lparr>rcFlowID := trimSpace (rcFlowID rt), rcRunID := trimSpace (rcRunID rt), rcLoop := None\<rparr>"

definition toMs :: "int \<Rightarrow> int" where
  "toMs t = (if t = 0 then 0 else t div 1000000)"

definition snapshotArchivedRunRecord :: "int \<Rightarrow> 'f run \<Rightarrow> 'f archivedRunRecord" where
  "snapshotArchivedRunRecord now r =
     (let st = ruState r in
      \<lparr>arFlowID = trimSpace (stFlowID st), arRunID = trimSpace (stRunID st), arStatus = trimSpace (stStatus st),
       arStartedAtMs = toMs (ruStart r), arEndedAtMs = toMs (ruEnd r), arArchivedAtNs = now,
       arCancelReason = trimSpace (stCancelReason st), arRuntime = cloneRunContext (stRuntime st)\<rparr>)"

definition archivedRunStateFromRecord :: "'f archivedRunRecord \<Rightarrow> string + 'f run" where
  "archivedRunStateFromRecord rec =
     (case validateFlowID (arFlowID rec) of
        Inl e \<Rightarrow> Inl e
      | Inr flowID \<Rightarrow>
          (case validateRunID (arRunID rec) of
             Inl e \<Rightarrow> Inl e
           | Inr runID \<Rightarrow>
               let rt = cloneRunContext (arRuntime rec);
                   rt' = rt\<lparr>rcFlowID := (if rcFlowID rt = [] then flowID else rcFlowID rt), rcRunID := (if rcRunID rt = [] then runID else rcRunID rt)\<rparr>
               in Inr \<lparr>ruState = \<lparr>stFlowID = flowID, stRunID = runID, stStatus = trimSpace (arStatus rec), stEnded = (arEndedAtMs rec \<noteq> 0),
                     stCancelReason = trimSpace (arCancelReason rec), stCancelCalled = False, stRuntime = rt'\<rparr>,
                   ruStart = arStartedAtMs rec * 1000000, ruEnd = arEndedAtMs rec * 1000000, ruArchivedAtNs = arArchivedAtNs rec\<rparr>))"

text \<open>What the archive store (an interface of the program) offers.\<close>

record ('a, 'f) archiveOps =
  aoSave :: "'f archivedRunRecord \<Rightarrow> 'a \<Rightarrow> 'a"
  aoDelete :: "string \<Rightarrow> string \<Rightarrow> 'a \<Rightarrow> 'a"
  aoLoadAll :: "'a \<Rightarrow> 'f archivedRunRecord list option"

definition persistArchivedRun :: "('a, 'f) archiveOps option \<Rightarrow> int \<Rightarrow> 'f run \<Rightarrow> 'a \<Rightarrow> 'a" where
  "persistArchivedRun ao now r a =
     (case ao of
        None \<Rightarrow> a
      | Some ops \<Rightarrow> if \<not> isTerminalRunStatus (ruStatus r) then a else aoSave ops (snapshotArchivedRunRecord now r) a)"

definition removeArchivedRuns :: "('a, 'f) archiveOps option \<Rightarrow> (string \<times> string) list \<Rightarrow> 'a \<Rightarrow> 'a" where
  "removeArchivedRuns ao refs a =
     (case ao of None \<Rightarrow> a | Some ops \<Rightarrow> foldl (\<lambda>a (fid, rid). aoDelete ops fid rid a) a refs)"

definition finalizeRun ::
  "('a, 'f) archiveOps option \<Rightarrow> int \<Rightarrow> int \<Rightarrow> string \<Rightarrow> 'f run \<Rightarrow> 'f runTable \<times> 'a \<Rightarrow> 'f runTable \<times> 'a" where
  "finalizeRun ao maxRetained now flowID r ta =
     (case pruneRuns maxRetained flowID (fst ta) of
        (t, pruned) \<Rightarrow> (t, removeArchivedRuns ao pruned (persistArchivedRun ao now r (snd ta))))"

text \<open>The order in which a flow's archived runs are put back.\<close>

definition archiveKey :: "'f run \<Rightarrow> int \<times> int \<times> int \<times> string" where
  "archiveKey r = (ruArchivedAtNs r, ruStart r, ruEnd r, stRunID (ruState r))"

definition loadedByFlow :: "'f archivedRunRecord list \<Rightarrow> (string, 'f run list) gomap" where
  "loadedByFlow recs =
     foldl (\<lambda>m rec. case archivedRunStateFromRecord rec of
              Inl _ \<Rightarrow> m
            | Inr r \<Rightarrow> gput (stFlowID (ruState r)) (gget [] m (stFlowID (ruState r)) @ [r]) m) [] recs"

definition loadFlowRuns :: "int \<Rightarrow> string \<times> 'f run list \<Rightarrow> 'f runTable \<times> (string \<times> string) list \<Rightarrow> 'f runTable \<times> (string \<times> string) list" where
  "loadFlowRuns maxRetained fr td =
     (let states = sort_key archiveKey (snd fr); t = fst td;
          t' = t\<lparr>rtRuns := foldl (\<lambda>m r. gput (stRunID (ruState r)) r m) (rtRuns t) states,
                 rtOrder := gput (fst fr) (map (\<lambda>r. stRunID (ruState r)) states) (rtOrder t)\<rparr>
      in case pruneRuns maxRetained (fst fr) t' of (t'', pruned) \<Rightarrow> (t'', snd td @ pruned))"

definition loadArchivedRuns :: "('a, 'f) archiveOps option \<Rightarrow> int \<Rightarrow> 'f runTable \<times> 'a \<Rightarrow> 'f runTable \<times> 'a" where
  "loadArchivedRuns ao maxRetained ta =
     (case ao of
        None \<Rightarrow> ta
      | Some ops \<Rightarrow>
          (case aoLoadAll ops (snd ta) of
             None \<Rightarrow> ta
           | Some recs \<Rightarrow>
               (case foldl (\<lambda>td fr. loadFlowRuns maxRetained fr td) (fst ta, []) (loadedByFlow recs) of
                  (t, toDelete) \<Rightarrow> (t, removeArchivedRuns ao toDelete (snd ta)))))"

section \<open>The table keeps its invariant\<close>

text \<open>Every run is listed once, in the order of its own flow, and everything listed exists.\<close>

definition tableOK :: "'f runTable \<Rightarrow> bool" where
  "tableOK t \<longleftrightarrow>
     (\<forall>fid. distinct (gget [] (rtOrder t) fid) \<and>
        (\<forall>rid\<in>set (gget [] (rtOrder t) fid). \<exists>r. map_of (rtRuns t) rid = Some r \<and> stFlowID (ruState r) = fid)) \<and>
     (\<forall>rid r. map_of (rtRuns t) rid = Some r \<longrightarrow> stRunID (ruState r) = rid \<and> rid \<in> set (gget [] (rtOrder t) (stFlowID (ruState r))))"

definition dedupOK :: "'f runTable \<Rightarrow> bool" where
  "dedupOK t \<longleftrightarrow> (\<forall>fid. wf_gomap (gget [] (rtDedup t) fid))"

lemma tableOKD:
  assumes "tableOK t"
  shows "distinct (gget [] (rtOrder t) fid)"
    "rid \<in> set (gget [] (rtOrder t) fid) \<Longrightarrow> \<exists>r. map_of (rtRuns t) rid = Some r \<and> stFlowID (ruState r) = fid"
    "map_of (rtRuns t) rid = Some r \<Longrightarrow> stRunID (ruState r) = rid \<and> rid \<in> set (gget [] (rtOrder t) (stFlowID (ruState r)))"
  using assms unfolding tableOK_def by blast+

lemma tableOK_empty: "tableOK \<lparr>rtRuns = [], rtOrder = [], rtDedup = []\<rparr>"
  by (simp add: tableOK_def)

lemma tableOK_dedup [simp]: "tableOK (t\<lparr>rtDedup := d\<rparr>) = tableOK t"
  unfolding tableOK_def by simp

lemma tableOK_record:
  assumes ok: "tableOK t" and fresh: "map_of (rtRuns t) (stRunID (ruState r)) = None"
  shows "tableOK (recordRun r t)"
proof (cases "trimSpace (stFlowID (ruState r)) = [] \<or> trimSpace (stRunID (ruState r)) = []")
  case False
  let ?f = "stFlowID (ruState r)" and ?i = "stRunID (ruState r)"
  have new: "?i \<notin> set (gget [] (rtOrder t) fid)" for fid using tableOKD(2)[OF ok] fresh by fastforce
  have rec: "recordRun r t = t\<lparr>rtRuns := gput ?i r (rtRuns t), rtOrder := gput ?f (gget [] (rtOrder t) ?f @ [?i]) (rtOrder t)\<rparr>"
    using False by (simp add: recordRun_def Let_def)
  have order: "gget [] (rtOrder (recordRun r t)) fid = gget [] (rtOrder t) fid @ (if fid = ?f then [?i] else [])" for fid by (simp add: rec)
  have runs: "map_of (rtRuns (recordRun r t)) = (map_of (rtRuns t))(?i \<mapsto> r)" by (simp add: rec update_conv')
  show ?thesis unfolding tableOK_def order runs
  proof (intro conjI allI ballI impI)
    fix fid show "distinct (gget [] (rtOrder t) fid @ (if fid = ?f then [?i] else []))" using new tableOKD(1)[OF ok] by simp
  next
    fix fid rid assume "rid \<in> set (gget [] (rtOrder t) fid @ (if fid = ?f then [?i] else []))"
    then show "\<exists>q. ((map_of (rtRuns t))(?i \<mapsto> r)) rid = Some q \<and> stFlowID (ruState q) = fid"
      using tableOKD(2)[OF ok, of rid fid] by (cases "rid = ?i") (auto simp: new split: if_splits)
  next
    fix rid q assume "((map_of (rtRuns t))(?i \<mapsto> r)) rid = Some q"
    then show "stRunID (ruState q) = rid" "rid \<in> set (gget [] (rtOrder t) (stFlowID (ruState q)) @ (if stFlowID (ruState q) = ?f then [?i] else []))"
      using tableOKD(3)[OF ok, of rid q] by (auto split: if_splits)
  qed
qed (use ok in \<open>simp add: recordRun_def\<close>)

text \<open>Any change of a run that keeps its two ids keeps the invariant; cancelling is one.\<close>

lemma tableOK_update:
  assumes ok: "tableOK t" and "map_of (rtRuns t) rid = Some r" and "stFlowID (ruState r') = stFlowID (ruState r)" and "stRunID (ruState r') = rid"
  shows "tableOK (t\<lparr>rtRuns := gput rid r' (rtRuns t)\<rparr>)"
proof -
  have runs: "map_of (gput rid r' (rtRuns t)) = (map_of (rtRuns t))(rid \<mapsto> r')" by (simp add: update_conv')
  have ids: "rid \<in> set (gget [] (rtOrder t) (stFlowID (ruState r')))" using tableOKD(3)[OF ok assms(2)] assms(3) by simp
  have flow: "fid = stFlowID (ruState r')" if "rid \<in> set (gget [] (rtOrder t) fid)" for fid
    using tableOKD(2)[OF ok that] assms(2,3) by auto
  show ?thesis unfolding tableOK_def
  proof (intro conjI allI ballI impI)
    fix fid j assume "j \<in> set (gget [] (rtOrder (t\<lparr>rtRuns := gput rid r' (rtRuns t)\<rparr>)) fid)"
    then show "\<exists>q. map_of (rtRuns (t\<lparr>rtRuns := gput rid r' (rtRuns t)\<rparr>)) j = Some q \<and> stFlowID (ruState q) = fid"
      using tableOKD(2)[OF ok, of j fid] flow[of fid] by (cases "j = rid") (auto simp: runs)
  next
    fix j q assume "map_of (rtRuns (t\<lparr>rtRuns := gput rid r' (rtRuns t)\<rparr>)) j = Some q"
    then show "stRunID (ruState q) = j" "j \<in> set (gget [] (rtOrder (t\<lparr>rtRuns := gput rid r' (rtRuns t)\<rparr>)) (stFlowID (ruState q)))"
      using tableOKD(3)[OF ok, of j q] assms(4) ids by (auto simp: runs split: if_splits)
  qed (use tableOKD(1)[OF ok] in simp)
qed

lemma cancelRunState_ids [simp]:
  "stFlowID (cancelRunState reason st) = stFlowID st" "stRunID (cancelRunState reason st) = stRunID st"
  by (simp_all add: cancelRunState_def markActiveNodesCancelled_def Let_def)

lemma cancelRun_ids [simp]:
  "stFlowID (ruState (snd (cancelRun reason now r))) = stFlowID (ruState r)" "stRunID (ruState (snd (cancelRun reason now r))) = stRunID (ruState r)"
  by (simp_all add: cancelRun_def)

lemma tableOK_cancelRuns: "tableOK t \<Longrightarrow> tableOK (cancelRuns fid reason now t)"
proof -
  have "tableOK t \<Longrightarrow> tableOK (foldl (\<lambda>t rid. case map_of (rtRuns t) rid of None \<Rightarrow> t
      | Some r \<Rightarrow> t\<lparr>rtRuns := gput rid (snd (cancelRun reason now r)) (rtRuns t)\<rparr>) t ids)" for ids and t :: "'a runTable"
  proof (induction ids arbitrary: t)
    case (Cons rid ids)
    have "tableOK (case map_of (rtRuns t) rid of None \<Rightarrow> t | Some r \<Rightarrow> t\<lparr>rtRuns := gput rid (snd (cancelRun reason now r)) (rtRuns t)\<rparr>)"
      using Cons.prems tableOKD(3)[OF Cons.prems, of rid] by (auto intro!: tableOK_update split: option.split)
    then show ?case using Cons.IH by simp
  qed simp
  then show "tableOK t \<Longrightarrow> tableOK (cancelRuns fid reason now t)" unfolding cancelRuns_def .
qed

section \<open>Pruning\<close>

definition newerTerminal :: "(string \<Rightarrow> bool) \<Rightarrow> string list \<Rightarrow> string \<Rightarrow> nat" where
  "newerTerminal T ids rid = length (filter T (takeWhile (\<lambda>x. x \<noteq> rid) ids))"

definition terminalIn :: "(string, 'f run) gomap \<Rightarrow> string \<Rightarrow> bool" where
  "terminalIn runs rid = (case map_of runs rid of None \<Rightarrow> False | Some r \<Rightarrow> isTerminalRunStatus (ruStatus r))"

fun dropIDs :: "nat \<Rightarrow> nat \<Rightarrow> (string \<Rightarrow> bool) \<Rightarrow> string list \<Rightarrow> string list" where
  "dropIDs limit n T [] = []"
| "dropIDs limit n T (i # ids) =
     (if \<not> T i then dropIDs limit n T ids else if n < limit then dropIDs limit (n + 1) T ids else i # dropIDs limit n T ids)"

lemma dropIDs_subset: "set (dropIDs limit n T ids) \<subseteq> set ids"
  by (induction limit n T ids rule: dropIDs.induct) auto

lemma newerTerminal_Cons: "newerTerminal T (i # ids) rid = (if rid = i then 0 else (if T i then 1 else 0) + newerTerminal T ids rid)"
  by (simp add: newerTerminal_def)

lemma mem_dropIDs:
  "distinct ids \<Longrightarrow> rid \<in> set (dropIDs limit n T ids) \<longleftrightarrow> rid \<in> set ids \<and> T rid \<and> limit \<le> n + newerTerminal T ids rid"
proof (induction limit n T ids rule: dropIDs.induct)
  case (2 limit n T i ids)
  then show ?case using dropIDs_subset[of limit n T ids] dropIDs_subset[of limit "n + 1" T ids]
    by (cases "rid = i") (auto simp: newerTerminal_Cons)
qed simp

lemma pruneLoop_spec:
  assumes "distinct ids" and "\<forall>rid\<in>set ids. map_of runs rid = map_of runs0 rid \<and> map_of runs0 rid \<noteq> None"
  shows "\<exists>runs'. pruneLoop limit ids n kept runs pruned =
      (kept @ filter (\<lambda>rid. rid \<notin> set (dropIDs limit n (terminalIn runs0) ids)) ids, runs', pruned @ dropIDs limit n (terminalIn runs0) ids) \<and>
    (\<forall>rid. map_of runs' rid = (if rid \<in> set (dropIDs limit n (terminalIn runs0) ids) then None else map_of runs rid))"
  using assms
proof (induction ids arbitrary: n kept runs pruned)
  case (Cons i ids)
  let ?T = "terminalIn runs0"
  obtain r where r: "map_of runs i = Some r" "map_of runs0 i = Some r" using Cons.prems(2) by auto
  have T: "?T i = isTerminalRunStatus (ruStatus r)" by (simp add: terminalIn_def r(2))
  have d: "distinct ids" "i \<notin> set ids" using Cons.prems(1) by auto
  then have nin: "i \<notin> set (dropIDs limit m ?T ids)" for m using dropIDs_subset by blast
  have same: "\<forall>rid\<in>set ids. map_of runs rid = map_of runs0 rid \<and> map_of runs0 rid \<noteq> None" using Cons.prems(2) by auto
  have same': "\<forall>rid\<in>set ids. map_of (gdel i runs) rid = map_of runs0 rid \<and> map_of runs0 rid \<noteq> None"
    using same d(2) by (auto simp: delete_conv')
  consider (a) "\<not> ?T i" | (k) "?T i" "n < limit" | (d) "?T i" "\<not> n < limit" by blast
  then show ?case
  proof cases
    case a
    then show ?thesis using Cons.IH[OF d(1) same, of n "kept @ [i]" pruned] T r(1) nin by auto
  next
    case k
    then show ?thesis using Cons.IH[OF d(1) same, of "n + 1" "kept @ [i]" pruned] T r(1) nin by auto
  next
    case d
    have eq: "filter (\<lambda>rid. rid \<noteq> i \<and> rid \<notin> set (dropIDs limit n ?T ids)) ids = filter (\<lambda>rid. rid \<notin> set (dropIDs limit n ?T ids)) ids"
      using \<open>i \<notin> set ids\<close> by (auto intro!: filter_cong)
    show ?thesis using Cons.IH[OF \<open>distinct ids\<close> same', of n kept "pruned @ [i]"] T r(1) d eq by (auto simp: delete_conv')
  qed
qed simp

lemma prune_exact:
  assumes ok: "tableOK t" and prune: "pruneRuns maxRetained fid t = (t', pruned)"
  shows "(\<forall>rid. (fid, rid) \<in> set pruned \<longleftrightarrow> rid \<in> set (gget [] (rtOrder t) fid) \<and> terminalIn (rtRuns t) rid \<and>
       retainedRunLimit maxRetained \<le> newerTerminal (terminalIn (rtRuns t)) (rev (gget [] (rtOrder t) fid)) rid) \<and>
    (\<forall>rid. map_of (rtRuns t') rid = (if (fid, rid) \<in> set pruned then None else map_of (rtRuns t) rid)) \<and>
    (\<forall>f. gget [] (rtOrder t') f = filter (\<lambda>rid. (f, rid) \<notin> set pruned) (gget [] (rtOrder t) f)) \<and> tableOK t'"
proof -
  let ?ids = "gget [] (rtOrder t) fid" and ?L = "retainedRunLimit maxRetained" and ?T = "terminalIn (rtRuns t)"
  let ?D = "dropIDs ?L 0 ?T (rev ?ids)"
  have all: "distinct (rev ?ids)" "\<forall>rid\<in>set (rev ?ids). map_of (rtRuns t) rid = map_of (rtRuns t) rid \<and> map_of (rtRuns t) rid \<noteq> None"
    using tableOKD(1)[OF ok, of fid] tableOKD(2)[OF ok, of _ fid] by auto
  from pruneLoop_spec[OF all, of ?L 0 "[]" "[]"] obtain runs' where
    loop: "pruneLoop ?L (rev ?ids) 0 [] (rtRuns t) [] = (filter (\<lambda>rid. rid \<notin> set ?D) (rev ?ids), runs', ?D)"
    and runs: "\<And>rid. map_of runs' rid = (if rid \<in> set ?D then None else map_of (rtRuns t) rid)" by auto
  have res: "pruned = map (\<lambda>rid. (fid, rid)) ?D" "\<And>rid. map_of (rtRuns t') rid = (if rid \<in> set ?D then None else map_of (rtRuns t) rid)"
    "\<And>f. gget [] (rtOrder t') f = (if f = fid then filter (\<lambda>rid. rid \<notin> set ?D) ?ids else gget [] (rtOrder t) f)"
    using prune runs by (auto simp: pruneRuns_def loop Let_def rev_filter filter_empty_conv split: if_splits)
  have ours: "(f, rid) \<in> set pruned \<longleftrightarrow> f = fid \<and> rid \<in> set ?D" for f rid by (auto simp: res(1))
  have order: "gget [] (rtOrder t') f = filter (\<lambda>rid. (f, rid) \<notin> set pruned) (gget [] (rtOrder t) f)" for f
    by (simp add: res(3) ours)
  have D: "rid \<in> set ?D \<Longrightarrow> rid \<in> set ?ids" for rid using dropIDs_subset[of ?L 0 ?T "rev ?ids"] by auto
  have "tableOK t'" unfolding tableOK_def
  proof (intro conjI allI ballI impI)
    fix f show "distinct (gget [] (rtOrder t') f)" using tableOKD(1)[OF ok] by (simp add: order)
  next
    fix f rid assume rid: "rid \<in> set (gget [] (rtOrder t') f)"
    then obtain r where r: "map_of (rtRuns t) rid = Some r" "stFlowID (ruState r) = f" using tableOKD(2)[OF ok, of rid f] by (auto simp: order)
    have "rid \<notin> set ?D" using rid r D tableOKD(2)[OF ok, of rid fid] by (auto simp: order ours)
    then show "\<exists>r. map_of (rtRuns t') rid = Some r \<and> stFlowID (ruState r) = f" using r by (simp add: res(2))
  next
    fix rid r assume r: "map_of (rtRuns t') rid = Some r"
    then have "rid \<notin> set ?D" "map_of (rtRuns t) rid = Some r" by (simp_all add: res(2) split: if_splits)
    then show "stRunID (ruState r) = rid" "rid \<in> set (gget [] (rtOrder t') (stFlowID (ruState r)))"
      using tableOKD(3)[OF ok, of rid r] by (simp_all add: order ours)
  qed
  then show ?thesis using mem_dropIDs[OF all(1)] by (auto simp: ours res(2) order)
qed

text \<open>
  C25: Pruning removes exactly the finished runs of the flow that have at least as many newer finished runs as may be retained. Everything
  else stays, in its order: every run under way, the newest finished runs, and the runs of other flows; the table keeps its invariant.
\<close>
theorem flow_prune_exact:
  assumes ok: "tableOK t" and prune: "pruneRuns maxRetained fid t = (t', pruned)"
  shows "(\<forall>rid. (fid, rid) \<in> set pruned \<longleftrightarrow> rid \<in> set (gget [] (rtOrder t) fid) \<and> terminalIn (rtRuns t) rid \<and>
       retainedRunLimit maxRetained \<le> newerTerminal (terminalIn (rtRuns t)) (rev (gget [] (rtOrder t) fid)) rid) \<and>
    (\<forall>rid. map_of (rtRuns t') rid = (if (fid, rid) \<in> set pruned then None else map_of (rtRuns t) rid)) \<and>
    (\<forall>f. gget [] (rtOrder t') f = filter (\<lambda>rid. (f, rid) \<notin> set pruned) (gget [] (rtOrder t) f)) \<and> tableOK t'"
  using assms by (rule prune_exact)

section \<open>Limits and repeated triggers\<close>

lemma checkAndRecord_rest:
  "checkAndRecordTriggerDedup flow ctx now t = (dup, t') \<Longrightarrow> rtRuns t' = rtRuns t \<and> rtOrder t' = rtOrder t"
  by (auto simp: checkAndRecordTriggerDedup_def Let_def split: if_splits option.splits)

lemma activeRunCount_cong: "rtRuns t' = rtRuns t \<Longrightarrow> rtOrder t' = rtOrder t \<Longrightarrow> activeRunCount t' fid = activeRunCount t fid"
  by (simp add: activeRunCount_def)

lemma map_filter_cong: "(\<And>x. x \<in> set xs \<Longrightarrow> f x = g x) \<Longrightarrow> List.map_filter f xs = List.map_filter g xs"
  by (induction xs) (auto simp: List.map_filter_simps split: option.split)

lemma map_filter_snoc: "List.map_filter f (xs @ ys) = List.map_filter f xs @ List.map_filter f ys"
  by (simp add: List.map_filter_def)

lemma activeRunCount_record:
  assumes ok: "tableOK t" and fresh: "map_of (rtRuns t) (stRunID (ruState r)) = None"
    and ids: "trimSpace (stFlowID (ruState r)) \<noteq> []" "trimSpace (stRunID (ruState r)) \<noteq> []" and act: "isActive r"
  shows "activeRunCount (recordRun r t) fid = activeRunCount t fid + (if fid = stFlowID (ruState r) then 1 else 0)"
proof -
  let ?i = "stRunID (ruState r)" and ?ids = "gget [] (rtOrder t) fid"
  have "?i \<notin> set ?ids" using tableOKD(2)[OF ok, of ?i fid] fresh by fastforce
  then have "List.map_filter ((map_of (rtRuns t))(?i \<mapsto> r)) (rev ?ids) = List.map_filter (map_of (rtRuns t)) (rev ?ids)"
    by (intro map_filter_cong) auto
  then show ?thesis
    using ids act by (auto simp: activeRunCount_def recordRun_def Let_def update_conv' List.map_filter_simps)
qed


text \<open>A sequence of triggers of one flow: \<open>dedupRun\<close> is the table after them and, for each, whether it was suppressed.\<close>

fun dedupRun :: "'f setReq \<Rightarrow> ('f jsonv option \<times> int) list \<Rightarrow> 'f runTable \<Rightarrow> bool list \<times> 'f runTable" where
  "dedupRun flow [] t = ([], t)"
| "dedupRun flow ((ctx, now) # es) t =
     (let (dup, t') = checkAndRecordTriggerDedup flow ctx now t; (dups, t'') = dedupRun flow es t' in (dup # dups, t''))"

text \<open>The key was last let through at \<open>s\<close>, and either this is on record or the window has passed.\<close>

definition seenAt :: "'f setReq \<Rightarrow> 'f jsonv \<Rightarrow> int \<Rightarrow> int \<Rightarrow> 'f runTable \<Rightarrow> bool" where
  "seenAt flow key s now t \<longleftrightarrow>
     map_of (gget [] (rtDedup t) (sqFlowID flow)) key = Some s \<or> s \<le> now - triggerDedupWindow (sqTrigger flow)"

lemma map_of_filter_wf: "wf_gomap m \<Longrightarrow> map_of (filter (\<lambda>(k, v). P v) m) k = (case map_of m k of None \<Rightarrow> None | Some v \<Rightarrow> if P v then Some v else None)"
  by (induction m) (auto split: option.splits simp: map_of_eq_None_iff image_iff)

lemma wf_filter: "wf_gomap m \<Longrightarrow> wf_gomap (filter P m)"
  by (induction m) auto

lemma dedup_step:
  assumes wf: "dedupOK t" and window: "0 < triggerDedupWindow (sqTrigger flow)"
    and step: "checkAndRecordTriggerDedup flow ctx now t = (dup, t')"
  shows "dedupOK t'"
    and "triggerDedupKey ctx = Some key \<Longrightarrow> \<not> dup \<Longrightarrow> seenAt flow key now now t'"
    and "seenAt flow key s before t \<Longrightarrow> before \<le> now \<Longrightarrow> triggerDedupKey ctx \<noteq> Some key \<or> dup \<Longrightarrow> seenAt flow key s now t'"
    and "seenAt flow key s before t \<Longrightarrow> before \<le> now \<Longrightarrow> triggerDedupKey ctx = Some key \<Longrightarrow> \<not> dup \<Longrightarrow> s + triggerDedupWindow (sqTrigger flow) \<le> now"
proof -
  let ?w = "triggerDedupWindow (sqTrigger flow)" and ?b = "gget [] (rtDedup t) (sqFlowID flow)"
  have wfb: "wf_gomap ?b" using wf by (simp add: dedupOK_def)
  have look: "map_of (filter (\<lambda>(k, seenAt). now - ?w < seenAt) ?b) k = (case map_of ?b k of None \<Rightarrow> None | Some v \<Rightarrow> if now - ?w < v then Some v else None)" for k
    by (rule map_of_filter_wf[OF wfb])
  note defs = checkAndRecordTriggerDedup_def Let_def
  show "dedupOK t'"
    using step wf wf_filter[OF wfb] window by (auto simp: defs dedupOK_def split: option.splits if_splits)
  show "seenAt flow key now now t'" if "triggerDedupKey ctx = Some key" "\<not> dup"
    using that step window by (auto simp: defs seenAt_def update_conv' split: option.splits if_splits)
  show "seenAt flow key s now t'" if "seenAt flow key s before t" "before \<le> now" "triggerDedupKey ctx \<noteq> Some key \<or> dup"
    using that step window by (auto simp: defs seenAt_def update_conv' look split: option.splits if_splits)
  show "s + ?w \<le> now" if "seenAt flow key s before t" "before \<le> now" "triggerDedupKey ctx = Some key" "\<not> dup"
    using that step window by (auto simp: defs seenAt_def look split: option.splits if_splits)
qed

lemma dedupRun_seen:
  assumes window: "0 < triggerDedupWindow (sqTrigger flow)" and "dedupOK u" and "seenAt flow key s m u" and "dedupRun flow es u = (dups, t2)"
    and "list_all2 (\<lambda>e dup. triggerDedupKey (fst e) = Some key \<longrightarrow> dup) es dups" and "sorted (m # map snd es @ [e])"
  shows "dedupOK t2 \<and> (\<exists>m. m \<le> e \<and> seenAt flow key s m t2)"
  using assms(2-)
proof (induction es arbitrary: u m dups)
  case (Cons x es)
  obtain c n where x: "x = (c, n)" by fastforce
  obtain dup u1 where st: "checkAndRecordTriggerDedup flow c n u = (dup, u1)" by fastforce
  obtain ds where ds: "dups = dup # ds" "dedupRun flow es u1 = (ds, t2)"
    using Cons.prems(3) unfolding x by (auto simp: st split: prod.splits)
  have k: "triggerDedupKey c \<noteq> Some key \<or> dup" using Cons.prems(4) by (auto simp: x ds)
  have "seenAt flow key s n u1" by (rule dedup_step(3)[OF Cons.prems(1) window st Cons.prems(2) _ k]) (use Cons.prems(5) x in auto)
  then show ?case
    using Cons.IH[OF dedup_step(1)[OF Cons.prems(1) window st] _ ds(2)] Cons.prems(4,5) by (auto simp: x ds)
qed auto

text \<open>
  C27: Within its window a trigger with the same content gets through once: when two triggers of a flow with the same context are both let through, and every
  trigger of that content in between was suppressed, then at least the window lies between them (for triggers in the order of their times).
\<close>
theorem flow_dedup_window:
  assumes wf: "dedupOK t" and window: "0 < triggerDedupWindow (sqTrigger flow)" and key: "triggerDedupKey ctx = Some key"
    and first: "checkAndRecordTriggerDedup flow ctx s t = (False, t1)"
    and between: "dedupRun flow es t1 = (dups, t2)"
    and suppressed: "list_all2 (\<lambda>e dup. triggerDedupKey (fst e) = Some key \<longrightarrow> dup) es dups"
    and times: "sorted (s # map snd es @ [e])"
    and again: "checkAndRecordTriggerDedup flow ctx e t2 = (False, t3)"
  shows "s + triggerDedupWindow (sqTrigger flow) \<le> e"
proof -
  have start: "seenAt flow key s s t1" using dedup_step(2)[OF wf window first key] by simp
  from dedupRun_seen[OF window dedup_step(1)[OF wf window first] start between suppressed times] obtain m where m: "dedupOK t2" "m \<le> e" "seenAt flow key s m t2" by auto
  show ?thesis by (rule dedup_step(4)[OF m(1) window again m(3,2) key]) simp
qed

section \<open>The archive round trip\<close>

definition archivable :: "'f run \<Rightarrow> bool" where
  "archivable r \<longleftrightarrow> isTerminalRunStatus (ruStatus r) \<and>
     (\<exists>fid rid. validateFlowID fid = Inr (stFlowID (ruState r)) \<and> validateRunID rid = Inr (stRunID (ruState r))) \<and>
     trimSpace (stCancelReason (ruState r)) = stCancelReason (ruState r) \<and>
     rcFlowID (stRuntime (ruState r)) = stFlowID (ruState r) \<and> rcRunID (stRuntime (ruState r)) = stRunID (ruState r) \<and> rcLoop (stRuntime (ruState r)) = None"

lemma statusWords: "trimSpace ''succeeded'' = ''succeeded''" "trimSpace ''failed'' = ''failed''" "trimSpace ''cancelled'' = ''cancelled''"
  by code_simp+

lemma validate_again:
  "validateFlowID x = Inr y \<Longrightarrow> trimSpace y = y \<and> y \<noteq> [] \<and> validateFlowID y = Inr y"
  "validateRunID x = Inr y \<Longrightarrow> trimSpace y = y \<and> y \<noteq> [] \<and> validateRunID y = Inr y"
  by (auto simp: validateFlowID_def validateRunID_def Let_def split: if_splits)


section \<open>Examples\<close>

definition demoID :: string where
  "demoID = ''00000000-0000-4000-8000-000000000001''"

definition demoTrigger :: trigger where
  "demoTrigger = \<lparr>trType = ''var_changed'', trEveryMs = 0, trCron = [], trEventMode = [], trEventName = [], trEventTopic = [], trVarOwner = 0,
     trVarName = [], trDedupWindowMs = Some 5\<rparr>"

definition demoFlow :: "nat setReq" where
  "demoFlow = \<lparr>sqReqID = ''q'', sqOrigin = 1, sqExecutor = 1, sqFlowID = demoID, sqName = [], sqMaxActiveRuns = None, sqTrigger = demoTrigger, sqGraph = ([], [])\<rparr>"

definition demoTable :: "nat runTable" where
  "demoTable = \<lparr>rtRuns = [], rtOrder = [], rtDedup = []\<rparr>"

definition demoFinished :: "nat run" where
  "demoFinished = (newQueuedRunState 1 demoID demoFlow None 5)\<lparr>ruState := (ruState (newQueuedRunState 1 demoID demoFlow None 5))\<lparr>stStatus := ''failed''\<rparr>, ruEnd := 7\<rparr>"

lemma demoID_valid: "validateFlowID demoID = Inr demoID" "validateRunID demoID = Inr demoID" "trimSpace demoID = demoID" "demoID \<noteq> []"
  by code_simp+

lemma demoTable_ok: "tableOK demoTable" "dedupOK demoTable"
  by (simp_all add: demoTable_def tableOK_empty dedupOK_def)


lemma demoRecorded_ok: "tableOK (recordRun demoFinished demoTable)"
  by (rule tableOK_record[OF demoTable_ok(1)]) (simp add: demoTable_def)

theorem flow_prune_exact_witness:
  "\<exists>t' pruned. pruneRuns 1 demoID (recordRun demoFinished demoTable) = (t', pruned) \<and> (demoID, demoID) \<notin> set pruned \<and> tableOK t'"
proof -
  obtain t' pruned where p: "pruneRuns 1 demoID (recordRun demoFinished demoTable) = (t', pruned)" by fastforce
  have ids: "stRunID (ruState demoFinished) = demoID" "stFlowID (ruState demoFinished) = demoID" by (simp_all add: demoFinished_def newQueuedRunState_def demoFlow_def)
  have "newerTerminal T [demoID] demoID = 0" for T by (simp add: newerTerminal_def)
  then show ?thesis
    using flow_prune_exact[OF demoRecorded_ok p] p demoID_valid(3,4) by (simp add: recordRun_def ids demoTable_def retainedRunLimit_def gget_def)
qed


theorem flow_dedup_window_witness:
  "\<exists>t1 t3. checkAndRecordTriggerDedup demoFlow (Some (JStr ''c'')) 0 demoTable = (False, t1) \<and>
     checkAndRecordTriggerDedup demoFlow (Some (JStr ''c'')) 5000000 t1 = (False, t3) \<and> triggerDedupWindow (sqTrigger demoFlow) \<le> 5000000"
proof -
  note defs = checkAndRecordTriggerDedup_def demoFlow_def demoTrigger_def triggerDedupWindow_def wrap64_def triggerDedupKey_def demoTable_def gget_def Let_def
  obtain t1 where a: "checkAndRecordTriggerDedup demoFlow (Some (JStr ''c'')) 0 demoTable = (False, t1)"
    and t1: "t1 = demoTable\<lparr>rtDedup := [(demoID, [(JStr ''c'', 0)])]\<rparr>" by (simp add: defs)
  obtain t3 where b: "checkAndRecordTriggerDedup demoFlow (Some (JStr ''c'')) 5000000 t1 = (False, t3)" by (simp add: t1 defs)
  have w: "0 < triggerDedupWindow (sqTrigger demoFlow)" by (simp add: defs)
  have k: "triggerDedupKey (Some (JStr ''c'') :: nat jsonv option) = Some (JStr ''c'')" by (simp add: defs)
  have "0 + triggerDedupWindow (sqTrigger demoFlow) \<le> 5000000"
    by (rule flow_dedup_window[OF demoTable_ok(2) w k a, of "[]" "[]" t1 5000000 t3]) (simp_all add: b)
  then show ?thesis using a b by auto
qed

end
