(* ===== verification/Flow_Sound.thy ===== *)
theory Flow_Sound
  imports Flow_Run
begin

text \<open>
  What validation promises about a stored flow, and what its runs then cannot do. \<open>graphOK\<close> states in terms of the edges what \<open>validateGraphScoped\<close>
  checks with its indexes; the theorems about runs start from it.
\<close>

section \<open>Well-scoped graphs\<close>

function exprSources :: "'f transformExpr \<Rightarrow> bindingSource list" where
  "exprSources e = (case teSource e of Some s \<Rightarrow> [s] | None \<Rightarrow> concat (map exprSources (subExprs e)))"
  by pat_completeness auto
termination by (relation "measure size") (auto dest: size_subExprs)

declare exprSources.simps [simp del]

definition nodeSources :: "'f node \<Rightarrow> bindingSource list" where
  "nodeSources n =
     (case nSpec n of
        SpecBad b \<Rightarrow> []
      | SpecCall sp \<Rightarrow> map ibSource (csInputs sp)
      | SpecCompose sp \<Rightarrow> map ibSource (cpInputs sp)
      | SpecTransform e \<Rightarrow> exprSources e
      | SpecSetVar sp \<Rightarrow> map ibSource (svInputs sp)
      | SpecBranch sp \<Rightarrow> map (\<lambda>c. bmSource (bcMatch c)) (brCases sp)
      | SpecForeach fh ns es \<Rightarrow> [feSource fh]
      | SpecSubflow sp \<Rightarrow> map ibSource (sfInputs sp))"

definition writesVar :: "string \<Rightarrow> 'f node \<Rightarrow> bool" where
  "writesVar name n = (normalizeNodeKind (nKind n) = ''set_var'' \<and>
     (case nSpec n of SpecSetVar sp \<Rightarrow> trimSpace (svName sp) = name | _ \<Rightarrow> False))"

definition varWriters :: "'f graph \<Rightarrow> string \<Rightarrow> string list" where
  "varWriters g name = map nodeKey (filter (writesVar name) (gNodes g))"

definition pathOK :: "string \<Rightarrow> bool" where
  "pathOK p = (\<exists>ts. parseJSONPointer p = Inr ts)"

definition sourceOK :: "'f graph \<Rightarrow> bool \<Rightarrow> string \<Rightarrow> bindingSource \<Rightarrow> bool" where
  "sourceOK g loop i src \<longleftrightarrow>
     (let kind = normalizeBindingSourceKind (bsKind src); R = (edgeRel g)\<^sup>+ in
      kind = ''node_result'' \<and> trimSpace (bsNodeID src) \<in> nodeKeys g \<and> (trimSpace (bsNodeID src), i) \<in> R \<and> pathOK (bsPath src) \<or>
      kind = ''trigger'' \<and> pathOK (bsPath src) \<or>
      kind = ''flow_meta'' \<and> trimSpace (bsField src) = ''flow_id'' \<or>
      kind = ''run_meta'' \<and> trimSpace (bsField src) = ''run_id'' \<or>
      kind = ''flow_var'' \<and> pathOK (bsPath src) \<and> trimSpace (bsName src) \<noteq> [] \<and>
        (\<exists>w\<in>set (varWriters g (trimSpace (bsName src))). (w, i) \<in> R \<and>
           (\<forall>v\<in>set (varWriters g (trimSpace (bsName src))). (v, i) \<in> R \<longrightarrow> v = w \<or> (v, w) \<in> R)) \<or>
      kind = ''loop_item'' \<and> loop \<and> pathOK (bsPath src) \<or>
      kind = ''loop_index'' \<and> loop)"

definition edgeCaseOK :: "'f node \<Rightarrow> edge \<Rightarrow> bool" where
  "edgeCaseOK n e \<longleftrightarrow>
     (if normalizeNodeKind (nKind n) = ''branch'' then
        trimSpace (eCase e) \<noteq> [] \<and> (\<exists>spec. decodeNodeBranchSpec n = Inr spec \<and> trimSpace (eCase e) \<in> set (allowedCases spec))
      else trimSpace (eCase e) = [])"

text \<open>The specification of a node is there in the form that its kind asks for.\<close>

definition decodable :: "'f node \<Rightarrow> bool" where
  "decodable n \<longleftrightarrow>
     (let kind = normalizeNodeKind (nKind n) in
      kind = ''call'' \<and> (\<exists>sp. decodeNodeCallSpec n = Inr sp \<and> normalizeTemplateJSON (csArgs sp) \<noteq> None) \<or>
      kind = ''compose'' \<and> (\<exists>sp. decodeNodeComposeSpec n = Inr sp) \<or>
      kind = ''set_var'' \<and> (\<exists>sp. decodeNodeSetVarSpec n = Inr sp) \<or>
      kind = ''transform'' \<and> (\<exists>e. decodeNodeTransformSpec n = Inr e) \<or>
      kind = ''branch'' \<and> (\<exists>sp. decodeNodeBranchSpec n = Inr sp) \<or>
      kind = ''foreach'' \<and> (\<exists>r. decodeNodeForeachSpec n = Inr r) \<or>
      kind = ''subflow'' \<and> (\<exists>sp. decodeNodeSubflowSpec n = Inr sp))"

inductive graphOK :: "bool \<Rightarrow> 'f graph \<Rightarrow> bool" where
  graphOKI: "\<lbrakk>distinct (map nodeKey (gNodes g)); [] \<notin> nodeKeys g; list_all (goodEdge (nodeKeys g)) (gEdges g); acyclic (edgeRel g);
     \<forall>n\<in>set (gNodes g). decodable n \<and> (\<forall>s\<in>set (nodeSources n). sourceOK g loop (nodeKey n) s);
     \<forall>n\<in>set (gNodes g). \<forall>e\<in>set (gEdges g). trimSpace (eFrom e) = nodeKey n \<longrightarrow> edgeCaseOK n e;
     \<forall>n\<in>set (gNodes g). \<forall>fh body. normalizeNodeKind (nKind n) = ''foreach'' \<longrightarrow> decodeNodeForeachSpec n = Inr (fh, body) \<longrightarrow>
       graphOK True body \<and> feResultNodeID fh \<in> nodeKeys body\<rbrakk>
   \<Longrightarrow> graphOK loop g"

inductive_cases graphOKE: "graphOK loop g"

section \<open>What the validators check\<close>

lemma firstErr_None: "firstErr rs = None \<longleftrightarrow> (\<forall>r\<in>set rs. r = None)"
  by (induction rs rule: firstErr.induct) auto

lemma firstErr_map: "firstErr (map f xs) = None \<longleftrightarrow> (\<forall>x\<in>set xs. f x = None)"
  by (auto simp: firstErr_None)

lemma checkNodeIDs_None:
  "checkNodeIDs seen ns = None \<Longrightarrow> distinct (map nodeKey ns) \<and> [] \<notin> nodeKey ` set ns \<and> set seen \<inter> nodeKey ` set ns = {}"
  by (induction seen ns rule: checkNodeIDs.induct) (auto split: if_splits)

lemma validName_nonempty: "isValidSetVarName x \<Longrightarrow> trimSpace x \<noteq> []"
  by (auto simp: isValidSetVarName_def)

lemma collectSetVarWriters_Inr:
  assumes "collectSetVarWriters ns idx0 = Inr idx" and "[] \<notin> nodeKey ` set ns" and "name \<noteq> []"
  shows "giAncestors idx = giAncestors idx0 \<and> giNodes idx = giNodes idx0 \<and> giOutgoing idx = giOutgoing idx0 \<and>
    gget [] (giSetVarWriters idx) name = gget [] (giSetVarWriters idx0) name @ map nodeKey (filter (writesVar name) ns)"
  using assms(1,2)
proof (induction ns arbitrary: idx0)
  case (Cons n ns)
  show ?case
  proof (cases "normalizeNodeKind (nKind n) = ''set_var''")
    case True
    then obtain spec where sp: "decodeNodeSetVarSpec n = Inr spec"
      "collectSetVarWriters ns (addSetVarWriter (svName spec) (nodeKey n) idx0) = Inr idx"
      using Cons.prems by (auto split: sum.splits)
    then obtain sp0 where sp0: "nSpec n = SpecSetVar sp0" "svName spec = trimSpace (svName sp0)" "isValidSetVarName (svName spec)"
      by (auto simp: decodeNodeSetVarSpec_def split: nodeSpec.splits if_splits)
    have nm: "svName spec \<noteq> []" using validName_nonempty[OF sp0(3)] by auto
    have key: "trimSpace (nodeKey n) = nodeKey n" "nodeKey n \<noteq> []" using Cons.prems(2) by (auto simp: nodeKey_def)
    have w: "writesVar name n \<longleftrightarrow> svName spec = name" using True sp0 by (simp add: writesVar_def)
    have add: "addSetVarWriter (svName spec) (nodeKey n) idx0 = idx0\<lparr>giSetVarWriters := gappend (svName spec) (nodeKey n) (giSetVarWriters idx0)\<rparr>"
      using key sp0(2) nm by (simp add: addSetVarWriter_def)
    show ?thesis using Cons.IH[OF sp(2)] Cons.prems(2) w by (auto simp: add)
  next
    case False
    then show ?thesis using Cons by (auto simp: writesVar_def)
  qed
qed simp

lemma pathErr_None: "(case parseJSONPointer p of Inl _ \<Rightarrow> Some InvalidPath | Inr _ \<Rightarrow> None) = None \<longleftrightarrow> pathOK p"
  by (auto simp: pathOK_def split: sum.splits)

text \<open>The index that the validators use is that of the graph.\<close>

definition indexOf :: "'f graph \<Rightarrow> 'f graphIndex \<Rightarrow> bool" where
  "indexOf g idx \<longleftrightarrow> (\<exists>idx0. buildGraphIndex g = Inr idx0 \<and> giAncestors idx = giAncestors idx0 \<and> giNodes idx = giNodes idx0 \<and>
     giOutgoing idx = giOutgoing idx0 \<and> (\<forall>name. name \<noteq> [] \<longrightarrow> gget [] (giSetVarWriters idx) name = varWriters g name))"

lemma trimSpace_nodeKey [simp]: "trimSpace (nodeKey n) = nodeKey n"
  by (simp add: nodeKey_def)

lemma varWriters_trim: "v \<in> set (varWriters g name) \<Longrightarrow> trimSpace v = v"
  by (auto simp: varWriters_def)

lemma validateBindingSource_None:
  assumes "indexOf g idx" and "trimSpace i = i" and "validateBindingSource i idx loop src = None"
  shows "sourceOK g loop i src"
proof -
  obtain idx0 where idx: "buildGraphIndex g = Inr idx0" "giAncestors idx = giAncestors idx0" "giNodes idx = giNodes idx0"
    "\<And>name. name \<noteq> [] \<Longrightarrow> gget [] (giSetVarWriters idx) name = varWriters g name"
    using assms(1) by (auto simp: indexOf_def)
  have has: "hasNode idx x \<longleftrightarrow> trimSpace x \<in> nodeKeys g" for x
    by (simp add: hasNode_def idx(3) buildGraphIndex_Inr(2)[OF idx(1)] nodeMap_None)
  note anc = isAncestor_iff[OF idx(1,2)]
  have var: "\<exists>w\<in>set (varWriters g name). (w, i) \<in> (edgeRel g)\<^sup>+ \<and>
      (\<forall>v\<in>set (varWriters g name). (v, i) \<in> (edgeRel g)\<^sup>+ \<longrightarrow> v = w \<or> (v, w) \<in> (edgeRel g)\<^sup>+)"
    if "uniqueSetVarWriter idx i name = Inr w" "trimSpace name = name" "name \<noteq> []" for w name
    using writer_closest[OF idx(1,2) that(1)] that assms(2) varWriters_trim[of _ g name] by (auto simp: idx(4))
  show ?thesis
    using assms(3) var[of "trimSpace (bsName src)"] validName_nonempty[of "trimSpace (bsName src)"] assms(2)
    unfolding validateBindingSource_def sourceOK_def Let_def pathErr_None
    by (auto simp: has anc pathOK_def split: if_splits sum.splits)
qed

lemma validateBindings_None:
  assumes "indexOf g idx" and "trimSpace i = i"
  shows "validateBindingsFrom k i idx loop bs = None \<Longrightarrow> \<forall>s\<in>set (map ibSource bs). sourceOK g loop i s"
proof (induction bs arbitrary: k)
  case (Cons b bs)
  then have "validateBindingSource i idx loop (ibSource b) = None" "validateBindingsFrom (Suc k) i idx loop bs = None"
    by (auto split: sum.splits option.splits)
  then show ?case using Cons.IH validateBindingSource_None[OF assms] by auto
qed simp

lemma validateExprSources_None:
  assumes "indexOf g idx" and "trimSpace i = i"
  shows "validateTransformExprSourcesForSet i idx loop e = None \<Longrightarrow> \<forall>s\<in>set (exprSources e). sourceOK g loop i s"
proof (induction e rule: exprSources.induct)
  case (1 e)
  show ?case
  proof (cases "teSource e")
    case None
    then show ?thesis
      using 1 by (subst exprSources.simps) (auto simp: validateTransformExprSourcesForSet.simps[of i idx loop e] firstErr_None)
  next
    case (Some s)
    then show ?thesis
      using 1(2) validateBindingSource_None[OF assms]
      by (simp add: exprSources.simps[of e] validateTransformExprSourcesForSet.simps[of i idx loop e])
  qed
qed

lemma validateCases_None:
  assumes "indexOf g idx" and "trimSpace i = i"
  shows "validateCases seen i cs idx loop = None \<Longrightarrow> \<forall>c\<in>set cs. sourceOK g loop i (bmSource (bcMatch c))"
proof (induction cs arbitrary: seen)
  case (Cons c cs)
  then have "validateBindingSource i idx loop (bmSource (bcMatch c)) = None"
    "validateCases (trimSpace (bcName c) # seen) i cs idx loop = None"
    by (auto simp: Let_def split: option.splits if_splits)
  then show ?case using Cons.IH validateBindingSource_None[OF assms] by auto
qed simp

lemma decodeCases_sources:
  "decodeCases seen cs = Inr cs' \<Longrightarrow> map (\<lambda>c. bmSource (bcMatch c)) cs' = map (\<lambda>c. bmSource (bcMatch c)) cs"
proof (induction cs arbitrary: seen cs')
  case (Cons c cs)
  then show ?case by (auto simp: Let_def split: if_splits) (auto simp: map_sum_def split: sum.splits)
qed simp

lemma nodeSources_decoded:
  shows "decodeNodeCallSpec n = Inr sp1 \<Longrightarrow> nodeSources n = map ibSource (csInputs sp1)"
    and "decodeNodeComposeSpec n = Inr sp2 \<Longrightarrow> nodeSources n = map ibSource (cpInputs sp2)"
    and "decodeNodeSetVarSpec n = Inr sp3 \<Longrightarrow> nodeSources n = map ibSource (svInputs sp3)"
    and "decodeNodeTransformSpec n = Inr e \<Longrightarrow> nodeSources n = exprSources e"
    and "decodeNodeBranchSpec n = Inr sp4 \<Longrightarrow> nodeSources n = map (\<lambda>c. bmSource (bcMatch c)) (brCases sp4)"
    and "decodeNodeForeachSpec n = Inr (fh, body) \<Longrightarrow> nodeSources n = [feSource fh]"
    and "decodeNodeSubflowSpec n = Inr sp5 \<Longrightarrow> nodeSources n = map ibSource (sfInputs sp5)"
  by (auto simp: nodeSources_def decodeNodeCallSpec_def decodeNodeComposeSpec_def decodeNodeSetVarSpec_def decodeNodeTransformSpec_def
      decodeNodeBranchSpec_def decodeNodeForeachSpec_def decodeNodeSubflowSpec_def decodeCases_sources
      split: nodeSpec.splits if_splits option.splits sum.splits)

lemma decoded_None: "decoded i r f = None \<longleftrightarrow> (\<exists>x. r = Inr x \<and> f x = None)"
  by (auto simp: decoded_def split: sum.splits)

lemma validateForeach_None:
  assumes "validateForeachSpecForSet i fh body bodyErr idx loop = None"
  shows "validateBindingSource i idx loop (feSource fh) = None \<and> bodyErr = None \<and> trimSpace (feResultNodeID fh) \<in> nodeKeys body"
  using assms buildGraphIndex_Inr(2)[of body]
  by (auto simp: validateForeachSpecForSet_def hasNode_def nodeMap_None split: option.splits if_splits sum.splits)

lemma validateNode_None:
  assumes "indexOf g idx" and "validateSetNodeKindAndSpec fid (nodeKey n) n idx loop bodyErr = None"
  shows "decodable n \<and> (\<forall>s\<in>set (nodeSources n). sourceOK g loop (nodeKey n) s) \<and>
    (\<forall>fh body. normalizeNodeKind (nKind n) = ''foreach'' \<longrightarrow> decodeNodeForeachSpec n = Inr (fh, body) \<longrightarrow>
       bodyErr = None \<and> feResultNodeID fh \<in> nodeKeys body)"
proof -
  let ?k = "normalizeNodeKind (nKind n)"
  note simps = validateSetNodeKindAndSpec_def Let_def decoded_None decodable_def
  have bind: "\<forall>b\<in>set bs. sourceOK g loop (nodeKey n) (ibSource b)" if "validateBindings (nodeKey n) bs idx loop = None" for bs
    using validateBindings_None[OF assms(1) trimSpace_nodeKey that] by simp
  note expr = validateExprSources_None[OF assms(1) trimSpace_nodeKey]
  note cases = validateCases_None[OF assms(1) trimSpace_nodeKey]
  have res: "decodeNodeForeachSpec n = Inr (fh, body) \<Longrightarrow> trimSpace (feResultNodeID fh) = feResultNodeID fh" for fh body
    by (auto simp: decodeNodeForeachSpec_def split: nodeSpec.splits if_splits)
  consider "?k = ''call''" | "?k = ''compose''" | "?k = ''set_var''" | "?k = ''transform''" | "?k = ''branch''" | "?k = ''foreach''" | "?k = ''subflow''"
    using assms(2) by (auto simp: simps split: if_splits)
  then show ?thesis
  proof cases
    case 1
    then show ?thesis using assms(2) by (auto simp: simps validateCallSpecForSet_def nodeSources_decoded(1) dest!: bind split: if_splits)
  next
    case 2
    then show ?thesis using assms(2) by (auto simp: simps validateComposeSpecForSet_def nodeSources_decoded(2) dest!: bind split: if_splits)
  next
    case 3
    then show ?thesis using assms(2) by (auto simp: simps validateSetVarSpecForSet_def nodeSources_decoded(3) dest!: bind split: if_splits)
  next
    case 4
    then show ?thesis using assms(2)
      by (auto simp: simps validateTransformSpecForSet_def firstErr_None nodeSources_decoded(4) dest!: expr split: if_splits)
  next
    case 5
    then show ?thesis using assms(2)
      by (auto simp: simps validateBranchSpecForSet_def nodeSources_decoded(5) dest!: cases split: if_splits)
  next
    case 6
    then obtain fh body where fb: "decodeNodeForeachSpec n = Inr (fh, body)" "validateForeachSpecForSet (nodeKey n) fh body bodyErr idx loop = None"
      using assms(2) by (auto simp: simps split: if_splits)
    then show ?thesis
      using 6 validateForeach_None[OF fb(2)] res[OF fb(1)] validateBindingSource_None[OF assms(1) trimSpace_nodeKey]
      by (auto simp: decodable_def nodeSources_decoded(6)[OF fb(1)])
  next
    case 7
    then show ?thesis using assms(2) by (auto simp: simps validateSubflowSpecForSet_def nodeSources_decoded(7) dest!: bind split: if_splits)
  qed
qed

lemma validateEdges_None:
  assumes "indexOf g idx" and "validateNodeEdges idx n = None" and "e \<in> set (gEdges g)" and "trimSpace (eFrom e) = nodeKey n"
  shows "edgeCaseOK n e"
proof -
  have "e \<in> set (outgoingEdges idx (nodeKey n))"
    using assms(1,3,4) by (auto simp: indexOf_def outgoingEdges_def buildGraphIndex_Inr(4)[of g])
  then show ?thesis
    using assms(2) by (auto simp: validateNodeEdges_def Let_def firstErr_map edgeCaseOK_def decoded_None split: if_splits)
qed

lemma validate_graphOK: "validateGraphScoped fid loop g = None \<Longrightarrow> graphOK loop g"
proof (induction fid loop g rule: validateGraphScoped.induct)
  case (1 fid loop g)
  note eq = "1.prems"[unfolded validateGraphScoped.simps[of fid loop g]]
  have ne: "gNodes g \<noteq> []" using eq by (rule contrapos_pn) simp
  have ck: "checkNodeIDs [] (gNodes g) = None" using eq ne by (cases "checkNodeIDs [] (gNodes g)") simp_all
  obtain idx0 where bg: "buildGraphIndex g = Inr idx0" using eq ne ck by (cases "buildGraphIndex g") simp_all
  obtain idx where cw: "collectSetVarWriters (gNodes g) idx0 = Inr idx" using eq ne ck bg by (cases "collectSetVarWriters (gNodes g) idx0") simp_all
  define rs where "rs = map (\<lambda>n. validateSetNodeKindAndSpec fid (nodeKey n) n idx loop
      (case foreachBody n of None \<Rightarrow> None | Some body \<Rightarrow> validateGraphScoped fid True body)) (gNodes g)"
  have "(case firstErr rs of Some e \<Rightarrow> Some e | None \<Rightarrow> validateEdgeCases g idx) = None"
    using eq ne ck bg cw by (simp add: rs_def)
  then have last: "firstErr rs = None" "validateEdgeCases g idx = None" by (cases "firstErr rs"; simp)+
  have "\<forall>n\<in>set (gNodes g). validateSetNodeKindAndSpec fid (nodeKey n) n idx loop
      (case foreachBody n of None \<Rightarrow> None | Some body \<Rightarrow> validateGraphScoped fid True body) = None"
    using last(1) by (simp add: firstErr_None rs_def)
  note steps = ck bg cw ne last(2) this
  note ids = checkNodeIDs_None[OF steps(1)]
  obtain order where order: "kahnIDs g = Inr order" using buildGraphIndex_Inr(6)[OF steps(2)] by blast
  have idx: "indexOf g idx"
    unfolding indexOf_def varWriters_def
  proof (intro exI[of _ idx0] conjI allI impI)
    show "buildGraphIndex g = Inr idx0" by fact
    fix name :: string assume "name \<noteq> []"
    then show "gget [] (giSetVarWriters idx) name = map nodeKey (filter (writesVar name) (gNodes g))"
      using collectSetVarWriters_Inr[OF steps(3)] ids buildGraphIndex_Inr(5)[OF steps(2)] by simp
  qed (use collectSetVarWriters_Inr[OF steps(3), of "''x''"] ids in simp_all)
  have nodes: "\<forall>n\<in>set (gNodes g). decodable n \<and> (\<forall>s\<in>set (nodeSources n). sourceOK g loop (nodeKey n) s)"
    using steps(6) validateNode_None[OF idx] by blast
  have bodies: "graphOK True body \<and> feResultNodeID fh \<in> nodeKeys body"
    if n: "n \<in> set (gNodes g)" "normalizeNodeKind (nKind n) = ''foreach''" "decodeNodeForeachSpec n = Inr (fh, body)" for n fh body
  proof -
    have b: "foreachBody n = Some body" by (rule decodeForeach_body[OF n(3)])
    have "validateSetNodeKindAndSpec fid (nodeKey n) n idx loop (validateGraphScoped fid True body) = None" using steps(6) n(1) b by fastforce
    from validateNode_None[OF idx this] n(2,3) have "validateGraphScoped fid True body = None" "feResultNodeID fh \<in> nodeKeys body" by blast+
    with "1.IH"[OF steps(4,1,2,3) n(1) b] show ?thesis by blast
  qed
  show ?case
  proof (rule graphOKI)
    show "distinct (map nodeKey (gNodes g))" "[] \<notin> nodeKeys g" using ids by auto
    show "list_all (goodEdge (nodeKeys g)) (gEdges g)" using kahnIDs_Inr[OF order] by blast
    then show "acyclic (edgeRel g)" using topoOrder_acyclic kahnIDs_Inr[OF order] goodEdges_rel by blast
    show "\<forall>n\<in>set (gNodes g). \<forall>e\<in>set (gEdges g). trimSpace (eFrom e) = nodeKey n \<longrightarrow> edgeCaseOK n e"
      using validateEdges_None[OF idx] steps(5) by (auto simp: validateEdgeCases_def firstErr_None)
  qed (use nodes bodies in blast)+
qed

section \<open>Errors that cannot happen\<close>

fun cleanErr :: "runErr option \<Rightarrow> bool" where
  "cleanErr (Some (RFlow e)) = False"
| "cleanErr (Some (RStruct s)) = False"
| "cleanErr e = True"

definition cleanR :: "runErr + 'a \<Rightarrow> bool" where
  "cleanR r = (case r of Inl e \<Rightarrow> cleanErr (Some e) | Inr _ \<Rightarrow> True)"

named_theorems clean \<open>results whose error is not one of a specification or of the structure of the run\<close>

lemma cleanR_simps [simp]:
  "cleanR (Inr x)" "cleanR (map_sum id f r) = cleanR r" "cleanR (Inl e) = cleanErr (Some e)"
  by (auto simp: cleanR_def map_sum_def split: sum.splits)

lemma cleanR_bind [clean]:
  "cleanR r \<Longrightarrow> (\<And>x. r = Inr x \<Longrightarrow> cleanR (f x)) \<Longrightarrow> cleanR (case r of Inl e \<Rightarrow> Inl e | Inr x \<Rightarrow> f x)"
  by (cases r) (auto simp: cleanR_def)

lemma cleanR_json [clean]: "cleanR (map_sum RJson f r)"
  by (cases r) (auto simp: cleanR_def)

lemma cleanR_Inl: "cleanR r \<Longrightarrow> r = Inl e \<Longrightarrow> cleanErr (Some e)"
  by (simp add: cleanR_def)

lemma read_clean [clean]: "cleanR (readJSONSourceValue raw path)"
  by (auto simp: readJSONSourceValue_def clean split: rawJson.split)

lemma resolve_clean [clean]: "cleanR (resolveBindingSource st src)"
  unfolding resolveBindingSource_def Let_def by (auto simp: clean split: option.split)

lemma applyBindings_clean: "applyBindings lim st bs doc = Ret r \<Longrightarrow> cleanR r"
proof (induction bs arbitrary: doc)
  case (Cons b bs)
  have rc: "cleanR (resolveBindingSource st (ibSource b))" by (rule resolve_clean)
  show ?case
  proof (cases "resolveBindingSource st (ibSource b)")
    case (Inl e')
    then show ?thesis using Cons.prems rc by auto
  next
    case (Inr x)
    show ?thesis
    proof (cases x)
      case None
      then show ?thesis using Cons Inr by (auto split: if_splits)
    next
      case (Some v)
      then obtain y where "setJSONPointerValue lim doc (ibTo b) v = Ret y"
        "(case y of Inl e \<Rightarrow> Ret (Inl (RJson e)) | Inr doc' \<Rightarrow> applyBindings lim st bs doc') = Ret r"
        using Cons.prems Inr by auto
      then show ?thesis using Cons.IH by (cases y) auto
    qed
  qed
qed auto

lemma materialize_clean: "base \<noteq> None \<Longrightarrow> materializeBoundJSON ops lim base bs st = Ret r \<Longrightarrow> cleanR r"
  using applyBindings_clean[of lim st bs] by (auto simp: materializeBoundJSON_def split: if_splits)

lemma foldErr_clean [clean]:
  assumes "\<And>a x. x \<in> set xs \<Longrightarrow> cleanR (f a x)"
  shows "cleanR (foldErr f a xs)"
  using assms by (induction xs arbitrary: a) (auto intro!: cleanR_bind)

lemma collectErr_clean [clean]: "\<forall>r\<in>set rs. cleanR r \<Longrightarrow> cleanR (collectErr rs)"
  unfolding collectErr_def by (rule foldErr_clean) simp

lemma args_clean [clean]:
  "cleanR (numArg ops v)" "cleanR (boolArg v)" "cleanR (strArg v)" "cleanR (transformValueString ops v)" "cleanR (jsonValuesEqualAny ops v w)"
  by (auto simp: numArg_def boolArg_def strArg_def transformValueString_def jsonValuesEqualAny_def split: option.split jsonv.split)

lemma boolArgs_clean [clean]: "cleanR (andArgs vs)" "cleanR (orArgs vs)"
  by (induction vs) (auto intro!: cleanR_bind args_clean)

lemma numFold_clean [clean]:
  assumes "\<And>x y. cleanR (f x y)"
  shows "cleanR (numFold ops f x vs)" and "cleanR (numFold1 ops f vs)"
proof -
  show nf: "cleanR (numFold ops f x vs)" for x vs
    by (auto simp: numFold_def intro!: foldErr_clean cleanR_bind args_clean assms)
  show "cleanR (numFold1 ops f vs)"
    by (cases vs) (auto simp: numFold1_def intro!: cleanR_bind args_clean nf)
qed

lemma nonZero_clean [clean]: "cleanR (nonZero ops f x y)"
  by (simp add: nonZero_def)

lemma transformOp_clean [clean]: "cleanR (evaluateTransformOp ops op args)"
  unfolding evaluateTransformOp_def
  by (simp add: clean cleanR_bind split: jsonv.split)

lemma transform_clean:
  "validateTransformExprShape e = None \<Longrightarrow> cleanR (evaluateTransformExpr ops st e)"
proof (induction e rule: validateTransformExprShape.induct)
  case (1 e)
  note shape = "1.prems"[unfolded validateTransformExprShape.simps[of e]]
  show ?case
  proof (cases "teLiteral e \<noteq> RawBlank \<or> teSource e \<noteq> None")
    case True
    then show ?thesis
      using shape by (subst evaluateTransformExpr.simps) (auto simp: clean split: if_splits option.split intro!: cleanR_bind)
  next
    case False
    let ?argc = "case teArgs e of None \<Rightarrow> 0 | Some es \<Rightarrow> length es"
    have sub: "\<forall>x\<in>set (subExprs e). validateTransformExprShape x = None"
      and op: "opSet e \<Longrightarrow> normalizeTransformOp (trimSpace (teOp e)) \<noteq> [] \<and> validateTransformOpArity (normalizeTransformOp (trimSpace (teOp e))) ?argc = None"
      and one: "\<not> (teRequired e \<noteq> None \<and> teSource e = None)" "length (filter (\<lambda>b. b) (transformExprVariantFlags e)) = 1"
      using shape False by (auto simp: firstErr_None split: if_splits)
    have vals: "cleanR (collectErr (map (evaluateTransformExpr ops st) (subExprs e)))"
      using "1.IH" one False sub by (intro collectErr_clean) auto
    have trim: "normalizeTransformOp (trimSpace (teOp e)) = normalizeTransformOp (teOp e)"
      by (simp add: normalizeTransformOp_def normWord_def)
    show ?thesis
      using False one op vals unfolding trim
      by (subst evaluateTransformExpr.simps) (auto simp: Let_def clean split: option.split intro!: cleanR_bind)
  qed
qed

lemma branch_clean [clean]: "cleanR (evaluateBranchMatch ops m st)"
  unfolding evaluateBranchMatch_def Let_def
  by (auto simp: clean jsonValuesEqual_def split: option.split intro!: cleanR_bind)

lemma cases_clean [clean]: "cleanR (evaluateCases ops cs st)"
  by (induction cs) (auto simp: clean intro!: cleanR_bind)

lemma branchCases_clean [clean]: "cleanR (evaluateBranchCases ops spec st)"
  unfolding evaluateBranchCases_def by (auto simp: clean split: option.split intro!: cleanR_bind)

section \<open>What one node can do\<close>

definition sameRun :: "'f runState \<Rightarrow> 'f runState \<Rightarrow> bool" where
  "sameRun st st' \<longleftrightarrow> rcNodes (stRuntime st') = rcNodes (stRuntime st) \<and> stStatus st' = stStatus st \<and> stEnded st' = stEnded st \<and>
     stCancelReason st' = stCancelReason st"

lemma sameRun_simps [simp]: "sameRun st st" "sameRun st (setVarRuntime name d st)"
  by (auto simp: sameRun_def setVarRuntime_def)

lemma sameRun_trans: "sameRun a b \<Longrightarrow> sameRun b c \<Longrightarrow> sameRun a c"
  by (simp add: sameRun_def)

definition branchResult :: "'f rawJson \<Rightarrow> bool" where
  "branchResult r = (\<exists>name. r = RawDoc (JObj [(''case'', JStr name)]) \<and> trimSpace name \<noteq> [])"

definition cleanResult :: "'f nodeResult \<Rightarrow> bool" where
  "cleanResult r = cleanErr (snd (snd r))"

lemma cleanResult_simps [simp]:
  "cleanResult (failWith code e) = cleanErr (Some e)" "cleanResult (code, r, None)" "cleanResult (finishCall raw)"
  by (auto simp: cleanResult_def failWith_def finishCall_def normalizeNodeResult_def split: rawJson.splits)

lemma foreachItems_clean:
  "foreachItems ops rec ctx stack body resultID st items i results clk = Ret (r, clk') \<Longrightarrow> cleanResult r"
proof (induction items arbitrary: i results clk)
  case (Cons item items)
  show ?case
  proof (cases "ctx clk = CtxOK")
    case True
    then obtain child k where rec: "rec ctx stack body (newLoopRunState ops st item i) (clk + 1) = Ret (child, k)" using Cons.prems by auto
    show ?thesis
    proof (cases "map_of (rcNodes (stRuntime child)) resultID")
      case None
      then show ?thesis using Cons.prems True rec by (auto split: if_splits)
    next
      case (Some d)
      then show ?thesis using Cons.prems True rec Cons.IH by (cases "ndResult d") (auto split: if_splits)
    qed
  qed (use Cons.prems in auto)
qed auto

lemma foreach_clean:
  assumes "decodeNodeForeachSpec n = Inr sp" and "executeForeach env rec ctx stack st n clk = Ret (r, clk')"
  shows "cleanResult r"
proof -
  obtain fh body where sp: "sp = (fh, body)" by (cases sp)
  have rc: "cleanR (resolveBindingSource st (feSource fh))" by (rule resolve_clean)
  show ?thesis
  proof (cases "resolveBindingSource st (feSource fh)")
    case (Inl e)
    then show ?thesis using assms rc sp by (auto simp: executeForeach_def)
  next
    case (Inr v)
    then show ?thesis
      using assms sp by (auto simp: executeForeach_def dest: foreachItems_clean split: option.splits jsonv.splits if_splits)
  qed
qed

lemma subflowResult_clean: "cleanResult (subflowResult spec fid child)"
  by (auto simp: subflowResult_def Let_def split: option.split rawJson.split)

lemma subflow_clean:
  assumes "decodeNodeSubflowSpec n = Inr sp" and "executeSubflow env rec ctx stack st n clk = Ret (r, clk')"
  shows "cleanResult r"
proof -
  have base: "normalizeTemplateJSON (sfInputTemplate sp) \<noteq> None"
    using assms(1) by (auto simp: decodeNodeSubflowSpec_def split: nodeSpec.splits sum.splits if_splits)
  show ?thesis
  proof (cases "flowExecutionContains (sfFlowID sp) stack")
    case False
    then obtain x where x: "materializeSubflowInput (reOps env) (reLim env) sp st = Ret x" using assms by (auto simp: executeSubflow_def)
    have "cleanR x" using x materialize_clean[OF base] by (simp add: materializeSubflowInput_def)
    then show ?thesis using assms False x
      by (cases x) (auto simp: executeSubflow_def subflowResult_clean split: option.splits)
  qed (use assms in \<open>auto simp: executeSubflow_def\<close>)
qed

lemma call_clean:
  assumes "decodeNodeCallSpec n = Inr sp" and "normalizeTemplateJSON (csArgs sp) \<noteq> None" and "executeCall env ctx st n clk = Ret r"
  shows "cleanResult r"
proof (cases "reServer env")
  case (Some srv)
  then obtain x where x: "materializeCallArgs (reOps env) (reLim env) sp st = Ret x" using assms by (auto simp: executeCall_def)
  have "cleanR x" using x materialize_clean[OF assms(2)] by (simp add: materializeCallArgs_def)
  moreover have "cleanResult (localCall ctx fn args clk)" for fn args by (auto simp: localCall_def split: sum.split)
  ultimately show ?thesis using assms(1,3) Some x
    by (cases x) (auto simp: executeCall_def Let_def split: option.splits sum.splits remoteAnswer.splits if_splits)
qed (use assms in \<open>auto simp: executeCall_def\<close>)

lemma decodeCases_names: "decodeCases seen cs = Inr cs' \<Longrightarrow> c \<in> set cs' \<Longrightarrow> bcName c \<noteq> [] \<and> trimSpace (bcName c) = bcName c"
proof (induction cs arbitrary: seen cs')
  case (Cons d cs)
  from Cons.prems(1) obtain cs'' c0 where "decodeCases (trimSpace (bcName d) # seen) cs = Inr cs''" "cs' = c0 # cs''"
    "bcName c0 = trimSpace (bcName d)" "trimSpace (bcName d) \<noteq> []"
    by (cases "decodeCases (trimSpace (bcName d) # seen) cs") (auto simp: Let_def split: if_splits)
  then show ?case using Cons by auto
qed simp

lemma evaluateCases_name: "evaluateCases ops cs st = Inr (Some name) \<Longrightarrow> \<exists>c\<in>set cs. bcName c = name"
  by (induction cs) (auto split: sum.splits if_splits)

lemma branch_name:
  assumes "decodeNodeBranchSpec n = Inr spec" and "evaluateBranchCases ops spec st = Inr name"
  shows "trimSpace name \<noteq> []"
proof -
  obtain sp0 where sp: "decodeCases [] (brCases sp0) = Inr (brCases spec)" "brDefault spec = trimSpace (brDefault sp0)" "nSpec n = SpecBranch sp0"
    using assms(1) by (auto simp: decodeNodeBranchSpec_def split: nodeSpec.splits if_splits sum.splits)
  have dflt: "trimSpace (brDefault spec) = brDefault spec" using sp(2) by simp
  show ?thesis
    using assms(2) decodeCases_names[OF sp(1)] evaluateCases_name[of ops "brCases spec" st name]
    by (auto simp: evaluateBranchCases_def dflt split: sum.splits option.splits if_splits)
qed

lemma executeNode_facts:
  assumes "decodable n" and "executeNode env rec ctx stack st n clk = Ret (r, st', clk')"
  shows "cleanResult r \<and> sameRun st st' \<and> (normalizeNodeKind (nKind n) = ''branch'' \<longrightarrow> snd (snd r) = None \<longrightarrow> branchResult (fst (snd r)))"
proof -
  let ?k = "normalizeNodeKind (nKind n)"
  note ex = assms(2)[unfolded executeNode_def Let_def]
  consider (call) sp where "?k = ''call''" "decodeNodeCallSpec n = Inr sp" "normalizeTemplateJSON (csArgs sp) \<noteq> None"
    | (compose) sp where "?k = ''compose''" "decodeNodeComposeSpec n = Inr sp"
    | (setvar) sp where "?k = ''set_var''" "decodeNodeSetVarSpec n = Inr sp"
    | (transform) e where "?k = ''transform''" "decodeNodeTransformSpec n = Inr e"
    | (branch) sp where "?k = ''branch''" "decodeNodeBranchSpec n = Inr sp"
    | (foreach) sp where "?k = ''foreach''" "decodeNodeForeachSpec n = Inr sp"
    | (subflow) sp where "?k = ''subflow''" "decodeNodeSubflowSpec n = Inr sp"
    using assms(1) by (auto simp: decodable_def Let_def)
  then show ?thesis
  proof cases
    case call
    then show ?thesis using ex call_clean[OF call(2,3)] by auto
  next
    case compose
    then obtain x where x: "materializeComposeResult (reOps env) (reLim env) sp st = Ret x" using ex by auto
    have "normalizeTemplateJSON (cpTemplate sp) \<noteq> None"
      using compose(2) by (auto simp: decodeNodeComposeSpec_def split: nodeSpec.splits if_splits)
    from materialize_clean[OF this x[unfolded materializeComposeResult_def]] have "cleanR x" .
    then show ?thesis using ex compose x by (cases x) auto
  next
    case setvar
    then obtain x where x: "materializeSetVarValue (reOps env) (reLim env) sp st = Ret x" using ex by auto
    have "normalizeSetVarTemplateJSON (svTemplate sp) \<noteq> None"
      using setvar(2) by (auto simp: decodeNodeSetVarSpec_def split: nodeSpec.splits if_splits)
    from materialize_clean[OF this x[unfolded materializeSetVarValue_def]] have "cleanR x" .
    then show ?thesis using ex setvar x by (cases x) auto
  next
    case transform
    have "validateTransformExprShape e = None"
      using transform(2) by (auto simp: decodeNodeTransformSpec_def split: nodeSpec.splits option.splits)
    then have "cleanR (materializeTransformResult (reOps env) e st)"
      unfolding materializeTransformResult_def by (intro cleanR_bind transform_clean) auto
    then show ?thesis using ex transform by (cases "materializeTransformResult (reOps env) e st") auto
  next
    case branch
    have "cleanR (evaluateBranchCases (reOps env) sp st)" by (rule branchCases_clean)
    then show ?thesis using ex branch branch_name[OF branch(2)]
      by (cases "evaluateBranchCases (reOps env) sp st") (auto simp: branchResult_def failWith_def cleanResult_def)
  next
    case foreach
    then show ?thesis using ex foreach_clean[OF foreach(2)] by auto
  next
    case subflow
    then show ?thesis using ex subflow_clean[OF subflow(2)] by auto
  qed
qed

lemma attemptNode_facts:
  assumes "decodable n"
  shows "attemptNode k env rec ctx stack st n t b clk = Ret (r, st', clk') \<Longrightarrow>
    cleanResult r \<and> sameRun st st' \<and> (normalizeNodeKind (nKind n) = ''branch'' \<longrightarrow> snd (snd r) = None \<longrightarrow> branchResult (fst (snd r)))"
proof (induction k arbitrary: st clk)
  case 0
  from executeNode_facts[OF assms this[unfolded attemptNode.simps]] show ?case .
next
  case (Suc k)
  then obtain r1 st1 clk1 where first: "executeNode env rec (reWithTimeout env ctx t clk) stack st n (clk + 1) = Ret (r1, st1, clk1)" by auto
  note facts = executeNode_facts[OF assms first]
  show ?case
  proof (cases "(fst r1 = 1 \<and> snd (snd r1) = None) \<or> ctx clk1 \<noteq> CtxOK \<or> (0 < b \<and> \<not> reBackoff env ctx b (clk1 + 1))")
    case True
    then show ?thesis using Suc.prems first facts by (auto split: if_splits)
  next
    case False
    then have "attemptNode k env rec ctx stack st1 n t b (clk1 + 2) = Ret (r, st', clk')" using Suc.prems first by (cases r1) auto
    then show ?thesis using Suc.IH facts sameRun_trans by blast
  qed
qed

section \<open>What a run records\<close>

abbreviation nodesOf :: "'f runState \<Rightarrow> string \<Rightarrow> 'f nodeRuntimeData option" where
  "nodesOf st \<equiv> map_of (rcNodes (stRuntime st))"

text \<open>An edge is active when its parent was not skipped and, for a branch, selected the case of the edge.\<close>

definition edgeActive :: "'f graph \<Rightarrow> (string \<Rightarrow> 'f nodeRuntimeData option) \<Rightarrow> edge \<Rightarrow> bool" where
  "edgeActive g m e \<longleftrightarrow>
     (case (m (trimSpace (eFrom e)), map_of (nodeMap (gNodes g)) (trimSpace (eFrom e))) of
        (Some d, Some n) \<Rightarrow> ndStatus d \<noteq> ''skipped'' \<and>
          (normalizeNodeKind (nKind n) = ''branch'' \<longrightarrow> readSelectedBranchCase (ndResult d) = Inr (Some (trimSpace (eCase e))))
      | _ \<Rightarrow> False)"

definition incoming :: "'f graph \<Rightarrow> string \<Rightarrow> edge list" where
  "incoming g i = filter (\<lambda>e. trimSpace (eTo e) = i) (gEdges g)"

definition nodeActive :: "'f graph \<Rightarrow> (string \<Rightarrow> 'f nodeRuntimeData option) \<Rightarrow> string \<Rightarrow> bool" where
  "nodeActive g m i \<longleftrightarrow> incoming g i = [] \<or> (\<exists>e\<in>set (incoming g i). edgeActive g m e)"

text \<open>The record of a node that the run has passed.\<close>

definition entryOK :: "'f graph \<Rightarrow> (string \<Rightarrow> 'f nodeRuntimeData option) \<Rightarrow> string \<Rightarrow> 'f nodeRuntimeData \<Rightarrow> bool" where
  "entryOK g m i d \<longleftrightarrow>
     ndStatus d \<in> {''succeeded'', ''skipped'', ''failed''} \<and> cleanErr (ndMsg d) \<and>
     (ndStatus d = ''skipped'' \<longleftrightarrow> \<not> nodeActive g m i) \<and>
     (\<exists>n0\<in>set (gNodes g). nodeKey n0 = i \<and> (ndStatus d = ''failed'' \<longrightarrow> nAllowFail n0) \<and>
        (normalizeNodeKind (nKind n0) = ''branch'' \<longrightarrow> ndResult d = RawBlank \<or> branchResult (ndResult d)))"

definition runInv :: "'f graph \<Rightarrow> string list \<Rightarrow> (string \<Rightarrow> 'f nodeRuntimeData option) \<Rightarrow> bool" where
  "runInv g P m \<longleftrightarrow> dom m = set P \<and> (\<forall>i d. m i = Some d \<longrightarrow> entryOK g m i d)"

definition cleanNodes :: "'f graph \<Rightarrow> (string \<Rightarrow> 'f nodeRuntimeData option) \<Rightarrow> bool" where
  "cleanNodes g m \<longleftrightarrow> (\<forall>i d. m i = Some d \<longrightarrow> i \<in> nodeKeys g \<and> cleanErr (ndMsg d))"

definition finalOK :: "'f graph \<Rightarrow> string list \<Rightarrow> 'f runState \<Rightarrow> bool" where
  "finalOK g ids st \<longleftrightarrow> isTerminalRunStatus (stStatus st) \<and> stEnded st \<and> cleanNodes g (nodesOf st) \<and>
     (stStatus st = ''succeeded'' \<longrightarrow> runInv g ids (nodesOf st))"

lemma runInv_clean: "runInv g P m \<Longrightarrow> set P \<subseteq> nodeKeys g \<Longrightarrow> cleanNodes g m"
  by (auto simp: runInv_def cleanNodes_def entryOK_def dom_def)

lemma nodeActive_cong: "(\<And>e. e \<in> set (incoming g i) \<Longrightarrow> m (trimSpace (eFrom e)) = m' (trimSpace (eFrom e))) \<Longrightarrow> nodeActive g m i = nodeActive g m' i"
  by (auto simp: nodeActive_def edgeActive_def)

lemma case_pointer: "parseJSONPointer ''/case'' = Inr [''case'']"
  by code_simp

lemma selected_case:
  "readSelectedBranchCase RawBlank = Inr None"
  "trimSpace name \<noteq> [] \<Longrightarrow> readSelectedBranchCase (RawDoc (JObj [(''case'', JStr name)])) = Inr (Some (trimSpace name))"
  by (simp_all add: readSelectedBranchCase_def readJSONSourceValue_def getJSONPointerValue_def case_pointer)

text \<open>Cancelling touches only the nodes that are under way.\<close>

lemma nodesOf_mark: "nodesOf (markActiveNodesCancelled r st) j = map_option (cancelNode r) (nodesOf st j)"
  by (simp add: markActiveNodesCancelled_def map_of_map)

lemma nodesOf_upd [simp]:
  "nodesOf (st\<lparr>stStatus := s\<rparr>) = nodesOf st" "nodesOf (st\<lparr>stEnded := b\<rparr>) = nodesOf st"
  "nodesOf (st\<lparr>stCancelReason := c\<rparr>) = nodesOf st" "nodesOf (st\<lparr>stCancelCalled := b\<rparr>) = nodesOf st"
  by simp_all

definition underWay :: "'f nodeRuntimeData \<Rightarrow> bool" where
  "underWay d = (ndStatus d \<in> set [''queued'', ''running''])"

definition cancelLike :: "('f nodeRuntimeData \<Rightarrow> 'f nodeRuntimeData) \<Rightarrow> bool" where
  "cancelLike f \<longleftrightarrow> (\<forall>d. (\<not> underWay d \<longrightarrow> f d = d) \<and> (cleanErr (ndMsg d) \<longrightarrow> cleanErr (ndMsg (f d))))"

lemma cancelLike_ops: "cancelLike id" "cancelLike (cancelNode r)"
  by (auto simp: cancelLike_def cancelNode_def underWay_def)

lemma nodesOf_cancel:
  obtains f where "cancelLike f" "\<And>j. nodesOf (cancelRunState r st) j = map_option f (nodesOf st j)"
proof (cases "isTerminalRunStatus (stStatus st)")
  case True
  then show thesis using that[OF cancelLike_ops(1)] by (simp add: cancelRunState_def option.map_id)
next
  case False
  let ?r = "if r \<noteq> [] \<and> trimSpace (stCancelReason st) = [] then r else stCancelReason st"
  show thesis by (rule that[OF cancelLike_ops(2)[of ?r]]) (simp add: cancelRunState_def False Let_def nodesOf_mark)
qed

lemma nodesOf_poll:
  obtains f where "cancelLike f" "\<And>j. nodesOf (poll intr clk st) j = map_option f (nodesOf st j)"
proof (cases "intr clk")
  case None
  then show thesis using that[OF cancelLike_ops(1)] by (simp add: poll_def option.map_id)
next
  case (Some r)
  obtain f where f: "cancelLike f" "\<And>j. nodesOf (cancelRunState r st) j = map_option f (nodesOf st j)"
    by (rule nodesOf_cancel[of r st]) blast
  show thesis by (rule that[OF f(1)]) (simp add: poll_def Some f(2))
qed

lemma nodesOf_settle:
  "nodesOf (settleCancelled st) j = map_option (cancelNode (if stCancelReason st = [] then ''cancelled'' else stCancelReason st)) (nodesOf st j)"
  by (simp add: settleCancelled_def Let_def nodesOf_mark)

lemma cleanNodes_map:
  assumes "cancelLike f" and "\<And>j. m' j = map_option f (m j)" and "cleanNodes g m"
  shows "cleanNodes g m'"
  using assms by (auto simp: cleanNodes_def cancelLike_def)

lemma cleanNodes_steps [simp, intro]:
  assumes "cleanNodes g (nodesOf st)"
  shows "cleanNodes g (nodesOf (cancelRunState r st))" "cleanNodes g (nodesOf (poll intr clk st))" "cleanNodes g (nodesOf (settleCancelled st))"
proof -
  show "cleanNodes g (nodesOf (cancelRunState r st))"
    by (rule nodesOf_cancel[of r st]) (rule cleanNodes_map[OF _ _ assms])
  show "cleanNodes g (nodesOf (poll intr clk st))"
    by (rule nodesOf_poll[of intr clk st]) (rule cleanNodes_map[OF _ _ assms])
  show "cleanNodes g (nodesOf (settleCancelled st))"
    by (rule cleanNodes_map[OF cancelLike_ops(2) nodesOf_settle assms])
qed

lemma runInv_settled: "runInv g P m \<Longrightarrow> m j = Some d \<Longrightarrow> \<not> underWay d"
  unfolding runInv_def entryOK_def underWay_def by (drule conjunct2, drule spec, drule spec, drule mp, assumption) force

lemma poll_settled:
  assumes "\<And>d. nodesOf st j = Some d \<Longrightarrow> \<not> underWay d"
  shows "nodesOf (poll intr clk st) j = nodesOf st j"
proof (rule nodesOf_poll[of intr clk st])
  fix f assume "cancelLike f" "\<And>j. nodesOf (poll intr clk st) j = map_option f (nodesOf st j)"
  then show ?thesis using assms by (cases "nodesOf st j") (auto simp: cancelLike_def)
qed

lemma runInv_poll: "runInv g P (nodesOf st) \<Longrightarrow> nodesOf (poll intr clk st) = nodesOf st"
  using poll_settled[of st] runInv_settled[of g P "nodesOf st"] by (intro ext) blast

text \<open>A validated graph with the index and the order that the executor computes for it.\<close>

definition prepared :: "bool \<Rightarrow> 'f graph \<Rightarrow> 'f graphIndex \<Rightarrow> string list \<Rightarrow> bool" where
  "prepared loop g idx ids \<longleftrightarrow> graphOK loop g \<and> buildGraphIndex g = Inr idx \<and> kahnIDs g = Inr ids"

lemma preparedD:
  assumes "prepared loop g idx ids"
  shows "distinct ids" "set ids = nodeKeys g" "parentsFirst (edgePairs (gEdges g)) ids" "graphOK loop g"
    "idxNode idx (trimSpace k) = map_of (nodeMap (gNodes g)) (trimSpace k)" "incomingEdges idx (trimSpace k) = incoming g (trimSpace k)"
  using assms kahnIDs_Inr[of g ids]
  by (auto simp: prepared_def isTopoOrder_def idxNode_def incomingEdges_def incoming_def buildGraphIndex_Inr(2)[of g] buildGraphIndex_Inr(3)[of g])

text \<open>The parents of the next node have all been passed.\<close>

lemma prepared_parents:
  assumes "prepared loop g idx (P @ i # Q)" and "e \<in> set (incoming g i)"
  shows "trimSpace (eFrom e) \<in> set P"
proof -
  have "(trimSpace (eFrom e), i) \<in> edgeRel g" using assms(2) by (force simp: incoming_def edgePairs_def)
  then show ?thesis
    using preparedD(3)[OF assms(1)] by (auto simp: parentsFirst_def dest!: spec[of _ "length P"])
qed

lemma prepared_parents_before:
  assumes "prepared loop g idx (P @ Q)" and "j \<in> set P" and "e \<in> set (incoming g j)"
  shows "trimSpace (eFrom e) \<in> set P"
proof -
  obtain A B where P: "P = A @ j # B" using split_list[OF assms(2)] by blast
  then show ?thesis using prepared_parents[of loop g idx A j "B @ Q" e] assms(1,3) by simp
qed

lemma graphOK_node:
  assumes "graphOK loop g" and "n \<in> set (gNodes g)"
  shows "decodable n \<and> nodeKey n \<noteq> []"
proof (rule graphOKE[OF assms(1)])
  assume a: "[] \<notin> nodeKeys g" "\<forall>n\<in>set (gNodes g). decodable n \<and> (\<forall>s\<in>set (nodeSources n). sourceOK g loop (nodeKey n) s)"
  have "nodeKey n \<in> nodeKeys g" using assms(2) by blast
  then have "nodeKey n \<noteq> []" using a(1) by metis
  then show ?thesis using a(2) assms(2) by blast
qed

lemma graphOK_edge:
  assumes "graphOK loop g" and "n \<in> set (gNodes g)" and "e \<in> set (gEdges g)" and "trimSpace (eFrom e) = nodeKey n"
  shows "edgeCaseOK n e"
  by (rule graphOKE[OF assms(1)]) (use assms(2-4) in blast)

lemma prepared_node:
  assumes "prepared loop g idx ids" and "i \<in> set ids"
  obtains n n0 where "map_of (nodeMap (gNodes g)) i = Some n" "nodeKey n = i" "n0 \<in> set (gNodes g)" "n = setID i n0" "nodeKey n0 = i"
    "decodable n0" "i \<noteq> []"
proof -
  have ids: "kahnIDs g = Inr ids" and ok: "graphOK loop g" using assms(1) by (auto simp: prepared_def)
  from order_node[OF ids assms(2)] obtain n n0 where n: "map_of (nodeMap (gNodes g)) i = Some n" "nodeKey n = i" "n0 \<in> set (gNodes g)"
    "n = setID i n0" "nodeKey n0 = i" by metis
  moreover have "decodable n0" "i \<noteq> []" using graphOK_node[OF ok n(3)] n(5) by auto
  ultimately show thesis by (rule that)
qed

lemma same_key: "graphOK loop g \<Longrightarrow> n \<in> set (gNodes g) \<Longrightarrow> n' \<in> set (gNodes g) \<Longrightarrow> nodeKey n = nodeKey n' \<Longrightarrow> n = n'"
  by (auto elim!: graphOKE simp: distinct_map dest: inj_onD)

lemma countActive_counts:
  assumes "prepared loop g idx (P @ Q)" and "runInv g P (nodesOf st)"
  shows "\<forall>e\<in>set es. e \<in> set (gEdges g) \<and> trimSpace (eFrom e) \<in> set P \<Longrightarrow>
    countActive idx st es c = Inr (c + length (filter (edgeActive g (nodesOf st)) es))"
proof (induction es arbitrary: c)
  case (Cons e es)
  let ?p = "trimSpace (eFrom e)"
  have p: "?p \<in> set P" "e \<in> set (gEdges g)" using Cons.prems by auto
  obtain n n0 where n: "map_of (nodeMap (gNodes g)) ?p = Some n" "n0 \<in> set (gNodes g)" "n = setID ?p n0" "nodeKey n0 = ?p"
    by (rule prepared_node[OF assms(1), of ?p]) (use p in auto)
  obtain d where d: "nodesOf st ?p = Some d" "entryOK g (nodesOf st) ?p d"
    using assms(2) p(1) unfolding runInv_def by blast
  have kind: "nKind n = nKind n0" by (simp add: n(3) setID_def)
  have case_ok: "edgeCaseOK n0 e" by (rule graphOK_edge[OF preparedD(4)[OF assms(1)] n(2) p(2) n(4)[symmetric]])
  have res: "ndResult d = RawBlank \<or> branchResult (ndResult d)" if "normalizeNodeKind (nKind n0) = ''branch''"
  proof -
    obtain n1 where n1: "n1 \<in> set (gNodes g)" "nodeKey n1 = ?p"
      "normalizeNodeKind (nKind n1) = ''branch'' \<longrightarrow> ndResult d = RawBlank \<or> branchResult (ndResult d)"
      using d(2) unfolding entryOK_def by blast
    have "n1 = n0" by (rule same_key[OF preparedD(4)[OF assms(1)] n1(1) n(2)]) (simp add: n1(2) n(4))
    then show ?thesis using n1(3) that by blast
  qed
  have idx: "idxNode idx ?p = Some n" using preparedD(5)[OF assms(1)] n(1) by simp
  show ?case
    using Cons.IH Cons.prems d(1) n(1) case_ok res
    by (auto simp: Let_def idx kind edgeActive_def edgeCaseOK_def branchResult_def selected_case split: if_splits)
qed simp

lemma shouldExecute_exact:
  assumes "prepared loop g idx (P @ i # Q)" and "runInv g P (nodesOf st)"
  shows "shouldExecuteNode idx i st = Inr (nodeActive g (nodesOf st) i)"
proof -
  have i: "trimSpace i = i" by (rule prepared_node[OF assms(1), of i]) auto
  have "countActive idx st (incoming g i) 0 = Inr (length (filter (edgeActive g (nodesOf st)) (incoming g i)))"
    using countActive_counts[OF assms, of "incoming g i" 0] prepared_parents[OF assms(1)] by (auto simp: incoming_def)
  then show ?thesis
    using preparedD(6)[OF assms(1), of i] i by (auto simp: shouldExecuteNode_def nodeActive_def filter_empty_conv)
qed

text \<open>Recording the next node keeps the invariant: no record that is there depends on it.\<close>

lemma runInv_add:
  assumes prep: "prepared loop g idx (P @ i # Q)" and inv: "runInv g P m"
    and n0: "n0 \<in> set (gNodes g)" "nodeKey n0 = i"
    and d: "ndStatus d \<in> {''succeeded'', ''skipped'', ''failed''}" "cleanErr (ndMsg d)" "ndStatus d = ''skipped'' \<longleftrightarrow> \<not> nodeActive g m i"
      "ndStatus d = ''failed'' \<Longrightarrow> nAllowFail n0"
      "normalizeNodeKind (nKind n0) = ''branch'' \<Longrightarrow> ndResult d = RawBlank \<or> branchResult (ndResult d)"
  shows "runInv g (P @ [i]) (m(i \<mapsto> d))"
proof -
  have fresh: "i \<notin> set P" using preparedD(1)[OF prep] by auto
  have act: "nodeActive g (m(i \<mapsto> d)) j = nodeActive g m j" if "j \<in> set (P @ [i])" for j
  proof (rule nodeActive_cong)
    fix e assume "e \<in> set (incoming g j)"
    then have "trimSpace (eFrom e) \<in> set P"
      using that prepared_parents[OF prep] prepared_parents_before[OF prep] by (cases "j = i") auto
    then show "(m(i \<mapsto> d)) (trimSpace (eFrom e)) = m (trimSpace (eFrom e))" using fresh by auto
  qed
  have "entryOK g (m(i \<mapsto> d)) j d'" if "(m(i \<mapsto> d)) j = Some d'" for j d'
  proof (cases "j = i")
    case True
    then show ?thesis using that n0 d act[of i] by (auto simp: entryOK_def)
  next
    case False
    then have j: "m j = Some d'" "j \<in> set P" using that inv by (auto simp: runInv_def dom_def)
    then show ?thesis using inv act[of j] by (auto simp: runInv_def entryOK_def)
  qed
  then show ?thesis using inv by (auto simp: runInv_def)
qed

section \<open>The loop\<close>

definition statusOK :: "'f runState \<Rightarrow> bool" where
  "statusOK st \<longleftrightarrow> stStatus st = ''running'' \<or> stStatus st = ''cancelled'' \<and> stEnded st"

lemma mark_fields [simp]:
  "stStatus (markActiveNodesCancelled r st) = stStatus st" "stEnded (markActiveNodesCancelled r st) = stEnded st"
  by (simp_all add: markActiveNodesCancelled_def)

lemma cancel_fields:
  "statusOK st \<Longrightarrow> stStatus (cancelRunState r st) = ''cancelled'' \<and> stEnded (cancelRunState r st)"
  by (auto simp: cancelRunState_def isTerminalRunStatus_def statusOK_def Let_def)

lemma statusOK_poll [simp]: "statusOK st \<Longrightarrow> statusOK (poll intr clk st)"
  using cancel_fields[of st] by (cases "intr clk") (auto simp: poll_def statusOK_def)

lemma statusOK_set [simp]: "statusOK (setNodeRuntime i d st) = statusOK st"
  by (simp add: statusOK_def setNodeRuntime_def)

lemma nodesOf_set: "trimSpace i = i \<Longrightarrow> i \<noteq> [] \<Longrightarrow> nodesOf (setNodeRuntime i d st) = (nodesOf st)(i \<mapsto> d)"
  by (simp add: setNodeRuntime_def update_conv')

lemma settle_fields [simp]: "stStatus (settleCancelled st) = stStatus st" "stEnded (settleCancelled st)"
  by (simp_all add: settleCancelled_def Let_def)

lemma final_cancelled: "statusOK st \<Longrightarrow> cleanNodes g (nodesOf st) \<Longrightarrow> finalOK g ids (cancelRunState r st)"
  using cancel_fields[of st r] by (simp add: finalOK_def isTerminalRunStatus_def cleanNodes_steps)

lemma final_settled: "stStatus st = ''cancelled'' \<Longrightarrow> cleanNodes g (nodesOf st) \<Longrightarrow> finalOK g ids (settleCancelled st)"
  by (simp add: finalOK_def isTerminalRunStatus_def cleanNodes_steps)

lemma final_failed: "cleanNodes g (nodesOf st) \<Longrightarrow> finalOK g ids (st\<lparr>stStatus := ''failed'', stEnded := True\<rparr>)"
  by (simp add: finalOK_def isTerminalRunStatus_def)

lemma cleanNodes_set: "cleanNodes g m \<Longrightarrow> i \<in> nodeKeys g \<Longrightarrow> cleanErr (ndMsg d) \<Longrightarrow> cleanNodes g (m(i \<mapsto> d))"
  by (auto simp: cleanNodes_def)

lemma nodeRecord_facts:
  "cleanResult r \<Longrightarrow> cleanErr (ndMsg (nodeRecord r))" "ndStatus (nodeRecord r) \<in> {''succeeded'', ''failed''}"
  "ndStatus (nodeRecord r) = ''succeeded'' \<Longrightarrow> snd (snd r) = None \<and> ndResult (nodeRecord r) = fst (snd r)"
  "ndStatus (nodeRecord r) = ''failed'' \<Longrightarrow> ndResult (nodeRecord r) = RawBlank"
  by (auto simp: nodeRecord_def cleanResult_def split: prod.splits if_splits)

lemma setID_fields [simp]: "nKind (setID i n) = nKind n" "nSpec (setID i n) = nSpec n" "nAllowFail (setID i n) = nAllowFail n"
  by (simp_all add: setID_def)

lemma decodable_setID [simp]: "decodable (setID i n) = decodable n"
  by (simp add: decodable_def decodeNodeCallSpec_def decodeNodeComposeSpec_def decodeNodeSetVarSpec_def decodeNodeTransformSpec_def
      decodeNodeBranchSpec_def decodeNodeForeachSpec_def decodeNodeSubflowSpec_def)

text \<open>A node that is executed: what the attempts leave behind, and the invariant after its record has been written.\<close>

lemma active_attempt:
  fixes intr :: "nat \<Rightarrow> string option"
  assumes prep: "prepared loop g idx (P @ i # Q)" and inv: "runInv g P m"
    and n0: "n0 \<in> set (gNodes g)" "nodeKey n0 = i" "decodable n0" "i \<noteq> []"
    and s2: "nodesOf s2 = m" "statusOK s2"
    and att: "attemptNode k env rec ctx stack (setNodeRuntime i (plainRecord ''running'') s2) (setID i n0) t b clk = Ret (r, st2, clk2)"
  defines "s6 \<equiv> setNodeRuntime i (nodeRecord r) (poll intr (clk2 + 1) (poll intr clk2 st2))"
  shows "cleanNodes g (nodesOf st2)" and "statusOK st2" and "cleanNodes g (nodesOf s6)"
    and "nodeActive g m i \<Longrightarrow> ndStatus (nodeRecord r) = ''succeeded'' \<or> nAllowFail n0 \<Longrightarrow> runInv g (P @ [i]) (nodesOf s6)"
proof -
  have i: "trimSpace i = i" using n0(2) trimSpace_nodeKey by metis
  have iV: "i \<in> nodeKeys g" using n0(1,2) by blast
  have cl: "cleanNodes g m" using runInv_clean[OF inv] preparedD(2)[OF prep] by auto
  have facts: "cleanResult r" "sameRun (setNodeRuntime i (plainRecord ''running'') s2) st2"
    "normalizeNodeKind (nKind n0) = ''branch'' \<longrightarrow> snd (snd r) = None \<longrightarrow> branchResult (fst (snd r))"
    using attemptNode_facts[OF _ att] n0(3) by auto
  have st2: "nodesOf st2 = m(i \<mapsto> plainRecord ''running'')"
    using facts(2) nodesOf_set[OF i n0(4), of "plainRecord ''running''" s2] s2(1) by (simp add: sameRun_def)
  show "cleanNodes g (nodesOf st2)" unfolding st2 by (rule cleanNodes_set[OF cl iV]) (simp add: plainRecord_def)
  show "statusOK st2" using facts(2) s2(2) by (simp add: sameRun_def statusOK_def setNodeRuntime_def)
  have "nodesOf s6 j = (m(i \<mapsto> nodeRecord r)) j" for j
    using poll_settled[of st2 j intr clk2] poll_settled[of "poll intr clk2 st2" j intr "clk2 + 1"] runInv_settled[OF inv, of j]
    by (cases "j = i") (simp_all add: s6_def nodesOf_set[OF i n0(4)] st2)
  then have n6: "nodesOf s6 = m(i \<mapsto> nodeRecord r)" by blast
  show "cleanNodes g (nodesOf s6)" unfolding n6 by (rule cleanNodes_set[OF cl iV nodeRecord_facts(1)[OF facts(1)]])
  have rt: "ndStatus (nodeRecord r) \<in> {''succeeded'', ''failed''}" by (rule nodeRecord_facts(2))
  assume active: "nodeActive g m i" and allowed: "ndStatus (nodeRecord r) = ''succeeded'' \<or> nAllowFail n0"
  show "runInv g (P @ [i]) (nodesOf s6)" unfolding n6
  proof (rule runInv_add[OF prep inv n0(1,2)])
    show "ndStatus (nodeRecord r) \<in> {''succeeded'', ''skipped'', ''failed''}" "ndStatus (nodeRecord r) = ''skipped'' \<longleftrightarrow> \<not> nodeActive g m i"
      using rt active by auto
    show "nAllowFail n0" if "ndStatus (nodeRecord r) = ''failed''" using allowed that by auto
    show "ndResult (nodeRecord r) = RawBlank \<or> branchResult (ndResult (nodeRecord r))" if "normalizeNodeKind (nKind n0) = ''branch''"
      using facts(3) that rt nodeRecord_facts(3,4)[of r] by auto
  qed (rule nodeRecord_facts(1)[OF facts(1)])
qed

text \<open>One round of the loop: either the run ends here, properly, or the rest of the loop runs from a state with the invariant.\<close>

lemma run_round:
  assumes prep: "prepared loop g idx (P @ i # Q)" and inv: "runInv g P (nodesOf st)" and status: "statusOK st"
    and run: "runNodes env rec intr ctx stack idx st (map (map_of (nodeMap (gNodes g))) (i # Q)) clk = Ret (st', clk')"
  shows "finalOK g ids st' \<or> (\<exists>s k. runInv g (P @ [i]) (nodesOf s) \<and> statusOK s \<and>
    runNodes env rec intr ctx stack idx s (map (map_of (nodeMap (gNodes g))) Q) k = Ret (st', clk'))"
proof -
  let ?s1 = "poll intr clk st" and ?s2 = "poll intr (clk + 1) (poll intr clk st)"
  obtain n n0 where n: "map_of (nodeMap (gNodes g)) i = Some n" "nodeKey n = i" "n0 \<in> set (gNodes g)" "n = setID i n0" "nodeKey n0 = i"
    "decodable n0" "i \<noteq> []"
    by (rule prepared_node[OF prep, of i]) auto
  have i: "trimSpace i = i" using n(5) trimSpace_nodeKey by metis
  have n1: "nodesOf ?s1 = nodesOf st" by (rule runInv_poll[OF inv])
  have n2: "nodesOf ?s2 = nodesOf st" using runInv_poll[of g P ?s1] inv n1 by simp
  have cl: "cleanNodes g (nodesOf st)" using runInv_clean[OF inv] preparedD(2)[OF prep] by auto
  have sh: "shouldExecuteNode idx i ?s1 = Inr (nodeActive g (nodesOf st) i)"
    using shouldExecute_exact[OF prep, of ?s1] inv n1 by simp
  consider (off) "ctx clk \<noteq> CtxOK" | (skip) "ctx clk = CtxOK" "\<not> nodeActive g (nodesOf st) i"
    | (active) "ctx clk = CtxOK" "nodeActive g (nodesOf st) i" by blast
  then show ?thesis
  proof cases
    case off
    then have "st' = markRunCancelled ?s1" using run n(1) by (simp add: Let_def)
    then show ?thesis using final_cancelled[of ?s1 g] cl status by simp
  next
    case skip
    have "runInv g (P @ [i]) ((nodesOf st)(i \<mapsto> plainRecord ''skipped''))"
      by (rule runInv_add[OF prep inv n(3,5)]) (use skip in \<open>auto simp: plainRecord_def\<close>)
    then have "runInv g (P @ [i]) (nodesOf (setNodeRuntime i (plainRecord ''skipped'') ?s2))" unfolding nodesOf_set[OF i n(7)] n2 .
    moreover have "statusOK (setNodeRuntime i (plainRecord ''skipped'') ?s2)" using status by simp
    moreover have "runNodes env rec intr ctx stack idx (setNodeRuntime i (plainRecord ''skipped'') ?s2)
        (map (map_of (nodeMap (gNodes g))) Q) (clk + 2) = Ret (st', clk')"
      using run n(1,2,7) skip sh by (simp add: Let_def)
    ultimately show ?thesis by blast
  next
    case active
    let ?s3 = "setNodeRuntime i (plainRecord ''running'') ?s2"
    obtain r st2 clk2 where att: "attemptNode (nodeRetries n) env rec ctx stack ?s3 n (nodeTimeout n) (nodeBackoff n) (clk + 2) = Ret (r, st2, clk2)"
      using run n(1,2,7) active sh by (auto simp: Let_def)
    let ?s4 = "poll intr clk2 st2" and ?s5 = "poll intr (clk2 + 1) (poll intr clk2 st2)"
    let ?s6 = "setNodeRuntime i (nodeRecord r) ?s5"
    have s2: "statusOK ?s2" using status by simp
    note facts = active_attempt(1,2)[OF prep inv n(3,5,6,7) n2 s2 att[unfolded n(4)]]
      active_attempt(3,4)[OF prep inv n(3,5,6,7) n2 s2 att[unfolded n(4)], where intr = intr]
    have res: "(if ctx clk2 \<noteq> CtxOK then Ret (markRunCancelled ?s4, clk2 + 1)
        else if stStatus ?s5 = ''cancelled'' then Ret (settleCancelled ?s5, clk2 + 2)
        else if ndStatus (nodeRecord r) \<noteq> ''succeeded'' \<and> \<not> nAllowFail n then
          Ret ((poll intr (clk2 + 2) ?s6)\<lparr>stStatus := ''failed'', stEnded := True\<rparr>, clk2 + 3)
        else runNodes env rec intr ctx stack idx ?s6 (map (map_of (nodeMap (gNodes g))) Q) (clk2 + 2)) = Ret (st', clk')"
      using run[unfolded list.map n(1) runNodes.simps Let_def n(2)] n(7) active sh att
      by (cases r) (simp split del: if_split cong del: if_weak_cong)
    have allow: "nAllowFail n = nAllowFail n0" by (simp add: n(4))
    consider (c) "st' = markRunCancelled ?s4" | (s) "stStatus ?s5 = ''cancelled''" "st' = settleCancelled ?s5"
      | (f) "st' = (poll intr (clk2 + 2) ?s6)\<lparr>stStatus := ''failed'', stEnded := True\<rparr>"
      | (go) "ndStatus (nodeRecord r) = ''succeeded'' \<or> nAllowFail n0"
          "runNodes env rec intr ctx stack idx ?s6 (map (map_of (nodeMap (gNodes g))) Q) (clk2 + 2) = Ret (st', clk')"
      using res unfolding allow by (auto split: if_splits)
    then show ?thesis
    proof cases
      case go
      then show ?thesis using facts(2) facts(4)[OF active(2) go(1)] by (metis statusOK_poll statusOK_set)
    qed (use facts final_cancelled[of ?s4 g] final_settled[of ?s5 g] final_failed[of g "poll intr (clk2 + 2) ?s6"] in simp_all)
  qed
qed

lemma run_loop:
  assumes "prepared loop g idx (P @ Q)" and "runInv g P (nodesOf st)" and "statusOK st"
    and "runNodes env rec intr ctx stack idx st (map (map_of (nodeMap (gNodes g))) Q) clk = Ret (st', clk')"
  shows "finalOK g (P @ Q) st'"
  using assms
proof (induction Q arbitrary: P st clk)
  case Nil
  let ?s1 = "poll intr clk st" and ?s2 = "poll intr (clk + 1) (poll intr clk st)"
  have n1: "nodesOf ?s1 = nodesOf st" by (rule runInv_poll[OF Nil.prems(2)])
  have n2: "nodesOf ?s2 = nodesOf st" using runInv_poll[of g P ?s1] Nil.prems(2) n1 by simp
  have cl: "cleanNodes g (nodesOf st)" using runInv_clean[OF Nil.prems(2)] preparedD(2)[OF Nil.prems(1)] by simp
  show ?case
    using Nil.prems(2-4) n1 n2 cl final_cancelled[of ?s1 g P "''cancelled''"] final_settled[of ?s2 g P]
    by (auto simp: Let_def finalOK_def isTerminalRunStatus_def split: if_splits)
next
  case (Cons i Q)
  have prep: "prepared loop g idx ((P @ [i]) @ Q)" using Cons.prems(1) by simp
  from run_round[OF Cons.prems, of "P @ i # Q"] show ?case
    using Cons.IH[OF prep] by auto
qed

lemma graph_run:
  assumes "validateGraphScoped fid loop g = None" and nodes: "rcNodes (stRuntime st) = []"
    and run: "graphBody env rec intr ctx stack g st clk = Ret (st', clk')"
  shows "\<exists>ids. isTopoOrder (nodeKeys g) (edgePairs (gEdges g)) ids \<and> finalOK g ids st'"
proof -
  have ok: "graphOK loop g" by (rule validate_graphOK[OF assms(1)])
  have edges: "list_all (goodEdge (nodeKeys g)) (gEdges g)" "acyclic (edgeRel g)" by (rule graphOKE[OF ok]; simp)+
  obtain idx where idx: "buildGraphIndex g = Inr idx" by (rule buildGraphIndex_ok[OF edges])
  obtain ids where ids: "kahnIDs g = Inr ids" using kahnIDs_Inl[of g] edges by (cases "kahnIDs g") auto
  let ?s = "poll intr clk st"
  have n: "nodesOf ?s = Map.empty" using poll_settled[of st _ intr clk] nodes by fastforce
  then have n': "nodesOf ?s j = None" for j by simp
  have "finalOK g ids st'"
  proof (cases "ctx clk = CtxOK")
    case False
    then have "st' = settleCancelled (?s\<lparr>stStatus := ''cancelled''\<rparr>)" using run by (simp add: graphBody_def Let_def)
    then show ?thesis using final_settled[of "?s\<lparr>stStatus := ''cancelled''\<rparr>" g ids] n' by (simp add: cleanNodes_def)
  next
    case True
    then have loop: "runNodes env rec intr ctx stack idx (?s\<lparr>stStatus := ''running''\<rparr>) (map (map_of (nodeMap (gNodes g))) ids) (clk + 1) = Ret (st', clk')"
      using run idx ids by (simp add: graphBody_def Let_def topoOrder_def)
    have "prepared loop g idx ([] @ ids)" using ok idx ids by (simp add: prepared_def)
    from run_loop[OF this _ _ loop] show ?thesis using n' by (simp add: runInv_def statusOK_def dom_def)
  qed
  then show ?thesis using kahnIDs_Inr[OF ids] by blast
qed

end
