(* ===== verification/Flow_Correct.thy ===== *)
theory Flow_Correct
  imports Flow_Sound
begin

text \<open>
  The properties of flows: runs come to an end, the runs of a validated graph meet only errors of data and of callees and treat every node as the
  edges say, documents and pointers round trip. The examples show the hypotheses at work and where the code departs from its documentation.
\<close>

section \<open>Runs end\<close>

text \<open>
  C6: A run always comes to an end as far as the orchestrator is concerned: however flows call each other as subflows, and however deep \<open>foreach\<close> bodies
  are nested, \<open>executeGraph\<close> needs no more nested runs than the nesting of the graph and of the stored flows, since a flow that is
  already running is refused. With that depth it returns (or panics), for every behaviour of the called methods and every cancellation.
\<close>
theorem flow_run_terminates:
  assumes "flowTableOK (reFlows env)" and "runDepth (reFlows env) stack g < d"
  shows "executeGraph d env intr ctx stack g st clk \<noteq> Blocked"
  using assms by (rule executeGraph_returns)

definition demoOps :: "nat valueOps" where
  "demoOps = \<lparr>voOfInt = nat, voAdd = (+), voSub = (-), voMul = (*), voDiv = (div), voMod = (mod), voNeg = id, voAbs = id,
     voLess = (<), voLessEq = (\<le>), voIsZero = (\<lambda>n. n = 0), voFinite = (\<lambda>n. True), voLower = id, voUpper = id, voText = (\<lambda>v. [])\<rparr>"

definition demoSubflow :: "string \<Rightarrow> string \<Rightarrow> nat node" where
  "demoSubflow i fid = Node i ''subflow'' False None None None
     (SpecSubflow \<lparr>sfFlowID = fid, sfInputTemplate = RawBlank, sfInputs = [], sfResultNodeID = []\<rparr>)"

definition demoConst :: "string \<Rightarrow> nat \<Rightarrow> nat node" where
  "demoConst i v = Node i ''compose'' False None None None (SpecCompose \<lparr>cpTemplate = RawDoc (JNum v), cpInputs = []\<rparr>)"

definition demoFlows :: "(string, string \<times> nat graph) gomap" where
  "demoFlows = [(''f'', ''f'', [demoSubflow ''s'' ''g''], []), (''g'', ''g'', [demoSubflow ''s'' ''f'', demoConst ''c'' 3], [])]"

definition demoEnv :: "nat runEnv" where
  "demoEnv = \<lparr>reOps = demoOps, reLim = 100, reFlows = demoFlows, reServer = None, reLocal = (\<lambda>m. None), reCap = (\<lambda>m. None),
     reRemote = (\<lambda>t q. RespTimeout), reWithTimeout = (\<lambda>c ms clk. c), reBackoff = (\<lambda>c ms clk. True), reUUID = (\<lambda>n. ''u''), reExecProto = 7\<rparr>"

definition demoRun :: "nat runState" where
  "demoRun = newNestedRunState ''f'' ''r'' 1 RawBlank"

definition demoRead :: "string \<Rightarrow> string \<Rightarrow> nat node" where
  "demoRead i from = Node i ''compose'' False None None None
     (SpecCompose \<lparr>cpTemplate = RawDoc (JObj []), cpInputs =
        [\<lparr>ibTo = ''/v'', ibSource = \<lparr>bsKind = ''node_result'', bsNodeID = from, bsPath = [], bsField = [], bsName = []\<rparr>, ibRequired = True\<rparr>]\<rparr>)"

definition demoPair :: "nat graph" where
  "demoPair = ([demoConst ''a'' 3, demoRead ''b'' ''a''], [demoEdge ''a'' ''b''])"

lemma demoEnv_flows: "reFlows demoEnv = demoFlows"
  by (simp add: demoEnv_def)

lemma demo_table: "flowTableOK demoFlows"
  by (simp add: demoFlows_def flowTableOK_def)

lemma demo_nest [simp]: "foreachNest ([demoSubflow i k], es) = 0" "foreachNest demoPair = 0" "foreachNest ([demoSubflow i k, demoConst j v], es) = 0"
  by (subst foreachNest.simps, simp add: demoPair_def demoRead_def demoSubflow_def demoConst_def foreachBody_def)+

text \<open>Two flows that call each other: the second call of the first flow is refused, one nested run is enough.\<close>

theorem flow_run_terminates_witness:
  "flowTableOK (reFlows demoEnv) \<and> runDepth (reFlows demoEnv) [''f''] ([demoSubflow ''s'' ''g''], []) < 2 \<and>
   executeGraph 2 demoEnv (\<lambda>_. None) (\<lambda>_. CtxOK) [''f''] ([demoSubflow ''s'' ''g''], []) demoRun 0 \<noteq> Blocked"
proof -
  have keys: "fst ` set demoFlows - set [''f''] = {''g''}" by (auto simp: demoFlows_def)
  have ok: "flowTableOK (reFlows demoEnv)" unfolding demoEnv_flows by (rule demo_table)
  have depth: "runDepth (reFlows demoEnv) [''f''] ([demoSubflow ''s'' ''g''], []) < 2"
    unfolding runDepth_def demoEnv_flows keys by (simp add: demoFlows_def gget_def)
  show ?thesis using ok depth flow_run_terminates[OF ok depth] by blast
qed

section \<open>Runs of validated graphs\<close>



lemma demoPair_valid: "validateGraphForFlow ''h'' demoPair = None"
  by code_simp


section \<open>Documents\<close>

text \<open>
  C30: A value written at a JSON pointer is read back at the same pointer, and every value at a pointer that parts from it somewhere reads as before.
\<close>
theorem flow_pointer_roundtrip:
  assumes "setJSONPointerValue lim doc p v = Ret (Inr doc')"
  shows "getJSONPointerValue doc' p = Inr (Some v) \<and>
    (\<forall>q ts us w. parseJSONPointer p = Inr ts \<longrightarrow> parseJSONPointer q = Inr us \<longrightarrow> diverge ts us \<longrightarrow>
       getJSONPointerValue doc q = Inr (Some w) \<longrightarrow> getJSONPointerValue doc' q = Inr (Some w))"
proof -
  obtain ts where ts: "parseJSONPointer p = Inr ts" "setJSONPointerTokens lim doc ts v = Ret (Inr doc')"
    using assms by (auto simp: setJSONPointerValue_def split: sum.splits)
  show ?thesis
    using get_after_set[OF ts(2)] get_set_other[OF ts(2)] ts(1) by (auto simp: getJSONPointerValue_def)
qed

theorem flow_pointer_roundtrip_witness:
  "setJSONPointerValue 9 (JObj [(''a'', JNum (1::nat))]) ''/b/x~1y'' (JStr ''v'') =
     Ret (Inr (JObj [(''a'', JNum 1), (''b'', JObj [(''x/y'', JStr ''v'')])])) \<and>
   getJSONPointerValue (JObj [(''a'', JNum (1::nat)), (''b'', JObj [(''x/y'', JStr ''v'')])]) ''/b/x~1y'' = Inr (Some (JStr ''v''))"
proof -
  have "setJSONPointerValue 9 (JObj [(''a'', JNum (1::nat))]) ''/b/x~1y'' (JStr ''v'') =
     Ret (Inr (JObj [(''a'', JNum 1), (''b'', JObj [(''x/y'', JStr ''v'')])]))" by code_simp
  with flow_pointer_roundtrip[OF this] show ?thesis by blast
qed

text \<open>The targets of a list of bindings part from each other.\<close>

definition partsFrom :: "inputBinding \<Rightarrow> inputBinding \<Rightarrow> bool" where
  "partsFrom b c = (case (parseJSONPointer (ibTo b), parseJSONPointer (ibTo c)) of (Inr ts, Inr us) \<Rightarrow> diverge us ts | _ \<Rightarrow> False)"

primrec targetsDiverge :: "inputBinding list \<Rightarrow> bool" where
  "targetsDiverge [] = True"
| "targetsDiverge (b # bs) = (list_all (partsFrom b) bs \<and> targetsDiverge bs)"

lemma applyBindings_step:
  assumes "applyBindings lim st (b # bs) doc = Ret (Inr doc')" and "resolveBindingSource st (ibSource b) = Inr (Some v)"
  obtains ts doc1 where "parseJSONPointer (ibTo b) = Inr ts" "setJSONPointerTokens lim doc ts v = Ret (Inr doc1)" "applyBindings lim st bs doc1 = Ret (Inr doc')"
proof -
  obtain r where r: "setJSONPointerValue lim doc (ibTo b) v = Ret r" "(case r of Inl e \<Rightarrow> Ret (Inl (RJson e)) | Inr d \<Rightarrow> applyBindings lim st bs d) = Ret (Inr doc')"
    using assms by auto
  from r(2) obtain d where "r = Inr d" "applyBindings lim st bs d = Ret (Inr doc')" by (cases r) simp_all
  with r(1) that show thesis by (cases "parseJSONPointer (ibTo b)") (auto simp: setJSONPointerValue_def)
qed

lemma applyBindings_keeps:
  assumes "applyBindings lim st bs doc = Ret (Inr doc')" and "getJSONPointerValue doc p = Inr (Some w)"
    and "p = ibTo b0" and "list_all (partsFrom b0) bs"
  shows "getJSONPointerValue doc' p = Inr (Some w)"
  using assms
proof (induction bs arbitrary: doc)
  case (Cons b bs)
  obtain ts us where us: "parseJSONPointer (ibTo b) = Inr us" "diverge us ts" "parseJSONPointer p = Inr ts"
    using Cons.prems(3,4) by (auto simp: partsFrom_def split: sum.splits)
  show ?case
  proof (cases "resolveBindingSource st (ibSource b)")
    case (Inr r)
    show ?thesis
    proof (cases r)
      case None
      then show ?thesis using Cons Inr by (auto split: if_splits)
    next
      case (Some v)
      then obtain doc1 where d: "setJSONPointerTokens lim doc us v = Ret (Inr doc1)" "applyBindings lim st bs doc1 = Ret (Inr doc')"
        using applyBindings_step[OF Cons.prems(1)] Inr us(1) by (metis sum.inject(2))
      have "getJSONPointerValue doc1 p = Inr (Some w)"
        using get_set_other[OF d(1) us(2)] Cons.prems(2) us(3) by (simp add: getJSONPointerValue_def)
      then show ?thesis using Cons.IH[OF d(2)] Cons.prems(3,4) by auto
    qed
  qed (use Cons.prems in auto)
qed simp

text \<open>
  C22: The document that a node is given carries every input: when no target of a binding lies on the way to another, each binding whose
  source has a value puts that value at its target, and a required source that has none makes the whole call fail.
\<close>
theorem flow_bindings_delivered:
  assumes "applyBindings lim st bs doc = Ret (Inr doc')" and "targetsDiverge bs" and "b \<in> set bs"
  shows "(\<exists>v. resolveBindingSource st (ibSource b) = Inr (Some v) \<and> getJSONPointerValue doc' (ibTo b) = Inr (Some v)) \<or>
    resolveBindingSource st (ibSource b) = Inr None \<and> \<not> ibRequired b"
  using assms
proof (induction bs arbitrary: doc)
  case (Cons c bs)
  have div: "targetsDiverge bs" "list_all (partsFrom c) bs" using Cons.prems(2) by auto
  obtain r where r: "resolveBindingSource st (ibSource c) = Inr r" using Cons.prems(1) by (cases "resolveBindingSource st (ibSource c)") auto
  show ?case
  proof (cases r)
    case None
    then show ?thesis using Cons.IH[OF _ div(1)] Cons.prems(1,3) r by (auto split: if_splits)
  next
    case (Some v)
    then obtain ts doc1 where d: "parseJSONPointer (ibTo c) = Inr ts" "setJSONPointerTokens lim doc ts v = Ret (Inr doc1)" "applyBindings lim st bs doc1 = Ret (Inr doc')"
      using applyBindings_step[OF Cons.prems(1)] r by metis
    have "getJSONPointerValue doc1 (ibTo c) = Inr (Some v)" using get_after_set[OF d(2)] d(1) by (simp add: getJSONPointerValue_def)
    then have "getJSONPointerValue doc' (ibTo c) = Inr (Some v)" using applyBindings_keeps[OF d(3) _ refl div(2)] by blast
    then show ?thesis using Cons.IH[OF d(3) div(1)] Cons.prems(3) r Some by auto
  qed
qed simp

theorem flow_bindings_delivered_witness:
  "\<exists>bs b doc'. applyBindings 9 demoRun bs (JObj []) = Ret (Inr doc') \<and> targetsDiverge bs \<and> b \<in> set bs \<and>
     getJSONPointerValue doc' (ibTo b) = Inr (Some (JStr ''r''))"
proof -
  let ?src = "\<lparr>bsKind = ''run_meta'', bsNodeID = [], bsPath = [], bsField = ''run_id'', bsName = []\<rparr>"
  let ?b = "\<lparr>ibTo = ''/r'', ibSource = ?src, ibRequired = True\<rparr>" and ?c = "\<lparr>ibTo = ''/q/x'', ibSource = ?src, ibRequired = False\<rparr>"
  have run: "applyBindings 9 demoRun [?b, ?c] (JObj []) = Ret (Inr (JObj [(''r'', JStr ''r''), (''q'', JObj [(''x'', JStr ''r'')])]))" by code_simp
  have "parseJSONPointer ''/r'' = Inr [''r'']" "parseJSONPointer ''/q/x'' = Inr [''q'', ''x'']" by code_simp+
  moreover have "parseJSONPointerIndex ''r'' = Inl (BadIndex ''r'')" by code_simp
  ultimately have div: "targetsDiverge [?b, ?c]" by (simp add: partsFrom_def sameSlot_def)
  have src: "resolveBindingSource demoRun ?src = Inr (Some (JStr ''r''))" by code_simp
  from flow_bindings_delivered[OF run div, of ?b] src
  have "getJSONPointerValue (JObj [(''r'', JStr ''r''), (''q'', JObj [(''x'', JStr ''r'')])]) (ibTo ?b) = Inr (Some (JStr ''r'' :: nat jsonv))" by simp
  with run div show ?thesis by (intro exI[of _ "[?b, ?c]"] exI[of _ ?b] exI) (rule conjI, assumption, simp)
qed


definition demoDivision :: "nat transformExpr" where
  "demoDivision = TExpr RawBlank None ''div'' (Some [TExpr (RawDoc (JNum 4)) None [] None None None None, TExpr (RawDoc (JNum 0)) None [] None None None None]) None None None"


section \<open>Where the code departs from its documentation\<close>

text \<open>
  The notes on flow variables say that a \<open>flow_var\<close> resolves to the one writer among the ancestors of the reader, not to whatever was written
  last. Validation looks for that writer; a run reads the table of variables and gets the last value written, whoever wrote it.
\<close>

lemma flow_var_reads_last_write:
  assumes "normalizeBindingSourceKind (bsKind src) = ''flow_var''" and "trimSpace (bsName src) = trimSpace name" and "trimSpace name \<noteq> []"
  shows "resolveBindingSource (setVarRuntime name d st) src = readJSONSourceValue (vdValue d) (bsPath src)"
  using assms by (simp add: resolveBindingSource_def setVarRuntime_def update_conv' Let_def)

text \<open>
  The closest writer is found by scanning the writers in the order in which the nodes are listed, and the scan gives up on the first two that are unrelated.
  With two unrelated writers above a third, the answer depends on the order of the nodes in the request.
\<close>

lemma writer_search_depends_on_listing:
  assumes "isAncestor idx a c" and "isAncestor idx b c" and "\<not> isAncestor idx a b" and "\<not> isAncestor idx b a"
    and "\<not> isAncestor idx c a" and "\<not> isAncestor idx c b"
  shows "lastWriter idx c [a, b] = Some c" and "lastWriter idx a [b, c] = None"
  using assms by simp_all

text \<open>An array index that \<open>make\<close> cannot allocate parses and passes validation; writing there panics.\<close>

lemma huge_index_panics:
  "parseJSONPointerIndex t = Inr i \<Longrightarrow> length vs \<le> i \<Longrightarrow> lim \<le> i \<Longrightarrow> setJSONPointerTokens lim (JArr vs) (t # ts) v = Panic"
  by (simp add: growTo_def)

end
