(* ===== verification/Flow_Handler.thy ===== *)
theory Flow_Handler
  imports Flow_Table Flow_Correct File_Paths
begin

text \<open>
  The requests of the flow protocol (\<open>flow/handler.go\<close>, \<open>persistence.go\<close>, \<open>config.go\<close>): where a request is decided and forwarded in the tree of
  hubs, who may have it executed, and what it does to the stored flows, the runs and the schedulers.

  A request is decoded by \<open>json.Unmarshal\<close> into the record of its type (\<open>setReq\<close>, or \<open>flowReq\<close>, which has the fields of all other requests) and a
  flag that says whether decoding succeeded. The store of flow definitions and the archive are interfaces of the program: records of operations
  over a state of their own. The header clone for forwarding and the permission table belong to the framework. Starting the goroutine of a
  run is the output \<open>StartRun\<close>; a scheduler goroutine is known by the number of its stop channel.
\<close>

section \<open>State\<close>

record flowReq =
  fqReqID :: string
  fqOrigin :: nodeID
  fqExecutor :: nodeID
  fqFlowID :: string
  fqRunID :: string
  fqNodeID :: string
  fqPath :: string
  fqLimit :: nat

datatype flowAction = ActSet | ActDelete | ActRun | ActCancelRun | ActStatus | ActDetail | ActListRuns | ActList | ActGet

record nodeStatus =
  nsID :: string
  nsStatus :: string
  nsCode :: int
  nsMsg :: "runErr option"

record runSummary =
  rsRunID :: string
  rsStatus :: string
  rsStartedAtMs :: int
  rsEndedAtMs :: int
  rsMsg :: string

record flowSummary =
  fsName :: string
  fsFlowID :: string
  fsEveryMs :: "64 word"
  fsLastRunID :: string
  fsLastStatus :: string

text \<open>The fields of the responses; every response has the request id, code and message, the others those that its type has.\<close>

record 'f flowResp =
  faAction :: flowAction
  faReqID :: string
  faCode :: int
  faMsg :: string
  faExecutor :: nodeID
  faFlowID :: string
  faRunID :: string
  faStatus :: string
  faNodes :: "nodeStatus list"
  faPath :: string
  faResult :: "'f rawJson"
  faFlows :: "flowSummary list"
  faRuns :: "runSummary list"
  faFlow :: "'f setReq option"

definition flowReply :: "flowAction \<Rightarrow> string \<Rightarrow> int \<Rightarrow> string \<Rightarrow> 'f flowResp" where
  "flowReply act reqID code msg =
     \<lparr>faAction = act, faReqID = reqID, faCode = code, faMsg = msg, faExecutor = 0, faFlowID = [], faRunID = [], faStatus = [], faNodes = [],
      faPath = [], faResult = RawBlank, faFlows = [], faRuns = [], faFlow = None\<rparr>"

datatype 'f flowBody = BodySet "'f setReq" | BodyReq flowAction flowReq | BodyResp "'f flowResp"

datatype 'f flowOut = FlowSend string header "'f flowBody" | StartRun "'f setReq" "'f run" | RawForward string header

record ('s, 'f) storeOps =
  soSave :: "'f setReq \<Rightarrow> 's \<Rightarrow> bool \<times> 's"
  soDelete :: "string \<Rightarrow> 's \<Rightarrow> bool \<times> 's"
  soLoadAll :: "'s \<Rightarrow> 'f setReq list option"

record ('f, 's, 'a) flowSt =
  fhSrv :: "server option"
  fhFlows :: "(string, 'f setReq) gomap"
  fhTable :: "'f runTable"
  fhStore :: 's
  fhArchive :: 'a
  fhSchedulers :: "(string, nat) gomap"
  fhNextStop :: nat
  fhStopped :: "nat list"
  fhSchedStarted :: bool
  fhSubscribed :: bool

text \<open>What surrounds one call: the server of the context, the clock and fresh run ids (the n-th of the call), error flags of direct sends, the interfaces and the configuration.\<close>

record ('f, 's, 'a) flowEnv =
  feCtxServer :: "server option"
  feDirectErr :: "string \<Rightarrow> bool"
  feCloneForward :: "header \<Rightarrow> header option"
  fePermHas :: "(nodeID \<Rightarrow> string \<Rightarrow> bool) option"
  fePermSet :: string
  fePermDelete :: string
  fePermRun :: string
  fePermRead :: string
  feSubProto :: "8 word"
  feNow :: "nat \<Rightarrow> int"
  feRunID :: "nat \<Rightarrow> string"
  feStore :: "('s, 'f) storeOps"
  feArchiveOps :: "('a, 'f) archiveOps option"
  feMaxRetained :: int
  feValueOps :: "'f valueOps"

section \<open>Sending\<close>

definition flowHasPermission :: "('f, 's, 'a) flowEnv \<Rightarrow> nodeID \<Rightarrow> string \<Rightarrow> bool" where
  "flowHasPermission env node perm = (case fePermHas env of None \<Rightarrow> False | Some has \<Rightarrow> has node perm)"

definition sendToConn :: "('f, 's, 'a) flowEnv \<Rightarrow> conn \<Rightarrow> header \<Rightarrow> 'f flowBody \<Rightarrow> 'f flowOut list option" where
  "sendToConn env c hdr body =
     (if (case feCtxServer env of None \<Rightarrow> feDirectErr env (cID c) | Some srv \<Rightarrow> sSendErr srv (cID c)) then None
      else Some [FlowSend (cID c) hdr body])"

definition sendCtrlToNodeWithReqHdr :: "('f, 's, 'a) flowEnv \<Rightarrow> header option \<Rightarrow> nodeID \<Rightarrow> 'f flowResp \<Rightarrow> 'f flowOut list" where
  "sendCtrlToNodeWithReqHdr env reqHdr target resp =
     (if target = 0 then []
      else case feCtxServer env of
        None \<Rightarrow> []
      | Some srv \<Rightarrow>
          let hdr = zeroHeader\<lparr>hMajor := MajorOKResp, hSubProto := feSubProto env, hSourceID := sNodeID srv, hTargetID := target\<rparr>;
              hdr' = (case reqHdr of None \<Rightarrow> hdr | Some rh \<Rightarrow> hdr\<lparr>hMsgID := hMsgID rh, hTraceID := hTraceID rh\<rparr>)
          in case (case sByNode srv target of Some c \<Rightarrow> Some c | None \<Rightarrow> findParent (Some srv)) of
               None \<Rightarrow> []
             | Some c \<Rightarrow> if sSendErr srv (cID c) then [] else [FlowSend (cID c) hdr' (BodyResp resp)])"

text \<open>\<open>sendRunResp\<close>, \<open>sendStatusResp\<close> and the others answer the source of the request.\<close>

definition sendResp :: "('f, 's, 'a) flowEnv \<Rightarrow> header option \<Rightarrow> 'f flowResp \<Rightarrow> 'f flowOut list" where
  "sendResp env oh resp = (case oh of None \<Rightarrow> [] | Some hdr \<Rightarrow> sendCtrlToNodeWithReqHdr env oh (hSourceID hdr) resp)"

definition forwardDown :: "('f, 's, 'a) flowEnv \<Rightarrow> server \<Rightarrow> header \<Rightarrow> 'f flowBody \<Rightarrow> nodeID \<Rightarrow> 'f flowOut list option" where
  "forwardDown env srv hdr body target =
     (if target = 0 then None
      else case sByNode srv target of
        None \<Rightarrow> None
      | Some c \<Rightarrow>
          (case feCloneForward env hdr of
             None \<Rightarrow> None
           | Some fh \<Rightarrow> sendToConn env c (fh\<lparr>hTargetID := target\<rparr>) body))"

text \<open>Frames that no action knows go on towards their target; \<open>None\<close> when the handler does not take them.\<close>

definition forwardRemoteByHeaderTarget :: "('f, 's, 'a) flowEnv \<Rightarrow> conn option \<Rightarrow> header option \<Rightarrow> bool \<Rightarrow> 'f flowOut list option" where
  "forwardRemoteByHeaderTarget env oc oh payloadEmpty =
     (case (oh, feCtxServer env) of
        (Some hdr, Some srv) \<Rightarrow>
          if payloadEmpty \<or> hTargetID hdr = 0 \<or> hTargetID hdr = sNodeID srv then None
          else (case (case sByNode srv (hTargetID hdr) of Some c \<Rightarrow> Some c | None \<Rightarrow> findParent (Some srv)) of
                  None \<Rightarrow> Some []
                | Some next \<Rightarrow>
                    if (case oc of None \<Rightarrow> False | Some c \<Rightarrow> isParentConn srv c) \<and> isParentConn srv next then Some []
                    else case feCloneForward env hdr of
                           None \<Rightarrow> Some []
                         | Some fh \<Rightarrow>
                             if sSendErr srv (cID next) then Some [] else Some [RawForward (cID next) (fh\<lparr>hTargetID := hTargetID hdr\<rparr>)])
      | _ \<Rightarrow> None)"

section \<open>Schedulers\<close>

text \<open>\<open>close(old.stop)\<close> of a channel that is closed would panic.\<close>

definition stopScheduler :: "string \<Rightarrow> ('f, 's, 'a) flowSt \<Rightarrow> ('f, 's, 'a) flowSt outcome" where
  "stopScheduler flowID st =
     (case map_of (fhSchedulers st) flowID of
        None \<Rightarrow> Ret st
      | Some n \<Rightarrow>
          if n \<in> set (fhStopped st) then Panic
          else Ret (st\<lparr>fhStopped := n # fhStopped st, fhSchedulers := gdel flowID (fhSchedulers st)\<rparr>))"

definition restartScheduler :: "string \<Rightarrow> ('f, 's, 'a) flowSt \<Rightarrow> ('f, 's, 'a) flowSt outcome" where
  "restartScheduler flowID0 st0 =
     (let flowID = trimSpace flowID0 in
      if flowID = [] then Ret st0
      else andThen (stopScheduler flowID st0) (\<lambda>st.
        case map_of (fhFlows st) flowID of
          None \<Rightarrow> Ret st
        | Some flow \<Rightarrow>
            let stop = fhNextStop st;
                started = st\<lparr>fhNextStop := stop + 1, fhSchedulers := gput flowID stop (fhSchedulers st)\<rparr>;
                dropped = started\<lparr>fhSchedulers := gdel flowID (fhSchedulers started)\<rparr>;
                kind = triggerType (sqTrigger flow)
            in if kind = ''interval'' then
                 (if sint (trEveryMs (sqTrigger flow) * 1000000) \<le> 0 then Ret dropped else Ret started)
               else if kind = ''cron'' then
                 (case parseCronExpr (trimSpace (trCron (sqTrigger flow))) of Inl _ \<Rightarrow> Ret dropped | Inr _ \<Rightarrow> Ret started)
               else Ret dropped))"

fun restartSchedulers :: "string list \<Rightarrow> ('f, 's, 'a) flowSt \<Rightarrow> ('f, 's, 'a) flowSt outcome" where
  "restartSchedulers [] st = Ret st"
| "restartSchedulers (i # ids) st = andThen (restartScheduler i st) (restartSchedulers ids)"

definition startSchedulers :: "('f, 's, 'a) flowSt \<Rightarrow> ('f, 's, 'a) flowSt outcome" where
  "startSchedulers st =
     (if fhSrv st = None \<or> fhSchedStarted st then Ret st
      else restartSchedulers (map fst (fhFlows st)) (st\<lparr>fhSchedStarted := True\<rparr>))"

definition bindServer :: "server \<Rightarrow> ('f, 's, 'a) flowSt \<Rightarrow> ('f, 's, 'a) flowSt outcome" where
  "bindServer srv st = andThen (startSchedulers (st\<lparr>fhSrv := Some srv\<rparr>)) (\<lambda>st'. Ret (st'\<lparr>fhSubscribed := True\<rparr>))"

definition getServer :: "('f, 's, 'a) flowEnv \<Rightarrow> ('f, 's, 'a) flowSt \<Rightarrow> (server option \<times> ('f, 's, 'a) flowSt) outcome" where
  "getServer env st =
     (case feCtxServer env of
        Some srv \<Rightarrow> andThen (bindServer srv st) (\<lambda>st'. Ret (Some srv, st'))
      | None \<Rightarrow> Ret (fhSrv st, st))"

section \<open>At the executor\<close>

type_synonym ('f, 's, 'a) flowStep = "(('f, 's, 'a) flowSt \<times> 'f flowOut list) outcome"

text \<open>The text of a validation error of a graph is not modelled.\<close>

definition applySetLocal :: "('f, 's, 'a) flowEnv \<Rightarrow> header \<Rightarrow> 'f setReq \<Rightarrow> nodeID \<Rightarrow> ('f, 's, 'a) flowSt \<Rightarrow> ('f, 's, 'a) flowStep" where
  "applySetLocal env hdr req origin st =
     (let reply = (\<lambda>code msg. sendCtrlToNodeWithReqHdr env (Some hdr) origin ((flowReply ActSet (sqReqID req) code msg)\<lparr>faFlowID := sqFlowID req\<rparr>)) in
      case validateFlowRunConfig req of
        Some e \<Rightarrow> Ret (st, reply 400 e)
      | None \<Rightarrow>
          (case validateGraphForFlow (sqFlowID req) (sqGraph req) of
             Some e \<Rightarrow> Ret (st, reply 400 ''invalid graph'')
           | None \<Rightarrow>
               (case soSave (feStore env) req (fhStore st) of
                  (True, store) \<Rightarrow> Ret (st\<lparr>fhStore := store\<rparr>, reply 500 ''write failed'')
                | (False, store) \<Rightarrow>
                    andThen (restartScheduler (sqFlowID req)
                        (st\<lparr>fhStore := store, fhFlows := gput (sqFlowID req) req (fhFlows st),
                            fhTable := (fhTable st)\<lparr>rtDedup := gdel (sqFlowID req) (rtDedup (fhTable st))\<rparr>\<rparr>))
                      (\<lambda>st'. Ret (st', reply 1 ''ok'')))))"

definition applyDeleteLocal :: "('f, 's, 'a) flowEnv \<Rightarrow> header \<Rightarrow> flowReq \<Rightarrow> nodeID \<Rightarrow> ('f, 's, 'a) flowSt \<Rightarrow> ('f, 's, 'a) flowStep" where
  "applyDeleteLocal env hdr req origin st =
     (let reply = (\<lambda>code msg fid. sendCtrlToNodeWithReqHdr env (Some hdr) origin ((flowReply ActDelete (fqReqID req) code msg)\<lparr>faFlowID := fid\<rparr>)) in
      case validateFlowID (fqFlowID req) of
        Inl e \<Rightarrow> Ret (st, reply 400 e [])
      | Inr flowID \<Rightarrow>
          if map_of (fhFlows st) flowID = None then Ret (st, reply 404 ''not found'' flowID)
          else case soDelete (feStore env) flowID (fhStore st) of
                 (True, store) \<Rightarrow> Ret (st\<lparr>fhStore := store\<rparr>, reply 500 ''delete file failed'' flowID)
               | (False, store) \<Rightarrow>
                   andThen (stopScheduler flowID
                       (st\<lparr>fhStore := store, fhFlows := gdel flowID (fhFlows st),
                           fhTable := (fhTable st)\<lparr>rtDedup := gdel flowID (rtDedup (fhTable st))\<rparr>\<rparr>))
                     (\<lambda>st'. Ret (st'\<lparr>fhTable := cancelRuns flowID ''interrupted by flow delete'' (feNow env 0) (fhTable st')\<rparr>, reply 1 ''ok'' flowID)))"

definition boundNode :: "('f, 's, 'a) flowSt \<Rightarrow> nodeID" where
  "boundNode st = (case fhSrv st of None \<Rightarrow> 0 | Some srv \<Rightarrow> sNodeID srv)"

definition runLocal :: "('f, 's, 'a) flowEnv \<Rightarrow> header \<Rightarrow> flowReq \<Rightarrow> ('f, 's, 'a) flowSt \<Rightarrow> ('f, 's, 'a) flowStep" where
  "runLocal env hdr req st =
     (let reply = (\<lambda>code msg rid. sendResp env (Some hdr) ((flowReply ActRun (fqReqID req) code msg)\<lparr>faFlowID := fqFlowID req, faRunID := rid\<rparr>));
          notFound = Ret (st, reply 404 ''not found'' [])
      in case map_of (fhFlows st) (fqFlowID req) of
           None \<Rightarrow> notFound
         | Some flow \<Rightarrow>
             if trimSpace (sqFlowID flow) = [] then notFound
             else case prepareQueuedRun (boundNode st) (feRunID env 0) (feNow env 0) flow None Manual (fhTable st) of
                    (None, t) \<Rightarrow> Ret (st\<lparr>fhTable := t\<rparr>, reply 409 ''active run limit reached'' [])
                  | (Some r, t) \<Rightarrow> Ret (st\<lparr>fhTable := t\<rparr>, StartRun flow r # reply 1 ''ok'' (stRunID (ruState r))))"

definition cancelRunLocal :: "('f, 's, 'a) flowEnv \<Rightarrow> header \<Rightarrow> flowReq \<Rightarrow> ('f, 's, 'a) flowSt \<Rightarrow> ('f, 's, 'a) flowStep" where
  "cancelRunLocal env hdr req st =
     (let reply = (\<lambda>code msg status. sendResp env (Some hdr) ((flowReply ActCancelRun (fqReqID req) code msg)\<lparr>faExecutor := fqExecutor req,
            faFlowID := fqFlowID req, faRunID := fqRunID req, faStatus := status\<rparr>))
      in case map_of (rtRuns (fhTable st)) (fqRunID req) of
           None \<Rightarrow> Ret (st, reply 404 ''not found'' [])
         | Some r \<Rightarrow>
             if trimSpace (stFlowID (ruState r)) \<noteq> fqFlowID req then Ret (st, reply 404 ''not found'' [])
             else case cancelRun ''cancelled by cancel_run'' (feNow env 0) r of
                    ((status, False), r') \<Rightarrow> Ret (st, reply 409 ''run already terminal'' status)
                  | ((status, True), r') \<Rightarrow>
                      Ret (st\<lparr>fhTable := (fhTable st)\<lparr>rtRuns := gput (fqRunID req) r' (rtRuns (fhTable st))\<rparr>\<rparr>, reply 1 ''cancelled by cancel_run'' status))"

definition snapshotNodeStatuses :: "'f runState \<Rightarrow> nodeStatus list" where
  "snapshotNodeStatuses st =
     sort_key nsID (map (\<lambda>(i, d). \<lparr>nsID = i, nsStatus = ndStatus d, nsCode = ndCode d, nsMsg = ndMsg d\<rparr>) (rcNodes (stRuntime st)))"

definition findRun :: "'f runTable \<Rightarrow> flowReq \<Rightarrow> 'f run option" where
  "findRun t req =
     (case (if fqRunID req \<noteq> [] then map_of (rtRuns t) (fqRunID req) else latestRunState t (fqFlowID req)) of
        None \<Rightarrow> None
      | Some r \<Rightarrow> if trimSpace (stFlowID (ruState r)) \<noteq> fqFlowID req then None else Some r)"

definition runMsg :: "'f run \<Rightarrow> string" where
  "runMsg r = (if ruStatus r = ''cancelled'' \<and> trimSpace (stCancelReason (ruState r)) \<noteq> [] then stCancelReason (ruState r) else ''ok'')"

definition handleStatusLocal :: "('f, 's, 'a) flowEnv \<Rightarrow> header \<Rightarrow> flowReq \<Rightarrow> ('f, 's, 'a) flowSt \<Rightarrow> 'f flowOut list" where
  "handleStatusLocal env hdr req st =
     (let missing = (\<lambda>rid. sendResp env (Some hdr) ((flowReply ActStatus (fqReqID req) 404 ''not found'')\<lparr>faFlowID := fqFlowID req, faRunID := rid\<rparr>)) in
      case (if fqRunID req \<noteq> [] then map_of (rtRuns (fhTable st)) (fqRunID req) else latestRunState (fhTable st) (fqFlowID req)) of
        None \<Rightarrow> missing []
      | Some r \<Rightarrow>
          if trimSpace (stFlowID (ruState r)) \<noteq> fqFlowID req then missing (fqRunID req)
          else sendResp env (Some hdr) ((flowReply ActStatus (fqReqID req) 1 (runMsg r))\<lparr>faExecutor := fqExecutor req, faFlowID := stFlowID (ruState r),
                 faRunID := stRunID (ruState r), faStatus := ruStatus r, faNodes := snapshotNodeStatuses (ruState r)\<rparr>))"

definition handleDetailLocal :: "('f, 's, 'a) flowEnv \<Rightarrow> header \<Rightarrow> flowReq \<Rightarrow> ('f, 's, 'a) flowSt \<Rightarrow> 'f flowOut list" where
  "handleDetailLocal env hdr req st =
     (let base = (\<lambda>code msg fid rid. (flowReply ActDetail (fqReqID req) code msg)\<lparr>faExecutor := fqExecutor req, faFlowID := fid, faRunID := rid, faPath := fqPath req\<rparr>) in
      case findRun (fhTable st) req of
        None \<Rightarrow> sendResp env (Some hdr) (base 404 ''not found'' (fqFlowID req) (fqRunID req))
      | Some r \<Rightarrow>
          let resp = (\<lambda>code msg. base code msg (stFlowID (ruState r)) (stRunID (ruState r))) in
          sendResp env (Some hdr)
            (case map_of (rcNodes (stRuntime (ruState r))) (fqNodeID req) of
               None \<Rightarrow> resp 404 ''not found''
             | Some d \<Rightarrow>
                 let withNode = (\<lambda>p. p\<lparr>faNodes := [\<lparr>nsID = fqNodeID req, nsStatus = ndStatus d, nsCode = ndCode d, nsMsg = ndMsg d\<rparr>]\<rparr>) in
                 if fqPath req = [] then withNode ((resp 1 (runMsg r))\<lparr>faResult := ndResult d\<rparr>)
                 else if ndResult d = RawBlank then withNode (resp 404 ''not found'')
                 else case readJSONSourceValue (ndResult d) (fqPath req) of
                        Inl _ \<Rightarrow> withNode (resp 500 ''invalid node result json'')
                      | Inr None \<Rightarrow> withNode (resp 404 ''not found'')
                      | Inr (Some v) \<Rightarrow>
                          if \<not> marshalable (feValueOps env) v then withNode (resp 500 ''detail result marshal failed'')
                          else withNode ((resp 1 (runMsg r))\<lparr>faResult := RawDoc v\<rparr>)))"

definition flowSummaryOf :: "'f runTable \<Rightarrow> 'f setReq \<Rightarrow> flowSummary" where
  "flowSummaryOf t f =
     (let fid = trimSpace (sqFlowID f); latest = latestRunState t fid in
      \<lparr>fsName = trimSpace (sqName f), fsFlowID = fid, fsEveryMs = trEveryMs (sqTrigger f),
       fsLastRunID = (case latest of None \<Rightarrow> [] | Some r \<Rightarrow> stRunID (ruState r)), fsLastStatus = (case latest of None \<Rightarrow> [] | Some r \<Rightarrow> ruStatus r)\<rparr>)"

definition handleListLocal :: "('f, 's, 'a) flowEnv \<Rightarrow> header \<Rightarrow> flowReq \<Rightarrow> ('f, 's, 'a) flowSt \<Rightarrow> 'f flowOut list" where
  "handleListLocal env hdr req st =
     sendResp env (Some hdr) ((flowReply ActList (fqReqID req) 1 ''ok'')\<lparr>faExecutor := fqExecutor req,
       faFlows := sort_key (\<lambda>s. (fsName s, fsFlowID s)) (map (flowSummaryOf (fhTable st)) (filter (\<lambda>f. trimSpace (sqFlowID f) \<noteq> []) (map snd (fhFlows st))))\<rparr>)"

definition snapshotRunSummary :: "'f run \<Rightarrow> runSummary" where
  "snapshotRunSummary r =
     \<lparr>rsRunID = stRunID (ruState r), rsStatus = ruStatus r, rsStartedAtMs = toMs (ruStart r), rsEndedAtMs = toMs (ruEnd r), rsMsg = trimSpace (stCancelReason (ruState r))\<rparr>"

definition handleListRunsLocal :: "('f, 's, 'a) flowEnv \<Rightarrow> header \<Rightarrow> flowReq \<Rightarrow> ('f, 's, 'a) flowSt \<Rightarrow> 'f flowOut list" where
  "handleListRunsLocal env hdr req st =
     (let ids = gget [] (rtOrder (fhTable st)) (fqFlowID req);
          base = (\<lambda>code msg. (flowReply ActListRuns (fqReqID req) code msg)\<lparr>faExecutor := fqExecutor req, faFlowID := fqFlowID req\<rparr>)
      in if ids = [] \<and> map_of (fhFlows st) (fqFlowID req) = None then sendResp env (Some hdr) (base 404 ''not found'')
         else
           let runs = filter (\<lambda>r. trimSpace (stFlowID (ruState r)) = fqFlowID req) (List.map_filter (map_of (rtRuns (fhTable st))) (rev ids))
           in sendResp env (Some hdr) ((base 1 ''ok'')\<lparr>faRuns := map snapshotRunSummary (if 0 < fqLimit req then take (fqLimit req) runs else runs)\<rparr>))"

definition handleGetLocal :: "('f, 's, 'a) flowEnv \<Rightarrow> header \<Rightarrow> flowReq \<Rightarrow> ('f, 's, 'a) flowSt \<Rightarrow> 'f flowOut list" where
  "handleGetLocal env hdr req st =
     (let base = (\<lambda>code msg. (flowReply ActGet (fqReqID req) code msg)\<lparr>faExecutor := fqExecutor req, faFlowID := fqFlowID req\<rparr>) in
      sendResp env (Some hdr)
        (case map_of (fhFlows st) (fqFlowID req) of
           None \<Rightarrow> base 404 ''not found''
         | Some f \<Rightarrow> if trimSpace (sqFlowID f) = [] then base 404 ''not found'' else (base 1 ''ok'')\<lparr>faFlowID := sqFlowID f, faFlow := Some f\<rparr>))"

section \<open>Routing\<close>

definition childConn :: "server \<Rightarrow> nodeID \<Rightarrow> conn option" where
  "childConn srv node = (case sByNode srv node of None \<Rightarrow> None | Some c \<Rightarrow> if isParentConn srv c then None else Some c)"

definition passOn :: "('f, 's, 'a) flowEnv \<Rightarrow> header \<Rightarrow> conn \<Rightarrow> nodeID \<Rightarrow> 'f flowBody \<Rightarrow> (int \<Rightarrow> string \<Rightarrow> 'f flowOut list) \<Rightarrow> 'f flowOut list" where
  "passOn env hdr c target body fail =
     (case feCloneForward env hdr of
        None \<Rightarrow> fail 500 ''hop limit exceeded''
      | Some fh \<Rightarrow> (case sendToConn env c (fh\<lparr>hTargetID := target\<rparr>) body of None \<Rightarrow> [] | Some outs \<Rightarrow> outs))"

text \<open>The part that \<open>handleSet\<close> and \<open>handleDelete\<close> share word by word: a failing send is ignored here.\<close>

definition routeEdit ::
  "('f, 's, 'a) flowEnv \<Rightarrow> server \<Rightarrow> conn \<Rightarrow> header \<Rightarrow> nodeID \<Rightarrow> nodeID \<Rightarrow> string \<Rightarrow> 'f flowBody \<Rightarrow> (int \<Rightarrow> string \<Rightarrow> 'f flowOut list) \<Rightarrow>
   (('f, 's, 'a) flowSt \<Rightarrow> ('f, 's, 'a) flowStep) \<Rightarrow> ('f, 's, 'a) flowSt \<Rightarrow> ('f, 's, 'a) flowStep" where
  "routeEdit env srv c hdr executor origin perm body fail localFn st =
     (if isParentConn srv c then
        (if executor = sNodeID srv then localFn st
         else case forwardDown env srv hdr body executor of
                None \<Rightarrow> Ret (st, fail 500 ''forward failed'')
              | Some outs \<Rightarrow> Ret (st, outs))
      else if executor = sNodeID srv then
        (if \<not> flowHasPermission env origin perm then Ret (st, fail 403 ''permission denied'') else localFn st)
      else case childConn srv executor of
        None \<Rightarrow>
          (case findParent (Some srv) of
             None \<Rightarrow> Ret (st, fail 404 ''not found'')
           | Some parent \<Rightarrow>
               if uintNodeID parent = 0 then Ret (st, fail 500 ''invalid parent route'')
               else Ret (st, passOn env hdr parent (uintNodeID parent) body fail))
      | Some execConn \<Rightarrow>
          (case sByNode srv origin of
             Some originConn \<Rightarrow>
               if cID originConn = cID execConn then
                 (if uintNodeID originConn = 0 then Ret (st, fail 500 ''invalid route'')
                  else Ret (st, passOn env hdr originConn (uintNodeID originConn) body fail))
               else if \<not> flowHasPermission env origin perm then Ret (st, fail 403 ''permission denied'')
               else Ret (st, passOn env hdr execConn executor body fail)
           | None \<Rightarrow>
               if \<not> flowHasPermission env origin perm then Ret (st, fail 403 ''permission denied'')
               else Ret (st, passOn env hdr execConn executor body fail)))"

text \<open>The other requests: the code and message of a failure go back to the caller, who answers; code 0 is success.\<close>

definition sendOr :: "('f, 's, 'a) flowEnv \<Rightarrow> header \<Rightarrow> conn \<Rightarrow> nodeID \<Rightarrow> 'f flowBody \<Rightarrow> 'f flowOut list \<times> int \<times> string" where
  "sendOr env hdr c target body =
     (case feCloneForward env hdr of
        None \<Rightarrow> ([], 500, ''hop limit exceeded'')
      | Some fh \<Rightarrow>
          (case sendToConn env c (fh\<lparr>hTargetID := target\<rparr>) body of
             None \<Rightarrow> ([], 500, ''forward failed'')
           | Some outs \<Rightarrow> (outs, 0, [])))"

definition forwardToExecutorWithPerm ::
  "('f, 's, 'a) flowEnv \<Rightarrow> server \<Rightarrow> conn \<Rightarrow> header \<Rightarrow> nodeID \<Rightarrow> nodeID \<Rightarrow> string \<Rightarrow> 'f flowBody \<Rightarrow>
   (('f, 's, 'a) flowSt \<Rightarrow> ('f, 's, 'a) flowStep) \<Rightarrow> ('f, 's, 'a) flowSt \<Rightarrow> (('f, 's, 'a) flowSt \<times> 'f flowOut list \<times> int \<times> string) outcome" where
  "forwardToExecutorWithPerm env srv c hdr executor origin perm body localFn st =
     (let local = andThen (localFn st) (\<lambda>(st', outs). Ret (st', outs, 0, []));
          denied = (trimSpace perm \<noteq> [] \<and> \<not> flowHasPermission env origin perm)
      in if executor = 0 then Ret (st, [], 500, ''invalid route'')
         else if isParentConn srv c then
           (if executor = sNodeID srv then local
            else case childConn srv executor of
                   None \<Rightarrow> Ret (st, [], 404, ''not found'')
                 | Some execConn \<Rightarrow> Ret (st, sendOr env hdr execConn executor body))
         else if executor = sNodeID srv then (if denied then Ret (st, [], 403, ''permission denied'') else local)
         else case childConn srv executor of
           None \<Rightarrow>
             (case findParent (Some srv) of
                None \<Rightarrow> Ret (st, [], 404, ''not found'')
              | Some parent \<Rightarrow>
                  if uintNodeID parent = 0 then Ret (st, [], 500, ''invalid parent route'')
                  else Ret (st, sendOr env hdr parent (uintNodeID parent) body))
         | Some execConn \<Rightarrow>
             (case sByNode srv origin of
                Some originConn \<Rightarrow>
                  if cID originConn = cID execConn then
                    (if uintNodeID originConn = 0 then Ret (st, [], 500, ''invalid route'')
                     else Ret (st, sendOr env hdr originConn (uintNodeID originConn) body))
                  else if denied then Ret (st, [], 403, ''permission denied'')
                  else Ret (st, sendOr env hdr execConn executor body)
              | None \<Rightarrow>
                  if denied then Ret (st, [], 403, ''permission denied'')
                  else Ret (st, sendOr env hdr execConn executor body)))"

section \<open>The handlers\<close>

definition handleSet :: "('f, 's, 'a) flowEnv \<Rightarrow> conn option \<Rightarrow> header option \<Rightarrow> bool \<Rightarrow> 'f setReq \<Rightarrow> ('f, 's, 'a) flowSt \<Rightarrow> ('f, 's, 'a) flowStep" where
  "handleSet env oc oh ok req0 st =
     (let reply = (\<lambda>code msg fid. sendResp env oh ((flowReply ActSet [] code msg)\<lparr>faFlowID := fid\<rparr>));
          req1 = req0\<lparr>sqReqID := trimSpace (sqReqID req0), sqTrigger := normalizeTrigger (sqTrigger req0)\<rparr>
      in if \<not> ok \<or> sqReqID req1 = [] then Ret (st, reply 400 ''invalid set'' [])
         else case validateFlowID (sqFlowID req0) of
           Inl e \<Rightarrow> Ret (st, reply 400 e [])
         | Inr fid \<Rightarrow>
             (case validateTrigger (sqTrigger req1) of
                Some e \<Rightarrow> Ret (st, reply 400 e fid)
              | None \<Rightarrow>
                  (case ((case feCtxServer env of Some srv \<Rightarrow> Some srv | None \<Rightarrow> fhSrv st), oh, oc) of
                     (Some srv, Some hdr, Some c) \<Rightarrow>
                       let origin = (if sqOrigin req1 = 0 then hSourceID hdr else sqOrigin req1);
                           executor = (if sqExecutor req1 = 0 then sNodeID srv else sqExecutor req1);
                           req = req1\<lparr>sqFlowID := fid, sqOrigin := origin, sqExecutor := executor\<rparr>
                       in routeEdit env srv c hdr executor origin (fePermSet env) (BodySet req)
                            (\<lambda>code msg. sendCtrlToNodeWithReqHdr env (Some hdr) origin ((flowReply ActSet (sqReqID req) code msg)\<lparr>faFlowID := fid\<rparr>))
                            (applySetLocal env hdr req origin) st
                   | _ \<Rightarrow> Ret (st, []))))"

definition handleDelete :: "('f, 's, 'a) flowEnv \<Rightarrow> conn option \<Rightarrow> header option \<Rightarrow> bool \<Rightarrow> flowReq \<Rightarrow> ('f, 's, 'a) flowSt \<Rightarrow> ('f, 's, 'a) flowStep" where
  "handleDelete env oc oh ok req0 st =
     (let reply = (\<lambda>reqID code msg. sendResp env oh (flowReply ActDelete reqID code msg));
          req1 = req0\<lparr>fqReqID := trimSpace (fqReqID req0)\<rparr>
      in if \<not> ok then Ret (st, reply (fqReqID req0) 400 ''invalid delete'')
         else if fqReqID req1 = [] then Ret (st, reply (fqReqID req1) 400 ''invalid delete'')
         else case validateFlowID (fqFlowID req0) of
           Inl e \<Rightarrow> Ret (st, reply (fqReqID req1) 400 e)
         | Inr fid \<Rightarrow>
             (case ((case feCtxServer env of Some srv \<Rightarrow> Some srv | None \<Rightarrow> fhSrv st), oh, oc) of
                (Some srv, Some hdr, Some c) \<Rightarrow>
                  let origin = (if fqOrigin req1 = 0 then hSourceID hdr else fqOrigin req1);
                      executor = (if fqExecutor req1 = 0 then sNodeID srv else fqExecutor req1);
                      req = req1\<lparr>fqFlowID := fid, fqOrigin := origin, fqExecutor := executor\<rparr>
                  in routeEdit env srv c hdr executor origin (fePermDelete env) (BodyReq ActDelete req)
                       (\<lambda>code msg. sendCtrlToNodeWithReqHdr env (Some hdr) origin ((flowReply ActDelete (fqReqID req) code msg)\<lparr>faFlowID := fid\<rparr>))
                       (applyDeleteLocal env hdr req origin) st
              | _ \<Rightarrow> Ret (st, [])))"

definition permOf :: "('f, 's, 'a) flowEnv \<Rightarrow> flowAction \<Rightarrow> string" where
  "permOf env act =
     (case act of
        ActSet \<Rightarrow> fePermSet env | ActDelete \<Rightarrow> fePermDelete env | ActRun \<Rightarrow> fePermRun env | ActCancelRun \<Rightarrow> fePermRun env
      | _ \<Rightarrow> fePermRead env)"

text \<open>The second half of the other handlers, from \<open>getServer\<close> on; \<open>fill\<close> adds the fields that the failure response of the action has.\<close>

definition routeRequest ::
  "('f, 's, 'a) flowEnv \<Rightarrow> conn option \<Rightarrow> header option \<Rightarrow> flowAction \<Rightarrow> flowReq \<Rightarrow> (flowReq \<Rightarrow> 'f flowResp \<Rightarrow> 'f flowResp) \<Rightarrow>
   (header \<Rightarrow> flowReq \<Rightarrow> ('f, 's, 'a) flowSt \<Rightarrow> ('f, 's, 'a) flowStep) \<Rightarrow> ('f, 's, 'a) flowSt \<Rightarrow> ('f, 's, 'a) flowStep" where
  "routeRequest env oc oh act req1 fill localFn st0 =
     andThen (getServer env st0) (\<lambda>(osrv, st).
       case (osrv, oh, oc) of
         (Some srv, Some hdr, Some c) \<Rightarrow>
           let executor = (if fqExecutor req1 = 0 then sNodeID srv else fqExecutor req1);
               origin = (if fqOrigin req1 = 0 then hSourceID hdr else fqOrigin req1);
               req = req1\<lparr>fqOrigin := origin, fqExecutor := executor\<rparr>
           in andThen (forwardToExecutorWithPerm env srv c hdr executor origin (permOf env act) (BodyReq act req) (localFn hdr req) st)
                (\<lambda>(st', outs, code, msg).
                   if code \<noteq> 0 then Ret (st', outs @ sendResp env oh (fill req (flowReply act (fqReqID req) code msg))) else Ret (st', outs))
       | _ \<Rightarrow> Ret (st, []))"

definition reads :: "(header \<Rightarrow> flowReq \<Rightarrow> ('f, 's, 'a) flowSt \<Rightarrow> 'f flowOut list) \<Rightarrow> header \<Rightarrow> flowReq \<Rightarrow> ('f, 's, 'a) flowSt \<Rightarrow> ('f, 's, 'a) flowStep" where
  "reads f hdr req st = Ret (st, f hdr req st)"

text \<open>The first half: request id and flow id are checked, in this order.\<close>

definition checkedReq ::
  "('f, 's, 'a) flowEnv \<Rightarrow> header option \<Rightarrow> flowAction \<Rightarrow> string \<Rightarrow> bool \<Rightarrow> flowReq \<Rightarrow> ('f, 's, 'a) flowSt \<Rightarrow>
   (flowReq \<Rightarrow> ('f, 's, 'a) flowStep) \<Rightarrow> ('f, 's, 'a) flowStep" where
  "checkedReq env oh act what ok req0 st k =
     (let reply = (\<lambda>reqID msg. sendResp env oh (flowReply act reqID 400 msg)); rid = trimSpace (fqReqID req0) in
      if \<not> ok then Ret (st, reply (fqReqID req0) what)
      else if rid = [] then Ret (st, reply rid what)
      else case validateFlowID (fqFlowID req0) of
        Inl e \<Rightarrow> Ret (st, reply rid e)
      | Inr fid \<Rightarrow> k (req0\<lparr>fqReqID := rid, fqFlowID := fid\<rparr>))"

definition handleRun :: "('f, 's, 'a) flowEnv \<Rightarrow> conn option \<Rightarrow> header option \<Rightarrow> bool \<Rightarrow> flowReq \<Rightarrow> ('f, 's, 'a) flowSt \<Rightarrow> ('f, 's, 'a) flowStep" where
  "handleRun env oc oh ok req0 st =
     checkedReq env oh ActRun ''invalid run'' ok req0 st (\<lambda>req.
       routeRequest env oc oh ActRun req (\<lambda>req p. p\<lparr>faFlowID := fqFlowID req\<rparr>) (runLocal env) st)"

definition handleCancelRun :: "('f, 's, 'a) flowEnv \<Rightarrow> conn option \<Rightarrow> header option \<Rightarrow> bool \<Rightarrow> flowReq \<Rightarrow> ('f, 's, 'a) flowSt \<Rightarrow> ('f, 's, 'a) flowStep" where
  "handleCancelRun env oc oh ok req0 st =
     checkedReq env oh ActCancelRun ''invalid cancel_run'' ok req0 st (\<lambda>req.
       case validateRunID (fqRunID req) of
         Inl e \<Rightarrow> Ret (st, sendResp env oh ((flowReply ActCancelRun (fqReqID req) 400 e)\<lparr>faFlowID := fqFlowID req\<rparr>))
       | Inr rid \<Rightarrow>
           routeRequest env oc oh ActCancelRun (req\<lparr>fqRunID := rid\<rparr>)
             (\<lambda>req p. p\<lparr>faExecutor := fqExecutor req, faFlowID := fqFlowID req, faRunID := fqRunID req\<rparr>) (cancelRunLocal env) st)"

definition handleStatus :: "('f, 's, 'a) flowEnv \<Rightarrow> conn option \<Rightarrow> header option \<Rightarrow> bool \<Rightarrow> flowReq \<Rightarrow> ('f, 's, 'a) flowSt \<Rightarrow> ('f, 's, 'a) flowStep" where
  "handleStatus env oc oh ok req0 st =
     checkedReq env oh ActStatus ''invalid status'' ok req0 st (\<lambda>req.
       routeRequest env oc oh ActStatus (req\<lparr>fqRunID := trimSpace (fqRunID req)\<rparr>)
         (\<lambda>req p. p\<lparr>faExecutor := fqExecutor req, faFlowID := fqFlowID req, faRunID := fqRunID req\<rparr>) (reads (handleStatusLocal env)) st)"

definition handleDetail :: "('f, 's, 'a) flowEnv \<Rightarrow> conn option \<Rightarrow> header option \<Rightarrow> bool \<Rightarrow> flowReq \<Rightarrow> ('f, 's, 'a) flowSt \<Rightarrow> ('f, 's, 'a) flowStep" where
  "handleDetail env oc oh ok req0 st =
     checkedReq env oh ActDetail ''invalid detail'' ok req0 st (\<lambda>req1.
       let req = req1\<lparr>fqRunID := trimSpace (fqRunID req1), fqNodeID := trimSpace (fqNodeID req1), fqPath := trimSpace (fqPath req1)\<rparr> in
       if fqNodeID req = [] then Ret (st, sendResp env oh (flowReply ActDetail (fqReqID req) 400 ''node_id required''))
       else case parseJSONPointer (fqPath req) of
         Inl _ \<Rightarrow> Ret (st, sendResp env oh (flowReply ActDetail (fqReqID req) 400 ''invalid detail path''))
       | Inr _ \<Rightarrow>
           routeRequest env oc oh ActDetail req
             (\<lambda>req p. p\<lparr>faExecutor := fqExecutor req, faFlowID := fqFlowID req, faRunID := fqRunID req, faPath := fqPath req\<rparr>)
             (reads (handleDetailLocal env)) st)"

definition handleListRuns :: "('f, 's, 'a) flowEnv \<Rightarrow> conn option \<Rightarrow> header option \<Rightarrow> bool \<Rightarrow> flowReq \<Rightarrow> ('f, 's, 'a) flowSt \<Rightarrow> ('f, 's, 'a) flowStep" where
  "handleListRuns env oc oh ok req0 st =
     checkedReq env oh ActListRuns ''invalid list_runs'' ok req0 st (\<lambda>req.
       routeRequest env oc oh ActListRuns req (\<lambda>req p. p\<lparr>faExecutor := fqExecutor req, faFlowID := fqFlowID req\<rparr>) (reads (handleListRunsLocal env)) st)"

definition handleList :: "('f, 's, 'a) flowEnv \<Rightarrow> conn option \<Rightarrow> header option \<Rightarrow> bool \<Rightarrow> flowReq \<Rightarrow> ('f, 's, 'a) flowSt \<Rightarrow> ('f, 's, 'a) flowStep" where
  "handleList env oc oh ok req0 st =
     (let rid = trimSpace (fqReqID req0) in
      if \<not> ok then Ret (st, sendResp env oh (flowReply ActList (fqReqID req0) 400 ''invalid list''))
      else if rid = [] then Ret (st, sendResp env oh (flowReply ActList rid 400 ''invalid list''))
      else routeRequest env oc oh ActList (req0\<lparr>fqReqID := rid\<rparr>) (\<lambda>req p. p\<lparr>faExecutor := fqExecutor req\<rparr>) (reads (handleListLocal env)) st)"

definition handleGet :: "('f, 's, 'a) flowEnv \<Rightarrow> conn option \<Rightarrow> header option \<Rightarrow> bool \<Rightarrow> flowReq \<Rightarrow> ('f, 's, 'a) flowSt \<Rightarrow> ('f, 's, 'a) flowStep" where
  "handleGet env oc oh ok req0 st =
     checkedReq env oh ActGet ''invalid get'' ok req0 st (\<lambda>req.
       routeRequest env oc oh ActGet req (\<lambda>req p. p\<lparr>faExecutor := fqExecutor req, faFlowID := fqFlowID req\<rparr>) (reads (handleGetLocal env)) st)"

text \<open>A decoded frame: the envelope did not decode, a request with its own success flag, or an action without handler.\<close>

datatype 'f flowMsg = MsgBad | MsgSet bool "'f setReq" | MsgReq flowAction bool flowReq | MsgUnknown

definition flowOnReceive ::
  "('f, 's, 'a) flowEnv \<Rightarrow> conn option \<Rightarrow> header option \<Rightarrow> bool \<Rightarrow> 'f flowMsg \<Rightarrow> ('f, 's, 'a) flowSt \<Rightarrow> ('f, 's, 'a) flowStep" where
  "flowOnReceive env oc oh payloadEmpty msg st0 =
     andThen (case feCtxServer env of None \<Rightarrow> Ret st0 | Some srv \<Rightarrow> andThen (bindServer srv st0) startSchedulers) (\<lambda>st.
       case msg of
         MsgBad \<Rightarrow> Ret (st, [])
       | MsgUnknown \<Rightarrow> Ret (st, case forwardRemoteByHeaderTarget env oc oh payloadEmpty of None \<Rightarrow> [] | Some outs \<Rightarrow> outs)
       | MsgSet ok req \<Rightarrow> handleSet env oc oh ok req st
       | MsgReq act ok req \<Rightarrow>
           (case act of
              ActSet \<Rightarrow> Ret (st, [])
            | ActDelete \<Rightarrow> handleDelete env oc oh ok req st
            | ActRun \<Rightarrow> handleRun env oc oh ok req st
            | ActCancelRun \<Rightarrow> handleCancelRun env oc oh ok req st
            | ActStatus \<Rightarrow> handleStatus env oc oh ok req st
            | ActDetail \<Rightarrow> handleDetail env oc oh ok req st
            | ActListRuns \<Rightarrow> handleListRuns env oc oh ok req st
            | ActList \<Rightarrow> handleList env oc oh ok req st
            | ActGet \<Rightarrow> handleGet env oc oh ok req st))"

end
