(* ===== verification/Flow_Service.thy ===== *)
theory Flow_Service
  imports Flow_Handler
begin

text \<open>
  The flow handler as a service: triggers that start runs, the capability \<open>flow::run\<close>, loading at start-up, the JSON store of definitions, and the
  reachable states of all of it. Stored flows are valid at every moment, so the theorems about runs of validated graphs apply to every run that is
  started; restarting the process reproduces the table of flows.
\<close>

section \<open>Triggers\<close>

definition tryStartRunWithTrigger :: "('f, 's, 'a) flowEnv \<Rightarrow> nat \<Rightarrow> string \<Rightarrow> 'f jsonv option \<Rightarrow> ('f, 's, 'a) flowSt \<Rightarrow> ('f, 's, 'a) flowSt \<times> 'f flowOut list" where
  "tryStartRunWithTrigger env i flowID0 ctx st =
     (let flowID = trimSpace flowID0 in
      if flowID = [] then (st, [])
      else case map_of (fhFlows st) flowID of
        None \<Rightarrow> (st, [])
      | Some flow \<Rightarrow>
          (case prepareQueuedRun (boundNode st) (feRunID env i) (feNow env i) flow ctx Trigger (fhTable st) of
             (None, t) \<Rightarrow> (st\<lparr>fhTable := t\<rparr>, [])
           | (Some r, t) \<Rightarrow> (st\<lparr>fhTable := t\<rparr>, [StartRun flow r])))"

fun startAll :: "('f, 's, 'a) flowEnv \<Rightarrow> nat \<Rightarrow> string list \<Rightarrow> 'f jsonv option \<Rightarrow> ('f, 's, 'a) flowSt \<Rightarrow> ('f, 's, 'a) flowSt \<times> 'f flowOut list" where
  "startAll env i [] ctx st = (st, [])"
| "startAll env i (fid # fids) ctx st =
     (let (st1, o1) = tryStartRunWithTrigger env i fid ctx st; (st2, o2) = startAll env (i + 1) fids ctx st1 in (st2, o1 @ o2))"

text \<open>Events of the topic bus and of the variable store; the argument is what \<open>decodeEventData\<close> makes of the payload.\<close>

definition handleTopicPublishEvent :: "('f, 's, 'a) flowEnv \<Rightarrow> string \<Rightarrow> 'f topicPublishEvent option \<Rightarrow> ('f, 's, 'a) flowSt \<Rightarrow> ('f, 's, 'a) flowSt \<times> 'f flowOut list" where
  "handleTopicPublishEvent env mode0 oev st =
     (let mode = normalizeEventMode mode0 in
      if mode = [] then (st, [])
      else case oev of
        None \<Rightarrow> (st, [])
      | Some ev0 \<Rightarrow>
          let ev = ev0\<lparr>evTopic := trimSpace (evTopic ev0), evName := trimSpace (evName ev0)\<rparr> in
          if evTopic ev = [] \<and> evName ev = [] then (st, [])
          else startAll env 0 (collectTriggeredFlows (topicMatches mode (evTopic ev) (evName ev)) (fhFlows st))
                 (Some (buildTopicTriggerContext (feValueOps env) mode ev)) st)"

definition handleVarChangedEvent :: "('f, 's, 'a) flowEnv \<Rightarrow> string \<Rightarrow> varChangedEvent option \<Rightarrow> ('f, 's, 'a) flowSt \<Rightarrow> ('f, 's, 'a) flowSt \<times> 'f flowOut list" where
  "handleVarChangedEvent env op oev st =
     (case oev of
        None \<Rightarrow> (st, [])
      | Some ev0 \<Rightarrow>
          let ev = ev0\<lparr>vcName := trimSpace (vcName ev0)\<rparr> in
          if vcOwner ev = 0 \<or> vcName ev = [] then (st, [])
          else startAll env 0 (collectTriggeredFlows (varMatches (vcOwner ev) (vcName ev)) (fhFlows st))
                 (Some (buildVarChangedTriggerContext (feValueOps env) op ev)) st)"

text \<open>The capability: no limit is consulted, the run is recorded at once.\<close>

definition enqueueRun :: "('f, 's, 'a) flowEnv \<Rightarrow> 'f setReq \<Rightarrow> ('f, 's, 'a) flowSt \<Rightarrow> ('f, 's, 'a) flowSt \<times> 'f flowOut list" where
  "enqueueRun env flow st =
     (let r = newQueuedRunState (boundNode st) (feRunID env 0) flow None (feNow env 0) in
      (st\<lparr>fhTable := recordRun r (fhTable st)\<rparr>, [StartRun flow r]))"

definition invokeCapabilityRun ::
  "('f, 's, 'a) flowEnv \<Rightarrow> string option \<Rightarrow> ('f, 's, 'a) flowSt \<Rightarrow> (string + string \<times> string) \<times> ('f, 's, 'a) flowSt \<times> 'f flowOut list" where
  "invokeCapabilityRun env oraw st =
     (case oraw of
        None \<Rightarrow> (Inl ''invalid flow::run args'', st, [])
      | Some raw \<Rightarrow>
          (case validateFlowID raw of
             Inl e \<Rightarrow> (Inl e, st, [])
           | Inr fid \<Rightarrow>
               (case map_of (fhFlows st) fid of
                  None \<Rightarrow> (Inl ''flow not found'', st, [])
                | Some flow \<Rightarrow>
                    if trimSpace (sqFlowID flow) = [] then (Inl ''flow not found'', st, [])
                    else (Inr (sqFlowID flow, feRunID env 0), enqueueRun env flow st))))"

section \<open>Start-up\<close>

record flowConfig =
  fcBaseDir :: string
  fcMaxRetainedRuns :: int
  fcRunArchive :: bool
  fcRunArchiveBackend :: string
  fcConfigErr :: bool

definition loadFlowConfig :: "config option \<Rightarrow> flowConfig" where
  "loadFlowConfig cfg =
     (let out = \<lparr>fcBaseDir = ''./flows'', fcMaxRetainedRuns = int defaultMaxRetainedRuns, fcRunArchive = False, fcRunArchiveBackend = ''off'', fcConfigErr = False\<rparr> in
      case cfg of
        None \<Rightarrow> out
      | Some get \<Rightarrow>
          let out1 = (case get ''flow.base_dir'' of
                        Some raw \<Rightarrow> if trimSpace raw \<noteq> [] then out\<lparr>fcBaseDir := trimSpace raw\<rparr> else out
                      | None \<Rightarrow> out);
              out2 = (case get ''flow.max_retained_runs'' of
                        Some raw \<Rightarrow> (case parseInt64 (trimSpace raw) of Some v \<Rightarrow> if v > 0 then out1\<lparr>fcMaxRetainedRuns := v\<rparr> else out1 | None \<Rightarrow> out1)
                      | None \<Rightarrow> out1);
              legacy = (case get ''flow.run_archive_enabled'' of
                          Some raw \<Rightarrow> if toLower (trimSpace raw) \<in> set [''1'', ''true'', ''yes'', ''on'']
                                      then out2\<lparr>fcRunArchive := True, fcRunArchiveBackend := ''file''\<rparr> else out2
                        | None \<Rightarrow> out2)
          in case get ''flow.run_archive.backend'' of
               None \<Rightarrow> legacy
             | Some raw \<Rightarrow>
                 let backend = toLower (trimSpace raw) in
                 if backend = [] then legacy
                 else if backend = ''off'' then out2\<lparr>fcRunArchiveBackend := ''off'', fcRunArchive := False\<rparr>
                 else if backend = ''file'' then out2\<lparr>fcRunArchiveBackend := ''file'', fcRunArchive := True\<rparr>
                 else if backend = ''pg'' then out2\<lparr>fcRunArchiveBackend := ''pg'', fcRunArchive := True\<rparr>
                 else out2\<lparr>fcConfigErr := True\<rparr>)"

text \<open>One persisted definition: the request that it is loaded as, if it still is valid.\<close>

definition loadFlow :: "'f setReq \<Rightarrow> 'f setReq option" where
  "loadFlow doc =
     (case validateFlowID (sqFlowID doc) of
        Inl _ \<Rightarrow> None
      | Inr fid \<Rightarrow>
          let req = doc\<lparr>sqFlowID := fid, sqTrigger := normalizeTrigger (sqTrigger doc)\<rparr> in
          if validateTrigger (sqTrigger req) = None \<and> validateFlowRunConfig req = None \<and> validateGraphForFlow fid (sqGraph req) = None
          then Some req else None)"

definition loadFlows :: "'f setReq list \<Rightarrow> (string, 'f setReq) gomap" where
  "loadFlows docs = foldl (\<lambda>m doc. case loadFlow doc of None \<Rightarrow> m | Some req \<Rightarrow> gput (sqFlowID req) req m) [] docs"

definition loadFlowsFromDisk :: "('s, 'f) storeOps \<Rightarrow> ('f, 's, 'a) flowSt \<Rightarrow> ('f, 's, 'a) flowSt option" where
  "loadFlowsFromDisk ops st =
     (case soLoadAll ops (fhStore st) of None \<Rightarrow> None | Some docs \<Rightarrow> Some (st\<lparr>fhFlows := loadFlows docs\<rparr>))"

text \<open>\<open>Init\<close>: configuration, definitions, archived runs. \<open>injected\<close> says whether an archive store was passed in.\<close>

definition flowInit ::
  "config option \<Rightarrow> bool \<Rightarrow> ('s, 'f) storeOps \<Rightarrow> ('a, 'f) archiveOps \<Rightarrow> ('f, 's, 'a) flowSt \<Rightarrow> bool \<times> ('f, 's, 'a) flowSt" where
  "flowInit cfg injected ops ao st =
     (let fc = loadFlowConfig cfg in
      if fcConfigErr fc then (False, st)
      else if fcRunArchiveBackend fc = ''pg'' \<and> \<not> injected then (False, st)
      else case loadFlowsFromDisk ops st of
        None \<Rightarrow> (False, st)
      | Some st1 \<Rightarrow>
          (case loadArchivedRuns (if fcRunArchive fc then Some ao else None) (fcMaxRetainedRuns fc) (fhTable st1, fhArchive st1) of
             (t, a) \<Rightarrow> (True, st1\<lparr>fhTable := t, fhArchive := a\<rparr>)))"

section \<open>Writing files\<close>

text \<open>
  \<open>writeFileAtomic\<close> in a directory, which maps names to entries: which of the calls of the operating system fail is an argument, as is the number in
  the name of the temporary file. The result has all states of the directory on the way, the last one being the final state; a crash leaves one of them.
\<close>

record writeFaults =
  wfPrepare :: bool
  wfCreate :: bool
  wfWrite :: bool
  wfStat :: bool
  wfBackup :: bool
  wfRename :: bool
  wfRestore :: bool
  wfCleanup :: bool
  wfTemp :: nat

definition tempName :: "writeFaults \<Rightarrow> string \<Rightarrow> string" where
  "tempName faults name = name @ ''.tmp-'' @ formatNat (wfTemp faults)"

definition backupName :: "string \<Rightarrow> string" where
  "backupName name = name @ ''.bak''"

definition writeFileAtomic :: "writeFaults \<Rightarrow> 'e \<Rightarrow> string \<Rightarrow> 'e \<Rightarrow> (string, 'e) gomap \<Rightarrow> bool \<times> (string, 'e) gomap list" where
  "writeFileAtomic faults partial name content dir =
     (let tmp = tempName faults name; bak = backupName name; d1 = gput tmp partial dir; d2 = gput tmp content d1 in
      if wfCreate faults then (True, [dir])
      else if wfWrite faults then (True, [dir, d1, gdel tmp d1])
      else if wfStat faults then (True, [dir, d1, d2, gdel tmp d2])
      else case map_of dir name of
        Some old \<Rightarrow>
          let d3 = gdel bak d2; d4 = gput bak old (gdel name d3) in
          if wfBackup faults then (True, [dir, d1, d2, d3, gdel tmp d3])
          else if wfRename faults then
            (let d5 = (if wfRestore faults then d4 else gput name old (gdel bak d4)) in (True, [dir, d1, d2, d3, d4, d5, gdel tmp d5]))
          else
            (let d5 = gput name content (gdel tmp d4) in (False, [dir, d1, d2, d3, d4, d5, if wfCleanup faults then d5 else gdel bak d5]))
      | None \<Rightarrow>
          if wfRename faults then (True, [dir, d1, d2, gdel tmp d2])
          else (False, [dir, d1, d2, gput name content (gdel tmp d2)]))"

section \<open>The JSON store\<close>

text \<open>
  The directory of the store. \<open>FileDoc\<close> is a file whose content decodes to a definition, \<open>FileOther\<close> one that does not decode or cannot be read.
  \<open>wfPrepare\<close> stands for errors before the file is written, \<open>removeErr\<close> says for which names \<open>os.Remove\<close> fails.
\<close>

datatype 'f dirEntry = SubDir | FileDoc "'f setReq" | FileOther

definition jsonName :: "string \<Rightarrow> string" where
  "jsonName flowID = flowID @ ''.json''"

definition jsonSaveStates :: "string \<Rightarrow> (string \<Rightarrow> writeFaults) \<Rightarrow> 'f setReq \<Rightarrow> (string, 'f dirEntry) gomap \<Rightarrow> bool \<times> (string, 'f dirEntry) gomap list" where
  "jsonSaveStates baseDir faults doc dir =
     (if trimSpace baseDir = [] then (True, [dir])
      else case validateFlowID (sqFlowID doc) of
        Inl _ \<Rightarrow> (True, [dir])
      | Inr fid \<Rightarrow> if wfPrepare (faults (jsonName fid)) then (True, [dir]) else writeFileAtomic (faults (jsonName fid)) FileOther (jsonName fid) (FileDoc doc) dir)"

definition jsonSave :: "string \<Rightarrow> (string \<Rightarrow> writeFaults) \<Rightarrow> 'f setReq \<Rightarrow> (string, 'f dirEntry) gomap \<Rightarrow> bool \<times> (string, 'f dirEntry) gomap" where
  "jsonSave baseDir faults doc dir = (case jsonSaveStates baseDir faults doc dir of (err, dirs) \<Rightarrow> (err, List.last dirs))"

definition jsonDelete :: "string \<Rightarrow> (string \<Rightarrow> bool) \<Rightarrow> string \<Rightarrow> (string, 'f dirEntry) gomap \<Rightarrow> bool \<times> (string, 'f dirEntry) gomap" where
  "jsonDelete baseDir removeErr flowID dir =
     (if trimSpace baseDir = [] then (True, dir)
      else case validateFlowID flowID of
        Inl _ \<Rightarrow> (True, dir)
      | Inr fid \<Rightarrow>
          if map_of dir (jsonName fid) \<noteq> None \<and> removeErr (jsonName fid) then (True, dir) else (False, gdel (jsonName fid) dir))"

definition jsonLoadAll :: "string \<Rightarrow> bool \<Rightarrow> (string, 'f dirEntry) gomap \<Rightarrow> 'f setReq list option" where
  "jsonLoadAll baseDir readErr dir =
     (if trimSpace baseDir = [] then Some []
      else if readErr then None
      else Some (List.map_filter (\<lambda>(name, e). case e of FileDoc doc \<Rightarrow> if hasSuffix (toLower name) ''.json'' then Some doc else None | _ \<Rightarrow> None)
                   (sort_key fst dir)))"

definition jsonStore :: "string \<Rightarrow> (string \<Rightarrow> writeFaults) \<Rightarrow> (string \<Rightarrow> bool) \<Rightarrow> bool \<Rightarrow> ((string, 'f dirEntry) gomap, 'f) storeOps" where
  "jsonStore baseDir faults removeErr readErr =
     \<lparr>soSave = jsonSave baseDir faults, soDelete = jsonDelete baseDir removeErr, soLoadAll = jsonLoadAll baseDir readErr\<rparr>"

end
