(* ===== verification/Flow_Reach.thy ===== *)
theory Flow_Reach
  imports Flow_Service
begin

text \<open>
  What the flow service keeps at every moment, whatever requests, events, schedules and runs do in whatever order: stored flows are valid, the table
  of runs is consistent, and each flow on a schedule has one live scheduler. The proofs go through two interfaces: \<open>flow_operations\<close>, what the routing
  needs of the operations at the executor, and \<open>flow_store\<close>, what the handler needs of the store of definitions.
\<close>

section \<open>Normal forms\<close>

lemma lowerChar_other: "\<not> isLower (lowerChar c) \<Longrightarrow> lowerChar c = c"
  by (auto simp: lowerChar_def isUpper_def isLower_def of_char_of split: if_splits)

lemma letters_lower [simp]: "isLower (CHR ''i'')" "isLower (CHR ''k'')"
  by (simp_all add: isLower_def)

text \<open>Text without small letters in the result of \<open>toLower\<close> was there before.\<close>

lemma toLower_prefix: "toLower s = w @ r \<Longrightarrow> \<forall>c\<in>set w. \<not> isLower c \<Longrightarrow> \<exists>r'. s = w @ r'"
proof (induction s arbitrary: w rule: toLower.induct)
  case (2 c cs)
  show ?case
  proof (cases w)
    case (Cons x xs)
    then have plain: "\<not> (c = CHR 0xC4 \<and> hasPrefix cs [CHR 0xB0])" "\<not> (c = CHR 0xE2 \<and> hasPrefix cs [CHR 0x84, CHR 0xAA])"
      using 2(4,5) by (auto split: if_splits)
    then have "lowerChar c = x" "toLower cs = xs @ r" using 2(4) Cons by auto
    then show ?thesis using 2(3)[OF plain] 2(5) Cons lowerChar_other[of c] by auto
  qed simp
qed simp

lemma toLower_length_plain: "toLower s = w \<Longrightarrow> \<forall>c\<in>set w. \<not> isLower c \<Longrightarrow> length s = length w"
  by (induction s arbitrary: w rule: toLower.induct) (auto split: if_splits)

lemma toLower_plain: "toLower s = w \<Longrightarrow> \<forall>c\<in>set w. \<not> isLower c \<Longrightarrow> s = w"
  using toLower_prefix[of s w "[]"] toLower_length_plain[of s w] by (metis append_Nil2 append_eq_append_conv)

lemma toLower_split: "toLower s = r @ w \<Longrightarrow> \<exists>r' w'. s = r' @ w' \<and> toLower w' = w"
proof (induction s arbitrary: r rule: toLower.induct)
  case (2 c cs)
  show ?case
  proof (cases r)
    case (Cons x xs)
    have rest: "\<exists>r' w'. c # cs = r' @ w' \<and> toLower w' = w" if "\<exists>r' w'. drop k cs = r' @ w' \<and> toLower w' = w" for k
      using that by (metis append.assoc append_Cons append_take_drop_id)
    consider (i) "c = CHR 0xC4 \<and> hasPrefix cs [CHR 0xB0]" | (k) "\<not> (c = CHR 0xC4 \<and> hasPrefix cs [CHR 0xB0])" "c = CHR 0xE2 \<and> hasPrefix cs [CHR 0x84, CHR 0xAA]"
      | (o) "\<not> (c = CHR 0xC4 \<and> hasPrefix cs [CHR 0xB0])" "\<not> (c = CHR 0xE2 \<and> hasPrefix cs [CHR 0x84, CHR 0xAA])" by blast
    then show ?thesis
    proof cases
      case i
      then show ?thesis using 2(1)[OF i, of xs] 2(4) Cons rest[of 1] by simp
    next
      case k
      then show ?thesis using 2(2)[OF k, of xs] 2(4) Cons rest[of 2] by simp
    next
      case o
      then have "toLower cs = xs @ w" using 2(4) Cons by (auto split: if_splits)
      then show ?thesis using 2(3)[OF o, of xs] rest[of 0] by simp
    qed
  qed (use 2(4) in \<open>auto intro: exI[of _ "[]"]\<close>)
qed simp

lemma toLower_suffix: "toLower s = r @ w \<Longrightarrow> \<forall>c\<in>set w. \<not> isLower c \<Longrightarrow> \<exists>r'. s = r' @ w"
  using toLower_split[of s r w] toLower_plain[of _ w] by blast

lemma toLower_idem [simp]: "toLower (toLower s) = toLower s"
proof (induction s rule: toLower.induct)
  case (2 c cs)
  have ik: "lowerChar (CHR ''i'') = CHR ''i''" "lowerChar (CHR ''k'') = CHR ''k''" by (simp_all add: lowerChar_def isUpper_def)
  have plain: "\<not> isLower (CHR 0xC4)" "\<not> isLower (CHR 0xB0)" "\<not> isLower (CHR 0xE2)" "\<not> isLower (CHR 0x84)" "\<not> isLower (CHR 0xAA)" by (simp_all add: isLower_def)
  have cc: "lowerChar (lowerChar c) = lowerChar c" by (auto simp: lowerChar_def isUpper_def of_char_of)
  have c: "c = x" if "lowerChar c = x" "\<not> isLower x" for x using that lowerChar_other[of c] by auto
  have pre: "hasPrefix cs w" if "hasPrefix (toLower cs) w" "\<forall>x\<in>set w. \<not> isLower x" for w
    using that toLower_prefix[of cs w] by (auto simp: hasPrefix_iff)
  show ?case
    using 2 ik cc c[OF _ plain(1)] c[OF _ plain(3)] pre[of "[CHR 0xB0]"] pre[of "[CHR 0x84, CHR 0xAA]"] plain by auto
qed simp

lemma spaceRunes_plain: "\<forall>w\<in>set spaceRunes. \<forall>c\<in>set w. \<not> isLower c"
  by (simp add: spaceRunes_def isLower_def)

lemma trimSpace_lower [simp]: "trimSpace (toLower (trimSpace s)) = toLower (trimSpace s)"
proof (rule trimSpace_id)
  fix w assume w: "w \<in> set spaceRunes"
  then have "\<forall>c\<in>set w. \<not> isLower c" using spaceRunes_plain by blast
  then show "\<not> hasPrefix (toLower (trimSpace s)) w \<and> \<not> hasSuffix (toLower (trimSpace s)) w"
    using trimSpace_clean[OF w, of s] toLower_prefix[of "trimSpace s" w] toLower_suffix[of "trimSpace s" _ w] by (auto simp: hasPrefix_iff hasSuffix_iff)
qed

lemma triggerType_normalize [simp]: "triggerType (normalizeTrigger t) = triggerType t"
  by (simp add: triggerType_def normalizeTrigger_def Let_def)

lemma normalizeTrigger_idem [simp]: "normalizeTrigger (normalizeTrigger t) = normalizeTrigger t"
proof -
  have "toLower (trimSpace ''publish'') = ''publish''" by code_simp
  then show ?thesis by (simp add: normalizeTrigger_def triggerType_def Let_def)
qed

section \<open>Valid flows\<close>

text \<open>A stored flow is one that a restart would load as it is.\<close>

definition goodFlow :: "string \<Rightarrow> 'f setReq \<Rightarrow> bool" where
  "goodFlow fid flow \<longleftrightarrow> sqFlowID flow = fid \<and> loadFlow flow = Some flow"

lemma goodFlow_iff:
  "goodFlow fid flow \<longleftrightarrow> sqFlowID flow = fid \<and> validateFlowID fid = Inr fid \<and> normalizeTrigger (sqTrigger flow) = sqTrigger flow \<and>
     validateTrigger (sqTrigger flow) = None \<and> validateFlowRunConfig flow = None \<and> validateGraphForFlow fid (sqGraph flow) = None"
proof -
  have upd: "flow\<lparr>sqFlowID := a, sqTrigger := b\<rparr> = flow \<longleftrightarrow> a = sqFlowID flow \<and> b = sqTrigger flow" for a b
    by (cases flow) auto
  show ?thesis
    by (auto simp: goodFlow_def loadFlow_def upd Let_def validateFlowRunConfig_def split: sum.splits if_splits)
qed

lemma goodFlow_trim: "goodFlow fid flow \<Longrightarrow> trimSpace fid = fid \<and> fid \<noteq> []"
  using validate_again(1) by (auto simp: goodFlow_iff)

lemma loadFlow_good: "loadFlow doc = Some flow \<Longrightarrow> goodFlow (sqFlowID flow) flow"
  using validate_again(1)[of "sqFlowID doc"]
  by (auto simp: goodFlow_iff loadFlow_def Let_def validateFlowRunConfig_def split: sum.splits if_splits)

section \<open>Schedulers\<close>

definition schedulable :: "'f setReq \<Rightarrow> bool" where
  "schedulable flow =
     (let kind = triggerType (sqTrigger flow) in
      if kind = ''interval'' then 0 < sint (trEveryMs (sqTrigger flow) * 1000000)
      else kind = ''cron'' \<and> (case parseCronExpr (trimSpace (trCron (sqTrigger flow))) of Inl _ \<Rightarrow> False | Inr _ \<Rightarrow> True))"

definition wants :: "('f, 's, 'a) flowSt \<Rightarrow> string \<Rightarrow> bool" where
  "wants st fid = (case map_of (fhFlows st) fid of None \<Rightarrow> False | Some flow \<Rightarrow> schedulable flow)"

text \<open>No stop channel in the table is closed, and no two flows share one.\<close>

definition schedSafe :: "('f, 's, 'a) flowSt \<Rightarrow> bool" where
  "schedSafe st \<longleftrightarrow> (\<forall>n\<in>set (fhStopped st). n < fhNextStop st) \<and>
     (\<forall>fid n. map_of (fhSchedulers st) fid = Some n \<longrightarrow> n < fhNextStop st \<and> n \<notin> set (fhStopped st)) \<and>
     (\<forall>f g n. map_of (fhSchedulers st) f = Some n \<longrightarrow> map_of (fhSchedulers st) g = Some n \<longrightarrow> f = g)"

lemma schedSafeI:
  assumes "\<And>n. n \<in> set (fhStopped st) \<Longrightarrow> n < fhNextStop st"
    and "\<And>fid n. map_of (fhSchedulers st) fid = Some n \<Longrightarrow> n < fhNextStop st \<and> n \<notin> set (fhStopped st)"
    and "\<And>f g n. map_of (fhSchedulers st) f = Some n \<Longrightarrow> map_of (fhSchedulers st) g = Some n \<Longrightarrow> f = g"
  shows "schedSafe st"
  using assms unfolding schedSafe_def by blast

lemma schedSafeD:
  assumes "schedSafe st"
  shows "n \<in> set (fhStopped st) \<Longrightarrow> n < fhNextStop st"
    and "map_of (fhSchedulers st) fid = Some n \<Longrightarrow> n < fhNextStop st \<and> n \<notin> set (fhStopped st)"
    and "map_of (fhSchedulers st) f = Some n \<Longrightarrow> map_of (fhSchedulers st) g = Some n \<Longrightarrow> f = g"
  using assms unfolding schedSafe_def by blast+

definition schedOK :: "('f, 's, 'a) flowSt \<Rightarrow> bool" where
  "schedOK st \<longleftrightarrow> schedSafe st \<and> (fhSrv st \<noteq> None \<longrightarrow> fhSchedStarted st) \<and>
     (\<forall>fid. (map_of (fhSchedulers st) fid \<noteq> None) = (fhSchedStarted st \<and> wants st fid))"

text \<open>The fields of the schedulers change, nothing else.\<close>

definition reSched :: "('f, 's, 'a) flowSt \<Rightarrow> ('f, 's, 'a) flowSt \<Rightarrow> bool" where
  "reSched st st' \<longleftrightarrow> fhSrv st' = fhSrv st \<and> fhFlows st' = fhFlows st \<and> fhTable st' = fhTable st \<and> fhStore st' = fhStore st \<and>
     fhArchive st' = fhArchive st \<and> fhSchedStarted st' = fhSchedStarted st \<and> fhSubscribed st' = fhSubscribed st"

lemma reSched_fields:
  assumes "reSched st st'"
  shows "fhSrv st' = fhSrv st" "fhFlows st' = fhFlows st" "fhTable st' = fhTable st" "fhStore st' = fhStore st" "fhArchive st' = fhArchive st"
    "fhSchedStarted st' = fhSchedStarted st" "wants st' = wants st"
  using assms by (auto simp: reSched_def wants_def)

lemma reSched_refl [simp]: "reSched st st"
  by (simp add: reSched_def)

lemma reSched_trans: "reSched a b \<Longrightarrow> reSched b c \<Longrightarrow> reSched a c"
  unfolding reSched_def by auto

lemma stopScheduler_spec:
  assumes "schedSafe st"
  obtains st' where "stopScheduler fid st = Ret st'" "schedSafe st'" "reSched st st'" "map_of (fhSchedulers st') = (map_of (fhSchedulers st))(fid := None)"
proof (cases "map_of (fhSchedulers st) fid")
  case None
  have "map_of (fhSchedulers st) = (map_of (fhSchedulers st))(fid := None)" using None by (metis fun_upd_triv)
  then show ?thesis using that[OF _ assms reSched_refl] None by (simp add: stopScheduler_def)
next
  case (Some n)
  let ?st = "st\<lparr>fhStopped := n # fhStopped st, fhSchedulers := gdel fid (fhSchedulers st)\<rparr>"
  have n: "n < fhNextStop st" "n \<notin> set (fhStopped st)" "\<And>f. map_of (fhSchedulers st) f = Some n \<Longrightarrow> f = fid"
    using assms Some unfolding schedSafe_def by blast+
  show ?thesis
  proof (rule that)
    show "stopScheduler fid st = Ret ?st" using Some n(2) by (simp add: stopScheduler_def)
    have old: "map_of (fhSchedulers st) f = Some k" "k \<noteq> n" if "map_of (fhSchedulers ?st) f = Some k" for f k
      using n(3)[of f] that by (simp_all add: delete_conv' split: if_splits) blast
    show "schedSafe ?st"
    proof (rule schedSafeI)
      fix k assume "k \<in> set (fhStopped ?st)"
      then show "k < fhNextStop ?st" using schedSafeD(1)[OF assms, of k] n(1) by auto
    next
      fix f k assume "map_of (fhSchedulers ?st) f = Some k"
      from old[OF this] show "k < fhNextStop ?st \<and> k \<notin> set (fhStopped ?st)" using schedSafeD(2)[OF assms, of f k] by simp
    next
      fix f g k assume "map_of (fhSchedulers ?st) f = Some k" "map_of (fhSchedulers ?st) g = Some k"
      then show "f = g" using old(1) schedSafeD(3)[OF assms, of f k g] by blast
    qed
    show "reSched st ?st" by (simp add: reSched_def)
  qed (simp add: delete_conv')
qed

lemma restartScheduler_spec:
  assumes "schedSafe st" and "trimSpace fid = fid" and "fid \<noteq> []"
  obtains st' where "restartScheduler fid st = Ret st'" "schedSafe st'" "reSched st st'"
    "\<And>f. (map_of (fhSchedulers st') f \<noteq> None) = (if f = fid then wants st fid else map_of (fhSchedulers st) f \<noteq> None)"
proof -
  obtain st1 where st1: "stopScheduler fid st = Ret st1" "schedSafe st1" "reSched st st1" "map_of (fhSchedulers st1) = (map_of (fhSchedulers st))(fid := None)"
    using stopScheduler_spec[OF assms(1)] by blast
  let ?on = "st1\<lparr>fhNextStop := fhNextStop st1 + 1, fhSchedulers := gput fid (fhNextStop st1) (fhSchedulers st1)\<rparr>"
  let ?off = "?on\<lparr>fhSchedulers := gdel fid (fhSchedulers ?on)\<rparr>"
  have flows: "fhFlows st1 = fhFlows st" by (rule reSched_fields[OF st1(3)])
  have on: "schedSafe ?on" "schedSafe ?off" using st1(2) unfolding schedSafe_def by (auto simp: update_conv' delete_conv' less_Suc_eq)
  have re: "reSched st ?on" "reSched st ?off" using st1(3) unfolding reSched_def by auto
  have res: "restartScheduler fid st = Ret (case map_of (fhFlows st) fid of None \<Rightarrow> st1 | Some flow \<Rightarrow> if schedulable flow then ?on else ?off)"
    using assms(2,3) st1(1) flows
    by (auto simp: restartScheduler_def schedulable_def Let_def split: option.split sum.split)
  show ?thesis
    by (rule that[OF res])
      (use st1 on re in \<open>auto simp: wants_def update_conv' delete_conv' split: option.split\<close>)
qed

lemma restartSchedulers_spec:
  assumes "schedSafe st" and "\<forall>fid\<in>set ids. trimSpace fid = fid \<and> fid \<noteq> []"
  shows "\<exists>st'. restartSchedulers ids st = Ret st' \<and> schedSafe st' \<and> reSched st st' \<and>
    (\<forall>f. (map_of (fhSchedulers st') f \<noteq> None) = (if f \<in> set ids then wants st f else map_of (fhSchedulers st) f \<noteq> None))"
  using assms
proof (induction ids arbitrary: st)
  case (Cons fid ids)
  obtain st1 where st1: "restartScheduler fid st = Ret st1" "schedSafe st1" "reSched st st1"
    "\<And>f. (map_of (fhSchedulers st1) f \<noteq> None) = (if f = fid then wants st fid else map_of (fhSchedulers st) f \<noteq> None)"
    using restartScheduler_spec[OF Cons.prems(1), of fid] Cons.prems(2) by auto
  have w: "wants st1 = wants st" by (rule reSched_fields[OF st1(3)])
  from Cons.IH[OF st1(2)] Cons.prems(2) obtain st2 where "restartSchedulers ids st1 = Ret st2" "schedSafe st2" "reSched st1 st2"
    "\<forall>f. (map_of (fhSchedulers st2) f \<noteq> None) = (if f \<in> set ids then wants st1 f else map_of (fhSchedulers st1) f \<noteq> None)" by auto
  then show ?case using st1 reSched_trans[OF st1(3)] by (auto simp: w)
qed simp

section \<open>The invariant\<close>

definition storedOK :: "('f, 's, 'a) flowSt \<Rightarrow> bool" where
  "storedOK st \<longleftrightarrow> (\<forall>(fid, flow)\<in>set (fhFlows st). goodFlow fid flow)"

definition flowInv :: "('f, 's, 'a) flowSt \<Rightarrow> bool" where
  "flowInv st \<longleftrightarrow> storedOK st \<and> schedOK st \<and> tableOK (fhTable st) \<and> dedupOK (fhTable st)"

lemma storedOK_lookup: "storedOK st \<Longrightarrow> map_of (fhFlows st) fid = Some flow \<Longrightarrow> goodFlow fid flow"
  by (auto simp: storedOK_def dest: map_of_SomeD)

lemma gput_members: "set (gput k v m) \<subseteq> insert (k, v) (set m)"
  by (induction m) auto

lemma gdel_members: "set (gdel k m) \<subseteq> set m"
  by (auto simp: AList.delete_eq)

lemma startSchedulers_spec:
  assumes "storedOK st" and "schedSafe st" and "\<not> fhSchedStarted st \<Longrightarrow> \<forall>f. map_of (fhSchedulers st) f = None"
    and "fhSchedStarted st \<Longrightarrow> \<forall>f. (map_of (fhSchedulers st) f \<noteq> None) = wants st f" and "fhSrv st \<noteq> None"
  obtains st' where "startSchedulers st = Ret st'" "schedOK st'" "reSched (st\<lparr>fhSchedStarted := True\<rparr>) st'"
proof (cases "fhSchedStarted st")
  case True
  then show ?thesis using that[of st] assms by (auto simp: startSchedulers_def schedOK_def reSched_def)
next
  case False
  let ?st = "st\<lparr>fhSchedStarted := True\<rparr>"
  have safe: "schedSafe ?st" using assms(2) by (simp add: schedSafe_def)
  have ids: "\<forall>fid\<in>set (map fst (fhFlows st)). trimSpace fid = fid \<and> fid \<noteq> []"
    using assms(1) goodFlow_trim by (fastforce simp: storedOK_def)
  from restartSchedulers_spec[OF safe ids] obtain st' where st': "restartSchedulers (map fst (fhFlows st)) ?st = Ret st'" "schedSafe st'" "reSched ?st st'"
    "\<And>f. (map_of (fhSchedulers st') f \<noteq> None) = (if f \<in> set (map fst (fhFlows st)) then wants ?st f else map_of (fhSchedulers ?st) f \<noteq> None)" by blast
  have none: "\<not> wants ?st f" if "f \<notin> set (map fst (fhFlows st))" for f
    using that by (simp add: wants_def map_of_eq_None_iff[symmetric])
  note re = reSched_fields[OF st'(3)]
  have "schedOK st'" unfolding schedOK_def using st'(2,4) re none assms(3)[OF False] by auto
  then show ?thesis using that[of st'] st' False assms(5) by (simp add: startSchedulers_def)
qed

definition sameCore :: "('f, 's, 'a) flowSt \<Rightarrow> ('f, 's, 'a) flowSt \<Rightarrow> bool" where
  "sameCore st st' \<longleftrightarrow> fhFlows st' = fhFlows st \<and> fhTable st' = fhTable st \<and> fhStore st' = fhStore st \<and> fhArchive st' = fhArchive st"

lemma flowInvD:
  assumes "flowInv st"
  shows "storedOK st" "schedOK st" "schedSafe st" "tableOK (fhTable st)" "dedupOK (fhTable st)"
  using assms by (simp_all add: flowInv_def schedOK_def)

lemma startSchedulers_keeps:
  assumes "flowInv st"
  obtains st' where "startSchedulers st = Ret st'" "flowInv st'" "sameCore st st'" "fhSrv st' = fhSrv st"
proof (cases "fhSrv st = None")
  case True
  then show ?thesis using that[of st] assms by (simp add: startSchedulers_def sameCore_def)
next
  case False
  note inv = flowInvD[OF assms]
  obtain st' where st': "startSchedulers st = Ret st'" "schedOK st'" "reSched (st\<lparr>fhSchedStarted := True\<rparr>) st'"
    by (rule startSchedulers_spec[OF inv(1) inv(3) _ _ False]) (use inv(2) in \<open>auto simp: schedOK_def\<close>)
  show ?thesis
    using that[OF st'(1)] st'(2) inv reSched_fields[OF st'(3)] by (simp add: flowInv_def sameCore_def storedOK_def)
qed

lemma bindServer_keeps:
  assumes "flowInv st"
  obtains st' where "bindServer srv st = Ret st'" "flowInv st'" "sameCore st st'" "fhSrv st' = Some srv"
proof -
  let ?st = "st\<lparr>fhSrv := Some srv\<rparr>"
  note inv = flowInvD[OF assms]
  have stored: "storedOK ?st" "schedSafe ?st" using inv by (simp_all add: storedOK_def schedSafe_def)
  have wants: "wants ?st = wants st" by (simp add: wants_def fun_eq_iff)
  obtain st' where st': "startSchedulers ?st = Ret st'" "schedOK st'" "reSched (?st\<lparr>fhSchedStarted := True\<rparr>) st'"
    by (rule startSchedulers_spec[OF stored]) (use inv(2) wants in \<open>auto simp: schedOK_def\<close>)
  let ?st' = "st'\<lparr>fhSubscribed := True\<rparr>"
  note re = reSched_fields[OF st'(3)]
  have "schedOK ?st'" using st'(2) by (simp add: schedOK_def schedSafe_def wants_def)
  then have "flowInv ?st'" using inv re by (simp add: flowInv_def storedOK_def)
  then show ?thesis using that[of ?st'] st'(1) re by (simp add: bindServer_def sameCore_def)
qed

section \<open>The operations at the executor\<close>

text \<open>A step returns, and its new state and outputs satisfy \<open>Q\<close>.\<close>

definition ends :: "('s \<Rightarrow> 'o \<Rightarrow> bool) \<Rightarrow> ('s \<times> 'o) outcome \<Rightarrow> bool" where
  "ends Q m \<longleftrightarrow> (\<exists>st outs. m = Ret (st, outs) \<and> Q st outs)"

lemma ends_Ret [simp]: "ends Q (Ret (st, outs)) = Q st outs"
  by (simp add: ends_def)

lemma ends_andThen: "ends Q m \<Longrightarrow> (\<And>st outs. Q st outs \<Longrightarrow> ends R (f (st, outs))) \<Longrightarrow> ends R (andThen m f)"
  by (auto simp: ends_def)

definition quiet :: "'f flowOut list \<Rightarrow> bool" where
  "quiet outs \<longleftrightarrow> (\<forall>flow r. StartRun flow r \<notin> set outs)"

lemma quiet_sends [simp]:
  "quiet []" "quiet (sendCtrlToNodeWithReqHdr env oh target resp)" "quiet (sendResp env oh resp)" "quiet (xs @ ys) \<longleftrightarrow> quiet xs \<and> quiet ys"
  "sendToConn env c hdr body = Some outs \<Longrightarrow> quiet outs" "forwardDown env srv hdr body target = Some outs \<Longrightarrow> quiet outs"
  "forwardRemoteByHeaderTarget env oc oh b = Some outs \<Longrightarrow> quiet outs"
  by (auto simp: quiet_def sendCtrlToNodeWithReqHdr_def sendResp_def sendToConn_def forwardDown_def forwardRemoteByHeaderTarget_def Let_def
      split: option.splits if_splits)

lemma quiet_passOn [simp]: "(\<And>code msg. quiet (fail code msg)) \<Longrightarrow> quiet (passOn env hdr c target body fail)"
  by (auto simp: passOn_def split: option.split)

lemma quiet_sendOr [simp]: "quiet (fst (sendOr env hdr c target body))"
  by (auto simp: sendOr_def split: option.split)

lemma quiet_reads [simp]:
  "quiet (handleStatusLocal env hdr req st)" "quiet (handleDetailLocal env hdr req st)" "quiet (handleListLocal env hdr req st)"
  "quiet (handleListRunsLocal env hdr req st)" "quiet (handleGetLocal env hdr req st)"
  by (auto simp: handleStatusLocal_def handleDetailLocal_def handleListLocal_def handleListRunsLocal_def handleGetLocal_def Let_def split: option.split)

text \<open>Runs are started for valid flows and start empty.\<close>

definition startsOK :: "'f flowOut list \<Rightarrow> bool" where
  "startsOK outs \<longleftrightarrow> (\<forall>flow r. StartRun flow r \<in> set outs \<longrightarrow> goodFlow (sqFlowID flow) flow \<and> rcNodes (stRuntime (ruState r)) = [])"

lemma startsOK_quiet: "quiet outs \<Longrightarrow> startsOK outs"
  by (simp add: quiet_def startsOK_def)

lemma startsOK_simps [simp]:
  "startsOK (xs @ ys) \<longleftrightarrow> startsOK xs \<and> startsOK ys"
  "startsOK (StartRun flow r # xs) \<longleftrightarrow> goodFlow (sqFlowID flow) flow \<and> rcNodes (stRuntime (ruState r)) = [] \<and> startsOK xs"
  by (auto simp: startsOK_def)

definition sound :: "('f, 's, 'a) flowSt \<Rightarrow> 'f flowOut list \<Rightarrow> bool" where
  "sound st outs \<longleftrightarrow> flowInv st \<and> startsOK outs"

lemma sound_quiet: "flowInv st \<Longrightarrow> quiet outs \<Longrightarrow> sound st outs"
  by (simp add: sound_def startsOK_quiet)

text \<open>What \<open>handleSet\<close> has made sure of when the request reaches \<open>applySetLocal\<close>.\<close>

definition checkedSet :: "'f setReq \<Rightarrow> bool" where
  "checkedSet req \<longleftrightarrow> validateFlowID (sqFlowID req) = Inr (sqFlowID req) \<and> normalizeTrigger (sqTrigger req) = sqTrigger req \<and> validateTrigger (sqTrigger req) = None"

lemma flowInv_edit:
  assumes inv: "flowInv st" and core: "storedOK st'" "fhSchedStarted st' = fhSchedStarted st" "fhSrv st' = fhSrv st" "schedSafe st'"
    and sched: "\<And>f. (map_of (fhSchedulers st') f \<noteq> None) = (fhSchedStarted st \<and> wants st' f)"
    and runs: "tableOK (fhTable st')" "dedupOK (fhTable st')"
  shows "flowInv st'"
  using assms by (auto simp: flowInv_def schedOK_def)

lemma dedupOK_del: "dedupOK t \<Longrightarrow> dedupOK (t\<lparr>rtDedup := gdel fid (rtDedup t)\<rparr>)"
  by (simp add: dedupOK_def)

lemma applySetLocal_keeps:
  assumes inv: "flowInv st" and req: "checkedSet req" and bound: "fhSrv st \<noteq> None"
  shows "ends sound (applySetLocal env hdr req origin st)"
proof (cases "validateFlowRunConfig req = None \<and> validateGraphForFlow (sqFlowID req) (sqGraph req) = None \<and> \<not> fst (soSave (feStore env) req (fhStore st))")
  case False
  have "flowInv (st\<lparr>fhStore := s\<rparr>)" for s using inv by (simp add: flowInv_def storedOK_def schedOK_def schedSafe_def wants_def)
  then show ?thesis using False inv by (auto simp: applySetLocal_def Let_def intro!: sound_quiet split: option.splits prod.splits bool.splits)
next
  case True
  obtain store where save: "soSave (feStore env) req (fhStore st) = (False, store)"
    using True by (cases "soSave (feStore env) req (fhStore st)") auto
  let ?fid = "sqFlowID req"
  let ?st = "st\<lparr>fhStore := store, fhFlows := gput ?fid req (fhFlows st), fhTable := (fhTable st)\<lparr>rtDedup := gdel ?fid (rtDedup (fhTable st))\<rparr>\<rparr>"
  note I = flowInvD[OF inv]
  have good: "goodFlow ?fid req" using True req by (simp add: goodFlow_iff checkedSet_def)
  have stored: "storedOK ?st" using I(1) good gput_members[of ?fid req "fhFlows st"] by (auto simp: storedOK_def)
  have safe: "schedSafe ?st" using I(3) by (simp add: schedSafe_def)
  have trim: "trimSpace ?fid = ?fid" "?fid \<noteq> []" using goodFlow_trim[OF good] by auto
  obtain st' where st': "restartScheduler ?fid ?st = Ret st'" "schedSafe st'" "reSched ?st st'"
    "\<And>f. (map_of (fhSchedulers st') f \<noteq> None) = (if f = ?fid then wants ?st ?fid else map_of (fhSchedulers ?st) f \<noteq> None)"
    using restartScheduler_spec[OF safe trim] by blast
  note re = reSched_fields[OF st'(3)]
  have other: "wants ?st f = wants st f" if "f \<noteq> ?fid" for f using that by (simp add: wants_def update_conv')
  have on: "fhSchedStarted st" "\<And>f. (map_of (fhSchedulers st) f \<noteq> None) = wants st f" using I(2) bound by (simp_all add: schedOK_def)
  have "flowInv st'"
    by (rule flowInv_edit[OF inv]) (use stored st'(2,4) re other on I in \<open>auto simp: storedOK_def dedupOK_del\<close>)
  then show ?thesis using True save st'(1) by (simp add: applySetLocal_def Let_def sound_quiet)
qed

lemma cancelRuns_dedup: "rtDedup (cancelRuns fid reason now t) = rtDedup t"
proof -
  have "rtDedup (foldl (\<lambda>t rid. case map_of (rtRuns t) rid of None \<Rightarrow> t
      | Some r \<Rightarrow> t\<lparr>rtRuns := gput rid (snd (cancelRun reason now r)) (rtRuns t)\<rparr>) t ids) = rtDedup t" for ids and t :: "'a runTable"
    by (induction ids arbitrary: t) (auto split: option.split)
  then show ?thesis by (simp add: cancelRuns_def)
qed

lemma applyDeleteLocal_keeps:
  assumes inv: "flowInv st"
  shows "ends sound (applyDeleteLocal env hdr req origin st)"
proof (cases "\<exists>fid store. validateFlowID (fqFlowID req) = Inr fid \<and> map_of (fhFlows st) fid \<noteq> None \<and> soDelete (feStore env) fid (fhStore st) = (False, store)")
  case False
  have "flowInv (st\<lparr>fhStore := s\<rparr>)" for s using inv by (simp add: flowInv_def storedOK_def schedOK_def schedSafe_def wants_def)
  then show ?thesis using False inv by (auto simp: applyDeleteLocal_def Let_def intro!: sound_quiet split: sum.splits prod.splits bool.splits)
next
  case True
  then obtain fid store where fid: "validateFlowID (fqFlowID req) = Inr fid" "map_of (fhFlows st) fid \<noteq> None" "soDelete (feStore env) fid (fhStore st) = (False, store)"
    by blast
  let ?st = "st\<lparr>fhStore := store, fhFlows := gdel fid (fhFlows st), fhTable := (fhTable st)\<lparr>rtDedup := gdel fid (rtDedup (fhTable st))\<rparr>\<rparr>"
  note I = flowInvD[OF inv]
  have stored: "storedOK ?st" using I(1) gdel_members[of fid "fhFlows st"] by (auto simp: storedOK_def)
  have safe: "schedSafe ?st" using I(3) by (simp add: schedSafe_def)
  obtain st' where st': "stopScheduler fid ?st = Ret st'" "schedSafe st'" "reSched ?st st'" "map_of (fhSchedulers st') = (map_of (fhSchedulers ?st))(fid := None)"
    using stopScheduler_spec[OF safe] by blast
  note re = reSched_fields[OF st'(3)]
  let ?t = "cancelRuns fid ''interrupted by flow delete'' (feNow env 0) (fhTable st')"
  have wants: "wants ?st = (wants st)(fid := False)" by (auto simp: wants_def delete_conv' fun_eq_iff)
  have wants': "wants (st'\<lparr>fhTable := ?t\<rparr>) = wants st'" by (simp add: wants_def fun_eq_iff)
  have dedup: "rtDedup ?t = rtDedup (fhTable st')" by (rule cancelRuns_dedup)
  have "flowInv (st'\<lparr>fhTable := ?t\<rparr>)"
  proof (rule flowInv_edit[OF inv])
    show "storedOK (st'\<lparr>fhTable := ?t\<rparr>)" "schedSafe (st'\<lparr>fhTable := ?t\<rparr>)" using stored st'(2) re by (simp_all add: storedOK_def schedSafe_def)
    have "tableOK (fhTable st')" using I(4) re by simp
    then show "tableOK (fhTable (st'\<lparr>fhTable := ?t\<rparr>))" by (simp add: tableOK_cancelRuns)
    show "dedupOK (fhTable (st'\<lparr>fhTable := ?t\<rparr>))" using I(5) re dedup by (simp add: dedupOK_def)
    fix f show "(map_of (fhSchedulers (st'\<lparr>fhTable := ?t\<rparr>)) f \<noteq> None) = (fhSchedStarted st \<and> wants (st'\<lparr>fhTable := ?t\<rparr>) f)"
      using I(2) st'(4) re wants wants' by (auto simp: schedOK_def)
  qed (use re in simp_all)
  then show ?thesis using fid st'(1) by (auto simp: applyDeleteLocal_def Let_def sound_quiet)
qed

text \<open>What is assumed of new run ids: they are not blank, not in use, and different from each other.\<close>

definition freshIDs :: "('f, 's, 'a) flowEnv \<Rightarrow> ('f, 's, 'a) flowSt \<Rightarrow> bool" where
  "freshIDs env st \<longleftrightarrow> inj (feRunID env) \<and> (\<forall>i. trimSpace (feRunID env i) \<noteq> [] \<and> map_of (rtRuns (fhTable st)) (feRunID env i) = None)"

lemma flowInv_table: "flowInv st \<Longrightarrow> tableOK t \<Longrightarrow> dedupOK t \<Longrightarrow> flowInv (st\<lparr>fhTable := t\<rparr>)"
  by (simp add: flowInv_def storedOK_def schedOK_def schedSafe_def wants_def)

lemma checkAndRecord_dedupOK:
  assumes "dedupOK t" and "checkAndRecordTriggerDedup flow ctx now t = (dup, t')"
  shows "dedupOK t'"
  using assms dedup_step(1)[OF assms(1) _ assms(2)]
  by (cases "0 < triggerDedupWindow (sqTrigger flow)") (auto simp: checkAndRecordTriggerDedup_def Let_def)

lemma recordRun_dedup [simp]: "rtDedup (recordRun r t) = rtDedup t"
  by (simp add: recordRun_def Let_def)

lemma prepareQueuedRun_keeps:
  assumes ok: "tableOK t" "dedupOK t" and fresh: "map_of (rtRuns t) runID = None"
    and start: "prepareQueuedRun executor runID now flow ctx source t = (res, t')"
  shows "tableOK t' \<and> dedupOK t' \<and> (\<forall>rid. rid \<noteq> runID \<longrightarrow> map_of (rtRuns t') rid = map_of (rtRuns t) rid)"
proof -
  obtain dup t1 where t1: "(if source = Trigger then checkAndRecordTriggerDedup flow ctx now t else (False, t)) = (dup, t1)" by (metis surj_pair)
  then have same: "rtRuns t1 = rtRuns t" "rtOrder t1 = rtOrder t" "dedupOK t1"
    using checkAndRecord_rest[of flow ctx now t dup t1] checkAndRecord_dedupOK[OF ok(2), of flow ctx now dup t1] ok(2) by (auto split: if_splits)
  let ?r = "newQueuedRunState executor runID flow ctx now"
  have r: "stRunID (ruState ?r) = runID" by (simp add: newQueuedRunState_def)
  have ok1: "tableOK t1" using ok(1) same by (simp add: tableOK_def)
  have rec: "tableOK (recordRun ?r t1)" by (rule tableOK_record[OF ok1]) (use fresh same r in simp)
  have "t' \<in> {t, t1, recordRun ?r t1}" using start unfolding prepareQueuedRun_def Let_def t1 by (auto split: if_splits)
  then show ?thesis
    using rec same ok ok1 r by (auto simp: dedupOK_def recordRun_def Let_def update_conv')
qed

lemma prepareQueuedRun_new: "prepareQueuedRun executor runID now flow ctx source t = (Some r, t') \<Longrightarrow> rcNodes (stRuntime (ruState r)) = []"
  by (auto simp: prepareQueuedRun_def Let_def newQueuedRunState_def newRunContext_def split: if_splits prod.splits)

lemma runLocal_keeps:
  assumes "flowInv st" and "freshIDs env st"
  shows "ends sound (runLocal env hdr req st)"
proof -
  note I = flowInvD[OF assms(1)]
  have table: "flowInv (st\<lparr>fhTable := t'\<rparr>)" if "prepareQueuedRun (boundNode st) (feRunID env 0) (feNow env 0) flow None Manual (fhTable st) = (res, t')" for flow res t'
    using flowInv_table[OF assms(1)] prepareQueuedRun_keeps[OF I(4,5) _ that] assms(2) by (simp add: freshIDs_def)
  have good: "goodFlow (sqFlowID flow) flow" if "map_of (fhFlows st) fid = Some flow" for fid flow
    using storedOK_lookup[OF I(1) that] by (simp add: goodFlow_def)
  show ?thesis
    using assms(1) table good
    by (auto simp: runLocal_def Let_def sound_def startsOK_quiet split: option.split prod.split dest: prepareQueuedRun_new)
qed

lemma cancelRunLocal_keeps:
  assumes "flowInv st"
  shows "ends sound (cancelRunLocal env hdr req st)"
proof -
  note I = flowInvD[OF assms]
  have "flowInv (st\<lparr>fhTable := (fhTable st)\<lparr>rtRuns := gput (fqRunID req) (snd (cancelRun reason now r)) (rtRuns (fhTable st))\<rparr>\<rparr>)"
    if "map_of (rtRuns (fhTable st)) (fqRunID req) = Some r" for r reason now
    by (rule flowInv_table[OF assms tableOK_update[OF I(4) that]])
      (use tableOKD(3)[OF I(4) that] I(5) in \<open>simp_all add: dedupOK_def\<close>)
  then show ?thesis using assms by (auto simp: cancelRunLocal_def Let_def intro!: sound_quiet split: option.split prod.split bool.split) (metis snd_conv)
qed

section \<open>Routing over the operations\<close>

text \<open>
  The handlers decide where a request is executed and leave the rest to four operations. Whatever these four and the binding of the server keep
  (from \<open>pre\<close> to \<open>post\<close>), \<open>flowOnReceive\<close> keeps for every frame; in particular it neither panics nor blocks.
\<close>

locale flow_operations =
  fixes env :: "('f, 's, 'a) flowEnv" and pre :: "('f, 's, 'a) flowSt \<Rightarrow> bool" and post :: "('f, 's, 'a) flowSt \<Rightarrow> 'f flowOut list \<Rightarrow> bool"
  assumes weaken: "pre st \<Longrightarrow> quiet outs \<Longrightarrow> post st outs"
    and answer: "post st outs \<Longrightarrow> quiet outs' \<Longrightarrow> post st (outs @ outs')"
    and bind: "pre st \<Longrightarrow> \<exists>st'. bindServer srv st = Ret st' \<and> pre st' \<and> fhSrv st' = Some srv"
    and start: "pre st \<Longrightarrow> \<exists>st'. startSchedulers st = Ret st' \<and> pre st' \<and> fhSrv st' = fhSrv st"
    and set_local: "pre st \<Longrightarrow> checkedSet req \<Longrightarrow> fhSrv st \<noteq> None \<Longrightarrow> ends post (applySetLocal env hdr req origin st)"
    and delete_local: "pre st \<Longrightarrow> ends post (applyDeleteLocal env hdr dreq origin st)"
    and run_local: "pre st \<Longrightarrow> ends post (runLocal env hdr dreq st)"
    and cancel_local: "pre st \<Longrightarrow> ends post (cancelRunLocal env hdr dreq st)"
begin

lemma edit_ends:
  "pre st \<Longrightarrow> ends post (localFn st) \<Longrightarrow> (\<And>code msg. quiet (fail code msg)) \<Longrightarrow> ends post (routeEdit env srv c hdr executor origin perm body fail localFn st)"
  by (auto simp: routeEdit_def intro!: weaken split: option.split)

lemma executor_ends:
  assumes "pre st" and "ends post (localFn st)"
  shows "ends (\<lambda>st res. post st (fst res)) (forwardToExecutorWithPerm env srv c hdr executor origin perm body localFn st)"
proof -
  have "ends (\<lambda>st res. post st (fst res)) (andThen (localFn st) (\<lambda>(st', outs). Ret (st', outs, 0, [])))" by (rule ends_andThen[OF assms(2)]) simp
  then show ?thesis
    by (auto simp: forwardToExecutorWithPerm_def Let_def intro!: weaken[OF assms(1)] split: option.split)
qed

lemma server_keeps: "pre st \<Longrightarrow> ends (\<lambda>p _. pre (snd p)) (andThen (getServer env st) (\<lambda>p. Ret (p, ())))"
  using bind[of st] by (cases "feCtxServer env") (fastforce simp: getServer_def ends_def)+

lemma request_ends:
  assumes "pre st" and "\<And>hdr req st. pre st \<Longrightarrow> ends post (localFn hdr req st)"
  shows "ends post (routeRequest env oc oh act req fill localFn st)"
proof -
  obtain osrv st1 where st1: "getServer env st = Ret (osrv, st1)" "pre st1" using server_keeps[OF assms(1)] by (auto simp: ends_def)
  show ?thesis
  proof (cases "\<exists>srv hdr c. osrv = Some srv \<and> oh = Some hdr \<and> oc = Some c")
    case True
    then obtain srv hdr c where some: "osrv = Some srv" "oh = Some hdr" "oc = Some c" by blast
    let ?executor = "if fqExecutor req = 0 then sNodeID srv else fqExecutor req" and ?origin = "if fqOrigin req = 0 then hSourceID hdr else fqOrigin req"
    let ?req = "req\<lparr>fqOrigin := ?origin, fqExecutor := ?executor\<rparr>"
    have "ends (\<lambda>st res. post st (fst res)) (forwardToExecutorWithPerm env srv c hdr ?executor ?origin (permOf env act) (BodyReq act ?req) (localFn hdr ?req) st1)"
      by (rule executor_ends[OF st1(2)], rule assms(2)[OF st1(2)])
    then have "ends post (andThen (forwardToExecutorWithPerm env srv c hdr ?executor ?origin (permOf env act) (BodyReq act ?req) (localFn hdr ?req) st1)
        (\<lambda>(st', outs, code, msg). if code \<noteq> 0 then Ret (st', outs @ sendResp env oh (fill ?req (flowReply act (fqReqID ?req) code msg))) else Ret (st', outs)))"
      by (rule ends_andThen) (auto simp: answer split: prod.split)
    then show ?thesis unfolding routeRequest_def st1(1) some Let_def by simp
  next
    case False
    then show ?thesis using weaken[OF st1(2)] by (auto simp: routeRequest_def st1(1) split: option.split)
  qed
qed

lemma reads_ends: "pre st \<Longrightarrow> quiet (f hdr req st) \<Longrightarrow> ends post (reads f hdr req st)"
  by (simp add: reads_def weaken)

lemma checked_ends: "pre st \<Longrightarrow> (\<And>req. ends post (k req)) \<Longrightarrow> ends post (checkedReq env oh act what ok req0 st k)"
  by (auto simp: checkedReq_def Let_def weaken split: sum.split)

lemma set_ends:
  assumes "pre st" and "feCtxServer env \<noteq> None \<Longrightarrow> fhSrv st \<noteq> None"
  shows "ends post (handleSet env oc oh ok req st)"
proof (cases "ok \<and> trimSpace (sqReqID req) \<noteq> [] \<and> (\<exists>fid. validateFlowID (sqFlowID req) = Inr fid) \<and> validateTrigger (normalizeTrigger (sqTrigger req)) = None")
  case True
  then obtain fid where fid: "validateFlowID (sqFlowID req) = Inr fid" by blast
  let ?osrv = "case feCtxServer env of Some srv \<Rightarrow> Some srv | None \<Rightarrow> fhSrv st"
  have local: "ends post (applySetLocal env hdr req' origin st)"
    if "?osrv = Some srv" "sqFlowID req' = fid" "sqTrigger req' = normalizeTrigger (sqTrigger req)" for hdr req' origin srv
    by (rule set_local[OF assms(1)])
      (use validate_again(1)[OF fid] True that assms(2) in \<open>auto simp: checkedSet_def split: option.splits\<close>)
  show ?thesis
    using True fid weaken[OF assms(1)] by (auto simp: handleSet_def Let_def intro!: edit_ends[OF assms(1)] local split: option.split)
qed (auto simp: handleSet_def Let_def weaken[OF assms(1)] split: sum.split option.split)

lemma delete_ends: "pre st \<Longrightarrow> ends post (handleDelete env oc oh ok req st)"
  by (auto simp: handleDelete_def Let_def weaken intro!: edit_ends delete_local split: sum.split option.split)

lemma others_end:
  assumes "pre st"
  shows "ends post (handleRun env oc oh ok req st)" "ends post (handleCancelRun env oc oh ok req st)" "ends post (handleStatus env oc oh ok req st)"
    "ends post (handleDetail env oc oh ok req st)" "ends post (handleListRuns env oc oh ok req st)" "ends post (handleList env oc oh ok req st)"
    "ends post (handleGet env oc oh ok req st)"
  using weaken[OF assms]
  by (auto simp: handleRun_def handleCancelRun_def handleStatus_def handleDetail_def handleListRuns_def handleList_def handleGet_def Let_def
      intro!: checked_ends[OF assms] request_ends[OF assms] run_local cancel_local reads_ends split: sum.split)

lemma receive_ends:
  assumes "pre st"
  shows "ends post (flowOnReceive env oc oh payloadEmpty msg st)"
proof -
  obtain st1 where st1: "(case feCtxServer env of None \<Rightarrow> Ret st | Some srv \<Rightarrow> andThen (bindServer srv st) startSchedulers) = Ret st1" "pre st1"
    "feCtxServer env \<noteq> None \<Longrightarrow> fhSrv st1 \<noteq> None"
  proof (cases "feCtxServer env")
    case (Some srv)
    obtain a b where "bindServer srv st = Ret a" "startSchedulers a = Ret b" "pre b" "fhSrv b \<noteq> None"
      using bind[OF assms, of srv] start by (metis option.distinct(1))
    then show ?thesis using that[of b] Some by simp
  qed (use that assms in simp)
  show ?thesis unfolding flowOnReceive_def st1(1) andThen.simps
    using set_ends[OF st1(2,3)] delete_ends[OF st1(2)] others_end[OF st1(2)] weaken[OF st1(2)]
    by (auto split: flowMsg.split flowAction.split option.split)
qed

end

lemma sameCore_fresh: "sameCore st st' \<Longrightarrow> freshIDs env st' = freshIDs env st"
  by (simp add: sameCore_def freshIDs_def)

interpretation inv: flow_operations env "\<lambda>st. flowInv st \<and> freshIDs env st" sound for env
proof unfold_locales
  fix st :: "('a, 'b, 'c) flowSt" and srv
  assume st: "flowInv st \<and> freshIDs env st"
  then show "\<exists>st'. bindServer srv st = Ret st' \<and> (flowInv st' \<and> freshIDs env st') \<and> fhSrv st' = Some srv"
    using bindServer_keeps[of st srv] sameCore_fresh[of st _ env] by metis
next
  fix st :: "('a, 'b, 'c) flowSt"
  assume st: "flowInv st \<and> freshIDs env st"
  then show "\<exists>st'. startSchedulers st = Ret st' \<and> (flowInv st' \<and> freshIDs env st') \<and> fhSrv st' = fhSrv st"
    using startSchedulers_keeps[of st] sameCore_fresh[of st _ env] by metis
qed (auto intro: applySetLocal_keeps applyDeleteLocal_keeps runLocal_keeps cancelRunLocal_keeps sound_quiet simp: sound_def startsOK_quiet)

end
