(* ===== verification/Flow_Lifecycle.thy ===== *)
theory Flow_Lifecycle
  imports Flow_Reach
begin

text \<open>
  The life of the flow service: start-up, every event after it in any order, and a restart. The properties about all reachable states are here.
\<close>

section \<open>The store of definitions\<close>

lemma stopScheduler_frame: "stopScheduler fid st = Ret st' \<Longrightarrow> reSched st st'"
  by (auto simp: stopScheduler_def reSched_def split: option.splits if_splits)

lemma restartScheduler_frame:
  assumes "restartScheduler fid st = Ret st'"
  shows "reSched st st'"
proof (cases "trimSpace fid = []")
  case False
  then obtain x where x: "stopScheduler (trimSpace fid) st = Ret x" using assms by (auto simp: restartScheduler_def Let_def)
  note run = assms[unfolded restartScheduler_def Let_def x andThen.simps]
  have "reSched x st'"
    using run False by (cases "map_of (fhFlows x) (trimSpace fid)") (auto simp: reSched_def split: if_splits sum.splits)
  then show ?thesis using reSched_trans stopScheduler_frame[OF x] by blast
qed (use assms in \<open>simp add: restartScheduler_def\<close>)

text \<open>Documents with different ids are loaded independently of each other.\<close>

lemma map_of_loadFlows:
  assumes "distinct (map sqFlowID docs)" and "\<And>doc. doc \<in> set docs \<Longrightarrow> validateFlowID (sqFlowID doc) = Inr (sqFlowID doc)"
  shows "map_of (loadFlows docs) fid = Option.bind (map_of (map (\<lambda>doc. (sqFlowID doc, doc)) docs) fid) loadFlow"
  using assms
proof (induction docs rule: rev_induct)
  case (snoc doc docs)
  have id: "sqFlowID flow = sqFlowID doc" if "loadFlow doc = Some flow" for flow
    using that snoc.prems(2)[of doc] by (auto simp: loadFlow_def Let_def split: sum.splits if_splits)
  have new: "map_of (map (\<lambda>doc. (sqFlowID doc, doc)) docs) (sqFlowID doc) = None"
    using snoc.prems(1) by (auto simp: map_of_eq_None_iff)
  have "loadFlows (docs @ [doc]) = (case loadFlow doc of None \<Rightarrow> loadFlows docs | Some req \<Rightarrow> gput (sqFlowID req) req (loadFlows docs))"
    unfolding loadFlows_def by simp
  then show ?case
    using snoc.IH snoc.prems new id by (cases "loadFlow doc") (auto simp: map_add_def update_conv' split: option.split)
qed (simp add: loadFlows_def)

text \<open>
  What the handler relies on: a save or delete that reports success takes effect on one flow, one that reports failure on none, and a load returns
  what is there. \<open>content\<close> is the abstract content of the store.
\<close>

locale flow_store =
  fixes ops :: "('s, 'f) storeOps" and content :: "'s \<Rightarrow> string \<Rightarrow> 'f setReq option" and okStore :: "'s \<Rightarrow> bool"
  assumes save_done: "okStore s \<Longrightarrow> validateFlowID (sqFlowID doc) = Inr (sqFlowID doc) \<Longrightarrow> soSave ops doc s = (False, s') \<Longrightarrow>
      okStore s' \<and> content s' = (content s)(sqFlowID doc \<mapsto> doc)"
    and save_failed: "okStore s \<Longrightarrow> validateFlowID (sqFlowID doc) = Inr (sqFlowID doc) \<Longrightarrow> soSave ops doc s = (True, s') \<Longrightarrow> okStore s' \<and> content s' = content s"
    and delete_done: "okStore s \<Longrightarrow> validateFlowID fid = Inr fid \<Longrightarrow> soDelete ops fid s = (False, s') \<Longrightarrow> okStore s' \<and> content s' = (content s)(fid := None)"
    and delete_failed: "okStore s \<Longrightarrow> soDelete ops fid s = (True, s') \<Longrightarrow> okStore s' \<and> content s' = content s"
    and keyed: "okStore s \<Longrightarrow> content s fid = Some doc \<Longrightarrow> sqFlowID doc = fid \<and> validateFlowID fid = Inr fid"
    and load_all: "okStore s \<Longrightarrow> soLoadAll ops s = Some docs \<Longrightarrow>
      distinct (map sqFlowID docs) \<and> content s = map_of (map (\<lambda>doc. (sqFlowID doc, doc)) docs)"
begin

text \<open>The table of flows is what a load of the store would give.\<close>

definition synced :: "('f, 's, 'a) flowSt \<Rightarrow> bool" where
  "synced st \<longleftrightarrow> okStore (fhStore st) \<and> (\<forall>fid. map_of (fhFlows st) fid = Option.bind (content (fhStore st) fid) loadFlow)"

lemma synced_cong: "fhStore st' = fhStore st \<Longrightarrow> fhFlows st' = fhFlows st \<Longrightarrow> synced st' = synced st"
  by (simp add: synced_def)

lemma set_synced:
  assumes sync: "synced st" and req: "checkedSet req" and ops: "feStore env = ops" and step: "applySetLocal env hdr req origin st = Ret (st', outs)"
  shows "synced st'"
proof -
  obtain err store where save: "soSave ops req (fhStore st) = (err, store)" by fastforce
  have ok: "okStore (fhStore st)" using sync by (simp add: synced_def)
  consider (same) "st' = st" | (failed) "err" "st' = st\<lparr>fhStore := store\<rparr>"
    | (put) "\<not> err" "fhStore st' = store" "fhFlows st' = gput (sqFlowID req) req (fhFlows st)" "goodFlow (sqFlowID req) req"
    using step req unfolding applySetLocal_def ops Let_def save prod.case
    by (auto simp: goodFlow_iff checkedSet_def reSched_def split: option.splits bool.splits dest!: restartScheduler_frame)
  then show ?thesis
  proof cases
    case put
    then have "okStore store" "content store = (content (fhStore st))(sqFlowID req \<mapsto> req)" "loadFlow req = Some req"
      using save_done[OF ok] save req by (auto simp: checkedSet_def goodFlow_def)
    then show ?thesis using sync put(2,3) by (simp add: synced_def update_conv')
  qed (use sync save save_failed[OF ok] req in \<open>auto simp: synced_def checkedSet_def\<close>)
qed

lemma delete_synced:
  assumes sync: "synced st" and ops: "feStore env = ops" and step: "applyDeleteLocal env hdr req origin st = Ret (st', outs)"
  shows "synced st'"
proof (cases "validateFlowID (fqFlowID req)")
  case (Inr fid)
  obtain err store where removed: "soDelete ops fid (fhStore st) = (err, store)" by fastforce
  have ok: "okStore (fhStore st)" using sync by (simp add: synced_def)
  have fid: "validateFlowID fid = Inr fid" using validate_again(1)[OF Inr] by simp
  consider (same) "st' = st" | (failed) "err" "st' = st\<lparr>fhStore := store\<rparr>"
    | (del) "\<not> err" "fhStore st' = store" "fhFlows st' = gdel fid (fhFlows st)"
    using step unfolding applyDeleteLocal_def Inr ops Let_def sum.case removed prod.case
    by (auto split: if_splits bool.splits dest!: stopScheduler_frame simp: reSched_def)
  then show ?thesis
  proof cases
    case del
    then show ?thesis using sync delete_done[OF ok fid] removed by (auto simp: synced_def delete_conv')
  qed (use sync removed delete_failed[OF ok] in \<open>auto simp: synced_def\<close>)
qed (use sync step in \<open>auto simp: applyDeleteLocal_def Let_def\<close>)

lemma restart:
  assumes sync: "okStore (fhStore st)" and load: "loadFlowsFromDisk ops st = Some st'"
  shows "map_of (fhFlows st') fid = Option.bind (content (fhStore st) fid) loadFlow"
proof -
  obtain docs where docs: "soLoadAll ops (fhStore st) = Some docs" "fhFlows st' = loadFlows docs"
    using load by (auto simp: loadFlowsFromDisk_def split: option.splits)
  have all: "distinct (map sqFlowID docs)" "content (fhStore st) = map_of (map (\<lambda>doc. (sqFlowID doc, doc)) docs)"
    using load_all[OF sync docs(1)] by auto
  have ids: "validateFlowID (sqFlowID doc) = Inr (sqFlowID doc)" if "doc \<in> set docs" for doc
    using keyed[OF sync, of "sqFlowID doc" doc] that all by (simp add: map_of_eq_in_set comp_def)
  show ?thesis using map_of_loadFlows[OF all(1) ids, of fid] by (simp add: docs(2) all(2))
qed

end

lemma ends_both: "ends P m \<Longrightarrow> (\<And>st outs. m = Ret (st, outs) \<Longrightarrow> Q st) \<Longrightarrow> ends (\<lambda>st outs. P st outs \<and> Q st) m"
  by (auto simp: ends_def)

lemma runLocal_frame: "runLocal env hdr req st = Ret (st', outs) \<Longrightarrow> fhStore st' = fhStore st \<and> fhFlows st' = fhFlows st"
  by (auto simp: runLocal_def Let_def split: option.splits if_splits prod.splits)

lemma cancelRunLocal_frame: "cancelRunLocal env hdr req st = Ret (st', outs) \<Longrightarrow> fhStore st' = fhStore st \<and> fhFlows st' = fhFlows st"
  by (auto simp: cancelRunLocal_def Let_def split: option.splits if_splits prod.splits bool.splits)

text \<open>With such a store, all requests keep table and store in step.\<close>

sublocale flow_store \<subseteq> routed: flow_operations "env\<lparr>feStore := ops\<rparr>"
  "\<lambda>st. (flowInv st \<and> freshIDs (env\<lparr>feStore := ops\<rparr>) st) \<and> synced st" "\<lambda>st outs. sound st outs \<and> synced st" for env
proof unfold_locales
  let ?env = "env\<lparr>feStore := ops\<rparr>"
  fix st :: "('f, 's, 'a) flowSt"
  assume "(flowInv st \<and> freshIDs ?env st) \<and> synced st"
  then have st: "flowInv st" "freshIDs ?env st" "synced st" by auto
  show "sound st outs \<and> synced st" if "quiet outs" for outs using st sound_quiet[OF st(1) that] by simp
  show "\<exists>st'. bindServer srv st = Ret st' \<and> ((flowInv st' \<and> freshIDs ?env st') \<and> synced st') \<and> fhSrv st' = Some srv" for srv
    using bindServer_keeps[OF st(1), of srv] sameCore_fresh[of st _ ?env] synced_cong[of _ st] st unfolding sameCore_def by metis
  show "\<exists>st'. startSchedulers st = Ret st' \<and> ((flowInv st' \<and> freshIDs ?env st') \<and> synced st') \<and> fhSrv st' = fhSrv st"
    using startSchedulers_keeps[OF st(1)] sameCore_fresh[of st _ ?env] synced_cong[of _ st] st unfolding sameCore_def by metis
  show "ends (\<lambda>st outs. sound st outs \<and> synced st) (applySetLocal ?env hdr req origin st)" if "checkedSet req" "fhSrv st \<noteq> None" for hdr req origin
    by (rule ends_both[OF applySetLocal_keeps[OF st(1) that]], rule set_synced[OF st(3) that(1)]) simp_all
  show "ends (\<lambda>st outs. sound st outs \<and> synced st) (applyDeleteLocal ?env hdr req origin st)" for hdr req origin
    by (rule ends_both[OF applyDeleteLocal_keeps[OF st(1)]], rule delete_synced[OF st(3)]) simp_all
  show "ends (\<lambda>st outs. sound st outs \<and> synced st) (runLocal ?env hdr req st)" for hdr req
    by (rule ends_both[OF runLocal_keeps[OF st(1,2)]]) (use st(3) synced_cong runLocal_frame in blast)
  show "ends (\<lambda>st outs. sound st outs \<and> synced st) (cancelRunLocal ?env hdr req st)" for hdr req
    by (rule ends_both[OF cancelRunLocal_keeps[OF st(1)]]) (use st(3) synced_cong cancelRunLocal_frame in blast)
qed (auto simp: sound_def startsOK_quiet)

section \<open>The directory of JSON files is such a store\<close>

definition jsonContent :: "string \<Rightarrow> (string, 'f dirEntry) gomap \<Rightarrow> string \<Rightarrow> 'f setReq option" where
  "jsonContent baseDir dir fid =
     (if trimSpace baseDir = [] then None else case map_of dir (jsonName fid) of Some (FileDoc doc) \<Rightarrow> Some doc | _ \<Rightarrow> None)"

text \<open>Every definition in the directory is in the file of its own id.\<close>

definition jsonOK :: "(string, 'f dirEntry) gomap \<Rightarrow> bool" where
  "jsonOK dir \<longleftrightarrow> wf_gomap dir \<and>
     (\<forall>(name, e)\<in>set dir. \<forall>doc. e = FileDoc doc \<longrightarrow> hasSuffix (toLower name) ''.json'' \<longrightarrow>
        validateFlowID (sqFlowID doc) = Inr (sqFlowID doc) \<and> name = jsonName (sqFlowID doc))"

lemma jsonName_inj [simp]: "jsonName a = jsonName b \<longleftrightarrow> a = b"
  by (simp add: jsonName_def)

lemma toLower_append:
  assumes "w = x # xs" and "x \<notin> {CHR 0xB0, CHR 0x84, CHR 0xAA}"
  shows "\<exists>r. toLower (s @ w) = r @ toLower w"
proof (induction s rule: length_induct)
  case (1 s)
  show ?case
  proof (cases s)
    case (Cons c cs)
    have IH: "\<exists>r. y # toLower (drop k cs @ w) = r @ toLower w" for y k
      using 1[rule_format, of "drop k cs"] Cons by (metis append_Cons length_Cons length_drop less_Suc_eq_le diff_le_self)
    have "hasPrefix (cs @ w) [CHR 0xB0] \<Longrightarrow> 1 \<le> length cs" "hasPrefix (cs @ w) [CHR 0x84, CHR 0xAA] \<Longrightarrow> 2 \<le> length cs"
      using assms by (cases cs; cases "tl cs"; simp add: hasPrefix_def)+
    then show ?thesis using IH[of _ 0] IH[of _ 1] IH[of _ 2] Cons by auto
  qed simp
qed

lemma toLower_ends:
  assumes "toLower w = w" and "w = x # xs" and "x \<notin> {CHR 0xB0, CHR 0x84, CHR 0xAA}"
  obtains r where "toLower (s @ w) = r @ w"
  using toLower_append[OF assms(2,3), of s] assms(1) by auto

lemma json_suffix [simp]: "hasSuffix (toLower (jsonName fid)) ''.json''"
proof -
  have low: "toLower ''.json'' = ''.json''" by code_simp
  obtain r where "toLower (fid @ ''.json'') = r @ ''.json''" by (rule toLower_ends[OF low refl, where s = fid]) simp_all
  then show ?thesis by (simp add: jsonName_def hasSuffix_iff)
qed

lemma plain_names [simp]: "\<not> hasSuffix (toLower (tempName faults name)) ''.json''" "\<not> hasSuffix (toLower (backupName name)) ''.json''"
proof -
  let ?d = "formatNat (wfTemp faults)"
  have digits: "isDigit c" if "c \<in> set ?d" for c using formatNat_digits that by blast
  have low: "toLower (''.tmp-'' @ ?d) = ''.tmp-'' @ ?d"
    by (rule toLower_id) (auto simp: isUpper_def isDigit_def dest!: digits)
  obtain r where r: "toLower (name @ ''.tmp-'' @ ?d) = r @ ''.tmp-'' @ ?d"
    by (rule toLower_ends[OF low, where s = name, of "CHR ''.''" "''tmp-'' @ ?d"]) simp_all
  have "List.last (''.tmp-'' @ ?d) \<in> {CHR ''-''} \<union> set ?d" by (cases "?d = []") auto
  then have no: "List.last (r @ ''.tmp-'' @ ?d) \<noteq> CHR ''n''" using digits[of "List.last ?d"] by (auto simp: isDigit_def)
  show "\<not> hasSuffix (toLower (tempName faults name)) ''.json''"
  proof
    assume "hasSuffix (toLower (tempName faults name)) ''.json''"
    then obtain q where "r @ ''.tmp-'' @ ?d = q @ ''.json''" using r by (auto simp: hasSuffix_iff tempName_def)
    then have "List.last (r @ ''.tmp-'' @ ?d) = CHR ''n''" by simp
    then show False using no by blast
  qed
  have low': "toLower ''.bak'' = ''.bak''" by code_simp
  obtain q where q: "toLower (name @ ''.bak'') = q @ ''.bak''" by (rule toLower_ends[OF low' refl, where s = name]) simp_all
  show "\<not> hasSuffix (toLower (backupName name)) ''.json''" using q by (auto simp: backupName_def hasSuffix_iff dest: arg_cong[where f = List.last])
qed

lemma other_names [simp]:
  "tempName faults n \<noteq> jsonName fid" "jsonName fid \<noteq> tempName faults n" "backupName n \<noteq> jsonName fid" "jsonName fid \<noteq> backupName n"
  using json_suffix[of fid] plain_names(1)[of faults n] plain_names(2)[of n] by metis+

lemma backup_not_temp [simp]: "backupName n \<noteq> tempName faults n" "tempName faults n \<noteq> backupName n"
  by (auto simp: backupName_def tempName_def)

text \<open>Names that are not those of definitions may come and go.\<close>

lemma jsonOK_put: "jsonOK dir \<Longrightarrow> validateFlowID (sqFlowID doc) = Inr (sqFlowID doc) \<Longrightarrow> jsonOK (gput (jsonName (sqFlowID doc)) (FileDoc doc) dir)"
  using gput_members[of "jsonName (sqFlowID doc)" "FileDoc doc" dir] by (fastforce simp: jsonOK_def)

lemma jsonOK_put_other: "jsonOK dir \<Longrightarrow> \<not> hasSuffix (toLower name) ''.json'' \<Longrightarrow> jsonOK (gput name e dir)"
  using gput_members[of name e dir] by (fastforce simp: jsonOK_def)

lemma jsonOK_put_old: "jsonOK dir \<Longrightarrow> map_of dir0 name = Some e \<Longrightarrow> jsonOK dir0 \<Longrightarrow> jsonOK (gput name e dir)"
  using gput_members[of name e dir] map_of_SomeD[of dir0 name e] by (fastforce simp: jsonOK_def)

lemma jsonOK_del: "jsonOK dir \<Longrightarrow> jsonOK (gdel name dir)"
  using gdel_members[of name dir] by (fastforce simp: jsonOK_def)

lemmas jsonOK_edits = jsonOK_put jsonOK_put_other jsonOK_put_old jsonOK_del

text \<open>
  The states that a write of a definition passes through: all keep the directory in order and the other definitions as they are. The definition is the old
  one or the new one, except between the two renames, when only the backup has it.
\<close>

lemma writeFile_states:
  fixes fid :: string and doc :: "'f setReq" and dir :: "(string, 'f dirEntry) gomap"
  assumes ok: "jsonOK dir" and id: "validateFlowID fid = Inr fid" "sqFlowID doc = fid"
    and save: "writeFileAtomic faults FileOther (jsonName fid) (FileDoc doc) dir = (err, dirs)" and d: "d \<in> set dirs"
  shows "jsonOK d \<and> (\<forall>f. f \<noteq> fid \<longrightarrow> map_of d (jsonName f) = map_of dir (jsonName f)) \<and>
    (map_of d (jsonName fid) = map_of dir (jsonName fid) \<or> map_of d (jsonName fid) = Some (FileDoc doc) \<or>
     map_of d (jsonName fid) = None \<and> map_of d (backupName (jsonName fid)) = map_of dir (jsonName fid))"
proof -
  let ?n = "jsonName fid" and ?t = "tempName faults (jsonName fid)" and ?b = "backupName (jsonName fid)"
  let ?d1 = "gput ?t FileOther dir"
  let ?d2 = "gput ?t (FileDoc doc) ?d1"
  let ?d3 = "gdel ?b ?d2"
  have o: "jsonOK ?d1" "jsonOK ?d2" "jsonOK ?d3" "jsonOK (gdel ?t ?d1)" "jsonOK (gdel ?t ?d2)" "jsonOK (gdel ?t ?d3)"
    using ok by (simp_all add: jsonOK_put_other jsonOK_del)
  note conv = update_conv' delete_conv'
  let ?Q = "\<lambda>d. jsonOK d \<and> (\<forall>f. f \<noteq> fid \<longrightarrow> map_of d (jsonName f) = map_of dir (jsonName f)) \<and>
    (map_of d ?n = map_of dir ?n \<or> map_of d ?n = Some (FileDoc doc) \<or> map_of d ?n = None \<and> map_of d ?b = map_of dir ?n)"
  show ?thesis
  proof (cases "map_of dir ?n")
    case None
    let ?d4 = "gput ?n (FileDoc doc) (gdel ?t ?d2)"
    have "jsonOK ?d4" using jsonOK_put[of "gdel ?t ?d2" doc] o(5) id by simp
    moreover have "d \<in> {dir, ?d1, ?d2, gdel ?t ?d1, gdel ?t ?d2, ?d4}"
      using save d None by (auto simp: writeFileAtomic_def Let_def split: if_splits)
    ultimately show ?thesis using o ok by (auto simp: conv)
  next
    case (Some old)
    let ?d4 = "gput ?b old (gdel ?n ?d3)"
    let ?r = "gput ?n old (gdel ?b ?d4)" and ?d5 = "gput ?n (FileDoc doc) (gdel ?t ?d4)"
    have o4: "jsonOK ?d4" "jsonOK (gdel ?t ?d4)" using o(3) by (simp_all add: jsonOK_put_other jsonOK_del)
    have o5: "jsonOK ?d5" "jsonOK (gdel ?b ?d5)" using jsonOK_put[of "gdel ?t ?d4" doc] o4 id by (simp_all add: jsonOK_del)
    have r: "jsonOK ?r" "jsonOK (gdel ?t ?r)" using jsonOK_put_old[OF jsonOK_del[OF o4(1)] Some ok] by (simp_all add: jsonOK_del)
    let ?ds = "[dir, ?d1, ?d2, ?d3, ?d4, ?d5, ?r, gdel ?t ?d1, gdel ?t ?d2, gdel ?t ?d3, gdel ?t ?d4, gdel ?t ?r, gdel ?b ?d5]"
    have "d \<in> set ?ds" using save d Some by (auto simp: writeFileAtomic_def Let_def split: if_splits)
    moreover have "list_all ?Q ?ds" using o ok o4 o5 r Some by (simp add: conv)
    ultimately show ?thesis unfolding list_all_iff by blast
  qed
qed

lemma writeFile_last:
  assumes "writeFileAtomic faults partial (jsonName fid) e dir = (err, dirs)"
  shows "dirs \<noteq> []" and "\<not> err \<Longrightarrow> map_of (List.last dirs) (jsonName fid) = Some e"
    and "err \<Longrightarrow> \<not> (wfRename faults \<and> wfRestore faults) \<Longrightarrow> map_of (List.last dirs) (jsonName fid) = map_of dir (jsonName fid)"
proof -
  note defs = writeFileAtomic_def Let_def update_conv' delete_conv'
  show "dirs \<noteq> []" using assms by (auto simp: defs split: if_splits option.splits)
  show "map_of (List.last dirs) (jsonName fid) = Some e" if "\<not> err" using assms that by (auto simp: defs split: if_splits option.splits)
  show "map_of (List.last dirs) (jsonName fid) = map_of dir (jsonName fid)" if "err" "\<not> (wfRename faults \<and> wfRestore faults)"
    using assms that by (auto simp: defs split: if_splits option.splits)
qed

text \<open>The stores in which putting a backup back does not fail as well.\<close>

definition singleFault :: "writeFaults \<Rightarrow> writeFaults" where
  "singleFault faults = faults\<lparr>wfRestore := wfRestore faults \<and> \<not> wfRename faults\<rparr>"

lemma jsonSave_spec:
  assumes ok: "jsonOK dir" and id: "validateFlowID (sqFlowID doc) = Inr (sqFlowID doc)"
    and save: "jsonSave baseDir (\<lambda>n. singleFault (faults n)) doc dir = (err, dir')"
  shows "jsonOK dir' \<and> jsonContent baseDir dir' = (if err then jsonContent baseDir dir else (jsonContent baseDir dir)(sqFlowID doc \<mapsto> doc))"
proof -
  let ?fid = "sqFlowID doc"
  let ?f = "singleFault (faults (jsonName ?fid))"
  have single: "\<not> (wfRename ?f \<and> wfRestore ?f)" by (simp add: singleFault_def)
  show ?thesis
  proof (cases "trimSpace baseDir = [] \<or> wfPrepare ?f")
    case True
    then have "err" "dir' = dir" using save unfolding jsonSave_def jsonSaveStates_def id by (auto split: if_splits)
    then show ?thesis using ok by simp
  next
    case False
    obtain dirs where w: "writeFileAtomic ?f FileOther (jsonName ?fid) (FileDoc doc) dir = (err, dirs)" "dir' = List.last dirs"
      using save id False by (auto simp: jsonSave_def jsonSaveStates_def split: prod.splits)
    have "dir' \<in> set dirs" using writeFile_last(1)[OF w(1)] w(2) by simp
    note states = writeFile_states[OF ok id refl w(1) this]
    have same: "map_of dir' (jsonName ?fid) = (if err then map_of dir (jsonName ?fid) else Some (FileDoc doc))"
      using writeFile_last(2,3)[OF w(1)] single w(2) by auto
    have "map_of dir' (jsonName f) = (if f = ?fid \<and> \<not> err then Some (FileDoc doc) else map_of dir (jsonName f))" for f
      using states same by (cases "f = ?fid") simp_all
    then show ?thesis using states False by (auto simp: jsonContent_def fun_eq_iff)
  qed
qed

lemma mem_map_filter: "y \<in> set (List.map_filter f xs) \<longleftrightarrow> (\<exists>x\<in>set xs. f x = Some y)"
  by (induction xs) (auto simp: List.map_filter_simps split: option.split)

definition jsonDoc :: "string \<times> 'f dirEntry \<Rightarrow> 'f setReq option" where
  "jsonDoc ne = (case snd ne of FileDoc doc \<Rightarrow> if hasSuffix (toLower (fst ne)) ''.json'' then Some doc else None | _ \<Rightarrow> None)"

lemma jsonLoadAll_docs: "trimSpace baseDir \<noteq> [] \<Longrightarrow> jsonLoadAll baseDir readErr dir = Some docs \<Longrightarrow> docs = List.map_filter jsonDoc (sort_key fst dir)"
proof -
  have eq: "(\<lambda>(name, e). case e of FileDoc doc \<Rightarrow> if hasSuffix (toLower name) ''.json'' then Some doc else None | _ \<Rightarrow> None) = (jsonDoc :: string \<times> 'a dirEntry \<Rightarrow> _)"
    by (auto simp: jsonDoc_def fun_eq_iff split: dirEntry.split)
  assume "trimSpace baseDir \<noteq> []" "jsonLoadAll baseDir readErr dir = Some docs"
  then show ?thesis unfolding jsonLoadAll_def eq by (simp split: if_splits)
qed

lemma jsonDoc_name: "jsonOK dir \<Longrightarrow> ne \<in> set dir \<Longrightarrow> jsonDoc ne = Some doc \<Longrightarrow> fst ne = jsonName (sqFlowID doc) \<and> snd ne = FileDoc doc"
  by (fastforce simp: jsonOK_def jsonDoc_def split: dirEntry.splits if_splits)

lemma json_distinct:
  assumes "jsonOK dir"
  shows "distinct (map sqFlowID (List.map_filter jsonDoc (sort_key fst dir)))"
proof -
  have names: "map (\<lambda>doc. jsonName (sqFlowID doc)) (List.map_filter jsonDoc nes) = map fst (filter (\<lambda>ne. jsonDoc ne \<noteq> None) nes)" if "set nes \<subseteq> set dir" for nes
    using that jsonDoc_name[OF assms] by (induction nes) (auto simp: List.map_filter_simps split: option.splits)
  have perm: "mset (map fst (sort_key fst dir)) = mset (map fst dir)" by simp
  have "distinct (map fst (sort_key fst dir))" using assms mset_eq_imp_distinct_iff[OF perm] by (simp add: jsonOK_def)
  then have "distinct (map fst (filter (\<lambda>ne. jsonDoc ne \<noteq> None) (sort_key fst dir)))" by (rule distinct_map_filter)
  then have "distinct (map jsonName (map sqFlowID (List.map_filter jsonDoc (sort_key fst dir))))" using names[of "sort_key fst dir"] by (simp add: comp_def)
  then show ?thesis using distinct_map by blast
qed

lemma json_content:
  assumes ok: "jsonOK dir" and dir: "trimSpace baseDir \<noteq> []"
  shows "jsonContent baseDir dir = map_of (map (\<lambda>doc. (sqFlowID doc, doc)) (List.map_filter jsonDoc (sort_key fst dir)))"
proof -
  let ?docs = "List.map_filter jsonDoc (sort_key fst dir)"
  have wf: "wf_gomap dir" "wf_gomap (map (\<lambda>doc. (sqFlowID doc, doc)) ?docs)" using ok json_distinct[OF ok] by (simp_all add: jsonOK_def comp_def)
  have in_docs: "doc \<in> set ?docs \<longleftrightarrow> (\<exists>ne\<in>set dir. jsonDoc ne = Some doc)" for doc using mem_map_filter[of doc jsonDoc "sort_key fst dir"] by simp
  have some: "jsonContent baseDir dir fid = Some doc \<longleftrightarrow> map_of (map (\<lambda>doc. (sqFlowID doc, doc)) ?docs) fid = Some doc" for fid doc
  proof
    assume "jsonContent baseDir dir fid = Some doc"
    then have e: "(jsonName fid, FileDoc doc) \<in> set dir" using dir wf(1) by (auto simp: jsonContent_def map_of_eq_in_set split: option.splits dirEntry.splits)
    then have d: "jsonDoc (jsonName fid, FileDoc doc) = Some doc" by (simp add: jsonDoc_def)
    then show "map_of (map (\<lambda>doc. (sqFlowID doc, doc)) ?docs) fid = Some doc"
      using in_docs[of doc] e jsonDoc_name[OF ok e d] by (auto simp: map_of_eq_in_set[OF wf(2)])
  next
    assume "map_of (map (\<lambda>doc. (sqFlowID doc, doc)) ?docs) fid = Some doc"
    then have "doc \<in> set ?docs" "fid = sqFlowID doc" by (auto simp: map_of_eq_in_set[OF wf(2)])
    then obtain ne where "ne \<in> set dir" "jsonDoc ne = Some doc" "fid = sqFlowID doc" using in_docs by auto
    then have "map_of dir (jsonName fid) = Some (FileDoc doc)" using jsonDoc_name[OF ok] wf(1) by (metis map_of_eq_in_set prod.collapse)
    then show "jsonContent baseDir dir fid = Some doc" using dir by (simp add: jsonContent_def)
  qed
  show ?thesis by (rule ext, rule option_eqI) (use some in auto)
qed

interpretation json: flow_store "jsonStore baseDir (\<lambda>n. singleFault (faults n)) removeErr readErr" "jsonContent baseDir" jsonOK for baseDir faults removeErr readErr
proof unfold_locales
  fix s :: "(string, 'a dirEntry) gomap"
  assume ok: "jsonOK s"
  let ?ops = "jsonStore baseDir (\<lambda>n. singleFault (faults n)) removeErr readErr"
  show "jsonOK s' \<and> jsonContent baseDir s' = (jsonContent baseDir s)(sqFlowID doc \<mapsto> doc)"
    if "validateFlowID (sqFlowID doc) = Inr (sqFlowID doc)" "soSave ?ops doc s = (False, s')" for doc s'
    using jsonSave_spec[OF ok that(1), of baseDir faults False s'] that(2) by (simp add: jsonStore_def)
  show "jsonOK s' \<and> jsonContent baseDir s' = jsonContent baseDir s" if "validateFlowID (sqFlowID doc) = Inr (sqFlowID doc)" "soSave ?ops doc s = (True, s')" for doc s'
    using jsonSave_spec[OF ok that(1), of baseDir faults True s'] that(2) by (simp add: jsonStore_def)
  show "jsonOK s' \<and> jsonContent baseDir s' = (jsonContent baseDir s)(fid := None)" if "validateFlowID fid = Inr fid" "soDelete ?ops fid s = (False, s')" for fid s'
    using that jsonOK_del[OF ok] by (auto simp: jsonStore_def jsonDelete_def jsonContent_def fun_eq_iff delete_conv' split: if_splits)
  show "jsonOK s' \<and> jsonContent baseDir s' = jsonContent baseDir s" if "soDelete ?ops fid s = (True, s')" for fid s'
    using that ok by (auto simp: jsonStore_def jsonDelete_def split: if_splits sum.splits)
  show "sqFlowID doc = fid \<and> validateFlowID fid = Inr fid" if "jsonContent baseDir s fid = Some doc" for fid doc
  proof -
    have e: "(jsonName fid, FileDoc doc) \<in> set s" using that by (auto simp: jsonContent_def split: if_splits option.splits dirEntry.splits dest: map_of_SomeD)
    have "validateFlowID (sqFlowID doc) = Inr (sqFlowID doc) \<and> jsonName fid = jsonName (sqFlowID doc)"
      using bspec[OF conjunct2[OF ok[unfolded jsonOK_def]] e] by simp
    then show ?thesis by simp
  qed
  show "distinct (map sqFlowID docs) \<and> jsonContent baseDir s = map_of (map (\<lambda>doc. (sqFlowID doc, doc)) docs)" if "soLoadAll ?ops s = Some docs" for docs
  proof (cases "trimSpace baseDir = []")
    case True
    then show ?thesis using that by (auto simp: jsonStore_def jsonLoadAll_def jsonContent_def fun_eq_iff)
  next
    case False
    then show ?thesis using that json_distinct[OF ok] json_content[OF ok False] jsonLoadAll_docs[OF False] by (auto simp: jsonStore_def)
  qed
qed

section \<open>Loading the archive\<close>

abbreviation ridOf :: "'f run \<Rightarrow> string" where
  "ridOf r \<equiv> stRunID (ruState r)"

abbreviation fidOf :: "'f run \<Rightarrow> string" where
  "fidOf r \<equiv> stFlowID (ruState r)"

definition loadedStates :: "'f archivedRunRecord list \<Rightarrow> 'f run list" where
  "loadedStates recs = List.map_filter (\<lambda>rec. case archivedRunStateFromRecord rec of Inl _ \<Rightarrow> None | Inr r \<Rightarrow> Some r) recs"

lemma loadedStates_snoc: "loadedStates (recs @ [rec]) = loadedStates recs @ (case archivedRunStateFromRecord rec of Inl _ \<Rightarrow> [] | Inr r \<Rightarrow> [r])"
  by (simp add: loadedStates_def map_filter_snoc List.map_filter_simps split: sum.split)

lemma loadedByFlow_spec: "wf_gomap (loadedByFlow recs) \<and> (\<forall>f. gget [] (loadedByFlow recs) f = filter (\<lambda>r. fidOf r = f) (loadedStates recs))"
proof (induction recs rule: rev_induct)
  case (snoc rec recs)
  have "loadedByFlow (recs @ [rec]) = (case archivedRunStateFromRecord rec of Inl _ \<Rightarrow> loadedByFlow recs
      | Inr r \<Rightarrow> gput (fidOf r) (gget [] (loadedByFlow recs) (fidOf r) @ [r]) (loadedByFlow recs))"
    unfolding loadedByFlow_def by simp
  then show ?case using snoc by (auto simp: loadedStates_snoc split: sum.split)
qed (simp add: loadedByFlow_def loadedStates_def List.map_filter_simps)

lemma map_of_putRuns: "map_of (foldl (\<lambda>m r. gput (ridOf r) r m) m rs) i = (case find (\<lambda>r. ridOf r = i) (rev rs) of None \<Rightarrow> map_of m i | Some r \<Rightarrow> Some r)"
  by (induction rs rule: rev_induct) (auto simp: update_conv')

lemma find_run: "distinct (map ridOf rs) \<Longrightarrow> find (\<lambda>r. ridOf r = i) (rev rs) = Some r \<longleftrightarrow> r \<in> set rs \<and> ridOf r = i"
  by (induction rs rule: rev_induct) auto

lemma tableOK_batch:
  assumes ok: "tableOK t" and empty: "gget [] (rtOrder t) fid = []" and dist: "distinct (map ridOf rs)"
    and new: "\<And>r. r \<in> set rs \<Longrightarrow> fidOf r = fid \<and> map_of (rtRuns t) (ridOf r) = None"
  shows "tableOK (t\<lparr>rtRuns := foldl (\<lambda>m r. gput (ridOf r) r m) (rtRuns t) rs, rtOrder := gput fid (map ridOf rs) (rtOrder t)\<rparr>)" (is "tableOK ?t")
proof -
  have some: "map_of (rtRuns ?t) i = Some r \<longleftrightarrow> r \<in> set rs \<and> ridOf r = i \<or> map_of (rtRuns t) i = Some r" for i r
  proof (cases "find (\<lambda>r. ridOf r = i) (rev rs)")
    case None
    then show ?thesis using find_run[OF dist, of i r] by (auto simp: map_of_putRuns)
  next
    case (Some q)
    then have q: "q \<in> set rs" "ridOf q = i" using find_run[OF dist] by blast+
    have "r \<in> set rs \<and> ridOf r = i \<longleftrightarrow> r = q" using find_run[OF dist, of i r] Some by auto
    then show ?thesis using Some q new[OF q(1)] by (auto simp: map_of_putRuns)
  qed
  have order: "gget [] (rtOrder ?t) f = (if f = fid then map ridOf rs else gget [] (rtOrder t) f)" for f by simp
  show ?thesis unfolding tableOK_def
  proof (intro conjI allI ballI impI)
    fix f show "distinct (gget [] (rtOrder ?t) f)" unfolding order using dist tableOKD(1)[OF ok] by simp
  next
    fix f i assume "i \<in> set (gget [] (rtOrder ?t) f)"
    then show "\<exists>r. map_of (rtRuns ?t) i = Some r \<and> fidOf r = f"
      unfolding order some using tableOKD(2)[OF ok, of i f] new by (cases "f = fid") auto
  next
    fix i r assume "map_of (rtRuns ?t) i = Some r"
    then have r: "r \<in> set rs \<and> ridOf r = i \<or> map_of (rtRuns t) i = Some r" unfolding some .
    then show "ridOf r = i" using tableOKD(3)[OF ok, of i r] by auto
    show "i \<in> set (gget [] (rtOrder ?t) (fidOf r))" unfolding order using r tableOKD(3)[OF ok, of i r] empty new by (cases "fidOf r = fid") auto
  qed
qed

lemma pruneRuns_dedup: "pruneRuns maxRetained fid t = (t', pruned) \<Longrightarrow> rtDedup t' = rtDedup t"
  by (auto simp: pruneRuns_def Let_def split: if_splits prod.splits)

lemma loadFlowRuns_ok:
  assumes ok: "tableOK t" and empty: "gget [] (rtOrder t) fid = []" and dist: "distinct (map ridOf rs)"
    and new: "\<And>r. r \<in> set rs \<Longrightarrow> fidOf r = fid \<and> map_of (rtRuns t) (ridOf r) = None"
    and load: "loadFlowRuns maxRetained (fid, rs) (t, d) = (t', d')"
  shows "tableOK t' \<and> rtDedup t' = rtDedup t \<and> (\<forall>f. f \<noteq> fid \<longrightarrow> gget [] (rtOrder t') f = gget [] (rtOrder t) f) \<and>
    (\<forall>i. map_of (rtRuns t') i \<noteq> None \<longrightarrow> map_of (rtRuns t) i \<noteq> None \<or> i \<in> ridOf ` set rs)"
proof -
  let ?rs = "sort_key archiveKey rs"
  let ?t = "t\<lparr>rtRuns := foldl (\<lambda>m r. gput (ridOf r) r m) (rtRuns t) ?rs, rtOrder := gput fid (map ridOf ?rs) (rtOrder t)\<rparr>"
  have perm: "mset (map ridOf ?rs) = mset (map ridOf rs)" by simp
  have dist': "distinct (map ridOf ?rs)" using dist mset_eq_imp_distinct_iff[OF perm] by simp
  have okt: "tableOK ?t" by (rule tableOK_batch[OF ok empty dist']) (use new in simp)
  obtain pruned where p: "pruneRuns maxRetained fid ?t = (t', pruned)" using load by (auto simp: loadFlowRuns_def Let_def split: prod.splits)
  note px = prune_exact[OF okt p]
  have ours: "(f, i) \<in> set pruned \<Longrightarrow> f = fid" for f i using p by (auto simp: pruneRuns_def Let_def split: if_splits prod.splits)
  have runs: "map_of (rtRuns t') i = (if (fid, i) \<in> set pruned then None else map_of (rtRuns ?t) i)" for i using px by blast
  have order: "gget [] (rtOrder t') f = filter (\<lambda>rid. (f, rid) \<notin> set pruned) (gget [] (rtOrder ?t) f)" for f using px by blast
  have kept: "map_of (rtRuns t) i \<noteq> None \<or> i \<in> ridOf ` set rs" if "map_of (rtRuns ?t) i \<noteq> None" for i
    using that find_run[OF dist', of i] by (fastforce simp: map_of_putRuns split: option.splits)
  show ?thesis
  proof (intro conjI allI impI)
    show "tableOK t'" using px by blast
    show "rtDedup t' = rtDedup t" using pruneRuns_dedup[OF p] by simp
    fix f assume "f \<noteq> fid"
    then have "(f, i) \<notin> set pruned" for i using ours by blast
    then show "gget [] (rtOrder t') f = gget [] (rtOrder t) f" unfolding order using \<open>f \<noteq> fid\<close> by simp
  next
    fix i assume "map_of (rtRuns t') i \<noteq> None"
    then show "map_of (rtRuns t) i \<noteq> None \<or> i \<in> ridOf ` set rs" using kept[of i] unfolding runs by (auto split: if_splits)
  qed
qed

text \<open>What is assumed of an archive: no run is in it twice.\<close>

definition archiveOK :: "('a, 'f) archiveOps option \<Rightarrow> 'a \<Rightarrow> bool" where
  "archiveOK ao a = (case ao of None \<Rightarrow> True | Some ops \<Rightarrow> (case aoLoadAll ops a of None \<Rightarrow> True | Some recs \<Rightarrow> distinct (map ridOf (loadedStates recs))))"

lemma loadFlows_fold:
  assumes "tableOK t" and "distinct (map fst frs)" and "distinct (map ridOf states)"
    and "\<And>f rs. (f, rs) \<in> set frs \<Longrightarrow> rs = filter (\<lambda>r. fidOf r = f) states \<and> gget [] (rtOrder t) f = [] \<and> (\<forall>r\<in>set rs. map_of (rtRuns t) (ridOf r) = None)"
    and "foldl (\<lambda>td fr. loadFlowRuns maxRetained fr td) (t, d) frs = (t', d')"
  shows "tableOK t' \<and> rtDedup t' = rtDedup t"
  using assms(1,2,4,5)
proof (induction frs arbitrary: t d)
  case (Cons fr frs)
  obtain f rs where fr: "fr = (f, rs)" by fastforce
  obtain t1 d1 where load: "loadFlowRuns maxRetained (f, rs) (t, d) = (t1, d1)" by fastforce
  have rs: "rs = filter (\<lambda>r. fidOf r = f) states" "gget [] (rtOrder t) f = []" "\<And>r. r \<in> set rs \<Longrightarrow> map_of (rtRuns t) (ridOf r) = None"
    using Cons.prems(3)[of f rs] fr by auto
  have dist: "distinct (map ridOf rs)" unfolding rs(1) by (rule distinct_map_filter[OF assms(3)])
  have one: "tableOK t1" "rtDedup t1 = rtDedup t" "\<And>g. g \<noteq> f \<Longrightarrow> gget [] (rtOrder t1) g = gget [] (rtOrder t) g"
    "\<And>i. map_of (rtRuns t1) i \<noteq> None \<Longrightarrow> map_of (rtRuns t) i \<noteq> None \<or> i \<in> ridOf ` set rs"
    using loadFlowRuns_ok[OF Cons.prems(1) rs(2) dist _ load] rs(1,3) by auto
  have "tableOK t' \<and> rtDedup t' = rtDedup t1"
  proof (rule Cons.IH[OF one(1)])
    show "distinct (map fst frs)" using Cons.prems(2) by simp
    show "foldl (\<lambda>td fr. loadFlowRuns maxRetained fr td) (t1, d1) frs = (t', d')" using Cons.prems(4) fr load by simp
    fix g qs assume g: "(g, qs) \<in> set frs"
    then have "g \<noteq> f" using Cons.prems(2) fr by force
    have qs: "qs = filter (\<lambda>r. fidOf r = g) states" "gget [] (rtOrder t) g = []" "\<And>q. q \<in> set qs \<Longrightarrow> map_of (rtRuns t) (ridOf q) = None"
      using Cons.prems(3)[of g qs] g by auto
    have "ridOf q \<notin> ridOf ` set rs" if "q \<in> set qs" for q
      using that \<open>g \<noteq> f\<close> assms(3) by (auto simp: qs(1) rs(1) distinct_map dest!: inj_onD)
    then have "map_of (rtRuns t1) (ridOf q) = None" if "q \<in> set qs" for q using that one(4)[of "ridOf q"] qs(3) by fastforce
    then show "qs = filter (\<lambda>r. fidOf r = g) states \<and> gget [] (rtOrder t1) g = [] \<and> (\<forall>r\<in>set qs. map_of (rtRuns t1) (ridOf r) = None)"
      using qs one(3)[OF \<open>g \<noteq> f\<close>] by simp
  qed
  then show ?case using one(2) by simp
qed simp

lemma loadArchivedRuns_ok:
  assumes "archiveOK ao a" and "loadArchivedRuns ao maxRetained (\<lparr>rtRuns = [], rtOrder = [], rtDedup = []\<rparr>, a) = (t, a')"
  shows "tableOK t \<and> rtDedup t = []"
proof -
  let ?t = "\<lparr>rtRuns = [], rtOrder = [], rtDedup = []\<rparr> :: 'b runTable"
  have empty: "tableOK ?t" by (rule tableOK_empty)
  show ?thesis
  proof (cases "\<exists>ops recs. ao = Some ops \<and> aoLoadAll ops a = Some recs")
    case False
    then show ?thesis using assms(2) empty by (auto simp: loadArchivedRuns_def split: option.splits)
  next
    case True
    then obtain ops recs where recs: "ao = Some ops" "aoLoadAll ops a = Some recs" by blast
    obtain d where fold: "foldl (\<lambda>td fr. loadFlowRuns maxRetained fr td) (?t, []) (loadedByFlow recs) = (t, d)"
      using assms(2) recs by (auto simp: loadArchivedRuns_def split: prod.splits)
    have states: "wf_gomap (loadedByFlow recs)" "\<And>f. gget [] (loadedByFlow recs) f = filter (\<lambda>r. fidOf r = f) (loadedStates recs)"
      using loadedByFlow_spec by blast+
    have dist: "distinct (map ridOf (loadedStates recs))" using assms(1) recs by (simp add: archiveOK_def)
    have "rs = filter (\<lambda>r. fidOf r = f) (loadedStates recs)" if "(f, rs) \<in> set (loadedByFlow recs)" for f rs
      using states(2)[of f] that states(1) by (simp add: gget_def)
    then show ?thesis using loadFlows_fold[OF empty states(1) dist _ fold] by simp
  qed
qed

end
