(* ===== verification/Flow_Properties.thy ===== *)
theory Flow_Properties
  imports Flow_Lifecycle
begin

text \<open>
  The reachable states of the flow service and what holds in all of them. A step is a received frame, an event, a tick of a scheduler, a call of the
  capability \<open>flow::run\<close>, the progress of a run, or its end. Steps come in any order; each is taken as a whole, as when the framework delivers frames one
  after the other (two set requests for one flow at the same time could leave file and table apart, since the lock is not held over the write). \<open>stores\<close> is the set of stores that a call may meet: the same store, with the failures of the moment.
\<close>

section \<open>Steps\<close>

definition newFlowSt :: "'s \<Rightarrow> 'a \<Rightarrow> ('f, 's, 'a) flowSt" where
  "newFlowSt s a = \<lparr>fhSrv = None, fhFlows = [], fhTable = \<lparr>rtRuns = [], rtOrder = [], rtDedup = []\<rparr>, fhStore = s, fhArchive = a, fhSchedulers = [],
     fhNextStop = 0, fhStopped = [], fhSchedStarted = False, fhSubscribed = False\<rparr>"

inductive flowStep1 :: "('s, 'f) storeOps set \<Rightarrow> ('f, 's, 'a) flowSt \<Rightarrow> 'f flowOut list \<Rightarrow> ('f, 's, 'a) flowSt \<Rightarrow> bool" for stores where
  receive: "feStore env \<in> stores \<Longrightarrow> freshIDs env st \<Longrightarrow> flowOnReceive env oc oh payloadEmpty msg st = Ret (st', outs) \<Longrightarrow> flowStep1 stores st outs st'"
| bind: "bindServer srv st = Ret st' \<Longrightarrow> flowStep1 stores st [] st'"
| topic: "freshIDs env st \<Longrightarrow> handleTopicPublishEvent env mode ev st = (st', outs) \<Longrightarrow> flowStep1 stores st outs st'"
| changed: "freshIDs env st \<Longrightarrow> handleVarChangedEvent env op vev st = (st', outs) \<Longrightarrow> flowStep1 stores st outs st'"
| tick: "freshIDs env st \<Longrightarrow> tryStartRunWithTrigger env 0 fid ctx st = (st', outs) \<Longrightarrow> flowStep1 stores st outs st'"
| capability: "freshIDs env st \<Longrightarrow> invokeCapabilityRun env oraw st = (res, st', outs) \<Longrightarrow> flowStep1 stores st outs st'"
| progress: "map_of (rtRuns (fhTable st)) rid = Some r \<Longrightarrow> fidOf r' = fidOf r \<Longrightarrow> ridOf r' = rid \<Longrightarrow>
    flowStep1 stores st [] (st\<lparr>fhTable := (fhTable st)\<lparr>rtRuns := gput rid r' (rtRuns (fhTable st))\<rparr>\<rparr>)"
| finish: "finalizeRun ao maxRetained now fid r (fhTable st, fhArchive st) = (t, a) \<Longrightarrow> flowStep1 stores st [] (st\<lparr>fhTable := t, fhArchive := a\<rparr>)"

inductive flowReach :: "('s, 'f) storeOps set \<Rightarrow> ('s \<Rightarrow> bool) \<Rightarrow> ('f, 's, 'a) flowSt \<Rightarrow> bool" for stores okStore where
  init: "ops \<in> stores \<Longrightarrow> okStore s \<Longrightarrow> archiveOK (Some ao) a \<Longrightarrow> flowInit cfg injected ops ao (newFlowSt s a) = (True, st) \<Longrightarrow> flowReach stores okStore st"
| step: "flowReach stores okStore st \<Longrightarrow> flowStep1 stores st outs st' \<Longrightarrow> flowReach stores okStore st'"

section \<open>Starting runs\<close>

definition freshFrom :: "('f, 's, 'a) flowEnv \<Rightarrow> nat \<Rightarrow> ('f, 's, 'a) flowSt \<Rightarrow> bool" where
  "freshFrom env i st \<longleftrightarrow> inj (feRunID env) \<and> (\<forall>j\<ge>i. map_of (rtRuns (fhTable st)) (feRunID env j) = None)"

lemma freshIDs_from: "freshIDs env st \<Longrightarrow> freshFrom env i st"
  by (simp add: freshIDs_def freshFrom_def)

lemma tryStart_keeps:
  assumes inv: "flowInv st" and fresh: "freshFrom env i st" and start: "tryStartRunWithTrigger env i fid ctx st = (st', outs)"
  shows "sound st' outs \<and> freshFrom env (i + 1) st' \<and> fhFlows st' = fhFlows st \<and> fhStore st' = fhStore st"
proof -
  note I = flowInvD[OF inv]
  have free: "map_of (rtRuns (fhTable st)) (feRunID env j) = None" if "i \<le> j" for j using fresh that by (simp add: freshFrom_def)
  show ?thesis
  proof (cases "trimSpace fid \<noteq> [] \<and> map_of (fhFlows st) (trimSpace fid) \<noteq> None")
    case False
    then have "st' = st" "outs = []" using start by (auto simp: tryStartRunWithTrigger_def Let_def split: if_splits option.splits)
    then show ?thesis using inv fresh by (simp add: sound_quiet freshFrom_def)
  next
    case True
    then obtain flow where flow: "map_of (fhFlows st) (trimSpace fid) = Some flow" by blast
    obtain res t where q: "prepareQueuedRun (boundNode st) (feRunID env i) (feNow env i) flow ctx Trigger (fhTable st) = (res, t)" by fastforce
    have keeps: "tableOK t" "dedupOK t" "\<And>rid. rid \<noteq> feRunID env i \<Longrightarrow> map_of (rtRuns t) rid = map_of (rtRuns (fhTable st)) rid"
      using prepareQueuedRun_keeps[OF I(4,5) free q] by auto
    have st': "st' = st\<lparr>fhTable := t\<rparr>" "outs = (case res of None \<Rightarrow> [] | Some r \<Rightarrow> [StartRun flow r])"
      using start True flow q by (auto simp: tryStartRunWithTrigger_def Let_def split: option.splits)
    have "feRunID env j \<noteq> feRunID env i" if "i + 1 \<le> j" for j using fresh that by (auto simp: freshFrom_def dest: injD)
    then have "freshFrom env (i + 1) st'" using keeps(3) free fresh by (simp add: freshFrom_def st'(1))
    moreover have "startsOK outs"
      using storedOK_lookup[OF I(1) flow] prepareQueuedRun_new q by (auto simp: st'(2) goodFlow_def startsOK_def split: option.splits)
    ultimately show ?thesis using flowInv_table[OF inv keeps(1,2)] by (simp add: sound_def st'(1))
  qed
qed

lemma startAll_keeps:
  assumes "flowInv st" and "freshFrom env i st" and "startAll env i fids ctx st = (st', outs)"
  shows "sound st' outs \<and> fhFlows st' = fhFlows st \<and> fhStore st' = fhStore st"
  using assms
proof (induction fids arbitrary: i st st' outs)
  case (Cons fid fids)
  obtain st1 o1 where s1: "tryStartRunWithTrigger env i fid ctx st = (st1, o1)" by fastforce
  obtain st2 o2 where s2: "startAll env (i + 1) fids ctx st1 = (st2, o2)" by fastforce
  have k1: "sound st1 o1" "freshFrom env (i + 1) st1" "fhFlows st1 = fhFlows st" "fhStore st1 = fhStore st"
    using tryStart_keeps[OF Cons.prems(1,2) s1] by auto
  have "flowInv st1" using k1(1) by (simp add: sound_def)
  from Cons.IH[OF this k1(2) s2] k1 show ?case using Cons.prems(3) s1 s2 by (auto simp: sound_def)
qed (simp add: sound_quiet)

lemma event_keeps:
  assumes "flowInv st" and "freshIDs env st"
  shows "handleTopicPublishEvent env mode ev st = (st', outs) \<Longrightarrow> sound st' outs \<and> fhFlows st' = fhFlows st \<and> fhStore st' = fhStore st"
    and "handleVarChangedEvent env op vev st = (st', outs) \<Longrightarrow> sound st' outs \<and> fhFlows st' = fhFlows st \<and> fhStore st' = fhStore st"
  using startAll_keeps[OF assms(1) freshIDs_from[OF assms(2)], of 0] assms(1)
  by (auto simp: handleTopicPublishEvent_def handleVarChangedEvent_def Let_def sound_quiet split: option.splits if_splits)

lemma capability_keeps:
  assumes inv: "flowInv st" and fresh: "freshIDs env st" and call: "invokeCapabilityRun env oraw st = (res, st', outs)"
  shows "sound st' outs \<and> fhFlows st' = fhFlows st \<and> fhStore st' = fhStore st"
proof (cases "\<exists>fid flow. map_of (fhFlows st) fid = Some flow \<and> enqueueRun env flow st = (st', outs)")
  case False
  then have "st' = st" "outs = []" using call by (auto simp: invokeCapabilityRun_def split: option.splits sum.splits if_splits)
  then show ?thesis using inv by (simp add: sound_quiet)
next
  case True
  then obtain fid flow where flow: "map_of (fhFlows st) fid = Some flow" "enqueueRun env flow st = (st', outs)" by blast
  note I = flowInvD[OF inv]
  let ?r = "newQueuedRunState (boundNode st) (feRunID env 0) flow None (feNow env 0)"
  have st': "st' = st\<lparr>fhTable := recordRun ?r (fhTable st)\<rparr>" "outs = [StartRun flow ?r]" using flow(2) by (simp_all add: enqueueRun_def Let_def)
  have "tableOK (recordRun ?r (fhTable st))"
    by (rule tableOK_record[OF I(4)]) (use fresh in \<open>simp add: freshIDs_def newQueuedRunState_def\<close>)
  moreover have "dedupOK (recordRun ?r (fhTable st))" using I(5) by (simp add: dedupOK_def)
  ultimately show ?thesis
    using flowInv_table[OF inv] storedOK_lookup[OF I(1) flow(1)]
    by (auto simp: sound_def st' goodFlow_def newQueuedRunState_def newRunContext_def startsOK_def)
qed

section \<open>Every step keeps the invariant\<close>

lemma finalize_keeps:
  assumes "tableOK t" and "dedupOK t" and "finalizeRun ao maxRetained now fid r (t, a) = (t', a')"
  shows "tableOK t' \<and> dedupOK t'"
proof -
  obtain pruned where p: "pruneRuns maxRetained fid t = (t', pruned)" using assms(3) by (auto simp: finalizeRun_def split: prod.splits)
  show ?thesis using prune_exact[OF assms(1) p] pruneRuns_dedup[OF p] assms(2) by (simp add: dedupOK_def)
qed

lemma flowStep1_sound:
  assumes "flowStep1 stores st outs st'" and "flowInv st"
  shows "sound st' outs"
  using assms
proof cases
  case (receive env oc oh payloadEmpty msg)
  then show ?thesis using inv.receive_ends[of st env oc oh payloadEmpty msg] assms(2) by (simp add: ends_def)
next
  case (bind srv)
  then show ?thesis using bindServer_keeps[OF assms(2), of srv] by (metis outcome.inject(1) quiet_sends(1) sound_quiet)
next
  case (progress rid r r')
  note I = flowInvD[OF assms(2)]
  show ?thesis unfolding progress
    by (rule sound_quiet, rule flowInv_table[OF assms(2) tableOK_update[OF I(4) progress(3)]]) (use progress I(5) in \<open>simp_all add: dedupOK_def\<close>)
next
  case (finish ao maxRetained now fid r t a)
  have "flowInv (st\<lparr>fhTable := t\<rparr>)" using flowInv_table[OF assms(2)] finalize_keeps[OF flowInvD(4,5)[OF assms(2)] finish(3)] by blast
  then have "flowInv (st\<lparr>fhTable := t, fhArchive := a\<rparr>)" by (simp add: flowInv_def storedOK_def schedOK_def schedSafe_def wants_def)
  then show ?thesis using finish by (simp add: sound_quiet)
next
  case (topic env mode ev)
  then show ?thesis using event_keeps(1)[OF assms(2) topic(1,2)] by simp
next
  case (changed env op vev)
  then show ?thesis using event_keeps(2)[OF assms(2) changed(1,2)] by simp
next
  case (tick env fid ctx)
  then show ?thesis using tryStart_keeps[OF assms(2) freshIDs_from[OF tick(1)] tick(2)] by simp
next
  case (capability env oraw res)
  then show ?thesis using capability_keeps[OF assms(2) capability(1,2)] by simp
qed

lemma loadFlows_stored: "\<forall>(fid, flow)\<in>set (loadFlows docs). goodFlow fid flow"
proof (induction docs rule: rev_induct)
  case (snoc doc docs)
  have "loadFlows (docs @ [doc]) = (case loadFlow doc of None \<Rightarrow> loadFlows docs | Some req \<Rightarrow> gput (sqFlowID req) req (loadFlows docs))"
    unfolding loadFlows_def by simp
  then show ?case using snoc gput_members loadFlow_good by (fastforce split: option.splits)
qed (simp add: loadFlows_def)

lemma flowInit_cases:
  assumes "archiveOK (Some ao) a" and "flowInit cfg injected ops ao (newFlowSt s a) = (True, st)"
  obtains docs t a' where "soLoadAll ops s = Some docs" "st = (newFlowSt s a)\<lparr>fhFlows := loadFlows docs, fhTable := t, fhArchive := a'\<rparr>" "tableOK t" "dedupOK t"
proof -
  let ?ao = "if fcRunArchive (loadFlowConfig cfg) then Some ao else None" and ?max = "fcMaxRetainedRuns (loadFlowConfig cfg)"
  obtain st1 where st1: "loadFlowsFromDisk ops (newFlowSt s a) = Some st1"
    "st = (case loadArchivedRuns ?ao ?max (fhTable st1, fhArchive st1) of (t, a') \<Rightarrow> st1\<lparr>fhTable := t, fhArchive := a'\<rparr>)"
    using assms(2) by (auto simp: flowInit_def Let_def split: if_splits option.splits prod.splits)
  obtain docs where docs: "soLoadAll ops s = Some docs" "st1 = (newFlowSt s a)\<lparr>fhFlows := loadFlows docs\<rparr>"
    using st1(1) by (auto simp: loadFlowsFromDisk_def newFlowSt_def split: option.splits)
  obtain t a' where t: "loadArchivedRuns ?ao ?max (\<lparr>rtRuns = [], rtOrder = [], rtDedup = []\<rparr>, a) = (t, a')" by fastforce
  have ok: "archiveOK ?ao a" using assms(1) by (simp add: archiveOK_def)
  have "tableOK t" "dedupOK t" using loadArchivedRuns_ok[OF ok t] by (auto simp: dedupOK_def)
  moreover have "st = (newFlowSt s a)\<lparr>fhFlows := loadFlows docs, fhTable := t, fhArchive := a'\<rparr>" using st1(2) docs(2) t by (simp add: newFlowSt_def)
  ultimately show thesis using that docs(1) by blast
qed

lemma flowReach_inv: "flowReach stores okStore st \<Longrightarrow> flowInv st"
proof (induction rule: flowReach.induct)
  case (init ops s ao a cfg injected st)
  obtain docs t a' where st: "st = (newFlowSt s a)\<lparr>fhFlows := loadFlows docs, fhTable := t, fhArchive := a'\<rparr>" "tableOK t" "dedupOK t"
    using flowInit_cases[OF init(3,4)] by metis
  show ?case using st(2,3) loadFlows_stored[of docs]
    by (simp add: flowInv_def st(1) storedOK_def schedOK_def schedSafe_def newFlowSt_def)
next
  case (step st outs st')
  then show ?case using flowStep1_sound[of stores st outs st'] by (simp add: sound_def)
qed

text \<open>
  C10: At every moment every stored flow is well-formed: it is filed under its own id, which is a UUID, its trigger is in normal form and passes
  \<open>validateTrigger\<close>, its run limit is not negative and its graph passes \<open>validateGraphForFlow\<close>. This holds from start-up on, whatever is in the store and
  whatever requests, events and runs come in whatever order.
\<close>
theorem flow_stored_valid:
  assumes "flowReach stores okStore st" and "map_of (fhFlows st) fid = Some flow"
  shows "sqFlowID flow = fid \<and> validateFlowID fid = Inr fid \<and> normalizeTrigger (sqTrigger flow) = sqTrigger flow \<and> validateTrigger (sqTrigger flow) = None \<and>
    validateFlowRunConfig flow = None \<and> validateGraphForFlow fid (sqGraph flow) = None"
  using storedOK_lookup[OF flowInvD(1)[OF flowReach_inv[OF assms(1)]] assms(2)] unfolding goodFlow_iff .


text \<open>
  C24: No frame makes the handler panic or hang: in every reachable state, for every connection, header, payload, configuration and store, \<open>OnReceive\<close> returns.
  In particular no stop channel of a scheduler is closed twice.
\<close>
theorem flow_receive_returns:
  assumes "flowReach stores okStore st" and "freshIDs env st"
  shows "\<exists>st' outs. flowOnReceive env oc oh payloadEmpty msg st = Ret (st', outs)"
  using inv.receive_ends[of st env oc oh payloadEmpty msg] flowReach_inv[OF assms(1)] assms(2) by (auto simp: ends_def)

section \<open>What is started runs to its end\<close>

definition runFlows :: "('f, 's, 'a) flowSt \<Rightarrow> (string, string \<times> 'f graph) gomap" where
  "runFlows st = map (\<lambda>(k, flow). (k, sqFlowID flow, sqGraph flow)) (fhFlows st)"

lemma runFlows_ok: "storedOK st \<Longrightarrow> flowTableOK (runFlows st)"
  by (auto simp: storedOK_def flowTableOK_def runFlows_def list_all_iff goodFlow_def)


section \<open>Restart\<close>

definition jsonStores :: "string \<Rightarrow> ((string, 'f dirEntry) gomap, 'f) storeOps set" where
  "jsonStores baseDir = {jsonStore baseDir (\<lambda>n. singleFault (faults n)) removeErr readErr | faults removeErr readErr. True}"

lemma load_faults: "loadFlowsFromDisk (jsonStore baseDir faults removeErr readErr) = loadFlowsFromDisk (jsonStore baseDir faults' removeErr readErr)"
  by (simp add: loadFlowsFromDisk_def jsonStore_def fun_eq_iff)

lemma flowStep1_synced:
  assumes "flowStep1 (jsonStores baseDir) st outs st'" and "flowInv st" and "json.synced baseDir st"
  shows "json.synced baseDir st'"
  using assms
proof cases
  case (receive env oc oh payloadEmpty msg)
  then obtain w r e where "feStore env = jsonStore baseDir (\<lambda>n. singleFault (w n)) r e" by (auto simp: jsonStores_def)
  then have env: "env\<lparr>feStore := jsonStore baseDir (\<lambda>n. singleFault (w n)) r e\<rparr> = env" by (cases env) simp
  show ?thesis
    using json.routed.receive_ends[where baseDir = baseDir and faults = w and removeErr = r and readErr = e and env = env and st = st
        and oc = oc and oh = oh and payloadEmpty = payloadEmpty and msg = msg] receive assms(2,3)
    unfolding env by (auto simp: ends_def)
next
  case (bind srv)
  then show ?thesis using bindServer_keeps[OF assms(2), of srv] json.synced_cong[of st' st baseDir] assms(3) by (metis outcome.inject(1) sameCore_def)
next
  case (topic env mode ev)
  then show ?thesis using event_keeps(1)[OF assms(2) topic(1,2)] assms(3) json.synced_cong by blast
next
  case (changed env op vev)
  then show ?thesis using event_keeps(2)[OF assms(2) changed(1,2)] assms(3) json.synced_cong by blast
next
  case (tick env fid ctx)
  then show ?thesis using tryStart_keeps[OF assms(2) freshIDs_from[OF tick(1)] tick(2)] assms(3) json.synced_cong by blast
next
  case (capability env oraw res)
  then show ?thesis using capability_keeps[OF assms(2) capability(1,2)] assms(3) json.synced_cong by blast
qed (simp_all add: json.synced_def)

lemma flowReach_synced: "flowReach (jsonStores baseDir) jsonOK st \<Longrightarrow> json.synced baseDir st"
proof (induction rule: flowReach.induct)
  case (init ops s ao a cfg injected st)
  obtain docs t a' where st: "soLoadAll ops s = Some docs" "st = (newFlowSt s a)\<lparr>fhFlows := loadFlows docs, fhTable := t, fhArchive := a'\<rparr>"
    using flowInit_cases[OF init(3,4)] by metis
  from init(1) obtain w r e where ops: "ops = jsonStore baseDir (\<lambda>n. singleFault (w n)) r e" by (auto simp: jsonStores_def)
  have load: "loadFlowsFromDisk (jsonStore baseDir (\<lambda>n. singleFault (w n)) r e) (newFlowSt s a) = Some ((newFlowSt s a)\<lparr>fhFlows := loadFlows docs\<rparr>)"
    using st(1) ops by (simp add: loadFlowsFromDisk_def newFlowSt_def)
  have "jsonOK (fhStore (newFlowSt s a))" using init(2) by (simp add: newFlowSt_def)
  from json.restart[OF this load] show ?case using init(2) by (simp add: json.synced_def st(2) newFlowSt_def)
next
  case (step st outs st')
  then show ?case using flowStep1_synced flowReach_inv by blast
qed


text \<open>
  C23: A crash while a definition is saved, at whatever point and with whatever errors before it, harms no other definition: the directory stays in order, all
  other flows are what they were, and the flow itself is the old or the new one, or, between the two renames of \<open>writeFileAtomic\<close>, missing with its old content
  in the backup file.
\<close>
theorem flow_save_crash:
  assumes "flowReach (jsonStores baseDir) jsonOK st" and "validateFlowID (sqFlowID doc) = Inr (sqFlowID doc)"
    and "jsonSaveStates baseDir faults doc (fhStore st) = (err, dirs)" and "d \<in> set dirs"
  shows "jsonOK d \<and> (\<forall>f. f \<noteq> sqFlowID doc \<longrightarrow> jsonContent baseDir d f = jsonContent baseDir (fhStore st) f) \<and>
    (jsonContent baseDir d (sqFlowID doc) \<in> {jsonContent baseDir (fhStore st) (sqFlowID doc), Some doc} \<or>
     jsonContent baseDir d (sqFlowID doc) = None \<and> map_of d (backupName (jsonName (sqFlowID doc))) = map_of (fhStore st) (jsonName (sqFlowID doc)))"
proof -
  have ok: "jsonOK (fhStore st)" using flowReach_synced[OF assms(1)] by (simp add: json.synced_def)
  show ?thesis
  proof (cases "trimSpace baseDir = [] \<or> wfPrepare (faults (jsonName (sqFlowID doc)))")
    case True
    then have "d = fhStore st" using assms(3,4) unfolding jsonSaveStates_def assms(2) by (auto split: if_splits)
    then show ?thesis using ok by simp
  next
    case False
    then have "writeFileAtomic (faults (jsonName (sqFlowID doc))) FileOther (jsonName (sqFlowID doc)) (FileDoc doc) (fhStore st) = (err, dirs)"
      using assms(3) unfolding jsonSaveStates_def assms(2) by simp
    from writeFile_states[OF ok assms(2) refl this assms(4)] show ?thesis using False by (auto simp: jsonContent_def)
  qed
qed

text \<open>That window exists: replacing a definition passes through a state in which a load finds no file for it.\<close>

lemma flow_save_window:
  assumes "map_of dir (jsonName fid) = Some e" and "\<not> wfCreate faults" and "\<not> wfWrite faults" and "\<not> wfStat faults" and "\<not> wfBackup faults"
  shows "\<exists>d\<in>set (snd (writeFileAtomic faults p (jsonName fid) c dir)). map_of d (jsonName fid) = None"
  using assms by (auto simp: writeFileAtomic_def Let_def update_conv' delete_conv')

text \<open>An interval that does not fit \<open>time.Duration\<close> passes validation, and the flow never runs on its own.\<close>

lemma interval_overflow: "validateTrigger t = None \<and> triggerType t = ''interval'' \<and> \<not> schedulable (flow\<lparr>sqTrigger := t\<rparr>)"
  if "t = demoTrigger\<lparr>trType := ''interval'', trEveryMs := 10000000000000, trDedupWindowMs := None\<rparr>"
proof -
  have "triggerType t = ''interval''" unfolding that by code_simp
  then show ?thesis by (simp add: that validateTrigger_def schedulable_def Let_def)
qed

section \<open>Permissions\<close>

definition originOf :: "nodeID \<Rightarrow> header \<Rightarrow> nodeID" where
  "originOf claimed hdr = (if claimed = 0 then hSourceID hdr else claimed)"

definition authorized :: "('f, 's, 'a) flowEnv \<Rightarrow> header \<Rightarrow> 'f flowMsg \<Rightarrow> bool" where
  "authorized env hdr msg =
     (case msg of
        MsgSet ok req \<Rightarrow> flowHasPermission env (originOf (sqOrigin req) hdr) (fePermSet env)
      | MsgReq act ok req \<Rightarrow>
          (act \<noteq> ActDelete \<and> trimSpace (permOf env act) = []) \<or> flowHasPermission env (originOf (fqOrigin req) hdr) (permOf env act)
      | _ \<Rightarrow> False)"

text \<open>Nothing is started, and every answer is an error.\<close>

definition refused :: "'f flowOut list \<Rightarrow> bool" where
  "refused outs \<longleftrightarrow> (\<forall>x\<in>set outs. case x of StartRun flow r \<Rightarrow> False | FlowSend c h (BodyResp resp) \<Rightarrow> 400 \<le> faCode resp | _ \<Rightarrow> True)"

definition silent :: "('f, 's, 'a) flowSt \<Rightarrow> ('f, 's, 'a) flowStep \<Rightarrow> bool" where
  "silent st m \<longleftrightarrow> (\<forall>st' outs. m = Ret (st', outs) \<longrightarrow> sameCore st st' \<and> refused outs)"

lemma sameCore_refl [simp]: "sameCore st st"
  by (simp add: sameCore_def)

lemma silent_Ret [simp]: "silent st (Ret (st', outs)) \<longleftrightarrow> sameCore st st' \<and> refused outs"
  by (auto simp: silent_def)

lemma refused_sends [simp]:
  "refused []" "refused (xs @ ys) \<longleftrightarrow> refused xs \<and> refused ys"
  "400 \<le> faCode resp \<Longrightarrow> refused (sendCtrlToNodeWithReqHdr env oh target resp)" "400 \<le> faCode resp \<Longrightarrow> refused (sendResp env oh resp)"
  by (auto simp: refused_def sendCtrlToNodeWithReqHdr_def sendResp_def Let_def split: option.split)

lemma refused_forwards:
  assumes "\<And>resp. body \<noteq> BodyResp resp"
  shows "sendToConn env c hdr body = Some outs \<Longrightarrow> refused outs"
    and "(\<And>code msg. 400 \<le> code \<Longrightarrow> refused (fail code msg)) \<Longrightarrow> refused (passOn env hdr c target body fail)"
    and "refused (fst (sendOr env hdr c target body)) \<and> (fst (snd (sendOr env hdr c target body)) = 0 \<or> 400 \<le> fst (snd (sendOr env hdr c target body)))"
proof -
  have send: "refused outs" if "sendToConn env c hdr body = Some outs" for hdr outs
    using that assms by (auto simp: refused_def sendToConn_def split: if_splits option.splits flowBody.splits)
  then show "sendToConn env c hdr body = Some outs \<Longrightarrow> refused outs" .
  show "refused (passOn env hdr c target body fail)" if "\<And>code msg. 400 \<le> code \<Longrightarrow> refused (fail code msg)"
    using send that by (auto simp: passOn_def split: option.split)
  show "refused (fst (sendOr env hdr c target body)) \<and> (fst (snd (sendOr env hdr c target body)) = 0 \<or> 400 \<le> fst (snd (sendOr env hdr c target body)))"
    using send by (auto simp: sendOr_def split: option.split)
qed

lemma reply_code [simp]: "faCode (flowReply act reqID code msg) = code" "faCode (p\<lparr>faFlowID := x\<rparr>) = faCode p"
  by (simp_all add: flowReply_def)

lemma routeEdit_denied:
  assumes "\<not> isParentConn srv c" and "\<not> flowHasPermission env origin perm" and "\<And>resp. body \<noteq> BodyResp resp" and "\<And>code msg. 400 \<le> code \<Longrightarrow> refused (fail code msg)"
  shows "silent st (routeEdit env srv c hdr executor origin perm body fail localFn st)"
  using assms(1,2,4) refused_forwards(2)[OF assms(3,4)] by (auto simp: routeEdit_def split: option.split)

lemma executor_denied:
  assumes "\<not> isParentConn srv c" and "trimSpace perm \<noteq> []" and "\<not> flowHasPermission env origin perm" and "\<And>resp. body \<noteq> BodyResp resp"
    and "forwardToExecutorWithPerm env srv c hdr executor origin perm body localFn st = Ret (st', outs, code, msg)"
  shows "st' = st \<and> refused outs \<and> (code = 0 \<or> 400 \<le> code)"
proof -
  have fwd: "refused outs \<and> (code = 0 \<or> 400 \<le> code)" if "sendOr env hdr k target body = (outs, code, msg)" for k target
    using refused_forwards(3)[OF assms(4), of env hdr k target] that by simp
  show ?thesis
    using assms(1,2,3,5) fwd by (auto simp: forwardToExecutorWithPerm_def Let_def split: if_splits option.splits)
qed

lemma restartSchedulers_frame: "restartSchedulers ids st = Ret st' \<Longrightarrow> reSched st st'"
  by (induction ids arbitrary: st) (auto dest: restartScheduler_frame intro: reSched_trans)

lemma startSchedulers_core: "startSchedulers st = Ret st' \<Longrightarrow> sameCore st st'"
  by (auto simp: startSchedulers_def sameCore_def reSched_def split: if_splits dest!: restartSchedulers_frame)

lemma bindServer_core: "bindServer srv st = Ret st' \<Longrightarrow> sameCore st st'"
  by (auto simp: bindServer_def sameCore_def dest!: startSchedulers_core)

lemma sameCore_trans: "sameCore a b \<Longrightarrow> sameCore b c \<Longrightarrow> sameCore a c"
  by (simp add: sameCore_def)

lemma request_denied:
  assumes ctx: "feCtxServer env = Some srv" and conn: "\<not> isParentConn srv c" and perm: "trimSpace (permOf env act) \<noteq> []"
    and denied: "\<not> flowHasPermission env (originOf (fqOrigin req) hdr) (permOf env act)" and fill: "\<And>req p. faCode (fill req p) = faCode p"
  shows "silent st (routeRequest env (Some c) (Some hdr) act req fill localFn st)"
  unfolding silent_def
proof (intro allI impI)
  fix st' outs assume run: "routeRequest env (Some c) (Some hdr) act req fill localFn st = Ret (st', outs)"
  let ?executor = "if fqExecutor req = 0 then sNodeID srv else fqExecutor req" and ?origin = "originOf (fqOrigin req) hdr"
  let ?req = "req\<lparr>fqOrigin := ?origin, fqExecutor := ?executor\<rparr>"
  obtain st1 where st1: "bindServer srv st = Ret st1" using run ctx by (auto simp: routeRequest_def getServer_def)
  obtain st2 os code msg where f: "forwardToExecutorWithPerm env srv c hdr ?executor ?origin (permOf env act) (BodyReq act ?req) (localFn hdr ?req) st1 = Ret (st2, os, code, msg)"
    and res: "st' = st2" "outs = (if code \<noteq> 0 then os @ sendResp env (Some hdr) (fill ?req (flowReply act (fqReqID ?req) code msg)) else os)"
    using run unfolding routeRequest_def getServer_def ctx st1 by (auto simp: Let_def originOf_def st1 split: if_splits)
  have "st2 = st1 \<and> refused os \<and> (code = 0 \<or> 400 \<le> code)" by (rule executor_denied[OF conn perm denied _ f]) simp
  then show "sameCore st st' \<and> refused outs" using bindServer_core[OF st1] res fill by auto
qed

lemma checked_denied: "(\<And>req. fqOrigin req = fqOrigin req0 \<Longrightarrow> silent st (k req)) \<Longrightarrow> silent st (checkedReq env oh act what ok req0 st k)"
  by (auto simp: checkedReq_def Let_def split: sum.split)

lemma act_denied:
  assumes "feCtxServer env = Some srv" and "\<not> isParentConn srv c" and "\<not> authorized env hdr (MsgReq act ok req)"
  shows "act = ActDelete \<Longrightarrow> silent st (handleDelete env (Some c) (Some hdr) ok req st)"
    and "act = ActRun \<Longrightarrow> silent st (handleRun env (Some c) (Some hdr) ok req st)"
    and "act = ActCancelRun \<Longrightarrow> silent st (handleCancelRun env (Some c) (Some hdr) ok req st)"
    and "act = ActStatus \<Longrightarrow> silent st (handleStatus env (Some c) (Some hdr) ok req st)"
    and "act = ActDetail \<Longrightarrow> silent st (handleDetail env (Some c) (Some hdr) ok req st)"
    and "act = ActListRuns \<Longrightarrow> silent st (handleListRuns env (Some c) (Some hdr) ok req st)"
    and "act = ActList \<Longrightarrow> silent st (handleList env (Some c) (Some hdr) ok req st)"
    and "act = ActGet \<Longrightarrow> silent st (handleGet env (Some c) (Some hdr) ok req st)"
proof -
  have denied: "\<not> flowHasPermission env (originOf (fqOrigin req) hdr) (permOf env act)" "act = ActDelete \<or> trimSpace (permOf env act) \<noteq> []"
    using assms(3) by (auto simp: authorized_def)
  have req: "silent st (routeRequest env (Some c) (Some hdr) a q fill localFn st)"
    if "act = a" "a \<noteq> ActDelete" "fqOrigin q = fqOrigin req" "\<And>q p. faCode (fill q p) = faCode p" for a q fill localFn
    by (rule request_denied[OF assms(1,2)]) (use denied that in auto)
  show "silent st (handleDelete env (Some c) (Some hdr) ok req st)" if "act = ActDelete"
    using denied(1) that assms(1,2)
    by (auto simp: handleDelete_def Let_def permOf_def originOf_def split: sum.split intro!: routeEdit_denied)
  show "act = ActRun \<Longrightarrow> silent st (handleRun env (Some c) (Some hdr) ok req st)"
    "act = ActStatus \<Longrightarrow> silent st (handleStatus env (Some c) (Some hdr) ok req st)"
    "act = ActListRuns \<Longrightarrow> silent st (handleListRuns env (Some c) (Some hdr) ok req st)"
    "act = ActGet \<Longrightarrow> silent st (handleGet env (Some c) (Some hdr) ok req st)"
    unfolding handleRun_def handleStatus_def handleListRuns_def handleGet_def by (rule checked_denied, rule req; simp)+
  show "act = ActCancelRun \<Longrightarrow> silent st (handleCancelRun env (Some c) (Some hdr) ok req st)"
    unfolding handleCancelRun_def by (rule checked_denied) (auto intro!: req split: sum.split)
  show "act = ActDetail \<Longrightarrow> silent st (handleDetail env (Some c) (Some hdr) ok req st)"
    unfolding handleDetail_def by (rule checked_denied) (auto simp: Let_def intro!: req split: sum.split)
  show "act = ActList \<Longrightarrow> silent st (handleList env (Some c) (Some hdr) ok req st)"
    unfolding handleList_def by (auto simp: Let_def intro!: req)
qed


section \<open>Examples\<close>

type_synonym demoSt = "(nat, (string, nat dirEntry) gomap, unit) flowSt"

definition demoHourly :: "nat setReq" where
  "demoHourly = demoFlow\<lparr>sqTrigger := demoTrigger\<lparr>trType := ''interval'', trEveryMs := 3600000, trDedupWindowMs := None\<rparr>, sqGraph := demoPair\<rparr>"

definition demoDir :: "(string, nat dirEntry) gomap" where
  "demoDir = [(jsonName demoID, FileDoc demoHourly), (''notes.txt'', FileOther)]"

definition demoNoFaults :: writeFaults where
  "demoNoFaults = \<lparr>wfPrepare = False, wfCreate = False, wfWrite = False, wfStat = False, wfBackup = False, wfRename = False, wfRestore = False, wfCleanup = False, wfTemp = 1\<rparr>"

definition demoStoreOps :: "((string, nat dirEntry) gomap, nat) storeOps" where
  "demoStoreOps = jsonStore ''flows'' (\<lambda>_. singleFault demoNoFaults) (\<lambda>_. False) False"

definition demoArchive :: "(unit, nat) archiveOps" where
  "demoArchive = \<lparr>aoSave = (\<lambda>_ a. a), aoDelete = (\<lambda>_ _ a. a), aoLoadAll = (\<lambda>_. None)\<rparr>"

definition demoLoaded :: demoSt where
  "demoLoaded = (newFlowSt demoDir ())\<lparr>fhFlows := [(demoID, demoHourly)]\<rparr>"

definition demoHub :: server where
  "demoHub = \<lparr>sNodeID = 2, sConns = [], sGet = (\<lambda>_. None), sByNode = (\<lambda>_. None), sSendErr = (\<lambda>_. False), sHasEventBus = False, sRoleParent = ''parent''\<rparr>"

definition demoChild :: conn where
  "demoChild = \<lparr>cID = ''c'', cRole = None, cNode = Some (MUint32 7)\<rparr>"

definition demoFlowEnv :: "(nat, (string, nat dirEntry) gomap, unit) flowEnv" where
  "demoFlowEnv = \<lparr>feCtxServer = Some demoHub, feDirectErr = (\<lambda>_. False), feCloneForward = Some, fePermHas = None, fePermSet = ''s'', fePermDelete = ''d'',
     fePermRun = ''r'', fePermRead = ''q'', feSubProto = 9, feNow = (\<lambda>_. 1), feRunID = (\<lambda>n. replicate (n + 1) (CHR ''x'')), feStore = demoStoreOps,
     feArchiveOps = None, feMaxRetained = 3, feValueOps = demoOps\<rparr>"

lemma demoHourly_load: "loadFlow demoHourly = Some demoHourly"
  by code_simp

lemma demoHourly_id: "sqFlowID demoHourly = demoID"
  by (simp add: demoHourly_def demoFlow_def)

lemma demoDir_ok: "jsonOK demoDir"
proof -
  have "\<not> hasSuffix (toLower ''notes.txt'') ''.json''" "jsonName demoID \<noteq> ''notes.txt''" by code_simp+
  then show ?thesis using demoID_valid by (simp add: jsonOK_def demoDir_def demoHourly_id)
qed

lemma demoDir_load: "jsonLoadAll ''flows'' False demoDir = Some [demoHourly]"
proof -
  have "jsonName demoID \<le> ''notes.txt''" "trimSpace ''flows'' \<noteq> []" "hasSuffix (toLower ''notes.txt'') ''.json'' = False" by code_simp+
  then show ?thesis by (simp add: jsonLoadAll_def demoDir_def List.map_filter_simps)
qed

lemma demo_reach: "flowReach (jsonStores ''flows'') jsonOK demoLoaded"
proof (rule flowReach.init)
  show "demoStoreOps \<in> jsonStores ''flows''" unfolding jsonStores_def demoStoreOps_def by (intro CollectI exI[of _ "\<lambda>_. demoNoFaults"] exI conjI TrueI) (rule refl)
  show "jsonOK demoDir" by (rule demoDir_ok)
  show "archiveOK (Some demoArchive) ()" by (simp add: archiveOK_def demoArchive_def)
  have "loadFlows [demoHourly] = [(demoID, demoHourly)]" by (simp add: loadFlows_def demoHourly_load demoHourly_id)
  then show "flowInit None False demoStoreOps demoArchive (newFlowSt demoDir ()) = (True, demoLoaded)"
    by (simp add: flowInit_def loadFlowConfig_def Let_def loadFlowsFromDisk_def demoStoreOps_def jsonStore_def newFlowSt_def demoDir_load loadArchivedRuns_def demoLoaded_def)
qed

lemma demo_fresh: "freshIDs demoFlowEnv demoLoaded"
proof -
  have "trimSpace (CHR ''x'' # replicate n (CHR ''x'')) = CHR ''x'' # replicate n (CHR ''x'')" for n by (rule trimSpace_graphic) auto
  then show ?thesis by (auto simp: freshIDs_def demoFlowEnv_def demoLoaded_def newFlowSt_def inj_def dest: arg_cong[where f = length])
qed

lemma demo_lookup: "map_of (fhFlows demoLoaded) demoID = Some demoHourly"
  by (simp add: demoLoaded_def)

theorem flow_stored_valid_witness:
  "flowReach (jsonStores ''flows'') jsonOK demoLoaded \<and> map_of (fhFlows demoLoaded) demoID = Some demoHourly \<and> validateGraphForFlow demoID (sqGraph demoHourly) = None"
  using demo_reach demo_lookup flow_stored_valid[OF demo_reach demo_lookup] by blast


theorem flow_receive_returns_witness:
  "\<exists>st' outs. flowOnReceive demoFlowEnv (Some demoChild) (Some zeroHeader) False (MsgReq ActRun True
     \<lparr>fqReqID = ''q'', fqOrigin = 0, fqExecutor = 0, fqFlowID = demoID, fqRunID = [], fqNodeID = [], fqPath = [], fqLimit = 0\<rparr>) demoLoaded = Ret (st', outs)"
  by (rule flow_receive_returns[OF demo_reach demo_fresh])




theorem flow_save_crash_witness:
  "\<exists>err dirs d. jsonSaveStates ''flows'' (\<lambda>_. demoNoFaults) demoHourly (fhStore demoLoaded) = (err, dirs) \<and> d \<in> set dirs \<and> jsonOK d"
proof -
  obtain err dirs where s: "jsonSaveStates ''flows'' (\<lambda>_. demoNoFaults) demoHourly (fhStore demoLoaded) = (err, dirs)" by fastforce
  have id: "validateFlowID (sqFlowID demoHourly) = Inr (sqFlowID demoHourly)" using demoID_valid by (simp add: demoHourly_id)
  have "dirs \<noteq> []" using s unfolding jsonSaveStates_def id
    by (auto split: if_splits dest: writeFile_last(1))
  then have d: "hd dirs \<in> set dirs" by simp
  show ?thesis using flow_save_crash[OF demo_reach id s d] s d by blast
qed

end
