(* ===== verification/Spec2Isabelle.thy ===== *)
theory Spec2Isabelle
  imports Broker Cap_Registry Wire_Codecs Topic_Bus File_Transfer Forward Var_Store Flow_Properties
begin

text \<open>
  A verification development for the sub-protocol handlers of \<open>myflowhub-subproto\<close> (Go).

  \<^bold>\<open>The program.\<close> A hub process hosts handlers that exchange framed messages with the hubs above (one parent connection) and
  below (child connections) in a tree. The handlers share the framework (\<open>myflowhub-core\<close>: connections, headers, sending, event bus,
  permissions), the message types (\<open>myflowhub-proto\<close>), the capability registry (\<open>exec/capability\<close>) and the rendezvous of
  requests and responses (\<open>broker\<close>). Neither \<open>myflowhub-core\<close> nor \<open>myflowhub-proto\<close> is part of the repository: what the handlers see of them
  is a parameter of the model (theory \<open>Node_Env\<close> and the environment record of each handler).

  \<^bold>\<open>Theories and sources.\<close>
  \<^item> \<open>SubProto_Prelude\<close>: Go maps and sets as association lists and lists, outcomes of statements that may panic or block, lemma
    collections, and the interfaces that several components share as locales (\<open>invariant_machine\<close>, \<open>refining_machine\<close>, \<open>codec\<close>).
  \<^item> \<open>Go_Strings\<close>: the functions of \<open>strings\<close> and \<open>strconv\<close> that the sources call, on byte strings.
  \<^item> \<open>Node_Env\<close>: connections, headers, the server; \<open>isParentConn\<close>, \<open>findParent\<close>, \<open>connNodeID\<close>, which every handler has a copy of.
  \<^item> \<open>Broker\<close> (\<open>broker/broker.go\<close>): channels with buffer and closed flag, \<open>Register\<close>, the cancel functions, \<open>Deliver\<close> in its locked and its unlocked
    half, as a step relation over all interleavings. No operation panics or blocks; a response is delivered once.
  \<^item> \<open>Cap_Registry\<close> (\<open>exec/capability/registry.go\<close>): registration, lookup, listing, normal forms, shared registries.
  \<^item> \<open>Wire_Codecs\<close> (\<open>file/bin.go\<close>, \<open>file/uuid.go\<close>, \<open>stream/bin.go\<close>, \<open>flow/flow_id.go\<close>): frame headers at their byte widths, UUIDs, identifiers; round trips.
  \<^item> \<open>Topic_Bus\<close> (\<open>topicbus/\<close>): both subscription indexes, upstream announcements, publishing, resubscription, closing. The critical
    sections refine one subscription relation; the parent's view of the announced topics is exact while its connection lasts.
  \<^item> \<open>File_Paths\<close> (\<open>file/path.go\<close>, \<open>config.go\<close>, \<open>mkdir.go\<close>): \<open>path/filepath\<close> on Unix written out, sanitising, configuration. Resolved paths stay below the base directory.
  \<^item> \<open>File_Session\<close>, \<open>File_Handler\<close>, \<open>File_Transfer\<close> (\<open>file/handler.go\<close>, \<open>sessions.go\<close>): files as inodes, receiving sessions with their buffer for early
    chunks, the sending loop, control requests, permissions, the janitor; then the properties: a pull from request to file, chunks in any order, what any frames leave behind,
    who may have requests executed, and weaknesses of the session handling.
  \<^item> \<open>Forward\<close> (\<open>forward/forward.go\<close>): routing table and forwarding of frames without handler.
  \<^item> \<open>Var_State\<close>, \<open>Var_Store\<close> (\<open>varstore/\<close>): the state with its critical sections (records, subscriptions, waiting requests, persistence as an interface), then
    every handler. Records, subscriptions and waiting tables refine their specifications; who may read, write, revoke and be told.
  \<^item> \<open>Flow_Json\<close>, \<open>Flow_Graph\<close>, \<open>Flow_Validate\<close>, \<open>Flow_Bindings\<close>, \<open>Flow_Run\<close> (\<open>flow/runtime_bindings.go\<close>, the graph part of \<open>flow/handler.go\<close>): JSON pointers, Kahn's
    order and the graph index, validation of every kind of node, what nodes read and build, the execution of a graph with retries, nested runs, calls and cancellation.
    \<open>Flow_Sound\<close> states what validation checks as \<open>graphOK\<close> and carries it through a run; \<open>Flow_Correct\<close> has the properties: runs end, the runs of a validated graph record
    no structural error and treat every node as the edges say, bindings arrive, pointers round trip.
  \<^item> \<open>Flow_Cron\<close>, \<open>Flow_Table\<close>, \<open>Flow_Handler\<close>, \<open>Flow_Service\<close> (the rest of \<open>flow/handler.go\<close>, \<open>run_archive.go\<close>, \<open>persistence.go\<close>, \<open>config.go\<close>): cron expressions; triggers,
    the table of runs with limits, pruning and archive; the nine requests with their routing and the schedulers; events, capability, start-up, the JSON store and how it writes files.
    \<open>Flow_Reach\<close> has the invariant of the service and, as the locale \<open>flow_operations\<close>, what routing needs of the operations at the executor; \<open>Flow_Lifecycle\<close> the
    locale \<open>flow_store\<close> of a store of definitions, interpreted by the JSON store, and the loading of the archive; \<open>Flow_Properties\<close> the reachable states and the
    properties: stored flows are valid, what is started runs to its end, a restart reproduces the flows, schedulers match flows, no frame panics, who may do what.
  \<^item> \<open>Spec2Isabelle\<close>: this header and the capabilities that the handlers of one process register together.

  \<^bold>\<open>How the model is made.\<close> A struct is a record, a constant group a datatype, a Go map an association list whose order stands for the
  unspecified order of \<open>range\<close>; an integer keeps its width as a word or has its wrap-around written out. A handler is a function from
  the decoded request and the state to the new state and the list of frames and events it emits; \<open>json.Unmarshal\<close> is an argument (decoded
  value and success flag), logging is left out. Time, random bytes and the answers of the operating system are arguments. A
  critical section (code between \<open>Lock\<close> and \<open>Unlock\<close>) is one step; where the order of sections matters, the theorems range over all sequences of
  them. The recursions that are not structural (\<open>stripFront\<close>, \<open>flushPending\<close>, \<open>readChunks\<close>, \<open>kahn\<close>, the walks over
  expressions and nested graphs) are total with a measure. Only \<open>executeGraph\<close> has a bound, on the depth of nested runs; \<open>flow_run_terminates\<close> shows that \<open>runDepth\<close>, the nesting of the
  graph and of the stored flows, is enough. Strings are byte strings,
  case folding is that of ASCII (what the sources fold are protocol words), and the names of operations (\<open>pull\<close>, \<open>public\<close>, ...) have the spelling that the
  schemas and tests of the repository use.

  \<^bold>\<open>Not modelled.\<close> \<open>exec/handler.go\<close>, the file store of archived runs of \<open>flow/\<close>, \<open>stream/handler.go\<close>, \<open>management/\<close> and \<open>auth/\<close> are left for later: they
  are independent of the theories above except for the codecs, the registry and the broker. \<open>exec/runtimedeps\<close> only passes pointers on; the \<open>actions.go\<close>
  files are tables, modelled by the dispatch functions. Logging, JSON texts and the goroutine scheduler have no model of their own.
\<close>

section \<open>The capabilities of one process\<close>

text \<open>
  The handlers of a process share a capability registry and register their methods there when they are
  created (\<open>varstore\<close>, \<open>file\<close>) or initialised (\<open>topicbus\<close>). The JSON texts of the schemas are arguments.
\<close>

record capSchemas =
  schVarSetIn :: string
  schVarGetIn :: string
  schVarRevokeIn :: string
  schVarRecordOut :: string
  schVarRevokeOut :: string
  schTopicPublishIn :: string
  schFileListIn :: string
  schFileReadTextIn :: string
  schFileMkdirIn :: string

datatype hostInvoke =
    InvokeVarSet | InvokeVarGet | InvokeVarRevoke | InvokeTopicPublish
  | InvokeFileList | InvokeFileReadText | InvokeFileMkdir

definition capDescriptor :: "string \<Rightarrow> string \<Rightarrow> string \<Rightarrow> string \<Rightarrow> Descriptor" where
  "capDescriptor provider meth inS outS =
     \<lparr>Provider = provider, Method = meth, Version = [], InputSchema = inS, OutputSchema = outS,
      DefaultTimeoutMs = 0, Permissions = [], Tags = [(''subproto'', provider)]\<rparr>"

definition varCapabilities :: "capSchemas \<Rightarrow> (Descriptor \<times> hostInvoke) list" where
  "varCapabilities s =
     [(capDescriptor ''varstore'' ''varstore::set'' (schVarSetIn s) (schVarRecordOut s), InvokeVarSet),
      (capDescriptor ''varstore'' ''varstore::get'' (schVarGetIn s) (schVarRecordOut s), InvokeVarGet),
      (capDescriptor ''varstore'' ''varstore::revoke'' (schVarRevokeIn s) (schVarRevokeOut s), InvokeVarRevoke)]"

definition topicCapabilities :: "capSchemas \<Rightarrow> (Descriptor \<times> hostInvoke) list" where
  "topicCapabilities s =
     [(capDescriptor ''topicbus'' ''topicbus::publish'' (schTopicPublishIn s) [], InvokeTopicPublish)]"

definition fileCapabilities :: "capSchemas \<Rightarrow> (Descriptor \<times> hostInvoke) list" where
  "fileCapabilities s =
     [((capDescriptor ''file'' ''file::list'' (schFileListIn s) [])\<lparr>Permissions := [permRead]\<rparr>, InvokeFileList),
      ((capDescriptor ''file'' ''file::read_text'' (schFileReadTextIn s) [])\<lparr>Permissions := [permRead]\<rparr>, InvokeFileReadText),
      ((capDescriptor ''file'' ''file::mkdir'' (schFileMkdirIn s) [])\<lparr>Permissions := [permWrite]\<rparr>, InvokeFileMkdir)]"

definition registerAll ::
  "hostInvoke registry option \<Rightarrow> (Descriptor \<times> hostInvoke) list \<Rightarrow> hostInvoke registry option" where
  "registerAll r caps = foldl (\<lambda>r (d, f). snd (registerCap d (Some f) r)) r caps"

lemma registerCap_again:
  assumes "normalizeDescriptor d = Inr d" and "descriptorEqual d d"
    and "map_of r (descriptorKey (Method d) (Version d)) \<in> {None, Some \<lparr>desc = d, invoke = Some f\<rparr>}"
  shows "\<exists>r'. registerCap d (Some f) (Some r) = (None, Some r') \<and>
    map_of r' = (map_of r)(descriptorKey (Method d) (Version d) \<mapsto> \<lparr>desc = d, invoke = Some f\<rparr>)"
  using assms by (auto simp: registerCap_def update_conv' Let_def fun_eq_iff)

text \<open>
  Registering capabilities from a stock with distinct keys, in any order and any number of times:
  every one is found afterwards with its own function.
\<close>

definition capKey :: "Descriptor \<times> hostInvoke \<Rightarrow> string" where
  "capKey c = descriptorKey (Method (fst c)) (Version (fst c))"

definition capEntryOf :: "Descriptor \<times> hostInvoke \<Rightarrow> hostInvoke capEntry" where
  "capEntryOf c = \<lparr>desc = fst c, invoke = Some (snd c)\<rparr>"

lemma stock_distinct:
  "distinct (map capKey stock) \<Longrightarrow> distinct (map fst (map (\<lambda>c. (capKey c, capEntryOf c)) (filter P stock)))"
  by (simp add: o_def distinct_map_filter)

lemma registerAll_stock:
  assumes "\<forall>c\<in>set stock. normalizeDescriptor (fst c) = Inr (fst c) \<and> descriptorEqual (fst c) (fst c)"
    and "distinct (map capKey stock)" and "set caps \<subseteq> set stock"
  shows "\<exists>r. registerAll (Some newRegistry) caps = Some r \<and>
    (\<forall>k. map_of r k = map_of (map (\<lambda>c. (capKey c, capEntryOf c)) (filter (\<lambda>c. c \<in> set caps) stock)) k)"
  using assms(3)
proof (induction caps rule: rev_induct)
  case Nil
  then show ?case by (simp add: registerAll_def newRegistry_def)
next
  case (snoc c caps)
  let ?m = "\<lambda>cs. map (\<lambda>c. (capKey c, capEntryOf c)) (filter (\<lambda>c. c \<in> set cs) stock)"
  have dist: "distinct (map fst (?m cs))" for cs
    by (rule stock_distinct[OF assms(2)])
  have mem: "map_of (?m cs) k = Some e \<longleftrightarrow> (\<exists>x\<in>set stock. x \<in> set cs \<and> k = capKey x \<and> e = capEntryOf x)" for cs k e
    unfolding map_of_eq_in_set[OF dist] by auto
  from snoc obtain r where r: "registerAll (Some newRegistry) caps = Some r" "\<forall>k. map_of r k = map_of (?m caps) k" by auto
  have inj: "x = c" if "x \<in> set stock" "capKey x = capKey c" for x
    using that assms(2) snoc.prems by (auto simp: distinct_map dest: inj_onD)
  have here: "map_of r (capKey c) \<in> {None, Some (capEntryOf c)}"
  proof (cases "map_of r (capKey c)")
    case (Some e)
    then have "map_of (?m caps) (capKey c) = Some e" using r(2) by simp
    then obtain x where x: "x \<in> set stock" "capKey c = capKey x" "e = capEntryOf x" unfolding mem by blast
    have "x = c" by (rule inj[OF x(1) x(2)[symmetric]])
    with x(3) Some show ?thesis by blast
  qed simp
  have c: "normalizeDescriptor (fst c) = Inr (fst c)" "descriptorEqual (fst c) (fst c)" using assms(1) snoc.prems by auto
  obtain r' where r': "registerCap (fst c) (Some (snd c)) (Some r) = (None, Some r')"
    "map_of r' = (map_of r)(capKey c \<mapsto> capEntryOf c)"
    using registerCap_again[OF c, of r "snd c"] here by (auto simp: capKey_def capEntryOf_def)
  have "registerAll (Some newRegistry) (caps @ [c]) = Some r'"
    using r(1) r'(1) by (cases c) (simp add: registerAll_def)
  moreover have "map_of r' k = map_of (?m (caps @ [c])) k" for k
  proof (cases "k = capKey c")
    case True
    have "map_of (?m (caps @ [c])) (capKey c) = Some (capEntryOf c)"
      unfolding mem using snoc.prems by (intro bexI[of _ c]) simp_all
    then show ?thesis by (simp only: True r'(2) fun_upd_same)
  next
    case False
    have "map_of (?m (caps @ [c])) k = Some e \<longleftrightarrow> map_of (?m caps) k = Some e" for e
      unfolding mem using False by (auto simp del: map_of_eq_Some_iff)
    then have "map_of (?m (caps @ [c])) k = map_of (?m caps) k" by (rule option_eqI)
    then show ?thesis using False r(2) by (simp only: r'(2) fun_upd_other not_False_eq_True)
  qed
  ultimately show ?case by blast
qed

lemma host_trims:
  "trimSpace ''varstore'' = ''varstore''" "trimSpace ''varstore::set'' = ''varstore::set''"
  "trimSpace ''varstore::get'' = ''varstore::get''" "trimSpace ''varstore::revoke'' = ''varstore::revoke''"
  "trimSpace ''topicbus'' = ''topicbus''" "trimSpace ''topicbus::publish'' = ''topicbus::publish''"
  "trimSpace ''subproto'' = ''subproto''" "trimSpace ''file'' = ''file''" "trimSpace ''file::list'' = ''file::list''"
  "trimSpace ''file::read_text'' = ''file::read_text''" "trimSpace ''file::mkdir'' = ''file::mkdir''"
  "trimSpace ''file.read'' = ''file.read''" "trimSpace ''file.write'' = ''file.write''"
  by code_simp+

lemma host_stock:
  fixes s :: capSchemas
  defines "stock \<equiv> varCapabilities s @ topicCapabilities s @ fileCapabilities s"
  shows "\<forall>c\<in>set stock. normalizeDescriptor (fst c) = Inr (fst c) \<and> descriptorEqual (fst c) (fst c)"
    and "distinct (map capKey stock)"
  by (auto simp: stock_def varCapabilities_def topicCapabilities_def fileCapabilities_def permRead_def permWrite_def
      capDescriptor_def normalizeDescriptor_def normTags_def
      normTag_def descriptorEqual_def capKey_def descriptorKey_def host_trims gget_def Let_def)



end
